(* ===== verification/Kernel_Base.thy ===== *)
theory Kernel_Base imports Main "HOL-Library.Word" "HOL-Library.Signed_Division" begin

text \<open>
  Prelude of the development: the basic types of the kernel model, the constants of
  \<^verbatim>\<open>include/linux/sched.h\<close>, the error values, and the generic lemmas the components share.
  A pointer to a task is a number (\<open>tptr\<close>), a null pointer is \<open>None\<close>. A C \<^verbatim>\<open>unsigned int\<close>
  or \<^verbatim>\<open>unsigned long\<close> that may wrap is a \<open>u32\<close> (the target is i386). A signed C integer is
  an \<open>int\<close>: signed overflow is undefined in C, and the invariants keep these values small.
\<close>

unbundle bit_operations_syntax

type_synonym u32 = "32 word"
type_synonym tptr = nat
type_synonym cpu = nat
type_synonym mmptr = nat

named_theorems field_frame \<open>what a state update leaves unchanged\<close>

section \<open>The four priority arrays of a runqueue\<close>

text \<open>
  A runqueue embeds \<^verbatim>\<open>arrays[2]\<close>, \<^verbatim>\<open>short_active\<close> and \<^verbatim>\<open>overdue\<close>. A
  \<^verbatim>\<open>prio_array_t *\<close> is the pair of the runqueue's CPU and one of these four, and a list
  head \<^verbatim>\<open>array->queue + i\<close> is that pair and the index \<open>i\<close>.
\<close>

datatype arr = Arr0 | Arr1 | Short_active | Overdue

type_synonym aid = "cpu \<times> arr"
type_synonym qid = "aid \<times> int"

text \<open>The second argument of \<^verbatim>\<open>list_add\<close>: a list head, or the entry of a task.\<close>

datatype node = Head qid | Entry tptr

instantiation arr :: enum
begin

definition "enum_arr = [Arr0, Arr1, Short_active, Overdue]"
definition "enum_all_arr P \<longleftrightarrow> P Arr0 \<and> P Arr1 \<and> P Short_active \<and> P Overdue"
definition "enum_ex_arr P \<longleftrightarrow> P Arr0 \<or> P Arr1 \<or> P Short_active \<or> P Overdue"

instance
proof
  show univ: "UNIV = set (enum_class.enum :: arr list)"
    by (auto simp: enum_arr_def intro: arr.exhaust)
  show "enum_class.enum_all P \<longleftrightarrow> Ball UNIV P" for P :: "arr \<Rightarrow> bool"
    unfolding enum_all_arr_def univ by (simp add: enum_arr_def)
  show "enum_class.enum_ex P \<longleftrightarrow> Bex UNIV P" for P :: "arr \<Rightarrow> bool"
    unfolding enum_ex_arr_def univ by (simp add: enum_arr_def)
qed (simp add: enum_arr_def)

end

section \<open>Constants\<close>

definition MAX_USER_RT_PRIO :: int where "MAX_USER_RT_PRIO = 100"
definition MAX_RT_PRIO :: int where "MAX_RT_PRIO = MAX_USER_RT_PRIO"
definition MAX_PRIO :: int where "MAX_PRIO = MAX_RT_PRIO + 40"

definition TASK_RUNNING :: int where "TASK_RUNNING = 0"
definition TASK_INTERRUPTIBLE :: int where "TASK_INTERRUPTIBLE = 1"
definition TASK_UNINTERRUPTIBLE :: int where "TASK_UNINTERRUPTIBLE = 2"
definition TASK_ZOMBIE :: int where "TASK_ZOMBIE = 4"
definition TASK_STOPPED :: int where "TASK_STOPPED = 8"

definition SCHED_OTHER :: int where "SCHED_OTHER = 0"
definition SCHED_FIFO :: int where "SCHED_FIFO = 1"
definition SCHED_RR :: int where "SCHED_RR = 2"
definition SCHED_SHORT :: int where "SCHED_SHORT = 5"

lemmas prio_consts = MAX_PRIO_def MAX_RT_PRIO_def MAX_USER_RT_PRIO_def
lemmas state_consts = TASK_RUNNING_def TASK_INTERRUPTIBLE_def TASK_UNINTERRUPTIBLE_def
  TASK_ZOMBIE_def TASK_STOPPED_def
lemmas policy_consts = SCHED_OTHER_def SCHED_FIFO_def SCHED_RR_def SCHED_SHORT_def

lemma MAX_PRIO_eq [simp]: "MAX_PRIO = 140"
  by (simp add: prio_consts)

lemma MAX_RT_PRIO_eq [simp]: "MAX_RT_PRIO = 100"
  by (simp add: prio_consts)

lemma MAX_USER_RT_PRIO_eq [simp]: "MAX_USER_RT_PRIO = 100"
  by (simp add: prio_consts)

text \<open>Error returns: \<open>Inl e\<close> is \<^verbatim>\<open>return -e\<close>, \<open>Inr v\<close> a return of the value \<open>v\<close>.\<close>

datatype errno = EPERM | ESRCH | EAGAIN | ENOMEM | EFAULT | EBUSY | EINVAL | ECHILD | ERESTARTSYS

type_synonym 'a kres = "errno + 'a"

text \<open>The capabilities the modelled code asks for.\<close>

datatype capability = CAP_SYS_NICE | CAP_SYS_ADMIN | CAP_SYS_RESOURCE | CAP_KILL

section \<open>Generic lemmas\<close>

text \<open>An array is a pair; quantifiers over arrays stay as they are written.\<close>

declare split_paired_All [simp del] split_paired_Ex [simp del]

lemma card_insert_int:
  "finite A \<Longrightarrow> x \<notin> A \<Longrightarrow> int (card (insert x A)) = int (card A) + 1"
  by simp

lemma card_remove_int:
  assumes "finite A" and "x \<in> A"
  shows "int (card (A - {x})) = int (card A) - 1"
proof -
  from assms have "Suc (card (A - {x})) = card A" by (rule card_Suc_Diff1)
  then show ?thesis by linarith
qed

lemma least_int_bounded:
  fixes n :: int
  assumes "P n" and "0 \<le> n"
  obtains m where "P m" and "0 \<le> m" and "m \<le> n" and "\<forall>k. 0 \<le> k \<and> k < m \<longrightarrow> \<not> P k"
proof -
  define l where "l = (LEAST i. P (int i))"
  have ex: "P (int (nat n))" using assms by simp
  have least: "P (int l)"
    unfolding l_def by (rule LeastI [where P = "\<lambda>i. P (int i)", OF ex])
  have le: "l \<le> nat n"
    unfolding l_def by (rule Least_le [where P = "\<lambda>i. P (int i)", OF ex])
  have below: "\<forall>k. 0 \<le> k \<and> k < int l \<longrightarrow> \<not> P k"
  proof (intro allI impI notI)
    fix k :: int
    assume k: "0 \<le> k \<and> k < int l" and "P k"
    then have "P (int (nat k))" by simp
    then have "l \<le> nat k" unfolding l_def by (rule Least_le [where P = "\<lambda>i. P (int i)"])
    with k show False by linarith
  qed
  have "int l \<le> n" using le assms(2) by linarith
  with least below show thesis by (intro that [of "int l"]) simp_all
qed

end
