(* ===== verification/Kernel_Lib.thy ===== *)
theory Kernel_Lib imports Kernel_Base begin

text \<open>
  The kernel headers the scheduler calls but the repository does not hold:
  \<^verbatim>\<open>linux/list.h\<close>, \<^verbatim>\<open>asm/bitops.h\<close>, \<^verbatim>\<open>asm/param.h\<close>, \<^verbatim>\<open>linux/capability.h\<close> and
  \<^verbatim>\<open>linux/autoconf.h\<close>. They are parameters of the model: a record of functions that every
  definition that needs one takes as its argument \<open>K\<close>. The state of all the run lists is one
  value of an unknown type \<open>'l\<close>, a bitmap one value of an unknown type \<open>'b\<close>.
  The locales below state the documented behaviour of these functions; the theorems of the
  development rest on them as the hypothesis \<open>kernel_lib K\<close>. The last section gives one
  implementation, on which the witnesses evaluate.
\<close>

section \<open>The functions\<close>

record ('l, 'b) klib =
  k_HZ :: int
  k_config_smp :: bool
  k_queue :: "'l \<Rightarrow> qid \<Rightarrow> tptr list"
  k_list_empty :: "'l \<Rightarrow> qid \<Rightarrow> bool"
  k_INIT_LIST_HEAD :: "qid \<Rightarrow> 'l \<Rightarrow> 'l"
  k_list_add :: "tptr \<Rightarrow> node \<Rightarrow> 'l \<Rightarrow> 'l"
  k_list_add_tail :: "tptr \<Rightarrow> qid \<Rightarrow> 'l \<Rightarrow> 'l"
  k_list_del :: "tptr \<Rightarrow> 'l \<Rightarrow> 'l"
  k_test_bit :: "'b \<Rightarrow> int \<Rightarrow> bool"
  k_set_bit :: "int \<Rightarrow> 'b \<Rightarrow> 'b"
  k_clear_bit :: "int \<Rightarrow> 'b \<Rightarrow> 'b"
  k_find_first_bit :: "'b \<Rightarrow> int"
  k_find_next_bit :: "'b \<Rightarrow> int \<Rightarrow> int \<Rightarrow> int"
  k_cap_raised :: "u32 \<Rightarrow> capability \<Rightarrow> bool"
  k_CAP_INIT_EFF_SET :: u32
  k_smp_num_cpus :: nat
  k_cpu_logical_map :: "nat \<Rightarrow> cpu"
  k_cache_decay_ticks :: u32
  k_cpu_online_map :: u32
  k_ffs :: "u32 \<Rightarrow> nat"

text \<open>
  The next pointer of a list head, as the argument of \<^verbatim>\<open>list_add\<close>: the first entry, or the
  head itself when the list is empty (the lists are circular).
\<close>

definition list_next :: "('l, 'b) klib \<Rightarrow> 'l \<Rightarrow> qid \<Rightarrow> node" where
  "list_next K l q = (case k_queue K l q of [] \<Rightarrow> Head q | p # _ \<Rightarrow> Entry p)"

section \<open>What the code relies on\<close>

text \<open>
  Intrusive lists. \<open>queue l q\<close> is the sequence of entries met from the head \<open>q\<close>. An entry
  may be added only when it is on no list, and deleted only from the one list it is on.
\<close>

locale kernel_list =
  fixes queue :: "'l \<Rightarrow> qid \<Rightarrow> tptr list"
    and list_empty :: "'l \<Rightarrow> qid \<Rightarrow> bool"
    and init_head :: "qid \<Rightarrow> 'l \<Rightarrow> 'l"
    and list_add :: "tptr \<Rightarrow> node \<Rightarrow> 'l \<Rightarrow> 'l"
    and list_add_tail :: "tptr \<Rightarrow> qid \<Rightarrow> 'l \<Rightarrow> 'l"
    and list_del :: "tptr \<Rightarrow> 'l \<Rightarrow> 'l"
  assumes list_empty: "list_empty l q \<longleftrightarrow> queue l q = []"
    and init_head: "queue (init_head q l) = (queue l)(q := [])"
    and list_add_head: "(\<And>r. p \<notin> set (queue l r)) \<Longrightarrow>
      queue (list_add p (Head q) l) = (queue l)(q := p # queue l q)"
    and list_add_entry: "(\<And>r. p \<notin> set (queue l r)) \<Longrightarrow> queue l q = xs @ x # ys \<Longrightarrow>
      distinct (queue l q) \<Longrightarrow> (\<And>r. r \<noteq> q \<Longrightarrow> x \<notin> set (queue l r)) \<Longrightarrow>
      queue (list_add p (Entry x) l) = (queue l)(q := xs @ x # p # ys)"
    and list_add_tail: "(\<And>r. p \<notin> set (queue l r)) \<Longrightarrow>
      queue (list_add_tail p q l) = (queue l)(q := queue l q @ [p])"
    and list_del: "p \<in> set (queue l q) \<Longrightarrow> distinct (queue l q) \<Longrightarrow>
      (\<And>r. r \<noteq> q \<Longrightarrow> p \<notin> set (queue l r)) \<Longrightarrow>
      queue (list_del p l) = (queue l)(q := remove1 p (queue l q))"

text \<open>Bit arrays: the two searches return the least set bit (from an offset).\<close>

locale kernel_bitmap =
  fixes test_bit :: "'b \<Rightarrow> int \<Rightarrow> bool"
    and set_bit :: "int \<Rightarrow> 'b \<Rightarrow> 'b"
    and clear_bit :: "int \<Rightarrow> 'b \<Rightarrow> 'b"
    and find_first_bit :: "'b \<Rightarrow> int"
    and find_next_bit :: "'b \<Rightarrow> int \<Rightarrow> int \<Rightarrow> int"
  assumes set_bit: "test_bit (set_bit n b) = (test_bit b)(n := True)"
    and clear_bit: "test_bit (clear_bit n b) = (test_bit b)(n := False)"
    and find_first_bit: "test_bit b n \<Longrightarrow> 0 \<le> n \<Longrightarrow> n \<le> MAX_PRIO \<Longrightarrow>
      (\<And>m. 0 \<le> m \<Longrightarrow> m < n \<Longrightarrow> \<not> test_bit b m) \<Longrightarrow> find_first_bit b = n"
    and find_next_bit: "test_bit b n \<Longrightarrow> off \<le> n \<Longrightarrow> n \<le> sz \<Longrightarrow> 0 \<le> off \<Longrightarrow>
      (\<And>m. off \<le> m \<Longrightarrow> m < n \<Longrightarrow> \<not> test_bit b m) \<Longrightarrow> find_next_bit b sz off = n"

text \<open>
  The timer frequency is one of the values the 2.4 kernels use, 100 to 1024. \<^verbatim>\<open>__ffs\<close> gives the
  least set bit of a word that is not 0.
\<close>

locale kernel_lib =
  kernel_list "k_queue K" "k_list_empty K" "k_INIT_LIST_HEAD K" "k_list_add K"
    "k_list_add_tail K" "k_list_del K" +
  kernel_bitmap "k_test_bit K" "k_set_bit K" "k_clear_bit K" "k_find_first_bit K"
    "k_find_next_bit K"
  for K :: "('l, 'b) klib" +
  assumes HZ_lower: "100 \<le> k_HZ K" and HZ_upper: "k_HZ K \<le> 1024"
    and ffs: "w \<noteq> 0 \<Longrightarrow> bit w (k_ffs K w)" and ffs_least: "i < k_ffs K w \<Longrightarrow> w \<noteq> 0 \<Longrightarrow> \<not> bit w i"
begin

lemma find_first_bit_least:
  assumes "k_test_bit K b n" and "0 \<le> n" and "n \<le> MAX_PRIO"
  shows "k_test_bit K b (k_find_first_bit K b)" and "0 \<le> k_find_first_bit K b"
    and "k_find_first_bit K b \<le> n"
    and "0 \<le> m \<Longrightarrow> m < k_find_first_bit K b \<Longrightarrow> \<not> k_test_bit K b m"
proof -
  from assms(1,2) obtain i where i: "k_test_bit K b i" "0 \<le> i" "i \<le> n"
    "\<forall>k. 0 \<le> k \<and> k < i \<longrightarrow> \<not> k_test_bit K b k"
    by (rule least_int_bounded)
  with assms(3) have "k_find_first_bit K b = i"
    by (intro find_first_bit) auto
  with i show "k_test_bit K b (k_find_first_bit K b)" "0 \<le> k_find_first_bit K b"
    "k_find_first_bit K b \<le> n" "0 \<le> m \<Longrightarrow> m < k_find_first_bit K b \<Longrightarrow> \<not> k_test_bit K b m"
    by auto
qed

lemma find_next_bit_least:
  assumes "k_test_bit K b n" and "off \<le> n" and "n \<le> sz" and "0 \<le> off"
  shows "k_test_bit K b (k_find_next_bit K b sz off)" and "off \<le> k_find_next_bit K b sz off"
    and "k_find_next_bit K b sz off \<le> n"
    and "off \<le> m \<Longrightarrow> m < k_find_next_bit K b sz off \<Longrightarrow> \<not> k_test_bit K b m"
proof -
  have "k_test_bit K b n \<and> off \<le> n" and "0 \<le> n" using assms by auto
  then obtain i where i: "k_test_bit K b i \<and> off \<le> i" "0 \<le> i" "i \<le> n"
    "\<forall>k. 0 \<le> k \<and> k < i \<longrightarrow> \<not> (k_test_bit K b k \<and> off \<le> k)"
    by (rule least_int_bounded [where P = "\<lambda>i. k_test_bit K b i \<and> off \<le> i"])
  have below: "\<not> k_test_bit K b m" if "off \<le> m" "m < i" for m
    using i(4) assms(4) that by (meson order_trans)
  with i assms have "k_find_next_bit K b sz off = i"
    by (intro find_next_bit) auto
  with i below show "k_test_bit K b (k_find_next_bit K b sz off)"
    "off \<le> k_find_next_bit K b sz off" "k_find_next_bit K b sz off \<le> n"
    "off \<le> m \<Longrightarrow> m < k_find_next_bit K b sz off \<Longrightarrow> \<not> k_test_bit K b m"
    by auto
qed

end

section \<open>An implementation\<close>

text \<open>
  Lists of task pointers per list head, a bitmap as the list of its set bits, and \<open>HZ = 512\<close>,
  the value of the kernels this repository was built for.
\<close>

fun insert_after :: "tptr \<Rightarrow> tptr \<Rightarrow> tptr list \<Rightarrow> tptr list" where
  "insert_after x p [] = []"
| "insert_after x p (y # ys) = (if y = x then y # p # ys else y # insert_after x p ys)"

fun ref_list_add :: "tptr \<Rightarrow> node \<Rightarrow> (qid \<Rightarrow> tptr list) \<Rightarrow> qid \<Rightarrow> tptr list" where
  "ref_list_add p (Head q) l = l(q := p # l q)"
| "ref_list_add p (Entry x) l = (\<lambda>q. insert_after x p (l q))"

definition ref_next_bit :: "int list \<Rightarrow> int \<Rightarrow> int \<Rightarrow> int" where
  "ref_next_bit b sz off = foldr (\<lambda>x m. if off \<le> x then min x m else m) b sz"

definition ref_ffs :: "u32 \<Rightarrow> nat" where
  "ref_ffs w = length (takeWhile (\<lambda>i. \<not> bit w i) [0..<32])"

definition ref_lib :: "int \<Rightarrow> bool \<Rightarrow> (qid \<Rightarrow> tptr list, int list) klib" where
  "ref_lib hz smp = \<lparr>k_HZ = hz, k_config_smp = smp,
     k_queue = (\<lambda>l q. l q),
     k_list_empty = (\<lambda>l q. l q = []),
     k_INIT_LIST_HEAD = (\<lambda>q l. l(q := [])),
     k_list_add = ref_list_add,
     k_list_add_tail = (\<lambda>p q l. l(q := l q @ [p])),
     k_list_del = (\<lambda>p l q. remove1 p (l q)),
     k_test_bit = (\<lambda>b n. n \<in> set b),
     k_set_bit = (\<lambda>n b. List.insert n b),
     k_clear_bit = (\<lambda>n b. removeAll n b),
     k_find_first_bit = (\<lambda>b. ref_next_bit b MAX_PRIO 0),
     k_find_next_bit = ref_next_bit,
     k_cap_raised = (\<lambda>w c. w \<noteq> 0),
     k_CAP_INIT_EFF_SET = 1, k_smp_num_cpus = (if smp then 2 else 1), k_cpu_logical_map = id,
     k_cache_decay_ticks = 10, k_cpu_online_map = (if smp then 3 else 1),
     k_ffs = ref_ffs\<rparr>"

lemma insert_after_notin [simp]: "x \<notin> set ys \<Longrightarrow> insert_after x p ys = ys"
  by (induction ys) auto

lemma insert_after_split: "x \<notin> set xs \<Longrightarrow> insert_after x p (xs @ x # ys) = xs @ x # p # ys"
  by (induction xs) auto

lemma ref_next_bit_eq:
  assumes "n \<in> set b" and "off \<le> n" and "n \<le> sz" and "\<And>m. off \<le> m \<Longrightarrow> m < n \<Longrightarrow> m \<notin> set b"
  shows "ref_next_bit b sz off = n"
proof -
  have le: "foldr (\<lambda>x m. if off \<le> x then min x m else m) b sz \<le> n"
    using assms(1-3) by (induction b) auto
  have ge: "n \<le> foldr (\<lambda>x m. if off \<le> x then min x m else m) c sz"
    if "set c \<subseteq> set b" for c
    using that
  proof (induction c)
    case (Cons x c)
    then show ?case using assms(4) [of x] by (cases "x < n") (auto simp: min_def)
  qed (use assms(3) in simp)
  show ?thesis using le ge [of b] by (simp add: ref_next_bit_def)
qed

lemma ref_ffs_least:
  assumes "w \<noteq> 0"
  shows "bit w (ref_ffs w)" and "i < ref_ffs w \<Longrightarrow> \<not> bit w i"
proof -
  let ?P = "\<lambda>i. \<not> bit w i" and ?n = "ref_ffs w"
  have "\<exists>j. bit w j"
    using assms bit_word_eqI [of w 0] by auto
  then obtain j where j: "bit w j" by blast
  then have j32: "j < 32" using bit_imp_le_length [of w j] by simp
  have "length (takeWhile ?P [0..<32]) < length [0..<32]"
  proof (rule ccontr)
    assume "\<not> ?thesis"
    then have "takeWhile ?P [0..<32] = [0..<32]"
      by (metis length_takeWhile_le le_antisym linorder_not_less takeWhile_eq_take take_all_iff)
    then show False using j j32 by (auto simp: takeWhile_eq_all_conv)
  qed
  then show "bit w ?n"
    using nth_length_takeWhile [of ?P "[0..<32]"] by (simp add: ref_ffs_def)
  show "\<not> bit w i" if "i < ?n"
  proof -
    have "[0..<32] ! i \<in> set (takeWhile ?P [0..<32])"
      using that takeWhile_nth [of i ?P "[0..<32]"] nth_mem [of i "takeWhile ?P [0..<32]"]
      by (simp add: ref_ffs_def)
    then have "\<not> bit w ([0..<32] ! i)" by (rule set_takeWhileD [THEN conjunct2])
    moreover have "i < 32" using that length_takeWhile_le [of ?P "[0..<32]"] by (simp add: ref_ffs_def)
    ultimately show ?thesis by simp
  qed
qed
lemma ref_kernel_lib:
  assumes "100 \<le> hz" and "hz \<le> 1024"
  shows "kernel_lib (ref_lib hz smp)"
proof unfold_locales
  fix p l q xs x ys
  assume q: "k_queue (ref_lib hz smp) l q = xs @ x # ys" and d: "distinct (k_queue (ref_lib hz smp) l q)"
    and others: "\<And>r. r \<noteq> q \<Longrightarrow> x \<notin> set (k_queue (ref_lib hz smp) l r)"
  have "x \<notin> set xs" using q d by (auto simp: ref_lib_def)
  with q others show "k_queue (ref_lib hz smp) (k_list_add (ref_lib hz smp) p (Entry x) l) =
    (k_queue (ref_lib hz smp) l)(q := xs @ x # p # ys)"
    by (auto simp: ref_lib_def fun_eq_iff insert_after_split)
qed (use assms in \<open>auto simp: ref_lib_def fun_eq_iff remove1_idem ref_ffs_least intro: ref_next_bit_eq\<close>)

interpretation ref512: kernel_lib "ref_lib 512 False"
  by (rule ref_kernel_lib) simp_all

interpretation ref512smp: kernel_lib "ref_lib 512 True"
  by (rule ref_kernel_lib) simp_all

text \<open>Evaluation of the implementation, for the witnesses.\<close>

lemmas ref_lib_simps = ref_lib_def ref_next_bit_def list_next_def

end
