(* ===== verification/Sched_State.thy ===== *)
theory Sched_State imports Kernel_Lib begin

text \<open>
  The state of the scheduler: the fields of \<^verbatim>\<open>struct task_struct\<close> that the modelled code
  reads or writes, \<^verbatim>\<open>struct prio_array\<close>, \<^verbatim>\<open>struct runqueue\<close>, and the record of all of them.
  Field names carry a prefix (\<open>t_\<close> for a task, \<open>rq_\<close> for a runqueue) because a record
  field is a constant in Isabelle. The list heads \<^verbatim>\<open>queue[MAX_PRIO]\<close> and the \<^verbatim>\<open>run_list\<close> entries are
  together the value \<open>lists\<close> of the library's list type; the arrays a runqueue embeds are
  kept in \<open>arrays\<close>, indexed by the runqueue's CPU and the array's name. The macro
  \<^verbatim>\<open>current\<close> is \<^verbatim>\<open>this_rq()->curr\<close>, which differs from it only between two adjacent lines of
  \<^verbatim>\<open>schedule\<close>. The field \<open>bug\<close> records that \<^verbatim>\<open>BUG()\<close> was reached. The hash chains of \<^verbatim>\<open>pidhash\<close> are lists, the most recently added task first.
\<close>

record task =
  t_state :: int
  t_flags :: u32
  t_sigpending :: int
  t_need_resched :: bool
  t_cpu :: cpu
  t_prio :: int
  t_static_prio :: int
  t_array :: "aid option"
  t_sleep_avg :: u32
  t_sleep_timestamp :: u32
  t_policy :: int
  t_cpus_allowed :: u32
  t_cpus_allowed_mask :: u32
  t_time_slice :: u32
  t_first_time_slice :: u32
  t_mm :: "mmptr option"
  t_active_mm :: "mmptr option"
  t_pid :: int
  t_pgrp :: int
  t_session :: int
  t_tgid :: int
  t_rt_priority :: int
  t_uid :: u32
  t_euid :: u32
  t_cap_effective :: u32
  t_is_short :: int
  t_requested_time :: int

record 'b prio_array =
  nr_active :: int
  bitmap :: 'b

record runqueue =
  rq_nr_running :: int
  rq_nr_switches :: u32
  rq_expired_timestamp :: u32
  rq_nr_uninterruptible :: int
  rq_curr :: tptr
  rq_idle :: tptr
  rq_active :: arr
  rq_expired :: arr
  rq_prev_nr_running :: "cpu \<Rightarrow> int"
  rq_migration_thread :: "tptr option"
  rq_migration_queue :: "tptr list"

record mm =
  mm_users :: int
  mm_count :: int
  mm_freed :: bool

record ('l, 'b) sched =
  tasks :: "tptr \<Rightarrow> task"
  rqs :: "cpu \<Rightarrow> runqueue"
  arrays :: "aid \<Rightarrow> 'b prio_array"
  lists :: 'l
  mms :: "mmptr \<Rightarrow> mm"
  pidhash :: "int \<Rightarrow> tptr list"
  jiffies :: u32
  kstat_user :: "cpu \<Rightarrow> int"
  kstat_nice :: "cpu \<Rightarrow> int"
  kstat_system :: "cpu \<Rightarrow> int"
  bug :: bool

section \<open>Updates\<close>

definition upd_task :: "tptr \<Rightarrow> (task \<Rightarrow> task) \<Rightarrow> ('l, 'b) sched \<Rightarrow> ('l, 'b) sched" where
  "upd_task p f s = s\<lparr>tasks := (tasks s)(p := f (tasks s p))\<rparr>"

definition upd_rq :: "cpu \<Rightarrow> (runqueue \<Rightarrow> runqueue) \<Rightarrow> ('l, 'b) sched \<Rightarrow> ('l, 'b) sched" where
  "upd_rq c f s = s\<lparr>rqs := (rqs s)(c := f (rqs s c))\<rparr>"

definition upd_array :: "aid \<Rightarrow> ('b prio_array \<Rightarrow> 'b prio_array) \<Rightarrow> ('l, 'b) sched \<Rightarrow> ('l, 'b) sched" where
  "upd_array a f s = s\<lparr>arrays := (arrays s)(a := f (arrays s a))\<rparr>"

definition upd_lists :: "('l \<Rightarrow> 'l) \<Rightarrow> ('l, 'b) sched \<Rightarrow> ('l, 'b) sched" where
  "upd_lists f s = s\<lparr>lists := f (lists s)\<rparr>"

definition upd_mm :: "mmptr \<Rightarrow> (mm \<Rightarrow> mm) \<Rightarrow> ('l, 'b) sched \<Rightarrow> ('l, 'b) sched" where
  "upd_mm m f s = s\<lparr>mms := (mms s)(m := f (mms s m))\<rparr>"

text \<open>The macros \<^verbatim>\<open>current\<close>, \<^verbatim>\<open>cpu_curr\<close> and \<^verbatim>\<open>rt_task\<close>; \<^verbatim>\<open>rq->active\<close> as a pointer.\<close>

definition current :: "cpu \<Rightarrow> ('l, 'b) sched \<Rightarrow> tptr" where
  "current c s = rq_curr (rqs s c)"

definition rt_task :: "task \<Rightarrow> bool" where
  "rt_task t \<longleftrightarrow> t_prio t < MAX_RT_PRIO"

definition active_array :: "cpu \<Rightarrow> ('l, 'b) sched \<Rightarrow> aid" where
  "active_array c s = (c, rq_active (rqs s c))"

definition expired_array :: "cpu \<Rightarrow> ('l, 'b) sched \<Rightarrow> aid" where
  "expired_array c s = (c, rq_expired (rqs s c))"

text \<open>The contents of a queue.\<close>

definition queue :: "('l, 'b) klib \<Rightarrow> ('l, 'b) sched \<Rightarrow> qid \<Rightarrow> tptr list" where
  "queue K s = k_queue K (lists s)"

section \<open>Frame rules\<close>

lemma upd_task_simps [simp, field_frame]:
  "tasks (upd_task p f s) = (tasks s)(p := f (tasks s p))"
  "rqs (upd_task p f s) = rqs s" "arrays (upd_task p f s) = arrays s"
  "lists (upd_task p f s) = lists s" "mms (upd_task p f s) = mms s"
  "pidhash (upd_task p f s) = pidhash s" "jiffies (upd_task p f s) = jiffies s"
  by (simp_all add: upd_task_def)

lemma upd_rq_simps [simp, field_frame]:
  "rqs (upd_rq c g s) = (rqs s)(c := g (rqs s c))"
  "tasks (upd_rq c g s) = tasks s" "arrays (upd_rq c g s) = arrays s"
  "lists (upd_rq c g s) = lists s" "mms (upd_rq c g s) = mms s"
  "pidhash (upd_rq c g s) = pidhash s" "jiffies (upd_rq c g s) = jiffies s"
  by (simp_all add: upd_rq_def)

lemma upd_array_simps [simp, field_frame]:
  "arrays (upd_array a h s) = (arrays s)(a := h (arrays s a))"
  "tasks (upd_array a h s) = tasks s" "rqs (upd_array a h s) = rqs s"
  "lists (upd_array a h s) = lists s" "mms (upd_array a h s) = mms s"
  "pidhash (upd_array a h s) = pidhash s" "jiffies (upd_array a h s) = jiffies s"
  by (simp_all add: upd_array_def)

lemma upd_lists_simps [simp, field_frame]:
  "lists (upd_lists i s) = i (lists s)"
  "tasks (upd_lists i s) = tasks s" "rqs (upd_lists i s) = rqs s"
  "arrays (upd_lists i s) = arrays s" "mms (upd_lists i s) = mms s"
  "pidhash (upd_lists i s) = pidhash s" "jiffies (upd_lists i s) = jiffies s"
  by (simp_all add: upd_lists_def)

lemma upd_mm_simps [simp, field_frame]:
  "mms (upd_mm m j s) = (mms s)(m := j (mms s m))"
  "tasks (upd_mm m j s) = tasks s" "rqs (upd_mm m j s) = rqs s"
  "arrays (upd_mm m j s) = arrays s" "lists (upd_mm m j s) = lists s"
  "pidhash (upd_mm m j s) = pidhash s" "jiffies (upd_mm m j s) = jiffies s"
  by (simp_all add: upd_mm_def)

lemma queue_cong [simp]:
  "queue K (upd_task p f s) = queue K s" "queue K (upd_rq c g s) = queue K s"
  "queue K (upd_array a h s) = queue K s" "queue K (upd_mm m j s) = queue K s"
  by (simp_all add: queue_def)

lemma current_cong [simp]:
  "current c (upd_task p f s) = current c s" "current c (upd_array a h s) = current c s"
  "current c (upd_lists i s) = current c s" "current c (upd_mm m j s) = current c s"
  by (simp_all add: current_def)

lemma t_array_same: "t_array t = x \<Longrightarrow> t\<lparr>t_array := x\<rparr> = t"
  by (cases t) simp

lemma upd_task_twice [simp]: "upd_task p f (upd_task p g s) = upd_task p (\<lambda>t. f (g t)) s"
  by (simp add: upd_task_def)

section \<open>The initial task\<close>

text \<open>A task as \<^verbatim>\<open>INIT_TASK\<close> makes it; the address space 0 is \<^verbatim>\<open>init_mm\<close>.\<close>

definition INIT_TASK :: "('l, 'b) klib \<Rightarrow> task" where
  "INIT_TASK K = \<lparr>t_state = 0, t_flags = 0, t_sigpending = 0, t_need_resched = False,
     t_cpu = 0, t_prio = MAX_PRIO - 20, t_static_prio = MAX_PRIO - 20, t_array = None,
     t_sleep_avg = 0, t_sleep_timestamp = 0, t_policy = SCHED_OTHER,
     t_cpus_allowed = -1, t_cpus_allowed_mask = -1,
     t_time_slice = word_of_int (k_HZ K), t_first_time_slice = 0,
     t_mm = None, t_active_mm = Some 0, t_pid = 0, t_pgrp = 0, t_session = 0, t_tgid = 0,
     t_rt_priority = 0, t_uid = 0, t_euid = 0, t_cap_effective = k_CAP_INIT_EFF_SET K,
     t_is_short = 0, t_requested_time = 0\<rparr>"

end
