(* ===== verification/Sched_Prio.thy ===== *)
theory Sched_Prio imports Sched_State begin

text \<open>
  The arithmetic at the head of \<^verbatim>\<open>kernel/sched.c\<close>: nice values, static and dynamic
  priorities, time slices, the interactivity test and the starvation test. C divides
  towards zero (\<open>sdiv\<close>); an expression with an \<^verbatim>\<open>unsigned long\<close> operand is computed on \<open>u32\<close>.
\<close>

section \<open>Definitions\<close>

definition NICE_TO_PRIO :: "int \<Rightarrow> int" where
  "NICE_TO_PRIO nice = MAX_RT_PRIO + nice + 20"

definition PRIO_TO_NICE :: "int \<Rightarrow> int" where
  "PRIO_TO_NICE prio = prio - MAX_RT_PRIO - 20"

definition TASK_NICE :: "task \<Rightarrow> int" where
  "TASK_NICE p = PRIO_TO_NICE (t_static_prio p)"

definition USER_PRIO :: "int \<Rightarrow> int" where
  "USER_PRIO p = p - MAX_RT_PRIO"

definition TASK_USER_PRIO :: "task \<Rightarrow> int" where
  "TASK_USER_PRIO p = USER_PRIO (t_static_prio p)"

definition MAX_USER_PRIO :: int where "MAX_USER_PRIO = USER_PRIO MAX_PRIO"

definition MIN_TIMESLICE :: "('l, 'b) klib \<Rightarrow> int" where
  "MIN_TIMESLICE K = (10 * k_HZ K) sdiv 1000"

definition MAX_TIMESLICE :: "('l, 'b) klib \<Rightarrow> int" where
  "MAX_TIMESLICE K = (300 * k_HZ K) sdiv 1000"

definition CHILD_PENALTY :: int where "CHILD_PENALTY = 95"
definition PARENT_PENALTY :: int where "PARENT_PENALTY = 100"
definition EXIT_WEIGHT :: int where "EXIT_WEIGHT = 3"
definition PRIO_BONUS_RATIO :: int where "PRIO_BONUS_RATIO = 25"
definition INTERACTIVE_DELTA :: int where "INTERACTIVE_DELTA = 2"

definition MAX_SLEEP_AVG :: "('l, 'b) klib \<Rightarrow> int" where "MAX_SLEEP_AVG K = 2 * k_HZ K"
definition STARVATION_LIMIT :: "('l, 'b) klib \<Rightarrow> int" where "STARVATION_LIMIT K = 2 * k_HZ K"

definition SCALE :: "int \<Rightarrow> int \<Rightarrow> int \<Rightarrow> int" where
  "SCALE v1 v1_max v2_max = (v1 * v2_max) sdiv v1_max"

definition DELTA :: "task \<Rightarrow> int" where
  "DELTA p = SCALE (TASK_NICE p) 40 ((MAX_USER_PRIO * PRIO_BONUS_RATIO) sdiv 100) + INTERACTIVE_DELTA"

definition TASK_INTERACTIVE :: "task \<Rightarrow> bool" where
  "TASK_INTERACTIVE p \<longleftrightarrow> t_prio p \<le> t_static_prio p - DELTA p"

definition TASK_TIMESLICE :: "('l, 'b) klib \<Rightarrow> task \<Rightarrow> int" where
  "TASK_TIMESLICE K p = MIN_TIMESLICE K +
     ((MAX_TIMESLICE K - MIN_TIMESLICE K) * (MAX_PRIO - 1 - t_static_prio p)) sdiv 39"

definition effective_prio :: "('l, 'b) klib \<Rightarrow> task \<Rightarrow> int" where
  "effective_prio K p =
     (let bonus = sint ((word_of_int (MAX_USER_PRIO * PRIO_BONUS_RATIO) * t_sleep_avg p)
                          div word_of_int (MAX_SLEEP_AVG K) div 100
                        - word_of_int ((MAX_USER_PRIO * PRIO_BONUS_RATIO) sdiv 100 sdiv 2) :: u32);
          prio = t_static_prio p - bonus;
          prio = (if prio < MAX_RT_PRIO then MAX_RT_PRIO else prio);
          prio = (if prio > MAX_PRIO - 1 then MAX_PRIO - 1 else prio)
      in prio)"

definition EXPIRED_STARVING :: "('l, 'b) klib \<Rightarrow> u32 \<Rightarrow> runqueue \<Rightarrow> bool" where
  "EXPIRED_STARVING K now rq \<longleftrightarrow>
     rq_expired_timestamp rq \<noteq> 0 \<and>
     now - rq_expired_timestamp rq \<ge>
       word_of_int (STARVATION_LIMIT K) * word_of_int (rq_nr_running rq) + 1"

lemmas nice_defs = NICE_TO_PRIO_def PRIO_TO_NICE_def TASK_NICE_def USER_PRIO_def
  TASK_USER_PRIO_def MAX_USER_PRIO_def
lemmas slice_defs = MIN_TIMESLICE_def MAX_TIMESLICE_def TASK_TIMESLICE_def
lemmas knob_defs = CHILD_PENALTY_def PARENT_PENALTY_def EXIT_WEIGHT_def PRIO_BONUS_RATIO_def
  INTERACTIVE_DELTA_def MAX_SLEEP_AVG_def STARVATION_LIMIT_def

section \<open>Arithmetic on words and truncating division\<close>

lemma sdiv_nonneg: "0 \<le> a \<Longrightarrow> 0 < b \<Longrightarrow> (a::int) sdiv b = a div b"
  by (cases "a = 0") (simp_all add: signed_divide_int_def)

lemma sdiv_sgn: "0 < (b::int) \<Longrightarrow> a sdiv b = (if 0 \<le> a then a div b else - ((- a) div b))"
  by (auto simp: signed_divide_int_def sgn_if)

lemma uint_word_of_int_small: "0 \<le> x \<Longrightarrow> x < 2 ^ 32 \<Longrightarrow> uint (word_of_int x :: u32) = x"
  by (simp add: uint_word_of_int take_bit_int_eq_self)

lemma sint_word_of_int_small:
  "- (2 ^ 31) \<le> x \<Longrightarrow> x < 2 ^ 31 \<Longrightarrow> sint (word_of_int x :: u32) = x"
  by (simp add: sint_sbintrunc' signed_take_bit_int_eq_self)

lemma uint_mult_small:
  "uint (a::u32) * uint b < 2 ^ 32 \<Longrightarrow> uint (a * b) = uint a * uint b"
  unfolding uint_word_ariths by (rule mod_pos_pos_trivial) simp_all

lemma uint_plus_small: "uint (a::u32) + uint b < 2 ^ 32 \<Longrightarrow> uint (a + b) = uint a + uint b"
  unfolding uint_word_ariths by (rule mod_pos_pos_trivial) simp_all

section \<open>Facts used throughout\<close>

lemma TASK_INTERACTIVE_iff:
  "TASK_INTERACTIVE p \<longleftrightarrow>
     t_prio p - t_static_prio p \<le> (if TASK_NICE p < 0 then (- TASK_NICE p) div 4 else - (TASK_NICE p div 4)) - 2"
proof -
  have "(TASK_NICE p * 10) sdiv 40 = (if TASK_NICE p < 0 then - ((- TASK_NICE p) div 4) else TASK_NICE p div 4)"
    using div_mult_mult2 [of 10 "TASK_NICE p" 4] div_mult_mult2 [of 10 "- TASK_NICE p" 4]
    by (simp add: sdiv_sgn)
  then show ?thesis
    by (auto simp: TASK_INTERACTIVE_def DELTA_def SCALE_def knob_defs MAX_USER_PRIO_def
        USER_PRIO_def signed_divide_int_def)
qed

context kernel_lib
begin

lemma sleep_bonus:
  assumes "uint (t_sleep_avg p) \<le> MAX_SLEEP_AVG K"
  shows "sint ((word_of_int (MAX_USER_PRIO * PRIO_BONUS_RATIO) * t_sleep_avg p)
                  div word_of_int (MAX_SLEEP_AVG K) div 100
                - word_of_int ((MAX_USER_PRIO * PRIO_BONUS_RATIO) sdiv 100 sdiv 2) :: u32)
         = 10 * uint (t_sleep_avg p) div MAX_SLEEP_AVG K - 5"
    and "0 \<le> 10 * uint (t_sleep_avg p) div MAX_SLEEP_AVG K"
    and "10 * uint (t_sleep_avg p) div MAX_SLEEP_AVG K \<le> 10"
proof -
  let ?a = "uint (t_sleep_avg p)" and ?M = "MAX_SLEEP_AVG K"
  have M: "200 \<le> ?M" "?M \<le> 2048" and a: "0 \<le> ?a"
    using HZ_lower HZ_upper by (auto simp: MAX_SLEEP_AVG_def)
  have q: "uint ((word_of_int 1000 * t_sleep_avg p) div word_of_int ?M div 100 :: u32) = 10 * ?a div ?M"
  proof -
    have "uint (word_of_int 1000 * t_sleep_avg p :: u32) = 1000 * ?a"
      using assms M by (subst uint_mult_small) (simp_all add: uint_word_of_int_small)
    moreover have "uint (word_of_int ?M :: u32) = ?M"
      using M by (intro uint_word_of_int_small) auto
    ultimately have "uint ((word_of_int 1000 * t_sleep_avg p) div word_of_int ?M div 100 :: u32)
        = 1000 * ?a div ?M div 100"
      by (simp add: uint_div_distrib)
    also have "\<dots> = (100 * (10 * ?a)) div (100 * ?M)"
      by (simp add: zdiv_zmult2_eq mult.commute)
    also have "\<dots> = 10 * ?a div ?M"
      by (rule div_mult_mult1) simp
    finally show ?thesis .
  qed
  show nonneg: "0 \<le> 10 * ?a div ?M"
    using M a by (simp add: pos_imp_zdiv_nonneg_iff)
  have "10 * ?a div ?M \<le> 10 * ?M div ?M"
    using assms M by (intro zdiv_mono1) auto
  also have "\<dots> = 10" using M by simp
  finally show le: "10 * ?a div ?M \<le> 10" .
  have "(word_of_int 1000 * t_sleep_avg p) div word_of_int ?M div 100 = (word_of_int (10 * ?a div ?M) :: u32)"
    by (metis q word_of_int_uint)
  then have "(word_of_int 1000 * t_sleep_avg p) div word_of_int ?M div 100 - (word_of_int 5 :: u32)
      = word_of_int (10 * ?a div ?M - 5)"
    by (simp only: of_int_diff)
  moreover have "sint (word_of_int (10 * ?a div ?M - 5) :: u32) = 10 * ?a div ?M - 5"
    using nonneg le by (intro sint_word_of_int_small) auto
  moreover have "MAX_USER_PRIO * PRIO_BONUS_RATIO = 1000" "(1000 :: int) sdiv 100 sdiv 2 = 5"
    by (simp_all add: MAX_USER_PRIO_def USER_PRIO_def PRIO_BONUS_RATIO_def signed_divide_int_def)
  ultimately show "sint ((word_of_int (MAX_USER_PRIO * PRIO_BONUS_RATIO) * t_sleep_avg p)
                  div word_of_int ?M div 100
                - word_of_int ((MAX_USER_PRIO * PRIO_BONUS_RATIO) sdiv 100 sdiv 2) :: u32)
         = 10 * ?a div ?M - 5"
    by (simp only:)
qed

lemma effective_prio_eq:
  assumes "uint (t_sleep_avg p) \<le> MAX_SLEEP_AVG K"
  shows "effective_prio K p =
    min (MAX_PRIO - 1) (max MAX_RT_PRIO
      (t_static_prio p - (10 * uint (t_sleep_avg p) div MAX_SLEEP_AVG K - 5)))"
  unfolding effective_prio_def sleep_bonus(1) [OF assms] Let_def by simp

end

lemma effective_prio_range: "MAX_RT_PRIO \<le> effective_prio K p \<and> effective_prio K p \<le> MAX_PRIO - 1"
  by (simp add: effective_prio_def Let_def)

lemma effective_prio_simps [simp]:
  "0 \<le> effective_prio K p" "100 \<le> effective_prio K p" "effective_prio K p < 140" "\<not> effective_prio K p < 100"
  "effective_prio K p \<le> 140" "effective_prio K p \<noteq> 140"
  using effective_prio_range [of K p] by auto

end
