(* ===== verification/Prio_Array.thy ===== *)
theory Prio_Array imports Sched_Prio begin

text \<open>
  Priority arrays: \<^verbatim>\<open>dequeue_task\<close> and \<^verbatim>\<open>enqueue_task\<close>, the invariant that ties the queues, the
  bitmap and \<^verbatim>\<open>nr_active\<close> of every array to the fields of the tasks, and the interface
  (\<open>ready_array\<close>) through which the rest of the scheduler uses them.
\<close>

section \<open>Operations\<close>

definition dequeue_task :: "('l, 'b) klib \<Rightarrow> tptr \<Rightarrow> aid \<Rightarrow> ('l, 'b) sched \<Rightarrow> ('l, 'b) sched" where
  "dequeue_task K p array s =
     (let s = upd_array array (\<lambda>A. A\<lparr>nr_active := nr_active A - 1\<rparr>) s;
          s = upd_lists (k_list_del K p) s
      in if k_list_empty K (lists s) (array, t_prio (tasks s p))
         then upd_array array (\<lambda>A. A\<lparr>bitmap := k_clear_bit K (t_prio (tasks s p)) (bitmap A)\<rparr>) s
         else s)"

definition enqueue_task :: "('l, 'b) klib \<Rightarrow> tptr \<Rightarrow> aid \<Rightarrow> ('l, 'b) sched \<Rightarrow> ('l, 'b) sched" where
  "enqueue_task K p array s =
     (let s = upd_lists (k_list_add_tail K p (array, t_prio (tasks s p))) s;
          s = upd_array array (\<lambda>A. A\<lparr>bitmap := k_set_bit K (t_prio (tasks s p)) (bitmap A)\<rparr>) s;
          s = upd_array array (\<lambda>A. A\<lparr>nr_active := nr_active A + 1\<rparr>) s
      in upd_task p (\<lambda>t. t\<lparr>t_array := Some array\<rparr>) s)"

section \<open>Frame\<close>

lemma dequeue_task_frame [simp, field_frame]:
  "tasks (dequeue_task K p a s) = tasks s" "rqs (dequeue_task K p a s) = rqs s"
  "mms (dequeue_task K p a s) = mms s" "pidhash (dequeue_task K p a s) = pidhash s"
  "jiffies (dequeue_task K p a s) = jiffies s" "current c (dequeue_task K p a s) = current c s"
  by (simp_all add: dequeue_task_def Let_def current_def)

lemma enqueue_task_frame [simp, field_frame]:
  "tasks (enqueue_task K p a s) = (tasks s)(p := (tasks s p)\<lparr>t_array := Some a\<rparr>)"
  "rqs (enqueue_task K p a s) = rqs s"
  "mms (enqueue_task K p a s) = mms s" "pidhash (enqueue_task K p a s) = pidhash s"
  "jiffies (enqueue_task K p a s) = jiffies s" "current c (enqueue_task K p a s) = current c s"
  by (simp_all add: enqueue_task_def Let_def current_def)

lemma dequeue_nr_active [simp]:
  "nr_active (arrays (dequeue_task K p a s) b) = nr_active (arrays s b) - (if b = a then 1 else 0)"
  by (simp add: dequeue_task_def Let_def)

lemma enqueue_nr_active [simp]:
  "nr_active (arrays (enqueue_task K p a s) b) = nr_active (arrays s b) + (if b = a then 1 else 0)"
  by (simp add: enqueue_task_def Let_def)

lemma enqueue_upd_rq: "enqueue_task K p a (upd_rq c f s) = upd_rq c f (enqueue_task K p a s)"
  by (simp add: enqueue_task_def Let_def upd_rq_def upd_task_def upd_array_def upd_lists_def)

section \<open>The invariant\<close>

text \<open>
  What holds of a task the scheduler manages, whether it is queued or asleep. The priority of
  an idle task is \<^verbatim>\<open>MAX_PRIO\<close>, which no queue has.
\<close>

definition class_array :: "task \<Rightarrow> arr \<Rightarrow> bool" where
  "class_array t a \<longleftrightarrow>
     (if t_policy t = SCHED_SHORT then a = (if t_is_short t = 1 then Short_active else Overdue)
      else a = Arr0 \<or> a = Arr1)"

definition queued_ok :: "task \<Rightarrow> bool" where
  "queued_ok t \<longleftrightarrow> (\<forall>c a. t_array t = Some (c, a) \<longrightarrow>
     c = t_cpu t \<and> 0 \<le> t_prio t \<and> t_prio t < MAX_PRIO \<and> class_array t a)"

definition policy_ok :: "task \<Rightarrow> bool" where
  "policy_ok t \<longleftrightarrow>
     t_policy t \<in> {SCHED_OTHER, SCHED_FIFO, SCHED_RR, SCHED_SHORT} \<and>
     (t_policy t = SCHED_FIFO \<or> t_policy t = SCHED_RR \<longleftrightarrow> t_prio t < MAX_RT_PRIO) \<and>
     (t_policy t = SCHED_SHORT \<longrightarrow> t_is_short t = 1 \<or> t_is_short t = -1) \<and>
     (t_policy t = SCHED_SHORT \<and> t_is_short t = -1 \<longrightarrow> t_prio t = MAX_PRIO - 1) \<and>
     (t_policy t \<noteq> SCHED_SHORT \<longrightarrow> t_is_short t = 0 \<or> t_is_short t = -1)"

definition task_ok :: "('l, 'b) klib \<Rightarrow> task \<Rightarrow> bool" where
  "task_ok K t \<longleftrightarrow> queued_ok t \<and> policy_ok t \<and> 0 \<le> t_prio t \<and> t_prio t \<le> MAX_PRIO \<and>
     MAX_RT_PRIO \<le> t_static_prio t \<and> t_static_prio t < MAX_PRIO \<and>
     uint (t_sleep_avg t) \<le> MAX_SLEEP_AVG K"

text \<open>
  The array invariant, for all tasks but those of \<open>X\<close>: the tasks outside the scheduler's
  hands (not allocated, or taken off a queue by a handler that will put them back). A task
  is in the queue its fields name and in no other; a bit is set exactly when its queue is
  not empty; the delimiter bit is set; \<open>nr_active\<close> counts the tasks.
\<close>

definition on_array :: "tptr set \<Rightarrow> ('l, 'b) sched \<Rightarrow> aid \<Rightarrow> tptr set" where
  "on_array X s a = {p. p \<notin> X \<and> t_array (tasks s p) = Some a}"

definition links_ok :: "('l, 'b) klib \<Rightarrow> tptr set \<Rightarrow> ('l, 'b) sched \<Rightarrow> bool" where
  "links_ok K X s \<longleftrightarrow>
     (\<forall>p a i. p \<in> set (queue K s (a, i)) \<longleftrightarrow>
        p \<notin> X \<and> t_array (tasks s p) = Some a \<and> t_prio (tasks s p) = i) \<and>
     (\<forall>q. distinct (queue K s q))"

definition bits_ok :: "('l, 'b) klib \<Rightarrow> ('l, 'b) sched \<Rightarrow> bool" where
  "bits_ok K s \<longleftrightarrow>
     (\<forall>a i. 0 \<le> i \<longrightarrow> i < MAX_PRIO \<longrightarrow>
        (k_test_bit K (bitmap (arrays s a)) i \<longleftrightarrow> queue K s (a, i) \<noteq> [])) \<and>
     (\<forall>a. k_test_bit K (bitmap (arrays s a)) MAX_PRIO)"

definition counts_ok :: "tptr set \<Rightarrow> ('l, 'b) sched \<Rightarrow> bool" where
  "counts_ok X s \<longleftrightarrow>
     (\<forall>a. finite (on_array X s a) \<and> nr_active (arrays s a) = int (card (on_array X s a)))"

definition q_inv :: "('l, 'b) klib \<Rightarrow> tptr set \<Rightarrow> ('l, 'b) sched \<Rightarrow> bool" where
  "q_inv K X s \<longleftrightarrow> links_ok K X s \<and> bits_ok K s \<and> counts_ok X s \<and>
     (\<forall>p. p \<notin> X \<longrightarrow> task_ok K (tasks s p))"

lemmas q_inv_defs = q_inv_def links_ok_def bits_ok_def counts_ok_def

lemma q_invD:
  assumes "q_inv K X s"
  shows "p \<in> set (queue K s (a, i)) \<longleftrightarrow> p \<notin> X \<and> t_array (tasks s p) = Some a \<and> t_prio (tasks s p) = i"
    and "distinct (queue K s q)"
    and "0 \<le> i \<Longrightarrow> i < MAX_PRIO \<Longrightarrow>
      k_test_bit K (bitmap (arrays s a)) i \<longleftrightarrow> queue K s (a, i) \<noteq> []"
    and "k_test_bit K (bitmap (arrays s a)) MAX_PRIO"
    and "finite (on_array X s a)"
    and "nr_active (arrays s a) = int (card (on_array X s a))"
    and "p \<notin> X \<Longrightarrow> task_ok K (tasks s p)"
  using assms unfolding q_inv_defs by blast+

lemma q_inv_queued:
  assumes "q_inv K X s" and "p \<notin> X" and "t_array (tasks s p) = Some a"
  shows "p \<in> set (queue K s (a, t_prio (tasks s p)))"
    and "0 \<le> t_prio (tasks s p)" and "t_prio (tasks s p) < MAX_PRIO" and "fst a = t_cpu (tasks s p)"
    and "class_array (tasks s p) (snd a)"
  using q_invD(1) [OF assms(1)] q_invD(7) [OF assms(1,2)] assms(2,3)
  by (cases a; simp add: task_ok_def queued_ok_def)+

text \<open>The invariant reads the tasks, the arrays and the lists only.\<close>

lemma q_inv_cong:
  assumes "tasks s' = tasks s" and "arrays s' = arrays s" and "lists s' = lists s"
  shows "q_inv K X s' = q_inv K X s"
  using assms by (simp add: q_inv_defs on_array_def queue_def)

lemma q_inv_frame [simp]:
  "q_inv K X (upd_rq c f s) = q_inv K X s" "q_inv K X (upd_mm m g s) = q_inv K X s"
  "q_inv K X (s\<lparr>jiffies := j\<rparr>) = q_inv K X s" "q_inv K X (s\<lparr>pidhash := h\<rparr>) = q_inv K X s"
  "q_inv K X (s\<lparr>rqs := r\<rparr>) = q_inv K X s"
  "q_inv K X (s\<lparr>kstat_user := k\<rparr>) = q_inv K X s" "q_inv K X (s\<lparr>kstat_nice := k\<rparr>) = q_inv K X s"
  "q_inv K X (s\<lparr>kstat_system := k\<rparr>) = q_inv K X s" "q_inv K X (s\<lparr>bug := x\<rparr>) = q_inv K X s"
  by (rule q_inv_cong; simp)+

text \<open>A task of \<open>X\<close> may be changed at will.\<close>

lemma q_inv_upd_task_in [simp]:
  assumes "p \<in> X"
  shows "q_inv K X (upd_task p f s) = q_inv K X s"
proof -
  have same: "((tasks s)(p := v)) r = tasks s r" if "r \<notin> X" for r v
    using assms that by auto
  have "on_array X (upd_task p f s) a = on_array X s a" for a
    using assms by (auto simp: on_array_def)
  moreover have "links_ok K X (upd_task p f s) = links_ok K X s"
    by (simp add: links_ok_def same del: fun_upd_apply cong: conj_cong)
  moreover have "(\<forall>r. r \<notin> X \<longrightarrow> task_ok K (tasks (upd_task p f s) r)) = (\<forall>r. r \<notin> X \<longrightarrow> task_ok K (tasks s r))"
    by (simp add: same del: fun_upd_apply)
  ultimately show ?thesis by (simp add: q_inv_def bits_ok_def counts_ok_def)
qed

text \<open>Another task may be changed if it stays queued where it is, and stays well formed.\<close>

lemma q_inv_upd_task_out:
  assumes "q_inv K X s" and "t_array (f (tasks s p)) = t_array (tasks s p)"
    and "t_prio (f (tasks s p)) = t_prio (tasks s p)"
    and "p \<notin> X \<Longrightarrow> task_ok K (f (tasks s p))"
  shows "q_inv K X (upd_task p f s)"
proof -
  have "on_array X (upd_task p f s) a = on_array X s a" for a
    using assms(2) by (auto simp: on_array_def)
  with assms show ?thesis unfolding q_inv_defs by (auto simp: fun_upd_apply)
qed

text \<open>A task that is not queued may be taken out of the invariant's scope and put back.\<close>

lemma q_inv_insert_off:
  assumes "q_inv K X s" and "t_array (tasks s p) = None"
  shows "q_inv K (insert p X) s"
proof -
  have "on_array (insert p X) s a = on_array X s a" for a
    using assms(2) by (auto simp: on_array_def)
  with assms show ?thesis unfolding q_inv_defs by auto
qed

lemma q_inv_remove_off:
  assumes "q_inv K (insert p X) s" and "t_array (tasks s p) = None" and "task_ok K (tasks s p)"
  shows "q_inv K X s"
proof (cases "p \<in> X")
  case True
  with assms(1) show ?thesis by (simp add: insert_absorb)
next
  case False
  have "on_array (insert p X) s a = on_array X s a" for a
    using assms(2) by (auto simp: on_array_def)
  moreover have "links_ok K X s"
    using q_invD(1,2) [OF assms(1)] assms(2) unfolding links_ok_def by auto
  moreover have "task_ok K (tasks s r)" if "r \<notin> X" for r
    using that assms(3) q_invD(7) [OF assms(1), of r] by (cases "r = p") auto
  ultimately show ?thesis using assms(1) by (simp add: q_inv_def bits_ok_def counts_ok_def)
qed

section \<open>What the operations do, and that they keep the invariant\<close>

context kernel_lib
begin

lemma queue_upd_lists [simp]: "queue K (upd_lists f s) = k_queue K (f (lists s))"
  by (simp add: queue_def)

lemma queue_dequeue:
  assumes "q_inv K X s" and "p \<notin> X" and "t_array (tasks s p) = Some a"
  shows "queue K (dequeue_task K p a s) =
    (queue K s)((a, t_prio (tasks s p)) := remove1 p (queue K s (a, t_prio (tasks s p))))"
proof -
  let ?q = "(a, t_prio (tasks s p))"
  have "k_queue K (k_list_del K p (lists s)) = (k_queue K (lists s))(?q := remove1 p (k_queue K (lists s) ?q))"
  proof (rule list_del)
    show "p \<in> set (k_queue K (lists s) ?q)"
      using q_inv_queued(1) [OF assms] by (simp add: queue_def)
    show "distinct (k_queue K (lists s) ?q)"
      using q_invD(2) [OF assms(1)] by (simp add: queue_def)
    show "p \<notin> set (k_queue K (lists s) r)" if "r \<noteq> ?q" for r
      using that q_invD(1) [OF assms(1), of p] assms(3) by (cases r) (auto simp: queue_def)
  qed
  then show ?thesis by (simp add: dequeue_task_def Let_def queue_def)
qed

lemma queue_enqueue:
  assumes "q_inv K X s" and "p \<in> X"
  shows "queue K (enqueue_task K p a s) =
    (queue K s)((a, t_prio (tasks s p)) := queue K s (a, t_prio (tasks s p)) @ [p])"
proof -
  have "p \<notin> set (k_queue K (lists s) r)" for r
    using q_invD(1) [OF assms(1), of p] assms(2) by (cases r) (auto simp: queue_def)
  then show ?thesis
    by (simp add: enqueue_task_def Let_def queue_def list_add_tail)
qed

lemma bitmap_dequeue:
  assumes "q_inv K X s" and "p \<notin> X" and "t_array (tasks s p) = Some a"
  shows "k_test_bit K (bitmap (arrays (dequeue_task K p a s) b)) =
    (if b = a \<and> queue K (dequeue_task K p a s) (a, t_prio (tasks s p)) = []
     then (k_test_bit K (bitmap (arrays s b)))(t_prio (tasks s p) := False)
     else k_test_bit K (bitmap (arrays s b)))"
  by (auto simp: dequeue_task_def Let_def list_empty clear_bit queue_def)

lemma bitmap_enqueue:
  "k_test_bit K (bitmap (arrays (enqueue_task K p a s) b)) =
    (if b = a then (k_test_bit K (bitmap (arrays s b)))(t_prio (tasks s p) := True)
     else k_test_bit K (bitmap (arrays s b)))"
  by (simp add: enqueue_task_def Let_def set_bit)

lemma dequeue_inv:
  assumes inv: "q_inv K X s" and p: "p \<notin> X" and a: "t_array (tasks s p) = Some a"
  shows "q_inv K (insert p X) (dequeue_task K p a s)"
proof -
  note Q = queue_dequeue [OF assms] and D = q_invD [OF inv] and P = q_inv_queued [OF assms]
  have "links_ok K (insert p X) (dequeue_task K p a s)"
    using D(1,2) a unfolding links_ok_def Q by (auto simp: distinct_remove1)
  moreover have "bits_ok K (dequeue_task K p a s)"
    using D(3,4) P(1,3) unfolding bits_ok_def bitmap_dequeue [OF assms] Q by auto
  moreover have "on_array (insert p X) (dequeue_task K p a s) b =
      (if b = a then on_array X s a - {p} else on_array X s b)" for b
    using a p by (auto simp: on_array_def)
  moreover have "p \<in> on_array X s a" using a p by (simp add: on_array_def)
  ultimately have "links_ok K (insert p X) (dequeue_task K p a s)" "bits_ok K (dequeue_task K p a s)"
    "counts_ok (insert p X) (dequeue_task K p a s)"
    using D(5,6) by (simp_all add: counts_ok_def card_remove_int del: card_Diff_insert card_Diff_singleton)
  then show ?thesis using D(7) by (simp add: q_inv_def)
qed

lemma enqueue_inv:
  assumes inv: "q_inv K (insert p X) s" and p: "p \<notin> X"
    and ok: "task_ok K ((tasks s p)\<lparr>t_array := Some a\<rparr>)"
  shows "q_inv K X (enqueue_task K p a s)"
proof -
  have "p \<in> insert p X" by simp
  note Q = queue_enqueue [OF inv this] and D = q_invD [OF inv]
  have range: "0 \<le> t_prio (tasks s p)" "t_prio (tasks s p) < MAX_PRIO"
    using ok by (cases a; simp add: task_ok_def queued_ok_def)+
  have "links_ok K X (enqueue_task K p a s)"
    using D(1,2) p unfolding links_ok_def Q by auto
  moreover have "bits_ok K (enqueue_task K p a s)"
    using D(3,4) range unfolding bits_ok_def bitmap_enqueue Q by auto
  moreover have "on_array X (enqueue_task K p a s) b =
      (if b = a then insert p (on_array (insert p X) s a) else on_array (insert p X) s b)" for b
    using p by (auto simp: on_array_def)
  moreover have "p \<notin> on_array (insert p X) s a" by (simp add: on_array_def)
  ultimately have "links_ok K X (enqueue_task K p a s)" "bits_ok K (enqueue_task K p a s)"
    "counts_ok X (enqueue_task K p a s)"
    using D(5,6) by (simp_all add: counts_ok_def card_insert_int)
  moreover have "task_ok K (tasks (enqueue_task K p a s) r)" if "r \<notin> X" for r
    using that D(7) ok by auto
  ultimately show ?thesis by (simp add: q_inv_def)
qed

end

section \<open>The interface of a ready array\<close>

text \<open>
  What the handlers of the scheduler use of the arrays: taking a task out, putting one in at
  the tail of the queue of its level, and the contents of the queues in between. The client
  lemmas are about requeueing: a task taken out and put back moves to the tail, and serving
  the head of a queue and requeueing it serves every task of the queue in turn.
\<close>

locale ready_array =
  fixes ok :: "tptr set \<Rightarrow> 's \<Rightarrow> bool"
    and contents :: "'s \<Rightarrow> qid \<Rightarrow> tptr list"
    and level :: "'s \<Rightarrow> tptr \<Rightarrow> int"
    and array_of :: "'s \<Rightarrow> tptr \<Rightarrow> aid option"
    and fits :: "'s \<Rightarrow> tptr \<Rightarrow> aid \<Rightarrow> bool"
    and enq :: "tptr \<Rightarrow> aid \<Rightarrow> 's \<Rightarrow> 's"
    and deq :: "tptr \<Rightarrow> aid \<Rightarrow> 's \<Rightarrow> 's"
  assumes member: "ok X s \<Longrightarrow>
      p \<in> set (contents s (a, i)) \<longleftrightarrow> p \<notin> X \<and> array_of s p = Some a \<and> level s p = i"
    and fits_own: "ok X s \<Longrightarrow> p \<notin> X \<Longrightarrow> array_of s p = Some a \<Longrightarrow> fits s p a"
    and deq_ok: "ok X s \<Longrightarrow> p \<notin> X \<Longrightarrow> array_of s p = Some a \<Longrightarrow> ok (insert p X) (deq p a s)"
    and deq_contents: "ok X s \<Longrightarrow> p \<notin> X \<Longrightarrow> array_of s p = Some a \<Longrightarrow>
      contents (deq p a s) = (contents s)((a, level s p) := remove1 p (contents s (a, level s p)))"
    and deq_keeps: "level (deq p a s) = level s" "fits (deq p a s) = fits s"
    and enq_ok: "ok (insert p X) s \<Longrightarrow> p \<notin> X \<Longrightarrow> fits s p a \<Longrightarrow> ok X (enq p a s)"
    and enq_contents: "ok X s \<Longrightarrow> p \<in> X \<Longrightarrow>
      contents (enq p a s) = (contents s)((a, level s p) := contents s (a, level s p) @ [p])"
    and enq_keeps: "level (enq p a s) = level s"
begin

lemma requeue_ok:
  assumes "ok X s" and "p \<notin> X" and "array_of s p = Some a"
  shows "ok X (enq p a (deq p a s))"
  using assms by (intro enq_ok deq_ok) (simp_all add: deq_keeps fits_own)

lemma requeue_contents:
  assumes "ok X s" and "p \<notin> X" and "array_of s p = Some a"
  shows "contents (enq p a (deq p a s)) =
    (contents s)((a, level s p) := remove1 p (contents s (a, level s p)) @ [p])"
  using enq_contents [OF deq_ok [OF assms]] deq_contents [OF assms] by (simp add: deq_keeps)

lemma requeue_head:
  assumes "ok X s" and "contents s (a, i) = p # ps"
  shows "ok X (enq p a (deq p a s))" and "contents (enq p a (deq p a s)) (a, i) = ps @ [p]"
    and "q \<noteq> (a, i) \<Longrightarrow> contents (enq p a (deq p a s)) q = contents s q"
proof -
  have "p \<in> set (contents s (a, i))" using assms(2) by simp
  then have p: "p \<notin> X" "array_of s p = Some a" "level s p = i"
    using member [OF assms(1)] by auto
  show "ok X (enq p a (deq p a s))" by (rule requeue_ok [OF assms(1) p(1,2)])
  show "contents (enq p a (deq p a s)) (a, i) = ps @ [p]"
    "q \<noteq> (a, i) \<Longrightarrow> contents (enq p a (deq p a s)) q = contents s q"
    using assms(2) p(3) by (auto simp: requeue_contents [OF assms(1) p(1,2)])
qed

lemma serve_rounds:
  assumes "ok X s" and "contents s (a, i) \<noteq> []"
  shows "ok X (((\<lambda>t. enq (hd (contents t (a, i))) a (deq (hd (contents t (a, i))) a t)) ^^ n) s)"
    and "contents (((\<lambda>t. enq (hd (contents t (a, i))) a (deq (hd (contents t (a, i))) a t)) ^^ n) s) (a, i)
      = rotate n (contents s (a, i))"
proof (induction n)
  case (Suc n)
  let ?t = "((\<lambda>t. enq (hd (contents t (a, i))) a (deq (hd (contents t (a, i))) a t)) ^^ n) s"
  have ne: "contents ?t (a, i) \<noteq> []" using Suc(2) assms(2) by simp
  then have "contents ?t (a, i) = hd (contents ?t (a, i)) # tl (contents ?t (a, i))" by simp
  note step = requeue_head [OF Suc(1) this]
  { case 1 show ?case using step(1) by simp }
  { case 2 show ?case using step(2) Suc(2) ne by (simp add: rotate1_hd_tl) }
qed (use assms in simp_all)

lemma every_task_served:
  assumes "ok X s" and "p \<in> set (contents s (a, i))"
  obtains n where "n < length (contents s (a, i))"
    and "hd (contents (((\<lambda>t. enq (hd (contents t (a, i))) a (deq (hd (contents t (a, i))) a t)) ^^ n) s) (a, i)) = p"
proof -
  from assms(2) obtain n where n: "n < length (contents s (a, i))" "contents s (a, i) ! n = p"
    by (auto simp: in_set_conv_nth)
  moreover have "hd (rotate n (contents s (a, i))) = p"
    using n by (subst hd_rotate_conv_nth) auto
  moreover have "contents s (a, i) \<noteq> []" using assms(2) by auto
  ultimately show thesis using serve_rounds(2) [OF assms(1)] that by simp
qed

end

sublocale kernel_lib \<subseteq> ra: ready_array "q_inv K" "queue K" "\<lambda>s p. t_prio (tasks s p)"
  "\<lambda>s p. t_array (tasks s p)" "\<lambda>s p a. task_ok K ((tasks s p)\<lparr>t_array := Some a\<rparr>)"
  "enqueue_task K" "dequeue_task K"
proof unfold_locales
  show "task_ok K ((tasks s p)\<lparr>t_array := Some a\<rparr>)"
    if "q_inv K X s" "p \<notin> X" "t_array (tasks s p) = Some a" for X s p a
    using q_invD(7) [OF that(1,2)] that(3) by (simp add: t_array_same)
qed (simp_all add: q_invD(1) queue_dequeue queue_enqueue dequeue_inv enqueue_inv fun_eq_iff)

end
