(* ===== verification/Runqueue.thy ===== *)
theory Runqueue imports Prio_Array begin

text \<open>
  Runqueues: activating and deactivating a task, the wake-up functions, the accounting of an
  exiting child, and the counters. Locks and interrupt flags are not part of the state: every
  function that takes the runqueue's lock is one atomic step (\<^verbatim>\<open>task_rq_lock\<close>,
  \<^verbatim>\<open>this_rq_lock\<close> and their unlocks leave the modelled state as it is). The argument
  \<open>me\<close> is \<^verbatim>\<open>smp_processor_id()\<close>.
\<close>

section \<open>Operations\<close>

text \<open>The sleep credit of an interactive task (the inner block of \<^verbatim>\<open>activate_task\<close>).\<close>

definition sleep_credit :: "('l, 'b) klib \<Rightarrow> u32 \<Rightarrow> task \<Rightarrow> task" where
  "sleep_credit K sleep_time t =
     (let t = t\<lparr>t_sleep_avg := t_sleep_avg t + sleep_time\<rparr>;
          t = (if t_sleep_avg t > word_of_int (MAX_SLEEP_AVG K)
               then t\<lparr>t_sleep_avg := word_of_int (MAX_SLEEP_AVG K)\<rparr> else t)
      in t\<lparr>t_prio := effective_prio K t\<rparr>)"

definition activate_task :: "('l, 'b) klib \<Rightarrow> tptr \<Rightarrow> cpu \<Rightarrow> ('l, 'b) sched \<Rightarrow> ('l, 'b) sched" where
  "activate_task K p rq s =
     (let t = tasks s p;
          sleep_time = jiffies s - t_sleep_timestamp t;
          array = (if t_policy t = SCHED_SHORT
                   then (if t_is_short t = 1 then (rq, Short_active) else (rq, Overdue))
                   else active_array rq s);
          s = (if \<not> rt_task t \<and> sleep_time \<noteq> 0 \<and> t_policy t \<noteq> SCHED_SHORT
               then upd_task p (sleep_credit K sleep_time) s else s);
          s = enqueue_task K p array s
      in upd_rq rq (\<lambda>r. r\<lparr>rq_nr_running := rq_nr_running r + 1\<rparr>) s)"

definition deactivate_task :: "('l, 'b) klib \<Rightarrow> tptr \<Rightarrow> cpu \<Rightarrow> ('l, 'b) sched \<Rightarrow> ('l, 'b) sched" where
  "deactivate_task K p rq s =
     (let s = upd_rq rq (\<lambda>r. r\<lparr>rq_nr_running := rq_nr_running r - 1\<rparr>) s;
          s = (if t_state (tasks s p) = TASK_UNINTERRUPTIBLE
               then upd_rq rq (\<lambda>r. r\<lparr>rq_nr_uninterruptible := rq_nr_uninterruptible r + 1\<rparr>) s else s);
          s = dequeue_task K p (the (t_array (tasks s p))) s
      in upd_task p (\<lambda>t. t\<lparr>t_array := None\<rparr>) s)"

text \<open>\<^verbatim>\<open>resched_task\<close>; the inter-processor interrupt of the SMP build has no effect on the state.\<close>

definition resched_task :: "tptr \<Rightarrow> ('l, 'b) sched \<Rightarrow> ('l, 'b) sched" where
  "resched_task p s = upd_task p (\<lambda>t. t\<lparr>t_need_resched := True\<rparr>) s"

definition kick_if_running :: "tptr \<Rightarrow> ('l, 'b) sched \<Rightarrow> ('l, 'b) sched" where
  "kick_if_running p s = (if p = rq_curr (rqs s (t_cpu (tasks s p))) then resched_task p s else s)"

text \<open>
  \<^verbatim>\<open>try_to_wake_up\<close>. The jump back to \<^verbatim>\<open>repeat_lock_task\<close> after the fast migration is taken
  at most once, since the task's CPU is then the waker's; it is the first update here.
\<close>

definition fast_migrates :: "cpu \<Rightarrow> tptr \<Rightarrow> bool \<Rightarrow> ('l, 'b) sched \<Rightarrow> bool" where
  "fast_migrates me p sync s \<longleftrightarrow>
     sync \<and> rq_curr (rqs s (t_cpu (tasks s p))) \<noteq> p \<and> t_cpu (tasks s p) \<noteq> me \<and>
     (t_cpus_allowed (tasks s p) AND push_bit me 1) \<noteq> 0"

definition try_to_wake_up ::
  "('l, 'b) klib \<Rightarrow> cpu \<Rightarrow> tptr \<Rightarrow> bool \<Rightarrow> ('l, 'b) sched \<Rightarrow> bool \<times> ('l, 'b) sched" where
  "try_to_wake_up K me p sync s =
     (let s = (if t_array (tasks s p) = None \<and> fast_migrates me p sync s
               then upd_task p (\<lambda>t. t\<lparr>t_cpu := me\<rparr>) s else s);
          rq = t_cpu (tasks s p);
          old_state = t_state (tasks s p);
          (success, s) =
            (if t_array (tasks s p) = None
             then (let s = (if old_state = TASK_UNINTERRUPTIBLE
                            then upd_rq rq (\<lambda>r. r\<lparr>rq_nr_uninterruptible := rq_nr_uninterruptible r - 1\<rparr>) s
                            else s);
                       s = activate_task K p rq s;
                       s = (if t_prio (tasks s p) < t_prio (tasks s (rq_curr (rqs s rq)))
                            then resched_task (rq_curr (rqs s rq)) s else s)
                   in (True, s))
             else (False, s))
      in (success, upd_task p (\<lambda>t. t\<lparr>t_state := TASK_RUNNING\<rparr>) s))"

definition wake_up_process ::
  "('l, 'b) klib \<Rightarrow> cpu \<Rightarrow> tptr \<Rightarrow> ('l, 'b) sched \<Rightarrow> bool \<times> ('l, 'b) sched" where
  "wake_up_process K me p s = try_to_wake_up K me p False s"

text \<open>The part the two fork wake-ups share: the penalty of parent and child, the CPU.\<close>

definition fork_penalty :: "('l, 'b) klib \<Rightarrow> cpu \<Rightarrow> tptr \<Rightarrow> ('l, 'b) sched \<Rightarrow> ('l, 'b) sched" where
  "fork_penalty K me p s =
     (let s = upd_task p (\<lambda>t. t\<lparr>t_state := TASK_RUNNING\<rparr>) s;
          s = (if \<not> rt_task (tasks s p)
               then (let s = upd_task (current me s)
                             (\<lambda>t. t\<lparr>t_sleep_avg := t_sleep_avg t * word_of_int PARENT_PENALTY div 100\<rparr>) s;
                         s = upd_task p
                             (\<lambda>t. t\<lparr>t_sleep_avg := t_sleep_avg t * word_of_int CHILD_PENALTY div 100\<rparr>) s
                     in if t_policy (tasks s p) \<noteq> SCHED_SHORT
                        then upd_task p (\<lambda>t. t\<lparr>t_prio := effective_prio K t\<rparr>) s else s)
               else s)
      in upd_task p (\<lambda>t. t\<lparr>t_cpu := me\<rparr>) s)"

definition wake_up_forked_process ::
  "('l, 'b) klib \<Rightarrow> cpu \<Rightarrow> tptr \<Rightarrow> ('l, 'b) sched \<Rightarrow> ('l, 'b) sched" where
  "wake_up_forked_process K me p s = activate_task K p me (fork_penalty K me p s)"

text \<open>\<^verbatim>\<open>enqueue_task\<close> as it is written out there, with \<^verbatim>\<open>list_add\<close> for \<^verbatim>\<open>list_add_tail\<close>.\<close>

definition enqueue_task_head :: "('l, 'b) klib \<Rightarrow> tptr \<Rightarrow> aid \<Rightarrow> ('l, 'b) sched \<Rightarrow> ('l, 'b) sched" where
  "enqueue_task_head K p array s =
     (let prio = t_prio (tasks s p);
          s = upd_lists (k_list_add K p (Head (array, prio))) s;
          s = upd_array array (\<lambda>A. A\<lparr>bitmap := k_set_bit K prio (bitmap A)\<rparr>) s;
          s = upd_array array (\<lambda>A. A\<lparr>nr_active := nr_active A + 1\<rparr>) s
      in upd_task p (\<lambda>t. t\<lparr>t_array := Some array\<rparr>) s)"

definition wake_up_short_forked_process ::
  "('l, 'b) klib \<Rightarrow> cpu \<Rightarrow> tptr \<Rightarrow> tptr \<Rightarrow> ('l, 'b) sched \<Rightarrow> ('l, 'b) sched" where
  "wake_up_short_forked_process K me f p s =
     (if t_is_short (tasks s p) \<noteq> 1 then s
      else
        (let s = fork_penalty K me p s;
             s = enqueue_task_head K p (me, Short_active) s;
             s = upd_rq me (\<lambda>r. r\<lparr>rq_nr_running := rq_nr_running r + 1\<rparr>) s;
             s = deactivate_task K f me s
         in activate_task K f me s))"

definition sched_exit :: "('l, 'b) klib \<Rightarrow> cpu \<Rightarrow> tptr \<Rightarrow> ('l, 'b) sched \<Rightarrow> ('l, 'b) sched" where
  "sched_exit K me p s =
     (let cur = current me s;
          s = (if t_first_time_slice (tasks s p) \<noteq> 0
               then (let s = upd_task cur
                             (\<lambda>t. t\<lparr>t_time_slice := t_time_slice t + t_time_slice (tasks s p)\<rparr>) s
                     in if t_time_slice (tasks s cur) > word_of_int (MAX_TIMESLICE K)
                        then upd_task cur (\<lambda>t. t\<lparr>t_time_slice := word_of_int (MAX_TIMESLICE K)\<rparr>) s
                        else s)
               else s)
      in if t_sleep_avg (tasks s p) < t_sleep_avg (tasks s cur)
         then upd_task cur
                (\<lambda>t. t\<lparr>t_sleep_avg :=
                   (t_sleep_avg t * word_of_int EXIT_WEIGHT + t_sleep_avg (tasks s p))
                     div word_of_int (EXIT_WEIGHT + 1)\<rparr>) s
         else s)"

text \<open>The counters.\<close>

definition nr_running :: "('l, 'b) klib \<Rightarrow> ('l, 'b) sched \<Rightarrow> int" where
  "nr_running K s = (\<Sum>i\<leftarrow>[0..<k_smp_num_cpus K]. rq_nr_running (rqs s (k_cpu_logical_map K i)))"

definition nr_uninterruptible :: "('l, 'b) klib \<Rightarrow> ('l, 'b) sched \<Rightarrow> int" where
  "nr_uninterruptible K s =
     (\<Sum>i\<leftarrow>[0..<k_smp_num_cpus K]. rq_nr_uninterruptible (rqs s (k_cpu_logical_map K i)))"

definition nr_context_switches :: "('l, 'b) klib \<Rightarrow> ('l, 'b) sched \<Rightarrow> u32" where
  "nr_context_switches K s =
     (\<Sum>i\<leftarrow>[0..<k_smp_num_cpus K]. rq_nr_switches (rqs s (k_cpu_logical_map K i)))"

definition task_prio :: "task \<Rightarrow> int" where
  "task_prio p = t_prio p - MAX_USER_RT_PRIO"

definition task_nice :: "task \<Rightarrow> int" where
  "task_nice p = TASK_NICE p"

definition idle_cpu :: "cpu \<Rightarrow> ('l, 'b) sched \<Rightarrow> bool" where
  "idle_cpu c s \<longleftrightarrow> rq_curr (rqs s c) = rq_idle (rqs s c)"

section \<open>The runqueue invariant\<close>

definition load :: "('l, 'b) sched \<Rightarrow> cpu \<Rightarrow> int" where
  "load s c = nr_active (arrays s (c, Arr0)) + nr_active (arrays s (c, Arr1)) +
     nr_active (arrays s (c, Short_active)) + nr_active (arrays s (c, Overdue))"

definition rq_ok :: "tptr set \<Rightarrow> ('l, 'b) sched \<Rightarrow> cpu \<Rightarrow> bool" where
  "rq_ok X s c \<longleftrightarrow>
     rq_nr_running (rqs s c) = load s c \<and>
     (rq_active (rqs s c) = Arr0 \<and> rq_expired (rqs s c) = Arr1 \<or>
      rq_active (rqs s c) = Arr1 \<and> rq_expired (rqs s c) = Arr0) \<and>
     (\<forall>p. p \<notin> X \<longrightarrow> t_array (tasks s p) = Some (expired_array c s) \<longrightarrow> MAX_RT_PRIO \<le> t_prio (tasks s p))"

definition sched_inv :: "('l, 'b) klib \<Rightarrow> tptr set \<Rightarrow> ('l, 'b) sched \<Rightarrow> bool" where
  "sched_inv K X s \<longleftrightarrow> q_inv K X s \<and> (\<forall>c. rq_ok X s c)"

text \<open>
  The task a CPU runs is queued there or is its idle task; the idle task is never queued, always
  runnable, and has the priority \<^verbatim>\<open>MAX_PRIO\<close> that \<^verbatim>\<open>init_idle\<close> gives it.
\<close>

definition cpu_ok :: "tptr set \<Rightarrow> ('l, 'b) sched \<Rightarrow> cpu \<Rightarrow> bool" where
  "cpu_ok X s c \<longleftrightarrow>
     rq_idle (rqs s c) \<notin> X \<and> t_array (tasks s (rq_idle (rqs s c))) = None \<and>
     t_state (tasks s (rq_idle (rqs s c))) = TASK_RUNNING \<and>
     t_prio (tasks s (rq_idle (rqs s c))) = MAX_PRIO \<and>
     current c s \<notin> X \<and>
     (current c s = rq_idle (rqs s c) \<or> (\<exists>a. t_array (tasks s (current c s)) = Some (c, a)))"

end
