(* ===== verification/Runqueue_Inv.thy ===== *)
theory Runqueue_Inv imports Runqueue begin

text \<open>
  The runqueue operations keep the scheduler's invariant. The building blocks the handlers
  are proved from: activation, deactivation, moving a task between the queues of its CPU,
  and changing the fields of a task that do not say where it is queued.
\<close>

section \<open>Loads and frames\<close>

lemma load_frame [simp]:
  "load (upd_task p f s) = load s" "load (upd_rq c g s) = load s"
  "load (upd_lists i s) = load s" "load (upd_mm m j s) = load s"
  "load (upd_array a (\<lambda>A. A\<lparr>bitmap := b A\<rparr>) s) = load s"
  by (auto simp: load_def fun_eq_iff)

lemma load_dequeue [simp]:
  "load (dequeue_task K p a s) c = load s c - (if c = fst a then 1 else 0)"
  by (cases a; cases "snd a") (auto simp: load_def)

lemma load_enqueue [simp]:
  "load (enqueue_task K p a s) c = load s c + (if c = fst a then 1 else 0)"
  by (cases a; cases "snd a") (auto simp: load_def)

lemma sched_invD:
  assumes "sched_inv K X s"
  shows "q_inv K X s" and "rq_ok X s c" and "rq_nr_running (rqs s c) = load s c"
    and "rq_active (rqs s c) \<noteq> rq_expired (rqs s c)"
    and "rq_active (rqs s c) \<in> {Arr0, Arr1}" and "rq_expired (rqs s c) \<in> {Arr0, Arr1}"
    and "p \<notin> X \<Longrightarrow> t_array (tasks s p) = Some (expired_array c s) \<Longrightarrow> MAX_RT_PRIO \<le> t_prio (tasks s p)"
proof -
  have inv: "q_inv K X s" "rq_ok X s c" for c using assms by (auto simp: sched_inv_def)
  then show "q_inv K X s" "rq_ok X s c" by auto
  show "rq_nr_running (rqs s c) = load s c" "rq_active (rqs s c) \<noteq> rq_expired (rqs s c)"
    "rq_active (rqs s c) \<in> {Arr0, Arr1}" "rq_expired (rqs s c) \<in> {Arr0, Arr1}"
    "p \<notin> X \<Longrightarrow> t_array (tasks s p) = Some (expired_array c s) \<Longrightarrow> MAX_RT_PRIO \<le> t_prio (tasks s p)"
    using inv(2) [of c] by (auto simp: rq_ok_def)
qed

lemma task_okD:
  assumes "task_ok K t"
  shows "t_array t = Some (c, a) \<Longrightarrow> t_cpu t = c" and "t_array t = Some (c, a) \<Longrightarrow> 0 \<le> t_prio t"
    and "t_array t = Some (c, a) \<Longrightarrow> t_prio t < MAX_PRIO" and "t_array t = Some (c, a) \<Longrightarrow> class_array t a"
    and "policy_ok t" and "MAX_RT_PRIO \<le> t_static_prio t" and "t_static_prio t < MAX_PRIO"
    and "uint (t_sleep_avg t) \<le> MAX_SLEEP_AVG K"
    and "0 \<le> t_prio t" and "t_prio t \<le> MAX_PRIO"
  using assms by (auto simp: task_ok_def queued_ok_def)

text \<open>A task is fit to be put on an array of its CPU.\<close>

definition fit :: "('l, 'b) klib \<Rightarrow> cpu \<Rightarrow> task \<Rightarrow> bool" where
  "fit K c t \<longleftrightarrow> t_cpu t = c \<and> 0 \<le> t_prio t \<and> t_prio t < MAX_PRIO \<and> policy_ok t \<and>
     MAX_RT_PRIO \<le> t_static_prio t \<and> t_static_prio t < MAX_PRIO \<and>
     uint (t_sleep_avg t) \<le> MAX_SLEEP_AVG K"

lemma fit_task_ok: "fit K c t \<Longrightarrow> class_array t a \<Longrightarrow> task_ok K (t\<lparr>t_array := Some (c, a)\<rparr>)"
  by (simp add: fit_def task_ok_def queued_ok_def class_array_def policy_ok_def)

lemma fit_array [simp]: "fit K c (t\<lparr>t_array := a\<rparr>) = fit K c t"
  by (simp add: fit_def policy_ok_def)

lemma class_array_upd [simp]: "class_array (t\<lparr>t_array := x\<rparr>) a = class_array t a"
  by (simp add: class_array_def)

lemma queued_fit: "task_ok K t \<Longrightarrow> t_array t = Some (c, a) \<Longrightarrow> fit K c t"
  using task_okD(1-3) [of K t c a] task_okD(5-8) [of K t] by (simp add: fit_def)

lemma task_ok_off: "task_ok K t \<Longrightarrow> task_ok K (t\<lparr>t_array := None\<rparr>)"
  by (simp add: task_ok_def queued_ok_def policy_ok_def)

lemma fit_off: "fit K c t \<Longrightarrow> t_array t = None \<Longrightarrow> task_ok K t"
  by (simp add: fit_def task_ok_def queued_ok_def)

section \<open>Changing a field\<close>

lemma sched_inv_upd_rq:
  assumes "sched_inv K X s" and "rq_nr_running (f (rqs s c)) = rq_nr_running (rqs s c)"
    and "rq_active (f (rqs s c)) = rq_active (rqs s c)" and "rq_expired (f (rqs s c)) = rq_expired (rqs s c)"
  shows "sched_inv K X (upd_rq c f s)"
  using assms by (simp add: sched_inv_def rq_ok_def expired_array_def fun_upd_apply)

lemma sched_inv_upd_mm [simp]: "sched_inv K X (upd_mm m f s) = sched_inv K X s"
  by (simp add: sched_inv_def rq_ok_def expired_array_def)

lemma sched_inv_frame [simp]:
  "sched_inv K X (s\<lparr>jiffies := j\<rparr>) = sched_inv K X s" "sched_inv K X (s\<lparr>pidhash := h\<rparr>) = sched_inv K X s"
  "sched_inv K X (s\<lparr>kstat_user := k\<rparr>) = sched_inv K X s"
  "sched_inv K X (s\<lparr>kstat_nice := k\<rparr>) = sched_inv K X s"
  "sched_inv K X (s\<lparr>kstat_system := k\<rparr>) = sched_inv K X s"
  "sched_inv K X (s\<lparr>bug := x\<rparr>) = sched_inv K X s"
  by (simp_all add: sched_inv_def rq_ok_def expired_array_def load_def)

lemma sched_inv_upd_task:
  assumes "sched_inv K X s" and "t_array (f (tasks s p)) = t_array (tasks s p)"
    and "t_prio (f (tasks s p)) = t_prio (tasks s p)"
    and "p \<notin> X \<Longrightarrow> task_ok K (tasks s p) \<Longrightarrow> task_ok K (f (tasks s p))"
  shows "sched_inv K X (upd_task p f s)"
proof -
  have "q_inv K X (upd_task p f s)"
    using assms q_invD(7) [of K X s p] by (intro q_inv_upd_task_out) (auto simp: sched_inv_def)
  moreover have "rq_ok X (upd_task p f s) c" for c
    using sched_invD(2) [OF assms(1), of c] assms(2,3)
    by (simp add: rq_ok_def expired_array_def fun_upd_apply)
  ultimately show ?thesis by (simp add: sched_inv_def)
qed

lemma sched_inv_upd_task_in [simp]:
  assumes "p \<in> X"
  shows "sched_inv K X (upd_task p f s) = sched_inv K X s"
proof -
  have "((tasks s)(p := v)) r = tasks s r" if "r \<notin> X" for r v using assms that by auto
  then have "rq_ok X (upd_task p f s) c = rq_ok X s c" for c
    by (simp add: rq_ok_def expired_array_def del: fun_upd_apply)
  with assms show ?thesis by (simp add: sched_inv_def)
qed

text \<open>Fields that the invariant does not read at all.\<close>

lemma task_ok_irrelevant [simp]:
  "task_ok K (t\<lparr>t_state := v1\<rparr>) = task_ok K t"
  "task_ok K (t\<lparr>t_need_resched := v2\<rparr>) = task_ok K t"
  "task_ok K (t\<lparr>t_time_slice := v3\<rparr>) = task_ok K t"
  "task_ok K (t\<lparr>t_first_time_slice := v3\<rparr>) = task_ok K t"
  "task_ok K (t\<lparr>t_sleep_timestamp := v3\<rparr>) = task_ok K t"
  "task_ok K (t\<lparr>t_requested_time := v1\<rparr>) = task_ok K t"
  "task_ok K (t\<lparr>t_active_mm := v4\<rparr>) = task_ok K t"
  "task_ok K (t\<lparr>t_flags := v5\<rparr>) = task_ok K t"
  "task_ok K (t\<lparr>t_cpus_allowed := v3\<rparr>) = task_ok K t"
  "task_ok K (t\<lparr>t_cpus_allowed_mask := v3\<rparr>) = task_ok K t"
  "task_ok K (t\<lparr>t_rt_priority := v1\<rparr>) = task_ok K t"
  by (simp_all add: task_ok_def queued_ok_def policy_ok_def class_array_def)

lemma task_ok_sleep_avg:
  "task_ok K t \<Longrightarrow> uint w \<le> MAX_SLEEP_AVG K \<Longrightarrow> task_ok K (t\<lparr>t_sleep_avg := w\<rparr>)"
  by (auto simp: task_ok_def queued_ok_def policy_ok_def class_array_def)

lemma sched_inv_resched [simp]: "sched_inv K X s \<Longrightarrow> sched_inv K X (resched_task p s)"
  unfolding resched_task_def by (rule sched_inv_upd_task) simp_all

lemma sched_inv_state: "sched_inv K X s \<Longrightarrow> sched_inv K X (upd_task p (\<lambda>t. t\<lparr>t_state := v\<rparr>) s)"
  by (rule sched_inv_upd_task) simp_all

lemma sched_inv_insert_off:
  "sched_inv K X s \<Longrightarrow> t_array (tasks s p) = None \<Longrightarrow> sched_inv K (insert p X) s"
  by (auto simp: sched_inv_def rq_ok_def intro: q_inv_insert_off)

lemma sched_inv_remove_off:
  assumes "sched_inv K (insert p X) s" and "t_array (tasks s p) = None" and "task_ok K (tasks s p)"
  shows "sched_inv K X s"
proof -
  have "rq_ok X s c" for c
    using sched_invD(2) [OF assms(1), of c] assms(2) unfolding rq_ok_def
    by (metis insert_iff option.distinct(1))
  with assms show ?thesis by (auto simp: sched_inv_def intro: q_inv_remove_off)
qed

section \<open>Activation and deactivation\<close>

lemma sleep_credit_fields [simp]:
  "t_array (sleep_credit K w t) = t_array t" "t_cpu (sleep_credit K w t) = t_cpu t"
  "t_policy (sleep_credit K w t) = t_policy t" "t_is_short (sleep_credit K w t) = t_is_short t"
  "t_static_prio (sleep_credit K w t) = t_static_prio t" "t_state (sleep_credit K w t) = t_state t"
  "t_time_slice (sleep_credit K w t) = t_time_slice t" "t_mm (sleep_credit K w t) = t_mm t"
  "t_need_resched (sleep_credit K w t) = t_need_resched t"
  by (simp_all add: sleep_credit_def Let_def)

lemma sleep_credit_prio:
  "MAX_RT_PRIO \<le> t_prio (sleep_credit K w t)" "t_prio (sleep_credit K w t) \<le> MAX_PRIO - 1"
  by (simp_all add: sleep_credit_def Let_def effective_prio_def)

lemma activate_tasks [simp]:
  "tasks (activate_task K p c s) = (tasks s)(p :=
     (if \<not> rt_task (tasks s p) \<and> jiffies s - t_sleep_timestamp (tasks s p) \<noteq> 0 \<and>
         t_policy (tasks s p) \<noteq> SCHED_SHORT
      then sleep_credit K (jiffies s - t_sleep_timestamp (tasks s p)) (tasks s p)
      else tasks s p)
     \<lparr>t_array := Some (if t_policy (tasks s p) = SCHED_SHORT
                       then (if t_is_short (tasks s p) = 1 then (c, Short_active) else (c, Overdue))
                       else active_array c s)\<rparr>)"
  by (simp add: activate_task_def Let_def fun_eq_iff)

lemma activate_frame [simp, field_frame]:
  "mms (activate_task K p c s) = mms s" "pidhash (activate_task K p c s) = pidhash s"
  "jiffies (activate_task K p c s) = jiffies s"
  "rqs (activate_task K p c s) = (rqs s)(c := (rqs s c)\<lparr>rq_nr_running := rq_nr_running (rqs s c) + 1\<rparr>)"
  by (simp_all add: activate_task_def Let_def)

lemma deactivate_frame [simp, field_frame]:
  "tasks (deactivate_task K p c s) = (tasks s)(p := (tasks s p)\<lparr>t_array := None\<rparr>)"
  "mms (deactivate_task K p c s) = mms s" "pidhash (deactivate_task K p c s) = pidhash s"
  "jiffies (deactivate_task K p c s) = jiffies s"
  by (simp_all add: deactivate_task_def Let_def)

lemma deactivate_rq [simp]:
  "rq_nr_running (rqs (deactivate_task K p c s) d) = rq_nr_running (rqs s d) - (if d = c then 1 else 0)"
  "rq_active (rqs (deactivate_task K p c s) d) = rq_active (rqs s d)"
  "rq_expired (rqs (deactivate_task K p c s) d) = rq_expired (rqs s d)"
  "rq_curr (rqs (deactivate_task K p c s) d) = rq_curr (rqs s d)"
  "rq_idle (rqs (deactivate_task K p c s) d) = rq_idle (rqs s d)"
  "rq_nr_switches (rqs (deactivate_task K p c s) d) = rq_nr_switches (rqs s d)"
  "rq_expired_timestamp (rqs (deactivate_task K p c s) d) = rq_expired_timestamp (rqs s d)"
  by (simp_all add: deactivate_task_def Let_def)

lemma current_act [simp]:
  "current d (activate_task K p c s) = current d s"
  "current d (deactivate_task K p c s) = current d s"
  by (simp_all add: current_def)

lemma load_activate [simp]:
  "load (activate_task K p c s) d = load s d + (if d = c then 1 else 0)"
  by (simp add: activate_task_def Let_def active_array_def)

lemma load_deactivate [simp]:
  "load (deactivate_task K p c s) d =
    load s d - (if d = fst (the (t_array (tasks s p))) then 1 else 0)"
  by (simp add: deactivate_task_def Let_def)

context kernel_lib
begin

lemma sleep_credit_avg: "uint (t_sleep_avg (sleep_credit K w t)) \<le> MAX_SLEEP_AVG K"
proof -
  have M: "uint (word_of_int (MAX_SLEEP_AVG K) :: u32) = MAX_SLEEP_AVG K"
    using HZ_lower HZ_upper by (intro uint_word_of_int_small) (auto simp: MAX_SLEEP_AVG_def)
  show ?thesis
    using M by (auto simp: sleep_credit_def Let_def word_less_def not_less)
qed

lemma sleep_credit_fit:
  assumes "fit K c t" and "\<not> rt_task t" and "t_policy t \<noteq> SCHED_SHORT"
  shows "fit K c (sleep_credit K w t)"
  using assms sleep_credit_prio [of K w t] sleep_credit_avg [of w t]
  by (auto simp: fit_def policy_ok_def rt_task_def policy_consts)

lemma activate_inv:
  assumes inv: "sched_inv K (insert p X) s" and p: "p \<notin> X" and fit: "fit K c (tasks s p)"
  shows "sched_inv K X (activate_task K p c s)"
proof -
  let ?credit = "\<not> rt_task (tasks s p) \<and> jiffies s - t_sleep_timestamp (tasks s p) \<noteq> 0 \<and>
    t_policy (tasks s p) \<noteq> SCHED_SHORT"
  let ?s = "if ?credit then upd_task p (sleep_credit K (jiffies s - t_sleep_timestamp (tasks s p))) s else s"
  let ?a = "if t_policy (tasks s p) = SCHED_SHORT
    then (if t_is_short (tasks s p) = 1 then (c, Short_active) else (c, Overdue)) else active_array c s"
  note A = sched_invD [OF inv]
  have fst: "fst ?a = c" by (simp add: active_array_def)
  have cls: "class_array (tasks ?s p) (snd ?a)"
    using A(5) [of c] by (auto simp: class_array_def active_array_def)
  have "fit K c (tasks ?s p)" using fit by (auto intro: sleep_credit_fit)
  then have "task_ok K ((tasks ?s p)\<lparr>t_array := Some (c, snd ?a)\<rparr>)"
    using cls by (rule fit_task_ok)
  then have ok: "task_ok K ((tasks ?s p)\<lparr>t_array := Some ?a\<rparr>)"
    using fst by (metis prod.collapse)
  have "q_inv K (insert p X) ?s" using A(1) by simp
  then have "q_inv K X (enqueue_task K p ?a ?s)" using p ok by (rule enqueue_inv)
  then have "q_inv K X (activate_task K p c s)"
    by (simp add: activate_task_def Let_def)
  moreover have "rq_ok X (activate_task K p c s) d" for d
    using A(2) [of d] A(3,4) [of c] A(5,6) [of c] p unfolding rq_ok_def
    by (auto simp: expired_array_def active_array_def)
  ultimately show ?thesis by (simp add: sched_inv_def)
qed

lemma deactivate_inv:
  assumes inv: "sched_inv K X s" and p: "p \<notin> X" and a: "t_array (tasks s p) = Some (c, a)"
  shows "sched_inv K (insert p X) (deactivate_task K p c s)"
proof -
  note A = sched_invD [OF inv]
  have "q_inv K (insert p X) (dequeue_task K p (c, a) s')" if "tasks s' = tasks s" "arrays s' = arrays s" "lists s' = lists s" for s'
    using dequeue_inv [of X s' p "(c, a)"] q_inv_cong [of s' s K X] A(1) p a that by simp
  then have "q_inv K (insert p X) (deactivate_task K p c s)"
    using a by (simp add: deactivate_task_def Let_def)
  moreover have "rq_ok (insert p X) (deactivate_task K p c s) d" for d
    using A(2) [of d] a unfolding rq_ok_def by (auto simp: expired_array_def)
  ultimately show ?thesis by (simp add: sched_inv_def)
qed

text \<open>Moving a task between the arrays of its CPU, with a change of its fields in between.\<close>

lemma move_inv:
  assumes inv: "sched_inv K X s" and p: "p \<notin> X" and a: "t_array (tasks s p) = Some (c, a)"
    and fit: "fit K c (f (tasks s p))" and cls: "class_array (f (tasks s p)) b"
    and rt: "b = rq_expired (rqs s c) \<Longrightarrow> MAX_RT_PRIO \<le> t_prio (f (tasks s p))"
  shows "sched_inv K X (enqueue_task K p (c, b) (upd_task p f (dequeue_task K p (c, a) s)))"
proof -
  note A = sched_invD [OF inv]
  let ?s = "upd_task p f (dequeue_task K p (c, a) s)"
  have "q_inv K (insert p X) ?s" using dequeue_inv [OF A(1) p a] by simp
  moreover have "task_ok K ((tasks ?s p)\<lparr>t_array := Some (c, b)\<rparr>)"
    using fit_task_ok [OF fit cls] by simp
  ultimately have "q_inv K X (enqueue_task K p (c, b) ?s)" using p by (intro enqueue_inv) auto
  moreover have "rq_ok X (enqueue_task K p (c, b) ?s) d" for d
    using A(2) [of d] a rt unfolding rq_ok_def by (auto simp: expired_array_def)
  ultimately show ?thesis by (simp add: sched_inv_def)
qed

lemma requeue_inv:
  assumes "sched_inv K X s" and "p \<notin> X" and "t_array (tasks s p) = Some (c, a)"
  shows "sched_inv K X (enqueue_task K p (c, a) (dequeue_task K p (c, a) s))"
proof -
  note A = sched_invD [OF assms(1)]
  have "q_inv K X (enqueue_task K p (c, a) (dequeue_task K p (c, a) s))"
    by (rule ra.requeue_ok [OF A(1) assms(2,3)])
  moreover have "rq_ok X (enqueue_task K p (c, a) (dequeue_task K p (c, a) s)) d" for d
    using A(2) [of d] assms(3) unfolding rq_ok_def by (auto simp: expired_array_def)
  ultimately show ?thesis by (simp add: sched_inv_def)
qed

end

end
