(* ===== verification/Load_Balance.thy ===== *)
theory Load_Balance imports Runqueue_Inv begin

text \<open>
  Load balancing between runqueues (the SMP build): \<^verbatim>\<open>double_lock_balance\<close>, \<^verbatim>\<open>load_balance\<close>
  and \<^verbatim>\<open>idle_tick\<close>. The walk of one queue from its tail towards its head is a recursion over
  the reversed contents of the queue: \<^verbatim>\<open>curr = curr->prev\<close> is read before the task is taken
  off, and pulled tasks join another CPU's lists. The walk over the bitmap has a fuel
  argument; \<open>pull_levels_returns\<close> shows that \<open>MAX_PRIO + 1\<close> steps are always enough.
  The argument \<open>trylock\<close> is the outcome of \<^verbatim>\<open>spin_trylock\<close> on the busiest runqueue.
\<close>

definition CAN_MIGRATE_TASK :: "('l, 'b) klib \<Rightarrow> tptr \<Rightarrow> cpu \<Rightarrow> cpu \<Rightarrow> ('l, 'b) sched \<Rightarrow> bool" where
  "CAN_MIGRATE_TASK K p rq this_cpu s \<longleftrightarrow>
     jiffies s - t_sleep_timestamp (tasks s p) > k_cache_decay_ticks K \<and>
     p \<noteq> rq_curr (rqs s rq) \<and>
     (t_cpus_allowed (tasks s p) AND push_bit this_cpu 1) \<noteq> 0"

text \<open>One task is moved from \<open>array\<close> of the busiest runqueue to the active array of this one.\<close>

definition pull_task :: "('l, 'b) klib \<Rightarrow> cpu \<Rightarrow> cpu \<Rightarrow> aid \<Rightarrow> tptr \<Rightarrow> ('l, 'b) sched \<Rightarrow> ('l, 'b) sched" where
  "pull_task K this_cpu busiest array p s =
     (let s = dequeue_task K p array s;
          s = upd_rq busiest (\<lambda>r. r\<lparr>rq_nr_running := rq_nr_running r - 1\<rparr>) s;
          s = upd_task p (\<lambda>t. t\<lparr>t_cpu := this_cpu\<rparr>) s;
          s = upd_rq this_cpu (\<lambda>r. r\<lparr>rq_nr_running := rq_nr_running r + 1\<rparr>) s;
          s = enqueue_task K p (active_array this_cpu s) s
      in if t_prio (tasks s p) < t_prio (tasks s (current this_cpu s))
         then upd_task (current this_cpu s) (\<lambda>t. t\<lparr>t_need_resched := True\<rparr>) s else s)"

text \<open>\<^verbatim>\<open>skip_queue\<close>: the result says whether to stop, with what is left of the imbalance.\<close>

fun pull_queue ::
  "('l, 'b) klib \<Rightarrow> cpu \<Rightarrow> cpu \<Rightarrow> aid \<Rightarrow> bool \<Rightarrow> tptr list \<Rightarrow> int \<Rightarrow> ('l, 'b) sched \<Rightarrow>
    bool \<times> int \<times> ('l, 'b) sched" where
  "pull_queue K this_cpu busiest array idle [] imbalance s = (False, imbalance, s)"
| "pull_queue K this_cpu busiest array idle (tmp # prevs) imbalance s =
     (if \<not> CAN_MIGRATE_TASK K tmp busiest this_cpu s
      then pull_queue K this_cpu busiest array idle prevs imbalance s
      else (let s = pull_task K this_cpu busiest array tmp s
            in if \<not> idle \<and> imbalance - 1 \<noteq> 0
               then pull_queue K this_cpu busiest array idle prevs (imbalance - 1) s
               else (True, imbalance - 1, s)))"

text \<open>\<^verbatim>\<open>skip_bitmap\<close>: the set bits of the array from \<open>idx\<close> on, in increasing order.\<close>

fun pull_levels ::
  "nat \<Rightarrow> ('l, 'b) klib \<Rightarrow> cpu \<Rightarrow> cpu \<Rightarrow> aid \<Rightarrow> bool \<Rightarrow> int \<Rightarrow> int \<Rightarrow> ('l, 'b) sched \<Rightarrow>
    (bool \<times> int \<times> ('l, 'b) sched) option" where
  "pull_levels 0 K this_cpu busiest array idle idx imbalance s = None"
| "pull_levels (Suc fuel) K this_cpu busiest array idle idx imbalance s =
     (let bits = bitmap (arrays s array);
          idx = (if idx = 0 then k_find_first_bit K bits else k_find_next_bit K bits MAX_PRIO idx)
      in if idx = MAX_PRIO then Some (False, imbalance, s)
         else (case pull_queue K this_cpu busiest array idle (rev (queue K s (array, idx))) imbalance s of
                 (True, imbalance, s) \<Rightarrow> Some (True, imbalance, s)
               | (False, imbalance, s) \<Rightarrow>
                   pull_levels fuel K this_cpu busiest array idle (idx + 1) imbalance s))"

text \<open>\<^verbatim>\<open>new_array\<close>: the expired array first, if it has tasks, then the active one.\<close>

definition pull_tasks ::
  "('l, 'b) klib \<Rightarrow> cpu \<Rightarrow> cpu \<Rightarrow> bool \<Rightarrow> int \<Rightarrow> ('l, 'b) sched \<Rightarrow> ('l, 'b) sched" where
  "pull_tasks K this_cpu busiest idle imbalance s =
     (let fuel = nat MAX_PRIO + 1 in
      if nr_active (arrays s (expired_array busiest s)) \<noteq> 0
      then (case the (pull_levels fuel K this_cpu busiest (expired_array busiest s) idle 0 imbalance s) of
              (True, _, s) \<Rightarrow> s
            | (False, imbalance, s) \<Rightarrow>
                snd (snd (the (pull_levels fuel K this_cpu busiest (active_array busiest s) idle 0 imbalance s))))
      else snd (snd (the (pull_levels fuel K this_cpu busiest (active_array busiest s) idle 0 imbalance s))))"

text \<open>The length of this runqueue: the larger of the current and the previous one, unless idle.\<close>

definition this_length :: "cpu \<Rightarrow> bool \<Rightarrow> ('l, 'b) sched \<Rightarrow> int" where
  "this_length this_cpu idle s =
     (let r = rqs s this_cpu
      in if idle \<or> rq_nr_running r > rq_prev_nr_running r this_cpu then rq_nr_running r
         else rq_prev_nr_running r this_cpu)"

definition double_lock_balance :: "bool \<Rightarrow> cpu \<Rightarrow> cpu \<Rightarrow> bool \<Rightarrow> int \<Rightarrow> ('l, 'b) sched \<Rightarrow> int" where
  "double_lock_balance trylock this_cpu busiest idle nr s =
     (if \<not> trylock \<and> busiest < this_cpu then this_length this_cpu idle s else nr)"

text \<open>One round of the search for the busiest runqueue.\<close>

definition scan_cpu ::
  "cpu \<Rightarrow> bool \<Rightarrow> cpu \<Rightarrow> cpu option \<times> int \<times> ('l, 'b) sched \<Rightarrow> cpu option \<times> int \<times> ('l, 'b) sched" where
  "scan_cpu this_cpu idle logical = (\<lambda>(busiest, max_load, s).
     (let src = rq_nr_running (rqs s logical);
          prev = rq_prev_nr_running (rqs s this_cpu) logical;
          cpu_load = (if idle \<or> src < prev then src else prev);
          s = upd_rq this_cpu (\<lambda>r. r\<lparr>rq_prev_nr_running := (rq_prev_nr_running r)(logical := src)\<rparr>) s
      in if cpu_load > max_load \<and> logical \<noteq> this_cpu then (Some logical, cpu_load, s)
         else (busiest, max_load, s)))"

definition find_busiest ::
  "('l, 'b) klib \<Rightarrow> cpu \<Rightarrow> bool \<Rightarrow> ('l, 'b) sched \<Rightarrow> cpu option \<times> int \<times> ('l, 'b) sched" where
  "find_busiest K this_cpu idle s =
     fold (\<lambda>i. scan_cpu this_cpu idle (k_cpu_logical_map K i)) [0..<k_smp_num_cpus K] (None, 1, s)"

definition load_balance ::
  "('l, 'b) klib \<Rightarrow> bool \<Rightarrow> cpu \<Rightarrow> bool \<Rightarrow> ('l, 'b) sched \<Rightarrow> ('l, 'b) sched" where
  "load_balance K trylock this_cpu idle s =
     (let nr = this_length this_cpu idle s in
      case find_busiest K this_cpu idle s of
        (None, max_load, s) \<Rightarrow> s
      | (Some busiest, max_load, s) \<Rightarrow>
          (let imbalance = (max_load - nr) sdiv 2
           in if \<not> idle \<and> imbalance < (max_load + 3) sdiv 4 then s
              else (let nr = double_lock_balance trylock this_cpu busiest idle nr s
                    in if rq_nr_running (rqs s busiest) \<le> nr + 1 then s
                       else pull_tasks K this_cpu busiest idle imbalance s)))"

definition BUSY_REBALANCE_TICK :: "('l, 'b) klib \<Rightarrow> u32" where
  "BUSY_REBALANCE_TICK K = (if k_HZ K sdiv 4 \<noteq> 0 then word_of_int (k_HZ K sdiv 4) else 1)"

definition IDLE_REBALANCE_TICK :: "('l, 'b) klib \<Rightarrow> u32" where
  "IDLE_REBALANCE_TICK K = (if k_HZ K sdiv 1000 \<noteq> 0 then word_of_int (k_HZ K sdiv 1000) else 1)"

definition idle_tick :: "('l, 'b) klib \<Rightarrow> bool \<Rightarrow> cpu \<Rightarrow> ('l, 'b) sched \<Rightarrow> ('l, 'b) sched" where
  "idle_tick K trylock me s =
     (if jiffies s mod IDLE_REBALANCE_TICK K \<noteq> 0 then s else load_balance K trylock me True s)"

section \<open>What balancing may do\<close>

text \<open>
  The contract of \<^verbatim>\<open>load_balance\<close>: a sequence of steps, each of which notes the length of a
  runqueue, or pulls one queued task that \<^verbatim>\<open>CAN_MIGRATE_TASK\<close> allows off another CPU.
\<close>

inductive migrate :: "('l, 'b) klib \<Rightarrow> cpu \<Rightarrow> ('l, 'b) sched \<Rightarrow> ('l, 'b) sched \<Rightarrow> bool"
  for K :: "('l, 'b) klib" and me :: cpu where
  note_length: "migrate K me s (upd_rq me (\<lambda>r. r\<lparr>rq_prev_nr_running := f r\<rparr>) s)"
| pull: "p \<in> set (queue K s (a, i)) \<Longrightarrow> a = active_array b s \<or> a = expired_array b s \<Longrightarrow> b \<noteq> me \<Longrightarrow>
    CAN_MIGRATE_TASK K p b me s \<Longrightarrow> migrate K me s (pull_task K me b a p s)"

inductive_cases migrateE: "migrate K me s s'"

section \<open>Balancing keeps the invariant\<close>

lemma scan_cpu_keeps:
  assumes "scan_cpu me idle l (b, m, s) = (b', m', s')"
  shows "sched_inv K X s \<Longrightarrow> sched_inv K X s'" and "tasks s' = tasks s" and "lists s' = lists s"
    and "arrays s' = arrays s" and "current c s' = current c s" and "rq_idle (rqs s' c) = rq_idle (rqs s c)"
    and "b \<noteq> Some me \<Longrightarrow> b' \<noteq> Some me" and "(migrate L me)\<^sup>*\<^sup>* s s'"
proof -
  show "(migrate L me)\<^sup>*\<^sup>* s s'"
    using assms note_length [of L me s] by (auto simp: scan_cpu_def Let_def split: if_splits)
qed (use assms in \<open>auto simp: scan_cpu_def Let_def current_def split: if_splits intro!: sched_inv_upd_rq\<close>)

lemma find_busiest_keeps:
  assumes "find_busiest K me idle s = (b, m, s')"
  shows "sched_inv L X s \<Longrightarrow> sched_inv L X s'" and "tasks s' = tasks s"
    and "current c s' = current c s" and "rq_idle (rqs s' c) = rq_idle (rqs s c)" and "b \<noteq> Some me"
    and "(migrate L me)\<^sup>*\<^sup>* s s'"
proof -
  have "(sched_inv L X s \<longrightarrow> sched_inv L X s2) \<and> tasks s2 = tasks s \<and> current c s2 = current c s \<and>
      rq_idle (rqs s2 c) = rq_idle (rqs s c) \<and> b2 \<noteq> Some me \<and> (migrate L me)\<^sup>*\<^sup>* s s2"
    if "fold (\<lambda>i. scan_cpu me idle (k_cpu_logical_map K i)) is (b1, m1, s1) = (b2, m2, s2)"
      "sched_inv L X s \<longrightarrow> sched_inv L X s1" "tasks s1 = tasks s" "current c s1 = current c s"
      "rq_idle (rqs s1 c) = rq_idle (rqs s c)" "b1 \<noteq> Some me" "(migrate L me)\<^sup>*\<^sup>* s s1" for "is" b1 m1 s1 b2 m2 s2
    using that
  proof (induction "is" arbitrary: b1 m1 s1)
    case (Cons i "is")
    obtain b3 m3 s3 where step: "scan_cpu me idle (k_cpu_logical_map K i) (b1, m1, s1) = (b3, m3, s3)"
      by (metis prod_cases3)
    show ?case
      using Cons.prems scan_cpu_keeps [OF step] by (intro Cons.IH [of b3 m3 s3]) (auto simp: step intro: rtranclp_trans)
  qed simp
  from this [of _ None 1 s b m s'] assms
  show "sched_inv L X s \<Longrightarrow> sched_inv L X s'" "tasks s' = tasks s" "current c s' = current c s"
    "rq_idle (rqs s' c) = rq_idle (rqs s c)" "b \<noteq> Some me" "(migrate L me)\<^sup>*\<^sup>* s s'"
    unfolding find_busiest_def by auto
qed

lemma pull_task_frame [simp]:
  "rq_curr (rqs (pull_task K me b a p s) c) = rq_curr (rqs s c)"
  "rq_idle (rqs (pull_task K me b a p s) c) = rq_idle (rqs s c)"
  "rq_active (rqs (pull_task K me b a p s) c) = rq_active (rqs s c)"
  "rq_expired (rqs (pull_task K me b a p s) c) = rq_expired (rqs s c)"
  "jiffies (pull_task K me b a p s) = jiffies s"
  by (simp_all add: pull_task_def Let_def)

lemma pull_task_tasks:
  "t_array (tasks (pull_task K me b a p s) r) = (if r = p then Some (active_array me s) else t_array (tasks s r))"
  "t_state (tasks (pull_task K me b a p s) r) = t_state (tasks s r)"
  "t_prio (tasks (pull_task K me b a p s) r) = t_prio (tasks s r)"
  by (auto simp: pull_task_def Let_def active_array_def)

context kernel_lib
begin

lemma pull_task_inv:
  assumes inv: "sched_inv K X s" and p: "p \<in> set (queue K s (a, i))"
    and a: "a = (b, rq_active (rqs s b)) \<or> a = (b, rq_expired (rqs s b))"
  shows "sched_inv K X (pull_task K me b a p s)"
    and "i' \<noteq> i \<or> b \<noteq> me \<Longrightarrow> queue K (pull_task K me b a p s) (a, i') =
      (if i' = i then remove1 p (queue K s (a, i)) else queue K s (a, i'))"
proof -
  note A = sched_invD [OF inv] and Q = q_invD [OF sched_invD(1) [OF inv]]
  have p': "p \<notin> X" "t_array (tasks s p) = Some a" "t_prio (tasks s p) = i" using p Q(1) by auto
  let ?s = "upd_rq me (\<lambda>r. r\<lparr>rq_nr_running := rq_nr_running r + 1\<rparr>)
    (upd_task p (\<lambda>t. t\<lparr>t_cpu := me\<rparr>)
      (upd_rq b (\<lambda>r. r\<lparr>rq_nr_running := rq_nr_running r - 1\<rparr>) (dequeue_task K p a s)))"
  let ?t = "enqueue_task K p (active_array me s) ?s"
  have eq: "pull_task K me b a p s =
    (if t_prio (tasks ?t p) < t_prio (tasks ?t (current me ?t))
     then upd_task (current me ?t) (\<lambda>t. t\<lparr>t_need_resched := True\<rparr>) ?t else ?t)"
    by (simp add: pull_task_def Let_def active_array_def)
  have cls: "class_array (tasks s p) (snd a)" and ok: "task_ok K (tasks s p)"
    using q_inv_queued(5) [OF A(1) p'(1,2)] Q(7) p'(1) by auto
  then have fit: "fit K (fst a) (tasks s p)"
    using p'(2) by (cases a) (auto intro: queued_fit)
  have notshort: "t_policy (tasks s p) \<noteq> SCHED_SHORT"
    using cls a A(5,6) [of b] by (auto simp: class_array_def split: if_splits)
  have "q_inv K (insert p X) ?s" using dequeue_inv [OF A(1) p'(1,2)] by simp
  moreover have "task_ok K ((tasks ?s p)\<lparr>t_array := Some (active_array me s)\<rparr>)"
  proof -
    have "fit K me ((tasks s p)\<lparr>t_cpu := me\<rparr>)"
      using fit by (simp add: fit_def policy_ok_def)
    moreover have "class_array ((tasks s p)\<lparr>t_cpu := me\<rparr>) (rq_active (rqs s me))"
      using notshort A(5) [of me] by (auto simp: class_array_def)
    ultimately show ?thesis using fit_task_ok by (simp add: active_array_def)
  qed
  ultimately have q: "q_inv K X ?t" using p'(1) by (intro enqueue_inv) auto
  have "rq_ok X ?t c" for c
    using A(2) [of c] A(4) [of me] A(2) [of b] a p'(2) unfolding rq_ok_def
    by (auto simp: expired_array_def active_array_def)
  with q have t: "sched_inv K X ?t" by (simp add: sched_inv_def)
  then show "sched_inv K X (pull_task K me b a p s)"
    unfolding eq by (auto intro!: sched_inv_upd_task)
  show "queue K (pull_task K me b a p s) (a, i') =
      (if i' = i then remove1 p (queue K s (a, i)) else queue K s (a, i'))"
    if "i' \<noteq> i \<or> b \<noteq> me"
  proof -
    have "queue K ?t (a, i') = (if i' = i then remove1 p (queue K s (a, i)) else queue K s (a, i'))"
      using queue_enqueue [OF \<open>q_inv K (insert p X) ?s\<close>, of p "active_array me s"]
        queue_dequeue [OF A(1) p'(1,2)] that a p'(3) by (auto simp: active_array_def)
    then show ?thesis unfolding eq by (cases "i' = i") simp_all
  qed
qed

lemma pull_queue_inv:
  assumes "sched_inv K X s" and "b \<noteq> me"
    and "a = (b, rq_active (rqs s b)) \<or> a = (b, rq_expired (rqs s b))"
    and "distinct tmps" and "set tmps \<subseteq> set (queue K s (a, i))"
    and "pull_queue K me b a idle tmps m s = (done, m', s')"
  shows "sched_inv K X s' \<and> rq_active (rqs s' b) = rq_active (rqs s b) \<and>
    rq_expired (rqs s' b) = rq_expired (rqs s b) \<and> (migrate K me)\<^sup>*\<^sup>* s s'"
  using assms
proof (induction tmps arbitrary: m s)
  case (Cons tmp prevs)
  show ?case
  proof (cases "CAN_MIGRATE_TASK K tmp b me s")
    case False
    with Cons.prems(6) have "pull_queue K me b a idle prevs m s = (done, m', s')" by simp
    then show ?thesis using Cons.prems by (intro Cons.IH) simp_all
  next
    case True
    let ?s = "pull_task K me b a tmp s"
    have tmp: "tmp \<in> set (queue K s (a, i))" using Cons.prems by simp
    have inv: "sched_inv K X ?s"
      by (rule pull_task_inv(1) [OF Cons.prems(1) tmp Cons.prems(3)])
    have step: "migrate K me s ?s"
      using migrate.pull [OF tmp _ Cons.prems(2) True] Cons.prems(3)
      by (simp add: active_array_def expired_array_def)
    have "queue K ?s (a, i) = remove1 tmp (queue K s (a, i))"
      using pull_task_inv(2) [OF Cons.prems(1) tmp Cons.prems(3), where me = me and i' = i] Cons.prems(2) by simp
    moreover have "distinct (queue K s (a, i))"
      using Cons.prems(1) by (auto simp: sched_inv_def q_invD)
    ultimately have rest: "set prevs \<subseteq> set (queue K ?s (a, i))"
      using Cons.prems(4,5) by auto
    show ?thesis
    proof (cases "\<not> idle \<and> m - 1 \<noteq> 0")
      case go: True
      have "pull_queue K me b a idle prevs (m - 1) ?s = (done, m', s')"
        using Cons.prems(6) True go by (simp add: Let_def)
      then show ?thesis
        using Cons.IH [OF inv Cons.prems(2) _ _ rest] Cons.prems(3,4) step
        by (auto intro: converse_rtranclp_into_rtranclp)
    next
      case False
      with True Cons.prems(6) inv step show ?thesis by (auto simp: Let_def)
    qed
  qed
qed simp

lemma pull_levels_returns:
  assumes "sched_inv K X s" and "b \<noteq> me"
    and "a = (b, rq_active (rqs s b)) \<or> a = (b, rq_expired (rqs s b))"
    and "0 \<le> idx" and "idx \<le> MAX_PRIO" and "nat (MAX_PRIO - idx) < fuel"
  shows "\<exists>stop m' s'. pull_levels fuel K me b a idle idx m s = Some (stop, m', s') \<and>
    sched_inv K X s' \<and> rq_active (rqs s' b) = rq_active (rqs s b) \<and>
    rq_expired (rqs s' b) = rq_expired (rqs s b) \<and> (migrate K me)\<^sup>*\<^sup>* s s'"
  using assms
proof (induction fuel arbitrary: idx m s)
  case (Suc fuel)
  let ?bits = "bitmap (arrays s a)"
  let ?idx = "if idx = 0 then k_find_first_bit K ?bits else k_find_next_bit K ?bits MAX_PRIO idx"
  have inv: "q_inv K X s" using Suc.prems(1) by (rule sched_invD)
  have delim: "k_test_bit K ?bits MAX_PRIO" by (rule q_invD(4) [OF inv])
  have idx: "idx \<le> ?idx" "?idx \<le> MAX_PRIO"
    using find_first_bit_least(2,3) [OF delim] find_next_bit_least(2,3) [OF delim] Suc.prems(4,5) by auto
  show ?case
  proof (cases "?idx = MAX_PRIO")
    case True
    with Suc.prems(1) show ?thesis by (auto simp: Let_def simp del: MAX_PRIO_eq)
  next
    case False
    obtain stop m1 s1 where pull:
      "pull_queue K me b a idle (rev (queue K s (a, ?idx))) m s = (stop, m1, s1)"
      by (metis prod_cases3)
    have s1: "sched_inv K X s1 \<and> rq_active (rqs s1 b) = rq_active (rqs s b) \<and>
        rq_expired (rqs s1 b) = rq_expired (rqs s b) \<and> (migrate K me)\<^sup>*\<^sup>* s s1"
    proof (rule pull_queue_inv [OF Suc.prems(1-3) _ _ pull, where i = ?idx])
      show "distinct (rev (queue K s (a, ?idx)))" by (simp add: q_invD(2) [OF inv])
    qed (simp only: set_rev subset_refl)
    have unfold: "pull_levels (Suc fuel) K me b a idle idx m s = (if stop then Some (True, m1, s1)
        else pull_levels fuel K me b a idle (?idx + 1) m1 s1)"
      using False pull by (simp only: pull_levels.simps Let_def if_False prod.case) simp
    show ?thesis
    proof (cases stop)
      case True
      with s1 show ?thesis unfolding unfold by auto
    next
      case go: False
      have "\<exists>stop m' s'. pull_levels fuel K me b a idle (?idx + 1) m1 s1 = Some (stop, m', s') \<and>
          sched_inv K X s' \<and> rq_active (rqs s' b) = rq_active (rqs s1 b) \<and>
          rq_expired (rqs s' b) = rq_expired (rqs s1 b) \<and> (migrate K me)\<^sup>*\<^sup>* s1 s'"
        using s1 Suc.prems idx False by (intro Suc.IH) auto
      with s1 go show ?thesis unfolding unfold by auto
    qed
  qed
qed simp

lemma pull_tasks_inv:
  assumes "sched_inv K X s" and "b \<noteq> me"
  shows "sched_inv K X (pull_tasks K me b idle m s) \<and> (migrate K me)\<^sup>*\<^sup>* s (pull_tasks K me b idle m s)"
proof -
  let ?fuel = "nat MAX_PRIO + 1"
  have act: "\<exists>stop m' s'. pull_levels ?fuel K me b (active_array b t) idle 0 m t = Some (stop, m', s') \<and>
      sched_inv K X s' \<and> (migrate K me)\<^sup>*\<^sup>* t s'" if "sched_inv K X t" for t m
    using pull_levels_returns [OF that assms(2), of "active_array b t" 0 ?fuel idle m]
    by (auto simp: active_array_def)
  obtain stop m1 s1 where exp: "pull_levels ?fuel K me b (expired_array b s) idle 0 m s = Some (stop, m1, s1)"
    "sched_inv K X s1" "(migrate K me)\<^sup>*\<^sup>* s s1"
    using pull_levels_returns [OF assms, of "expired_array b s" 0 ?fuel idle m]
    by (auto simp: expired_array_def)
  obtain stop2 m2 s2 where act1: "pull_levels ?fuel K me b (active_array b s1) idle 0 m1 s1 = Some (stop2, m2, s2)"
    "sched_inv K X s2" "(migrate K me)\<^sup>*\<^sup>* s1 s2" using act [OF exp(2)] by blast
  obtain stop3 m3 s3 where act0: "pull_levels ?fuel K me b (active_array b s) idle 0 m s = Some (stop3, m3, s3)"
    "sched_inv K X s3" "(migrate K me)\<^sup>*\<^sup>* s s3" using act [OF assms(1)] by blast
  show ?thesis
    using exp act1 act0 rtranclp_trans [OF exp(3) act1(3)]
    by (cases stop) (simp_all add: pull_tasks_def Let_def)
qed

lemma load_balance_migrates:
  assumes "sched_inv K X s"
  shows "sched_inv K X (load_balance K lk me idle s) \<and> (migrate K me)\<^sup>*\<^sup>* s (load_balance K lk me idle s)"
proof -
  obtain b m s1 where busiest: "find_busiest K me idle s = (b, m, s1)" by (metis prod_cases3)
  note F = find_busiest_keeps [OF busiest]
  show ?thesis
  proof (cases b)
    case None
    with F(1) [OF assms] F(6) busiest show ?thesis by (simp add: load_balance_def)
  next
    case (Some c)
    with F(5) have "c \<noteq> me" by simp
    note P = pull_tasks_inv [OF F(1) [OF assms] \<open>c \<noteq> me\<close>]
    have "(migrate K me)\<^sup>*\<^sup>* s (pull_tasks K me c idle n s1)" for n
      using F(6) P [of idle n] by (meson rtranclp_trans)
    with F(1) [OF assms] F(6) P Some busiest show ?thesis
      by (auto simp: load_balance_def Let_def)
  qed
qed

lemma load_balance_inv: "sched_inv K X s \<Longrightarrow> sched_inv K X (load_balance K lk me idle s)"
  by (simp add: load_balance_migrates)

lemma idle_tick_migrates:
  "sched_inv K X s \<Longrightarrow> sched_inv K X (idle_tick K lk me s) \<and> (migrate K me)\<^sup>*\<^sup>* s (idle_tick K lk me s)"
  by (simp add: idle_tick_def load_balance_migrates)

lemma idle_tick_inv: "sched_inv K X s \<Longrightarrow> sched_inv K X (idle_tick K lk me s)"
  by (simp add: idle_tick_migrates)

end

section \<open>What balancing leaves alone\<close>

text \<open>
  A migration leaves the task each CPU runs where it is, keeps the sleepers asleep, changes no
  state or priority, and asks no task but the one running here to reschedule.
\<close>

lemma migrate_keeps:
  assumes "migrate K me s s'"
  shows "current c s' = current c s" and "rq_idle (rqs s' c) = rq_idle (rqs s c)"
    and "t_state (tasks s' q) = t_state (tasks s q)" and "t_prio (tasks s' q) = t_prio (tasks s q)"
    and "t_need_resched (tasks s' q) \<Longrightarrow> t_need_resched (tasks s q) \<or> q = current me s"
    and "t_policy (tasks s' q) = t_policy (tasks s q)" and "mms s' = mms s"
    and "t_mm (tasks s' q) = t_mm (tasks s q)" and "t_active_mm (tasks s' q) = t_active_mm (tasks s q)"
    and "jiffies s' = jiffies s" and "rq_active (rqs s' c) = rq_active (rqs s c)"
    and "rq_expired (rqs s' c) = rq_expired (rqs s c)"
  using assms by (elim migrateE; auto simp: pull_task_def Let_def current_def active_array_def split: if_splits)+

lemma migrate_arrays:
  assumes "migrate K me s s'" and "q_inv K X s"
  shows "t_array (tasks s' q) = None \<longleftrightarrow> t_array (tasks s q) = None"
    and "\<forall>c a. q = current c s \<longrightarrow> t_array (tasks s q) = Some (c, a) \<longrightarrow> t_array (tasks s' q) = Some (c, a)"
    and "\<forall>a. t_array (tasks s q) = Some (me, a) \<longrightarrow> t_array (tasks s' q) = Some (me, a)"
  using assms
  by (elim migrateE; auto simp: pull_task_tasks active_array_def expired_array_def q_invD(1)
      CAN_MIGRATE_TASK_def current_def)+

lemma migrations_keep_all:
  assumes "(migrate K me)\<^sup>*\<^sup>* s s'"
  shows "current me s' = current me s \<and> current c s' = current c s \<and>
    rq_idle (rqs s' c) = rq_idle (rqs s c) \<and>
    t_state (tasks s' q) = t_state (tasks s q) \<and>
    t_prio (tasks s' q) = t_prio (tasks s q) \<and>
    (t_need_resched (tasks s' q) \<longrightarrow> t_need_resched (tasks s q) \<or> q = current me s) \<and>
    t_policy (tasks s' q) = t_policy (tasks s q) \<and>
    mms s' = mms s \<and>
    t_mm (tasks s' q) = t_mm (tasks s q) \<and>
    t_active_mm (tasks s' q) = t_active_mm (tasks s q) \<and>
    jiffies s' = jiffies s \<and>
    rq_active (rqs s' c) = rq_active (rqs s c) \<and>
    rq_expired (rqs s' c) = rq_expired (rqs s c)"
  using assms
proof (induction rule: rtranclp_induct)
  case (step y z)
  then show ?case
    using migrate_keeps [OF step.hyps(2)] by (auto dest: migrate_keeps(5) [OF step.hyps(2)])
qed simp

lemma migrations_keep:
  assumes "(migrate K me)\<^sup>*\<^sup>* s s'"
  shows "current c s' = current c s" and "rq_idle (rqs s' c) = rq_idle (rqs s c)"
    and "t_state (tasks s' q) = t_state (tasks s q)" and "t_prio (tasks s' q) = t_prio (tasks s q)"
    and "t_need_resched (tasks s' q) \<Longrightarrow> t_need_resched (tasks s q) \<or> q = current me s"
    and "t_policy (tasks s' q) = t_policy (tasks s q)" and "mms s' = mms s"
    and "t_mm (tasks s' q) = t_mm (tasks s q)" and "t_active_mm (tasks s' q) = t_active_mm (tasks s q)"
    and "jiffies s' = jiffies s" and "rq_active (rqs s' c) = rq_active (rqs s c)"
    and "rq_expired (rqs s' c) = rq_expired (rqs s c)"
  using migrations_keep_all [OF assms] by blast+

context kernel_lib
begin

lemma migrate_inv: "migrate K me s s' \<Longrightarrow> sched_inv K X s \<Longrightarrow> sched_inv K X s'"
  by (elim migrateE) (auto simp: active_array_def expired_array_def intro: pull_task_inv(1) sched_inv_upd_rq)

lemma migrations_inv:
  assumes "(migrate K me)\<^sup>*\<^sup>* s s'" and "sched_inv K X s"
  shows "sched_inv K X s' \<and> (t_array (tasks s' q) = None \<longleftrightarrow> t_array (tasks s q) = None) \<and>
    (\<forall>c a. q = current c s \<longrightarrow> t_array (tasks s q) = Some (c, a) \<longrightarrow> t_array (tasks s' q) = Some (c, a)) \<and>
    (\<forall>a. t_array (tasks s q) = Some (me, a) \<longrightarrow> t_array (tasks s' q) = Some (me, a))"
  using assms
proof (induction rule: rtranclp_induct)
  case (step y z)
  then have y: "sched_inv K X y" by simp
  have "current c y = current c s" for c by (rule migrations_keep [OF step.hyps(1)])
  with step migrate_inv [OF step.hyps(2) y] migrate_arrays [OF step.hyps(2) sched_invD(1) [OF y]]
  show ?case by simp
qed simp

lemma migrations_cpu_ok:
  assumes "(migrate K me)\<^sup>*\<^sup>* s s'" and "sched_inv K X s" and "cpu_ok X s c"
  shows "cpu_ok X s' c"
  using assms(3) migrations_inv [OF assms(1,2)] migrations_keep [OF assms(1)]
  unfolding cpu_ok_def by auto

end

end
