(* ===== verification/Sched_Tick.thy ===== *)
theory Sched_Tick imports Load_Balance begin

text \<open>
  \<^verbatim>\<open>scheduler_tick\<close>: what the timer interrupt does to the running task. The argument \<open>irq\<close>
  is the value of \<^verbatim>\<open>local_bh_count(cpu) || local_irq_count(cpu) > 1\<close>, \<open>trylock\<close> is passed on
  to \<^verbatim>\<open>load_balance\<close>.
\<close>

section \<open>Operations\<close>

text \<open>A round-robin task at the end of its slice goes to the tail of its queue.\<close>

definition rt_tick :: "('l, 'b) klib \<Rightarrow> cpu \<Rightarrow> tptr \<Rightarrow> ('l, 'b) sched \<Rightarrow> ('l, 'b) sched" where
  "rt_tick K me p s =
     (if t_policy (tasks s p) = SCHED_RR
      then (let s = upd_task p (\<lambda>t. t\<lparr>t_time_slice := t_time_slice t - 1\<rparr>) s
            in if t_time_slice (tasks s p) = 0
               then (let s = upd_task p (\<lambda>t. t\<lparr>t_time_slice := word_of_int (TASK_TIMESLICE K t),
                                               t_first_time_slice := 0, t_need_resched := True\<rparr>) s;
                         s = dequeue_task K p (active_array me s) s
                     in enqueue_task K p (active_array me s) s)
               else s)
      else s)"

text \<open>The end of the slice of an ordinary task, of a SHORT task and of an overdue task.\<close>

definition other_refill :: "('l, 'b) klib \<Rightarrow> task \<Rightarrow> task" where
  "other_refill K t =
     (let t = t\<lparr>t_need_resched := True\<rparr>;
          t = t\<lparr>t_prio := effective_prio K t\<rparr>;
          t = t\<lparr>t_first_time_slice := 0\<rparr>
      in t\<lparr>t_time_slice := word_of_int (TASK_TIMESLICE K t)\<rparr>)"

definition other_expiry :: "('l, 'b) klib \<Rightarrow> cpu \<Rightarrow> tptr \<Rightarrow> ('l, 'b) sched \<Rightarrow> ('l, 'b) sched" where
  "other_expiry K me p s =
     (let s = dequeue_task K p (active_array me s) s;
          s = upd_task p (other_refill K) s
      in if \<not> TASK_INTERACTIVE (tasks s p) \<or> EXPIRED_STARVING K (jiffies s) (rqs s me)
         then (let s = (if rq_expired_timestamp (rqs s me) = 0
                        then upd_rq me (\<lambda>r. r\<lparr>rq_expired_timestamp := jiffies s\<rparr>) s else s)
               in enqueue_task K p (expired_array me s) s)
         else enqueue_task K p (active_array me s) s)"

definition short_to_overdue :: "('l, 'b) klib \<Rightarrow> task \<Rightarrow> task" where
  "short_to_overdue K t = t\<lparr>t_need_resched := True, t_first_time_slice := 0, t_prio := MAX_PRIO - 1,
     t_time_slice := word_of_int ((2 * t_requested_time t * k_HZ K) sdiv 1000), t_is_short := -1\<rparr>"

definition overdue_to_other :: "('l, 'b) klib \<Rightarrow> task \<Rightarrow> task" where
  "overdue_to_other K t =
     (let t = t\<lparr>t_need_resched := True, t_first_time_slice := 0\<rparr>;
          t = t\<lparr>t_time_slice := word_of_int (TASK_TIMESLICE K t)\<rparr>;
          t = t\<lparr>t_policy := SCHED_OTHER\<rparr>
      in t\<lparr>t_prio := effective_prio K t\<rparr>)"

definition short_expiry :: "('l, 'b) klib \<Rightarrow> cpu \<Rightarrow> tptr \<Rightarrow> ('l, 'b) sched \<Rightarrow> ('l, 'b) sched" where
  "short_expiry K me p s =
     (let s = dequeue_task K p (the (t_array (tasks s p))) s
      in if t_is_short (tasks s p) = 1
         then enqueue_task K p (me, Overdue) (upd_task p (short_to_overdue K) s)
         else enqueue_task K p (active_array me s) (upd_task p (overdue_to_other K) s))"

definition timeshare_tick :: "('l, 'b) klib \<Rightarrow> cpu \<Rightarrow> tptr \<Rightarrow> ('l, 'b) sched \<Rightarrow> ('l, 'b) sched" where
  "timeshare_tick K me p s =
     (let s = (if t_sleep_avg (tasks s p) \<noteq> 0
               then upd_task p (\<lambda>t. t\<lparr>t_sleep_avg := t_sleep_avg t - 1\<rparr>) s else s);
          s = upd_task p (\<lambda>t. t\<lparr>t_time_slice := t_time_slice t - 1\<rparr>) s
      in if t_time_slice (tasks s p) = 0
         then (if t_policy (tasks s p) \<noteq> SCHED_SHORT then other_expiry K me p s
               else short_expiry K me p s)
         else s)"

definition account_tick :: "cpu \<Rightarrow> int \<Rightarrow> int \<Rightarrow> ('l, 'b) sched \<Rightarrow> ('l, 'b) sched" where
  "account_tick me user_tick system s =
     (let s = (if TASK_NICE (tasks s (current me s)) > 0
               then s\<lparr>kstat_nice := (kstat_nice s)(me := kstat_nice s me + user_tick)\<rparr>
               else s\<lparr>kstat_user := (kstat_user s)(me := kstat_user s me + user_tick)\<rparr>)
      in s\<lparr>kstat_system := (kstat_system s)(me := kstat_system s me + system)\<rparr>)"

definition scheduler_tick ::
  "('l, 'b) klib \<Rightarrow> bool \<Rightarrow> cpu \<Rightarrow> bool \<Rightarrow> int \<Rightarrow> int \<Rightarrow> ('l, 'b) sched \<Rightarrow> ('l, 'b) sched" where
  "scheduler_tick K trylock me irq user_tick system s =
     (let p = current me s in
      if p = rq_idle (rqs s me)
      then (let s = (if irq then s\<lparr>kstat_system := (kstat_system s)(me := kstat_system s me + system)\<rparr> else s)
            in if k_config_smp K then idle_tick K trylock me s else s)
      else
        (let s = account_tick me user_tick system s
         in if t_array (tasks s p) \<noteq> Some (active_array me s) \<and>
               t_array (tasks s p) \<noteq> Some (me, Short_active) \<and> t_array (tasks s p) \<noteq> Some (me, Overdue)
            then upd_task p (\<lambda>t. t\<lparr>t_need_resched := True\<rparr>) s
            else
              (let s = (if rt_task (tasks s p) then rt_tick K me p s else timeshare_tick K me p s)
               in if k_config_smp K \<and> jiffies s mod BUSY_REBALANCE_TICK K = 0
                  then load_balance K trylock me False s else s)))"

section \<open>Frame\<close>

lemma account_tick_frame [simp]:
  "tasks (account_tick me u y s) = tasks s" "rqs (account_tick me u y s) = rqs s"
  "arrays (account_tick me u y s) = arrays s" "lists (account_tick me u y s) = lists s"
  "jiffies (account_tick me u y s) = jiffies s" "current c (account_tick me u y s) = current c s"
  "active_array c (account_tick me u y s) = active_array c s"
  "sched_inv K X (account_tick me u y s) = sched_inv K X s"
  by (simp_all add: account_tick_def Let_def current_def active_array_def)

section \<open>The tick keeps the invariant\<close>

lemma refill_fields [simp]:
  "t_cpu (other_refill K t) = t_cpu t" "t_policy (other_refill K t) = t_policy t"
  "t_is_short (other_refill K t) = t_is_short t" "t_static_prio (other_refill K t) = t_static_prio t"
  "t_sleep_avg (other_refill K t) = t_sleep_avg t" "t_array (other_refill K t) = t_array t"
  "t_state (other_refill K t) = t_state t"
  by (simp_all add: other_refill_def Let_def)

lemma effective_prio_bounds:
  "MAX_RT_PRIO \<le> effective_prio K t" "effective_prio K t < MAX_PRIO" "\<not> effective_prio K t < MAX_RT_PRIO"
  using effective_prio_range [of K t] by auto

lemma refill_prio:
  "MAX_RT_PRIO \<le> t_prio (other_refill K t)" "t_prio (other_refill K t) < MAX_PRIO"
  using effective_prio_bounds by (simp_all add: other_refill_def Let_def)

lemma policy_cases:
  assumes "policy_ok t" and "\<not> rt_task t" and "t_policy t \<noteq> SCHED_SHORT"
  shows "t_policy t = SCHED_OTHER"
  using assms by (auto simp: policy_ok_def rt_task_def)

context kernel_lib
begin

lemma fit_refill:
  assumes "fit K c t" and "\<not> rt_task t" and "t_policy t \<noteq> SCHED_SHORT"
  shows "fit K c (other_refill K t)"
  using assms refill_prio [of K t] policy_cases [of t]
  by (auto simp: fit_def policy_ok_def rt_task_def policy_consts)

lemma fit_overdue:
  assumes "fit K c t" and "t_policy t = SCHED_SHORT"
  shows "fit K c (short_to_overdue K t)"
  using assms by (auto simp: fit_def policy_ok_def short_to_overdue_def policy_consts)

lemma fit_other:
  assumes "fit K c t" and "t_policy t = SCHED_SHORT" and "t_is_short t \<noteq> 1"
  shows "fit K c (overdue_to_other K t)"
proof -
  have "MAX_RT_PRIO \<le> t_prio (overdue_to_other K t)" "t_prio (overdue_to_other K t) < MAX_PRIO"
    using effective_prio_bounds by (simp_all add: overdue_to_other_def Let_def)
  moreover have "t_policy (overdue_to_other K t) = SCHED_OTHER" "t_is_short (overdue_to_other K t) = t_is_short t"
    "t_cpu (overdue_to_other K t) = t_cpu t" "t_static_prio (overdue_to_other K t) = t_static_prio t"
    "t_sleep_avg (overdue_to_other K t) = t_sleep_avg t"
    by (simp_all add: overdue_to_other_def Let_def)
  ultimately show ?thesis
    using assms by (auto simp: fit_def policy_ok_def policy_consts)
qed

lemma sleep_avg_decr:
  "uint (w :: u32) \<le> m \<Longrightarrow> w \<noteq> 0 \<Longrightarrow> uint (w - 1) \<le> m"
  by uint_arith

lemma rt_tick_inv:
  assumes "sched_inv K X s" and "p \<notin> X" and "t_array (tasks s p) = Some (active_array me s)"
  shows "sched_inv K X (rt_tick K me p s)"
proof -
  let ?dec = "upd_task p (\<lambda>t. t\<lparr>t_time_slice := t_time_slice t - 1\<rparr>) s"
  have dec: "sched_inv K X ?dec" using assms(1) by (intro sched_inv_upd_task) simp_all
  have "sched_inv K X (upd_task p (\<lambda>t. t\<lparr>t_time_slice := w t, t_first_time_slice := 0, t_need_resched := True\<rparr>) ?dec)"
    for w using dec by (rule sched_inv_upd_task) simp_all
  then show ?thesis
    using dec assms by (auto simp: rt_tick_def Let_def active_array_def intro!: requeue_inv)
qed

lemma other_expiry_inv:
  assumes inv: "sched_inv K X s" and p: "p \<notin> X" and a: "t_array (tasks s p) = Some (active_array me s)"
    and rt: "\<not> rt_task (tasks s p)" and pol: "t_policy (tasks s p) \<noteq> SCHED_SHORT"
  shows "sched_inv K X (other_expiry K me p s)"
proof -
  note A = sched_invD [OF inv]
  have fit: "fit K me (other_refill K (tasks s p))"
    using q_invD(7) [OF A(1) p] a rt pol by (intro fit_refill queued_fit) (auto simp: active_array_def)
  have "sched_inv K X (enqueue_task K p (me, b) (upd_task p (other_refill K) (dequeue_task K p (active_array me s) s)))"
    if "b = rq_active (rqs s me) \<or> b = rq_expired (rqs s me)" for b
    unfolding active_array_def using a that A(5,6) [of me] pol refill_prio(1)
    by (intro move_inv [where f = "other_refill K", OF inv p _ fit]) (auto simp: active_array_def class_array_def)
  then show ?thesis
    unfolding other_expiry_def Let_def
    by (auto simp: active_array_def expired_array_def enqueue_upd_rq intro!: sched_inv_upd_rq)
qed

lemma short_expiry_inv:
  assumes inv: "sched_inv K X s" and p: "p \<notin> X" and a: "t_array (tasks s p) = Some (me, a)"
    and pol: "t_policy (tasks s p) = SCHED_SHORT"
  shows "sched_inv K X (short_expiry K me p s)"
proof -
  note A = sched_invD [OF inv]
  have fit: "fit K me (tasks s p)" using q_invD(7) [OF A(1) p] a by (rule queued_fit)
  have over: "sched_inv K X (enqueue_task K p (me, Overdue) (upd_task p (short_to_overdue K) (dequeue_task K p (me, a) s)))"
    using A(6) [of me] pol
    by (intro move_inv [where f = "short_to_overdue K", OF inv p a fit_overdue [OF fit pol]]) (auto simp: class_array_def short_to_overdue_def)
  have "sched_inv K X (enqueue_task K p (me, rq_active (rqs s me)) (upd_task p (overdue_to_other K) (dequeue_task K p (me, a) s)))"
    if "t_is_short (tasks s p) \<noteq> 1"
    using A(4,5) [of me] pol
    by (intro move_inv [where f = "overdue_to_other K", OF inv p a fit_other [OF fit pol that]])
      (auto simp: class_array_def overdue_to_other_def Let_def policy_consts)
  with over a show ?thesis by (simp add: short_expiry_def Let_def active_array_def)
qed

lemma timeshare_tick_inv:
  assumes inv: "sched_inv K X s" and p: "p \<notin> X" and a: "t_array (tasks s p) = Some (me, a)"
    and act: "t_policy (tasks s p) \<noteq> SCHED_SHORT \<Longrightarrow> a = rq_active (rqs s me)"
    and rt: "\<not> rt_task (tasks s p)"
  shows "sched_inv K X (timeshare_tick K me p s)"
proof -
  let ?avg = "if t_sleep_avg (tasks s p) \<noteq> 0
    then upd_task p (\<lambda>t. t\<lparr>t_sleep_avg := t_sleep_avg t - 1\<rparr>) s else s"
  let ?s = "upd_task p (\<lambda>t. t\<lparr>t_time_slice := t_time_slice t - 1\<rparr>) ?avg"
  have "sched_inv K X ?avg"
    using inv by (auto intro!: sched_inv_upd_task task_ok_sleep_avg sleep_avg_decr dest: task_okD(8))
  then have s: "sched_inv K X ?s" by (rule sched_inv_upd_task) simp_all
  have f: "t_array (tasks ?s p) = Some (me, a)" "rt_task (tasks ?s p) = rt_task (tasks s p)"
    "t_policy (tasks ?s p) = t_policy (tasks s p)" "rqs ?s = rqs s"
    using a by (auto simp: rt_task_def)
  have "sched_inv K X (other_expiry K me p ?s)" if "t_policy (tasks s p) \<noteq> SCHED_SHORT"
    using f rt act that by (intro other_expiry_inv [OF s p]) (simp_all add: active_array_def del: upd_task_simps)
  moreover have "sched_inv K X (short_expiry K me p ?s)" if "t_policy (tasks s p) = SCHED_SHORT"
    using f that by (intro short_expiry_inv [OF s p]) (simp_all del: upd_task_simps)
  ultimately show ?thesis
    unfolding timeshare_tick_def Let_def using s f(3) by (auto simp del: upd_task_simps upd_task_twice)
qed

text \<open>The tick of a task that runs from an array of its class, up to the balancing.\<close>

lemma class_tick_inv:
  assumes inv: "sched_inv K X s" and p: "p \<notin> X" and a: "t_array (tasks s p) = Some (me, a)"
    and arr: "a = rq_active (rqs s me) \<or> a = Short_active \<or> a = Overdue"
  shows "sched_inv K X (if rt_task (tasks s p) then rt_tick K me p s else timeshare_tick K me p s)"
proof -
  have cls: "class_array (tasks s p) a"
    using q_inv_queued(5) [OF sched_invD(1) [OF inv] p a] by simp
  have ok: "policy_ok (tasks s p)" using q_invD(7) [OF sched_invD(1) [OF inv] p] by (rule task_okD)
  have act: "rq_active (rqs s me) \<in> {Arr0, Arr1}" by (rule sched_invD [OF inv])
  have rt_active: "a = rq_active (rqs s me)" if "rt_task (tasks s p)"
    using that arr cls ok act by (auto simp: class_array_def policy_ok_def rt_task_def policy_consts split: if_splits)
  have other_active: "a = rq_active (rqs s me)" if "t_policy (tasks s p) \<noteq> SCHED_SHORT"
    using that arr cls by (auto simp: class_array_def)
  show ?thesis
    using rt_tick_inv [OF inv p] timeshare_tick_inv [OF inv p, of me a] rt_active other_active a
    by (auto simp: active_array_def)
qed

lemma scheduler_tick_inv:
  assumes inv: "sched_inv K X s" and cpu: "cpu_ok X s me"
  shows "sched_inv K X (scheduler_tick K lk me irq u y s)"
proof (cases "current me s = rq_idle (rqs s me)")
  case True
  with inv show ?thesis by (simp add: scheduler_tick_def Let_def idle_tick_inv)
next
  case False
  let ?p = "current me s" and ?s = "account_tick me u y s"
  from False cpu obtain a where p: "?p \<notin> X" and a: "t_array (tasks s ?p) = Some (me, a)"
    by (auto simp: cpu_ok_def)
  have s: "sched_inv K X ?s" using inv by simp
  show ?thesis
  proof (cases "a = rq_active (rqs s me) \<or> a = Short_active \<or> a = Overdue")
    case True
    with class_tick_inv [OF s p, of me a] a
    have "sched_inv K X (if rt_task (tasks ?s ?p) then rt_tick K me ?p ?s else timeshare_tick K me ?p ?s)" by simp
    with True a False show ?thesis
      by (auto simp: scheduler_tick_def Let_def active_array_def load_balance_inv)
  next
    case bad: False
    with a False s show ?thesis
      by (auto simp: scheduler_tick_def Let_def active_array_def intro!: sched_inv_upd_task)
  qed
qed

end

section \<open>What a tick does\<close>

text \<open>A tick that does not balance: the uniprocessor build, or a tick between two rebalancings.\<close>

definition no_rebalance :: "('l, 'b) klib \<Rightarrow> ('l, 'b) sched \<Rightarrow> bool" where
  "no_rebalance K s \<longleftrightarrow> \<not> (k_config_smp K \<and> jiffies s mod BUSY_REBALANCE_TICK K = 0)"

lemma tick_jiffies [simp]:
  "jiffies (rt_tick K me p s) = jiffies s" "jiffies (timeshare_tick K me p s) = jiffies s"
  by (simp_all add: rt_tick_def timeshare_tick_def other_expiry_def short_expiry_def Let_def)

lemma scheduler_tick_queued:
  assumes "p = current me s" and "p \<noteq> rq_idle (rqs s me)" and "t_array (tasks s p) = Some (me, a)"
    and "a \<in> {rq_active (rqs s me), Short_active, Overdue}" and "no_rebalance K s"
  shows "scheduler_tick K lk me irq u y s =
    (if rt_task (tasks s p) then rt_tick K me p (account_tick me u y s)
     else timeshare_tick K me p (account_tick me u y s))"
  using assms by (auto simp: scheduler_tick_def Let_def active_array_def no_rebalance_def)

text \<open>The two counters of a tick; when the slice does not run out, nothing else moves.\<close>

definition tick_counters :: "task \<Rightarrow> task" where
  "tick_counters t =
     (let t = (if t_sleep_avg t \<noteq> 0 then t\<lparr>t_sleep_avg := t_sleep_avg t - 1\<rparr> else t)
      in t\<lparr>t_time_slice := t_time_slice t - 1\<rparr>)"

lemma tick_counters_fields [simp]:
  "t_time_slice (tick_counters t) = t_time_slice t - 1" "t_policy (tick_counters t) = t_policy t"
  "t_is_short (tick_counters t) = t_is_short t" "t_array (tick_counters t) = t_array t"
  "t_prio (tick_counters t) = t_prio t" "t_requested_time (tick_counters t) = t_requested_time t"
  "t_static_prio (tick_counters t) = t_static_prio t" "t_cpu (tick_counters t) = t_cpu t"
  "t_state (tick_counters t) = t_state t"
  by (simp_all add: tick_counters_def Let_def)

lemma timeshare_tick_eq:
  "timeshare_tick K me p s =
    (let s = upd_task p tick_counters s
     in if t_time_slice (tasks s p) = 0
        then (if t_policy (tasks s p) \<noteq> SCHED_SHORT then other_expiry K me p s else short_expiry K me p s)
        else s)"
  by (simp add: timeshare_tick_def tick_counters_def Let_def upd_task_def)

lemma short_expiry_overdue:
  assumes "t_is_short (tasks s p) = 1"
  shows "tasks (short_expiry K me p s) = (tasks s)(p := (short_to_overdue K (tasks s p))\<lparr>t_array := Some (me, Overdue)\<rparr>)"
  using assms by (simp add: short_expiry_def Let_def)

lemma short_expiry_other:
  assumes "t_is_short (tasks s p) \<noteq> 1"
  shows "tasks (short_expiry K me p s) = (tasks s)(p := (overdue_to_other K (tasks s p))\<lparr>t_array := Some (active_array me s)\<rparr>)"
  using assms by (simp add: short_expiry_def Let_def active_array_def)

lemma other_expiry_tasks:
  "tasks (other_expiry K me p s) = (tasks s)(p := (other_refill K (tasks s p))\<lparr>t_array := Some
     (if \<not> TASK_INTERACTIVE (other_refill K (tasks s p)) \<or> EXPIRED_STARVING K (jiffies s) (rqs s me)
      then expired_array me s else active_array me s)\<rparr>)"
  by (simp add: other_expiry_def Let_def active_array_def expired_array_def)

text \<open>The stamp of the first expiry since the arrays were last switched.\<close>

lemma other_expiry_stamp:
  "rq_expired_timestamp (rqs (other_expiry K me p s) me) =
    (if (\<not> TASK_INTERACTIVE (other_refill K (tasks s p)) \<or> EXPIRED_STARVING K (jiffies s) (rqs s me)) \<and>
        rq_expired_timestamp (rqs s me) = 0
     then jiffies s else rq_expired_timestamp (rqs s me))"
  by (simp add: other_expiry_def Let_def)

context kernel_lib
begin

lemma short_expiry_tail:
  assumes "sched_inv K X s" and "p \<notin> X" and "t_array (tasks s p) = Some (me, Short_active)"
    and "t_is_short (tasks s p) = 1"
  shows "queue K (short_expiry K me p s) ((me, Overdue), MAX_PRIO - 1) =
    queue K s ((me, Overdue), MAX_PRIO - 1) @ [p]"
proof -
  note inv = sched_invD(1) [OF assms(1)]
  have "q_inv K (insert p X) (upd_task p (short_to_overdue K) (dequeue_task K p (me, Short_active) s))"
    using dequeue_inv [OF inv assms(2,3)] by simp
  from queue_enqueue [OF this insertI1] queue_dequeue [OF inv assms(2,3)] assms(3,4)
  show ?thesis by (simp add: short_expiry_def Let_def short_to_overdue_def)
qed

lemma rt_tick_rotates:
  assumes "sched_inv K X s" and "p \<notin> X" and "t_array (tasks s p) = Some (active_array me s)"
    and "t_policy (tasks s p) = SCHED_RR" and "t_time_slice (tasks s p) = 1"
    and "queue K s (active_array me s, t_prio (tasks s p)) = p # ps"
  shows "queue K (rt_tick K me p s) (active_array me s, t_prio (tasks s p)) = ps @ [p]"
proof -
  let ?s = "upd_task p (\<lambda>t. t\<lparr>t_time_slice := word_of_int (TASK_TIMESLICE K t),
     t_first_time_slice := 0, t_need_resched := True\<rparr>) (upd_task p (\<lambda>t. t\<lparr>t_time_slice := t_time_slice t - 1\<rparr>) s)"
  have "sched_inv K X ?s" using assms(1) by (auto intro: sched_inv_upd_task)
  then have "q_inv K X ?s" by (rule sched_invD)
  from ra.requeue_contents [OF this assms(2), of "active_array me s"] assms(3-6)
  show ?thesis by (simp add: rt_tick_def Let_def active_array_def)
qed

end

end
