(* ===== verification/Schedule.thy ===== *)
theory Schedule imports Sched_Tick "HOL-Library.While_Combinator" begin

text \<open>
  \<^verbatim>\<open>schedule\<close>: taking a sleeping task off its runqueue, choosing the next task by policy,
  switching to it, and the loop back to \<^verbatim>\<open>need_resched\<close>. \<open>schedule_once\<close> is one pass of the
  function; \<open>schedule\<close> is the loop, whose value is \<open>None\<close> if it never ends. A CPU goes on as
  the task it switched to, so the flag tested at the end of a pass is the next task's.
\<close>

declare split_paired_All [simp del] split_paired_Ex [simp del]

section \<open>Operations\<close>

definition mmdrop :: "mmptr \<Rightarrow> ('l, 'b) sched \<Rightarrow> ('l, 'b) sched" where
  "mmdrop m s =
     (let s = upd_mm m (\<lambda>x. x\<lparr>mm_count := mm_count x - 1\<rparr>) s
      in if mm_count (mms s m) = 0
         then (if m = 0 then s\<lparr>bug := True\<rparr> else upd_mm m (\<lambda>x. x\<lparr>mm_freed := True\<rparr>) s)
         else s)"

text \<open>The switch of the page tables, the registers and the stack is outside the modelled state.\<close>

definition context_switch :: "tptr \<Rightarrow> tptr \<Rightarrow> ('l, 'b) sched \<Rightarrow> ('l, 'b) sched" where
  "context_switch prev nxt s =
     (let oldmm = t_active_mm (tasks s prev);
          s = (if t_mm (tasks s nxt) = None
               then upd_mm (the oldmm) (\<lambda>x. x\<lparr>mm_count := mm_count x + 1\<rparr>)
                      (upd_task nxt (\<lambda>t. t\<lparr>t_active_mm := oldmm\<rparr>) s)
               else s)
      in if t_mm (tasks s prev) = None
         then mmdrop (the oldmm) (upd_task prev (\<lambda>t. t\<lparr>t_active_mm := None\<rparr>) s)
         else s)"

definition leave_cpu :: "('l, 'b) klib \<Rightarrow> cpu \<Rightarrow> ('l, 'b) sched \<Rightarrow> ('l, 'b) sched" where
  "leave_cpu K me s =
     (let prev = current me s;
          s = upd_task prev (\<lambda>t. t\<lparr>t_sleep_timestamp := jiffies s\<rparr>) s
      in if t_state (tasks s prev) = TASK_INTERRUPTIBLE \<and> t_sigpending (tasks s prev) \<noteq> 0
         then upd_task prev (\<lambda>t. t\<lparr>t_state := TASK_RUNNING\<rparr>) s
         else if t_state (tasks s prev) = TASK_RUNNING then s
         else deactivate_task K prev me s)"

definition switch_arrays :: "cpu \<Rightarrow> ('l, 'b) sched \<Rightarrow> ('l, 'b) sched" where
  "switch_arrays me s =
     (if nr_active (arrays s (active_array me s)) = 0
      then upd_rq me (\<lambda>r. r\<lparr>rq_active := rq_expired r, rq_expired := rq_active r,
                             rq_expired_timestamp := 0\<rparr>) s
      else s)"

definition select_array :: "('l, 'b) klib \<Rightarrow> cpu \<Rightarrow> ('l, 'b) sched \<Rightarrow> aid" where
  "select_array K me s =
     (let array = active_array me s
      in if k_find_first_bit K (bitmap (arrays s array)) > MAX_RT_PRIO - 1 \<and>
            nr_active (arrays s (me, Short_active)) \<noteq> 0
         then (me, Short_active)
         else if nr_active (arrays s array) = 0 then (me, Overdue)
         else array)"

definition pick_next :: "('l, 'b) klib \<Rightarrow> cpu \<Rightarrow> ('l, 'b) sched \<Rightarrow> tptr" where
  "pick_next K me s =
     (let array = select_array K me s;
          idx = k_find_first_bit K (bitmap (arrays s array))
      in hd (queue K s (array, idx)))"

definition choose_here :: "('l, 'b) klib \<Rightarrow> cpu \<Rightarrow> ('l, 'b) sched \<Rightarrow> tptr \<times> ('l, 'b) sched" where
  "choose_here K me s =
     (if rq_nr_running (rqs s me) = 0
      then (rq_idle (rqs s me), upd_rq me (\<lambda>r. r\<lparr>rq_expired_timestamp := 0\<rparr>) s)
      else (let s = switch_arrays me s in (pick_next K me s, s)))"

text \<open>The jump back to \<^verbatim>\<open>pick_next_task\<close> finds \<^verbatim>\<open>nr_running\<close> not 0 and so goes on.\<close>

definition choose_next ::
  "('l, 'b) klib \<Rightarrow> bool \<Rightarrow> cpu \<Rightarrow> ('l, 'b) sched \<Rightarrow> tptr \<times> ('l, 'b) sched" where
  "choose_next K trylock me s =
     choose_here K me (if rq_nr_running (rqs s me) = 0 \<and> k_config_smp K
                       then load_balance K trylock me True s else s)"

definition switch_tasks :: "cpu \<Rightarrow> tptr \<Rightarrow> tptr \<Rightarrow> ('l, 'b) sched \<Rightarrow> ('l, 'b) sched" where
  "switch_tasks me prev nxt s =
     (let s = upd_task prev (\<lambda>t. t\<lparr>t_need_resched := False\<rparr>) s
      in if prev \<noteq> nxt
         then context_switch prev nxt
                (upd_rq me (\<lambda>r. r\<lparr>rq_nr_switches := rq_nr_switches r + 1, rq_curr := nxt\<rparr>) s)
         else s)"

definition schedule_once ::
  "('l, 'b) klib \<Rightarrow> bool \<Rightarrow> cpu \<Rightarrow> ('l, 'b) sched \<Rightarrow> ('l, 'b) sched" where
  "schedule_once K trylock me s =
     (let prev = current me s;
          (nxt, s) = choose_next K trylock me (leave_cpu K me s)
      in switch_tasks me prev nxt s)"

text \<open>The outcome of \<^verbatim>\<open>spin_trylock\<close> in the n-th pass is \<open>trylock n\<close>.\<close>

definition schedule ::
  "('l, 'b) klib \<Rightarrow> bool \<Rightarrow> (nat \<Rightarrow> bool) \<Rightarrow> cpu \<Rightarrow> ('l, 'b) sched \<Rightarrow> ('l, 'b) sched option" where
  "schedule K in_interrupt trylock me s =
     (if in_interrupt then Some (s\<lparr>bug := True\<rparr>)
      else map_option snd
        (while_option (\<lambda>(n, s). t_need_resched (tasks s (current me s)))
           (\<lambda>(n, s). (n + 1, schedule_once K (trylock n) me s))
           (1, schedule_once K (trylock 0) me s)))"

section \<open>Frames\<close>

lemma mmdrop_frame [simp]:
  "tasks (mmdrop m s) = tasks s" "rqs (mmdrop m s) = rqs s" "arrays (mmdrop m s) = arrays s"
  "lists (mmdrop m s) = lists s" "jiffies (mmdrop m s) = jiffies s"
  "sched_inv K X (mmdrop m s) = sched_inv K X s"
  by (simp_all add: mmdrop_def Let_def)

lemma context_switch_frame [simp]:
  "rqs (context_switch p n s) = rqs s" "arrays (context_switch p n s) = arrays s"
  "lists (context_switch p n s) = lists s" "jiffies (context_switch p n s) = jiffies s"
  "t_array (tasks (context_switch p n s) q) = t_array (tasks s q)"
  "t_state (tasks (context_switch p n s) q) = t_state (tasks s q)"
  "t_prio (tasks (context_switch p n s) q) = t_prio (tasks s q)"
  "t_need_resched (tasks (context_switch p n s) q) = t_need_resched (tasks s q)"
  "t_policy (tasks (context_switch p n s) q) = t_policy (tasks s q)"
  by (simp_all add: context_switch_def Let_def)

lemma context_switch_inv: "sched_inv K X s \<Longrightarrow> sched_inv K X (context_switch p n s)"
  by (auto simp: context_switch_def Let_def intro!: sched_inv_upd_task)

lemma switch_tasks_frame [simp]:
  "t_array (tasks (switch_tasks me p n s) q) = t_array (tasks s q)"
  "t_state (tasks (switch_tasks me p n s) q) = t_state (tasks s q)"
  "t_prio (tasks (switch_tasks me p n s) q) = t_prio (tasks s q)"
  "t_policy (tasks (switch_tasks me p n s) q) = t_policy (tasks s q)"
  "t_need_resched (tasks (switch_tasks me p n s) q) \<longleftrightarrow> q \<noteq> p \<and> t_need_resched (tasks s q)"
  "arrays (switch_tasks me p n s) = arrays s" "lists (switch_tasks me p n s) = lists s"
  "rq_idle (rqs (switch_tasks me p n s) c) = rq_idle (rqs s c)"
  "rq_active (rqs (switch_tasks me p n s) c) = rq_active (rqs s c)"
  by (auto simp: switch_tasks_def Let_def)

lemma switch_tasks_current:
  "current me s = p \<Longrightarrow> current c (switch_tasks me p n s) = (if c = me then n else current c s)"
  by (auto simp: switch_tasks_def Let_def current_def)

lemma switch_tasks_inv: "sched_inv K X s \<Longrightarrow> sched_inv K X (switch_tasks me p n s)"
  unfolding switch_tasks_def Let_def
  by (auto intro!: context_switch_inv sched_inv_upd_rq sched_inv_upd_task)

lemma on_array_frame [simp]:
  "on_array X (upd_rq c f s) = on_array X s" "on_array X (switch_tasks me p n s) = on_array X s"
  by (simp_all add: on_array_def fun_eq_iff)

lemma fst_select: "fst (select_array K me s) = me"
  by (simp add: select_array_def Let_def active_array_def)

section \<open>Choosing a task\<close>

text \<open>An array holds a task exactly when its counter is not 0; the same for a runqueue.\<close>

lemma nr_active_zero:
  assumes "q_inv K X s"
  shows "nr_active (arrays s a) = 0 \<longleftrightarrow> on_array X s a = {}"
  using q_invD(5,6) [OF assms, of a] by simp

lemma nr_active_nonneg: "q_inv K X s \<Longrightarrow> 0 \<le> nr_active (arrays s a)"
  by (simp add: q_invD(6))

lemma nr_running_zero:
  assumes "sched_inv K X s"
  shows "rq_nr_running (rqs s c) = 0 \<longleftrightarrow> (\<forall>a. on_array X s (c, a) = {})"
proof -
  note q = sched_invD(1) [OF assms]
  have "rq_nr_running (rqs s c) = load s c" by (rule sched_invD [OF assms])
  then have "rq_nr_running (rqs s c) = 0 \<longleftrightarrow> nr_active (arrays s (c, Arr0)) = 0 \<and>
      nr_active (arrays s (c, Arr1)) = 0 \<and> nr_active (arrays s (c, Short_active)) = 0 \<and>
      nr_active (arrays s (c, Overdue)) = 0"
    using nr_active_nonneg [OF q] unfolding load_def by (smt (verit))
  also have "\<dots> \<longleftrightarrow> (\<forall>a. on_array X s (c, a) = {})"
    unfolding nr_active_zero [OF q] by (metis arr.exhaust)
  finally show ?thesis .
qed

context kernel_lib
begin

text \<open>The head of the first non-empty queue of an array that has tasks.\<close>

lemma first_queue:
  assumes inv: "q_inv K X s" and ne: "nr_active (arrays s a) \<noteq> 0"
  defines "i \<equiv> k_find_first_bit K (bitmap (arrays s a))"
  shows "queue K s (a, i) \<noteq> []" and "0 \<le> i" and "i < MAX_PRIO"
    and "p \<in> on_array X s a \<Longrightarrow> i \<le> t_prio (tasks s p)"
proof -
  have least: "k_test_bit K (bitmap (arrays s a)) (t_prio (tasks s p))"
    "0 \<le> t_prio (tasks s p)" "t_prio (tasks s p) < MAX_PRIO" if "p \<in> on_array X s a" for p
  proof -
    from that have "p \<notin> X" "t_array (tasks s p) = Some a" by (auto simp: on_array_def)
    from q_inv_queued(1-3) [OF inv this] show "0 \<le> t_prio (tasks s p)" "t_prio (tasks s p) < MAX_PRIO"
      "k_test_bit K (bitmap (arrays s a)) (t_prio (tasks s p))"
      using q_invD(3) [OF inv, of "t_prio (tasks s p)" a] by auto
  qed
  show "i \<le> t_prio (tasks s p)" if "p \<in> on_array X s a" for p
    unfolding i_def using least [OF that] by (intro find_first_bit_least(3)) auto
  from ne nr_active_zero [OF inv] obtain p where "p \<in> on_array X s a" by blast
  note p = least [OF this]
  have "k_test_bit K (bitmap (arrays s a)) i" "0 \<le> i" "i \<le> t_prio (tasks s p)"
    unfolding i_def using find_first_bit_least(1-3) [OF p(1)] p(2,3) by auto
  with p(3) q_invD(3) [OF inv, of i a] show "queue K s (a, i) \<noteq> []" "0 \<le> i" "i < MAX_PRIO" by auto
qed

lemma switch_arrays_inv:
  assumes inv: "sched_inv K X s"
  shows "sched_inv K X (switch_arrays me s)"
proof (cases "nr_active (arrays s (active_array me s)) = 0")
  case True
  note A = sched_invD [OF inv]
  from True nr_active_zero [OF A(1)] have "p \<notin> X \<Longrightarrow> t_array (tasks s p) \<noteq> Some (active_array me s)" for p
    by (auto simp: on_array_def)
  with True A(2) show ?thesis
    by (auto simp: switch_arrays_def sched_inv_def A(1) rq_ok_def expired_array_def active_array_def)
qed (use inv in \<open>simp add: switch_arrays_def\<close>)

lemma switch_arrays_frame [simp]:
  "tasks (switch_arrays me s) = tasks s" "arrays (switch_arrays me s) = arrays s"
  "lists (switch_arrays me s) = lists s" "jiffies (switch_arrays me s) = jiffies s"
  "rq_idle (rqs (switch_arrays me s) c) = rq_idle (rqs s c)"
  "rq_nr_running (rqs (switch_arrays me s) c) = rq_nr_running (rqs s c)"
  "current c (switch_arrays me s) = current c s" "on_array X (switch_arrays me s) = on_array X s"
  by (auto simp: switch_arrays_def current_def on_array_def fun_eq_iff)

lemma switch_arrays_empty:
  assumes "nr_active (arrays s (active_array me (switch_arrays me s))) = 0"
  shows "nr_active (arrays s (expired_array me (switch_arrays me s))) = 0"
  using assms by (auto simp: switch_arrays_def active_array_def expired_array_def split: if_splits)

end

section \<open>The policy order\<close>

text \<open>
  The contract of the choice: real-time before SHORT before OTHER before overdue SHORT; within
  an array the least priority number, and the head of its queue.
\<close>

definition prio_class :: "task \<Rightarrow> nat" where
  "prio_class t =
     (if rt_task t then 0
      else if t_policy t \<noteq> SCHED_SHORT then 2
      else if t_is_short t = 1 then 1 else 3)"

definition next_ok :: "('l, 'b) klib \<Rightarrow> tptr set \<Rightarrow> cpu \<Rightarrow> ('l, 'b) sched \<Rightarrow> tptr \<Rightarrow> bool" where
  "next_ok K X me s nxt \<longleftrightarrow>
     (if \<forall>a. on_array X s (me, a) = {} then nxt = rq_idle (rqs s me)
      else \<exists>a. nxt \<in> on_array X s (me, a) \<and>
             nxt = hd (queue K s ((me, a), t_prio (tasks s nxt))) \<and>
             (\<forall>b. \<forall>q \<in> on_array X s (me, b). prio_class (tasks s nxt) \<le> prio_class (tasks s q)) \<and>
             (\<forall>q \<in> on_array X s (me, a). t_prio (tasks s nxt) \<le> t_prio (tasks s q)))"

lemma next_okD:
  assumes "next_ok K X me s n"
  shows "n = rq_idle (rqs s me) \<or> n \<notin> X \<and> (\<exists>a. t_array (tasks s n) = Some (me, a))"
  using assms unfolding next_ok_def on_array_def by (auto split: if_splits)

lemma class_of_array:
  assumes "sched_inv K X s" and "q \<in> on_array X s (me, b)"
  shows "b = Short_active \<Longrightarrow> prio_class (tasks s q) = 1" and "b = Overdue \<Longrightarrow> prio_class (tasks s q) = 3"
    and "b = rq_expired (rqs s me) \<Longrightarrow> prio_class (tasks s q) = 2"
    and "b = rq_active (rqs s me) \<Longrightarrow> prio_class (tasks s q) = (if t_prio (tasks s q) < MAX_RT_PRIO then 0 else 2)"
    and "b = Short_active \<or> b = Overdue \<or> b = rq_expired (rqs s me) \<or> b = rq_active (rqs s me)"
proof -
  note A = sched_invD [OF assms(1)]
  from assms(2) have q: "q \<notin> X" "t_array (tasks s q) = Some (me, b)" by (auto simp: on_array_def)
  have c: "class_array (tasks s q) b" and p: "policy_ok (tasks s q)"
    using q_inv_queued(5) [OF A(1) q] task_okD(5) [OF q_invD(7) [OF A(1) q(1)]] by simp_all
  show "b = Short_active \<Longrightarrow> prio_class (tasks s q) = 1" "b = Overdue \<Longrightarrow> prio_class (tasks s q) = 3"
    using c p by (auto simp: class_array_def policy_ok_def prio_class_def rt_task_def policy_consts split: if_splits)
  have "b \<in> {Arr0, Arr1} \<Longrightarrow> t_policy (tasks s q) \<noteq> SCHED_SHORT"
    using c by (auto simp: class_array_def split: if_splits)
  with A(5,6) [of me] have *: "b = rq_expired (rqs s me) \<or> b = rq_active (rqs s me) \<Longrightarrow> t_policy (tasks s q) \<noteq> SCHED_SHORT"
    by auto
  then show "b = rq_expired (rqs s me) \<Longrightarrow> prio_class (tasks s q) = 2"
    using A(7) [OF q(1), of me] q(2) by (auto simp: prio_class_def rt_task_def expired_array_def)
  show "b = rq_active (rqs s me) \<Longrightarrow> prio_class (tasks s q) = (if t_prio (tasks s q) < MAX_RT_PRIO then 0 else 2)"
    using * by (auto simp: prio_class_def rt_task_def)
  show "b = Short_active \<or> b = Overdue \<or> b = rq_expired (rqs s me) \<or> b = rq_active (rqs s me)"
    using A(4,5,6) [of me] by (cases b) auto
qed

context kernel_lib
begin

text \<open>Picking from an array that has tasks gives the head of its first queue.\<close>

lemma pick_from:
  assumes "q_inv K X s" and "select_array K me s = a" and "nr_active (arrays s a) \<noteq> 0"
  shows "pick_next K me s \<in> on_array X s a"
    and "pick_next K me s = hd (queue K s (a, t_prio (tasks s (pick_next K me s))))"
    and "t_prio (tasks s (pick_next K me s)) = k_find_first_bit K (bitmap (arrays s a))"
    and "\<forall>q \<in> on_array X s a. t_prio (tasks s (pick_next K me s)) \<le> t_prio (tasks s q)"
proof -
  let ?i = "k_find_first_bit K (bitmap (arrays s a))"
  note F = first_queue [OF assms(1,3)]
  have hd: "pick_next K me s = hd (queue K s (a, ?i))" using assms(2) by (simp add: pick_next_def)
  with F(1) have "pick_next K me s \<in> set (queue K s (a, ?i))" by simp
  then have "pick_next K me s \<notin> X \<and> t_array (tasks s (pick_next K me s)) = Some a \<and>
    t_prio (tasks s (pick_next K me s)) = ?i"
    using q_invD(1) [OF assms(1)] by blast
  with hd F(4) show "pick_next K me s \<in> on_array X s a"
    "pick_next K me s = hd (queue K s (a, t_prio (tasks s (pick_next K me s))))"
    "t_prio (tasks s (pick_next K me s)) = ?i"
    "\<forall>q \<in> on_array X s a. t_prio (tasks s (pick_next K me s)) \<le> t_prio (tasks s q)"
    by (auto simp: on_array_def)
qed

lemma empty_first_bit:
  assumes "q_inv K X s" and "nr_active (arrays s a) = 0"
  shows "k_find_first_bit K (bitmap (arrays s a)) = MAX_PRIO"
proof (rule find_first_bit)
  show "k_test_bit K (bitmap (arrays s a)) MAX_PRIO" by (rule q_invD(4) [OF assms(1)])
  have "p \<notin> set (queue K s (a, m))" for p m
    using q_invD(1) [OF assms(1), of p a m] assms(2) nr_active_zero [OF assms(1), of a]
    by (auto simp: on_array_def)
  then have "queue K s (a, m) = []" for m by (metis list.set_intros(1) neq_Nil_conv)
  then show "\<not> k_test_bit K (bitmap (arrays s a)) m" if "0 \<le> m" "m < MAX_PRIO" for m
    using q_invD(3) [OF assms(1) that] by simp
qed simp_all

text \<open>The chosen array has tasks, and none of a better class waits elsewhere.\<close>

lemma select_array_cases:
  assumes "q_inv K X s"
  obtains (short) "k_find_first_bit K (bitmap (arrays s (active_array me s))) > MAX_RT_PRIO - 1"
      "nr_active (arrays s (me, Short_active)) \<noteq> 0" "select_array K me s = (me, Short_active)"
  | (overdue) "nr_active (arrays s (me, Short_active)) = 0" "nr_active (arrays s (active_array me s)) = 0"
      "select_array K me s = (me, Overdue)"
  | (active) "k_find_first_bit K (bitmap (arrays s (active_array me s))) \<le> MAX_RT_PRIO - 1 \<or>
        nr_active (arrays s (me, Short_active)) = 0"
      "nr_active (arrays s (active_array me s)) \<noteq> 0" "select_array K me s = active_array me s"
  using empty_first_bit [OF assms, of "active_array me s"]
  by (cases "nr_active (arrays s (active_array me s)) = 0";
      cases "nr_active (arrays s (me, Short_active)) = 0";
      cases "k_find_first_bit K (bitmap (arrays s (active_array me s))) > MAX_RT_PRIO - 1";
      simp add: select_array_def Let_def)

lemma select_array_best:
  assumes inv: "sched_inv K X s"
    and sw: "nr_active (arrays s (active_array me s)) = 0 \<Longrightarrow> nr_active (arrays s (expired_array me s)) = 0"
    and q: "q \<in> on_array X s (me, b)"
  shows "nr_active (arrays s (select_array K me s)) \<noteq> 0"
    and "prio_class (tasks s (pick_next K me s)) \<le> prio_class (tasks s q)"
proof -
  note A = sched_invD [OF inv] and C = class_of_array [OF inv]
  let ?act = "active_array me s" and ?i = "k_find_first_bit K (bitmap (arrays s (active_array me s)))"
  have none: "r \<notin> on_array X s (me, d)" if "nr_active (arrays s (me, d)) = 0" for r d
    using that nr_active_zero [OF A(1)] by simp
  have rt: "?i < MAX_RT_PRIO \<and> nr_active (arrays s ?act) \<noteq> 0" if "prio_class (tasks s q) = 0"
  proof -
    from that C [OF q] have b: "b = rq_active (rqs s me)" "t_prio (tasks s q) < MAX_RT_PRIO"
      by (auto split: if_splits)
    with q have q': "q \<in> on_array X s ?act" by (simp add: active_array_def)
    then have ne: "nr_active (arrays s ?act) \<noteq> 0" using nr_active_zero [OF A(1), of ?act] by auto
    from first_queue(4) [OF A(1) ne q'] b(2) ne show ?thesis by simp
  qed
  have overdue_only: "b = Overdue"
    if "nr_active (arrays s (me, Short_active)) = 0" "nr_active (arrays s ?act) = 0"
    using that sw none q C(5) [OF q] by (auto simp: active_array_def expired_array_def)
  from A(1) show ne: "nr_active (arrays s (select_array K me s)) \<noteq> 0"
    using overdue_only none q by (cases rule: select_array_cases [where me = me]) auto
  note P = pick_from [OF A(1) refl ne]
  from A(1) show "prio_class (tasks s (pick_next K me s)) \<le> prio_class (tasks s q)"
  proof (cases rule: select_array_cases [where me = me])
    case short
    with P(1) C(1) have "prio_class (tasks s (pick_next K me s)) = 1" by auto
    moreover have "prio_class (tasks s q) \<noteq> 0" using rt short(1) by auto
    ultimately show ?thesis by simp
  next
    case overdue
    with P(1) C(2) overdue_only q show ?thesis by auto
  next
    case active
    with P(1) have "prio_class (tasks s (pick_next K me s)) =
        (if t_prio (tasks s (pick_next K me s)) < MAX_RT_PRIO then 0 else 2)"
      by (intro C(4)) (simp_all add: active_array_def)
    moreover have "prio_class (tasks s q) \<noteq> 0" if "\<not> ?i < MAX_RT_PRIO" using rt that by auto
    moreover have "prio_class (tasks s q) \<ge> 2" if "prio_class (tasks s q) \<noteq> 0" "\<not> ?i < MAX_RT_PRIO"
      using that C [OF q] active(1) none q by (auto split: if_splits)
    ultimately show ?thesis using P(3) active(3) by auto
  qed
qed

lemma choose_here_ok:
  assumes inv: "sched_inv K X s" and choose: "choose_here K me s = (nxt, s')"
  shows "sched_inv K X s'" and "next_ok K X me s' nxt" and "tasks s' = tasks s" and "mms s' = mms s"
    and "rq_idle (rqs s' c) = rq_idle (rqs s c)" and "current c s' = current c s"
proof -
  show "sched_inv K X s'"
    using choose inv by (auto simp: choose_here_def Let_def split: if_splits
        intro!: sched_inv_upd_rq switch_arrays_inv)
  show "tasks s' = tasks s" "mms s' = mms s"
    "rq_idle (rqs s' c) = rq_idle (rqs s c)" "current c s' = current c s"
    using choose by (auto simp: choose_here_def Let_def current_def switch_arrays_def split: if_splits)
  show "next_ok K X me s' nxt"
  proof (cases "rq_nr_running (rqs s me) = 0")
    case True
    with choose nr_running_zero [OF inv, of me] show ?thesis
      by (auto simp: choose_here_def next_ok_def)
  next
    case False
    let ?s2 = "switch_arrays me s"
    from False choose have s': "s' = ?s2" "nxt = pick_next K me ?s2"
      by (auto simp: choose_here_def Let_def)
    have inv2: "sched_inv K X ?s2" using inv by (rule switch_arrays_inv)
    have sw: "nr_active (arrays ?s2 (active_array me ?s2)) = 0 \<Longrightarrow>
        nr_active (arrays ?s2 (expired_array me ?s2)) = 0"
      using switch_arrays_empty [of s me] by simp
    note best = select_array_best [OF inv2 sw]
    from False nr_running_zero [OF inv2, of me] obtain q b where q: "q \<in> on_array X ?s2 (me, b)"
      by auto
    note P = pick_from [OF sched_invD(1) [OF inv2] refl best(1) [OF _ q]]
    obtain a where a: "select_array K me ?s2 = (me, a)"
      using fst_select by (metis prod.collapse)
    show ?thesis
      unfolding s' next_ok_def
      using P a q best(2) sw by (auto intro!: exI [of _ a])
  qed
qed

lemma choose_next_ok:
  assumes inv: "sched_inv K X s" and choose: "choose_next K lk me s = (nxt, s')"
  shows "sched_inv K X s'" and "next_ok K X me s' nxt"
    and "\<exists>s1. (migrate K me)\<^sup>*\<^sup>* s s1 \<and> tasks s' = tasks s1 \<and> mms s' = mms s1 \<and>
      (\<forall>c. rq_idle (rqs s' c) = rq_idle (rqs s1 c) \<and> current c s' = current c s1)"
proof -
  obtain s1 where s1: "sched_inv K X s1" "(migrate K me)\<^sup>*\<^sup>* s s1" "choose_here K me s1 = (nxt, s')"
    using load_balance_migrates [OF inv] inv choose by (auto simp: choose_next_def split: if_splits)
  note C = choose_here_ok [OF s1(1,3)]
  show "sched_inv K X s'" "next_ok K X me s' nxt" by (rule C)+
  show "\<exists>s1. (migrate K me)\<^sup>*\<^sup>* s s1 \<and> tasks s' = tasks s1 \<and> mms s' = mms s1 \<and>
      (\<forall>c. rq_idle (rqs s' c) = rq_idle (rqs s1 c) \<and> current c s' = current c s1)"
    using s1(2) C by auto
qed

end

section \<open>A pass of the function\<close>

lemma switch_tasks_class [simp]:
  "prio_class (tasks (switch_tasks me p n s) q) = prio_class (tasks s q)"
  "queue K (switch_tasks me p n s) = queue K s"
  by (simp_all add: prio_class_def rt_task_def queue_def context_switch_def switch_tasks_def Let_def)

lemma leave_cpu_cases:
  fixes s :: "('l, 'b) sched" and me :: cpu
  defines "p \<equiv> current me s"
  defines "s0 \<equiv> upd_task p (\<lambda>t. t\<lparr>t_sleep_timestamp := jiffies s\<rparr>) s"
  obtains (running) "leave_cpu K me s = s0" "t_state (tasks s p) = TASK_RUNNING"
  | (signal) "leave_cpu K me s = upd_task p (\<lambda>t. t\<lparr>t_state := TASK_RUNNING\<rparr>) s0"
      "t_state (tasks s p) = TASK_INTERRUPTIBLE" "t_sigpending (tasks s p) \<noteq> 0"
  | (sleeps) "leave_cpu K me s = deactivate_task K p me s0" "t_state (tasks s p) \<noteq> TASK_RUNNING"
      "t_state (tasks s p) \<noteq> TASK_INTERRUPTIBLE \<or> t_sigpending (tasks s p) = 0"
proof -
  consider "t_state (tasks s p) = TASK_INTERRUPTIBLE \<and> t_sigpending (tasks s p) \<noteq> 0"
    | "t_state (tasks s p) = TASK_RUNNING"
    | "\<not> (t_state (tasks s p) = TASK_INTERRUPTIBLE \<and> t_sigpending (tasks s p) \<noteq> 0)" "t_state (tasks s p) \<noteq> TASK_RUNNING"
    by blast
  then show thesis
  proof cases
    case 1
    then show ?thesis by (intro that(2)) (simp_all add: leave_cpu_def Let_def p_def s0_def)
  next
    case 2
    then show ?thesis by (intro that(1)) (simp_all add: leave_cpu_def Let_def state_consts p_def s0_def)
  next
    case 3
    then show ?thesis
      by (intro that(3)) (auto simp: leave_cpu_def Let_def p_def s0_def simp del: upd_task_twice)
  qed
qed

lemma leave_cpu_tasks [simp]:
  "t_prio (tasks (leave_cpu K me s) q) = t_prio (tasks s q)"
  "t_need_resched (tasks (leave_cpu K me s) q) = t_need_resched (tasks s q)"
  "rq_idle (rqs (leave_cpu K me s) c) = rq_idle (rqs s c)" "current c (leave_cpu K me s) = current c s"
  "mms (leave_cpu K me s) = mms s" "t_mm (tasks (leave_cpu K me s) q) = t_mm (tasks s q)"
  "t_active_mm (tasks (leave_cpu K me s) q) = t_active_mm (tasks s q)"
  by (cases rule: leave_cpu_cases [of K me s]; simp add: current_def)+

lemma leave_cpu_other: "q \<noteq> current me s \<Longrightarrow> tasks (leave_cpu K me s) q = tasks s q"
  by (cases rule: leave_cpu_cases [of K me s]) simp_all

lemma leave_cpu_idle:
  assumes "cpu_ok X s me"
  shows "t_array (tasks (leave_cpu K me s) (rq_idle (rqs s me))) = None \<and>
    t_state (tasks (leave_cpu K me s) (rq_idle (rqs s me))) = TASK_RUNNING"
proof (cases "current me s = rq_idle (rqs s me)")
  case True
  with assms have "t_state (tasks s (current me s)) = TASK_RUNNING" "t_array (tasks s (current me s)) = None"
    by (simp_all add: cpu_ok_def)
  then have "t_array (tasks (leave_cpu K me s) (current me s)) = None \<and>
    t_state (tasks (leave_cpu K me s) (current me s)) = TASK_RUNNING"
    by (cases rule: leave_cpu_cases [of K me s]) simp_all
  with True show ?thesis by simp
next
  case False
  with leave_cpu_other [of "rq_idle (rqs s me)" me s K] assms show ?thesis by (simp add: cpu_ok_def)
qed

text \<open>The tasks the CPUs run are distinct.\<close>

lemma cpu_ok_distinct:
  assumes "cpu_ok X s c" and "cpu_ok X s d" and "c \<noteq> d" and "rq_idle (rqs s c) \<noteq> rq_idle (rqs s d)"
  shows "current c s \<noteq> current d s" and "rq_idle (rqs s c) \<noteq> current d s"
  using assms by (auto simp: cpu_ok_def)

context kernel_lib
begin

lemma leave_cpu_inv:
  assumes inv: "sched_inv K X s" and cpu: "cpu_ok X s me"
  shows "sched_inv K X (leave_cpu K me s)"
proof -
  let ?p = "current me s" and ?s = "upd_task (current me s) (\<lambda>t. t\<lparr>t_sleep_timestamp := jiffies s\<rparr>) s"
  have s: "sched_inv K X ?s" using inv by (rule sched_inv_upd_task) simp_all
  have p: "?p \<notin> X" using cpu by (simp add: cpu_ok_def)
  show ?thesis
  proof (cases rule: leave_cpu_cases [of K me s])
    case running
    show ?thesis unfolding running(1) by (rule s)
  next
    case signal
    show ?thesis unfolding signal(1) using s by (rule sched_inv_state)
  next
    case sleeps
    have "?p \<noteq> rq_idle (rqs s me)" using cpu sleeps(2) by (auto simp: cpu_ok_def)
    with cpu obtain a where a: "t_array (tasks s ?p) = Some (me, a)" by (auto simp: cpu_ok_def)
    have "task_ok K (tasks s ?p)" using q_invD(7) [OF sched_invD(1) [OF inv] p] .
    then have off: "task_ok K ((tasks ?s ?p)\<lparr>t_array := None\<rparr>)" by (intro task_ok_off) simp
    have "sched_inv K (insert ?p X) (deactivate_task K ?p me ?s)"
      using deactivate_inv [OF s p, of me a] a by simp
    then show ?thesis
      unfolding sleeps(1) by (rule sched_inv_remove_off) (use off in simp_all)
  qed
qed

lemma schedule_once_ok:
  fixes s :: "('l, 'b) sched" and lk :: bool and me :: cpu
  assumes inv: "sched_inv K X s" and cpu: "cpu_ok X s me"
  defines "s' \<equiv> schedule_once K lk me s"
  shows "sched_inv K X s'" and "cpu_ok X s' me" and "next_ok K X me s' (current me s')"
    and "t_need_resched (tasks s' q) \<Longrightarrow> t_need_resched (tasks s q) \<and> q \<noteq> current me s"
    and "cpu_ok X s c \<Longrightarrow> c \<noteq> me \<Longrightarrow> rq_idle (rqs s c) \<noteq> rq_idle (rqs s me) \<Longrightarrow> cpu_ok X s' c"
    and "rq_idle (rqs s' c) = rq_idle (rqs s c)"
proof -
  let ?s0 = "leave_cpu K me s"
  have s0: "sched_inv K X ?s0" by (rule leave_cpu_inv [OF inv cpu])
  obtain nxt s2 where choose: "choose_next K lk me ?s0 = (nxt, s2)" by fastforce
  note C = choose_next_ok [OF s0 choose]
  from C(3) obtain s1 where m: "(migrate K me)\<^sup>*\<^sup>* ?s0 s1" "tasks s2 = tasks s1"
    "\<And>c. rq_idle (rqs s2 c) = rq_idle (rqs s1 c)" "\<And>c. current c s2 = current c s1" by blast
  note M = migrations_keep [OF m(1)] and A = migrations_inv [OF m(1) s0]
  have s': "s' = switch_tasks me (current me s) nxt s2"
    unfolding s'_def schedule_once_def by (simp add: choose)
  have idle: "rq_idle (rqs s' d) = rq_idle (rqs s d)" for d by (simp add: s' m(3) M)
  have curr: "current d s' = (if d = me then nxt else current d s)" for d
    unfolding s' by (simp add: switch_tasks_current m(4) M(1))
  show "sched_inv K X s'" unfolding s' by (rule switch_tasks_inv [OF C(1)])
  show "rq_idle (rqs s' c) = rq_idle (rqs s c)" by (rule idle)
  show next_ok: "next_ok K X me s' (current me s')"
    using C(2) unfolding next_ok_def curr by (simp add: s')
  show "t_need_resched (tasks s' q) \<Longrightarrow> t_need_resched (tasks s q) \<and> q \<noteq> current me s"
    using M(5) [of q] by (auto simp: s' m(2))
  have "t_prio (tasks s (rq_idle (rqs s me))) = MAX_PRIO" using cpu by (simp add: cpu_ok_def)
  then have idle_ok: "t_array (tasks s' (rq_idle (rqs s me))) = None"
    "t_state (tasks s' (rq_idle (rqs s me))) = TASK_RUNNING"
    "t_prio (tasks s' (rq_idle (rqs s me))) = MAX_PRIO"
    using leave_cpu_idle [OF cpu, of K] A M(3,4) by (simp_all add: s' m(2))
  with next_okD [OF next_ok] cpu show "cpu_ok X s' me"
    unfolding cpu_ok_def idle curr by auto
  show "cpu_ok X s' c" if c: "cpu_ok X s c" "c \<noteq> me" "rq_idle (rqs s c) \<noteq> rq_idle (rqs s me)"
  proof -
    have "cpu_ok X ?s0 c"
      using c(1) cpu_ok_distinct [OF c(1) cpu c(2,3)] by (simp add: cpu_ok_def leave_cpu_other)
    then have "cpu_ok X s1 c" by (rule migrations_cpu_ok [OF m(1) s0])
    then show ?thesis unfolding cpu_ok_def idle curr using c(2) by (simp add: s' m M)
  qed
qed

end

section \<open>The loop\<close>

text \<open>
  Every pass clears the flag of the task it leaves, and no pass sets the flag of a task: the
  loop ends, after at most one pass for each flagged task.
\<close>

definition flagged :: "('l, 'b) sched \<Rightarrow> tptr set" where
  "flagged s = {p. t_need_resched (tasks s p)}"

text \<open>What every pass establishes, and how much it shrinks the set of flagged tasks.\<close>

definition passed :: "('l, 'b) klib \<Rightarrow> tptr set \<Rightarrow> cpu \<Rightarrow> ('l, 'b) sched \<Rightarrow> bool" where
  "passed K X me s \<longleftrightarrow> sched_inv K X s \<and> cpu_ok X s me \<and> finite (flagged s) \<and>
     next_ok K X me s (current me s)"

context kernel_lib
begin

lemma pass_shrinks:
  fixes lk :: bool
  assumes "sched_inv K X s" and "cpu_ok X s me" and "finite (flagged s)"
  shows "passed K X me (schedule_once K lk me s)"
    and "t_need_resched (tasks s (current me s)) \<Longrightarrow>
      card (flagged (schedule_once K lk me s)) < card (flagged s)"
proof -
  note O = schedule_once_ok [OF assms(1,2), where lk = lk]
  have sub: "flagged (schedule_once K lk me s) \<subseteq> flagged s - {current me s}"
    using O(4) by (auto simp: flagged_def)
  then have "finite (flagged (schedule_once K lk me s))"
    using assms(3) by (meson Diff_subset finite_subset)
  with O(1-3) show "passed K X me (schedule_once K lk me s)" by (simp add: passed_def)
  show "card (flagged (schedule_once K lk me s)) < card (flagged s)"
    if "t_need_resched (tasks s (current me s))"
  proof (rule psubset_card_mono [OF assms(3)])
    have "current me s \<in> flagged s" using that by (simp add: flagged_def)
    with sub show "flagged (schedule_once K lk me s) \<subset> flagged s" by blast
  qed
qed

lemma schedule_returns:
  fixes s :: "('l, 'b) sched"
  assumes inv: "sched_inv K X s" and cpu: "cpu_ok X s me" and fin: "finite (flagged s)"
  shows "\<exists>s'. schedule K False lk me s = Some s' \<and> passed K X me s' \<and>
    \<not> t_need_resched (tasks s' (current me s'))"
proof -
  define b :: "nat \<times> ('l, 'b) sched \<Rightarrow> bool" where "b = (\<lambda>(n, s). t_need_resched (tasks s (current me s)))"
  define c where "c = (\<lambda>(n, s). (n + 1, schedule_once K (lk n) me s))"
  define P :: "nat \<times> ('l, 'b) sched \<Rightarrow> bool" where "P = (\<lambda>(n, s). passed K X me s)"
  define x0 where "x0 = (1 :: nat, schedule_once K (lk 0) me s)"
  have start: "P x0"
    using pass_shrinks(1) [OF inv cpu fin] by (simp add: P_def x0_def)
  have step: "P (c x) \<and> card (flagged (snd (c x))) < card (flagged (snd x))" if "P x" "b x" for x
  proof (cases x)
    case (Pair n t)
    with that have "passed K X me t" "t_need_resched (tasks t (current me t))"
      by (simp_all add: P_def b_def)
    with pass_shrinks [where lk = "lk n" and X = X and s = t and me = me] show ?thesis
      by (simp add: Pair P_def c_def) (simp add: passed_def)
  qed
  obtain x where x: "while_option b c x0 = Some x"
    using measure_while_option_Some [of P b c "\<lambda>x. card (flagged (snd x))", OF step start] by blast
  have "P x" by (rule while_option_rule [where P = P, OF _ x start]) (use step in blast)
  moreover have "\<not> b x" by (rule while_option_stop [OF x])
  moreover have "schedule K False lk me s = Some (snd x)"
    using x by (simp add: schedule_def b_def c_def x0_def)
  ultimately show ?thesis by (cases x) (simp add: P_def b_def)
qed

end

end
