(* ===== verification/Wakeup.thy ===== *)
theory Wakeup imports Schedule begin

text \<open>
  The wake-up functions, the wake-ups of \<^verbatim>\<open>do_fork\<close> and \<^verbatim>\<open>sched_exit\<close> keep the invariant, and
  what each does to the task it wakes. A new task is in no queue and outside the invariant's
  scope (in the set \<open>X\<close>) until its wake-up hands it to the scheduler.
\<close>

section \<open>Frames\<close>

lemma cpu_ok_frame:
  assumes "cpu_ok X s c" and "rq_curr (rqs s' c) = rq_curr (rqs s c)" and "rq_idle (rqs s' c) = rq_idle (rqs s c)"
    and "t_array (tasks s' (rq_idle (rqs s c))) = t_array (tasks s (rq_idle (rqs s c)))"
    and "t_state (tasks s' (rq_idle (rqs s c))) = t_state (tasks s (rq_idle (rqs s c)))"
    and "t_prio (tasks s' (rq_idle (rqs s c))) = t_prio (tasks s (rq_idle (rqs s c)))"
    and "t_array (tasks s' (current c s)) = t_array (tasks s (current c s)) \<or>
      (\<exists>a. t_array (tasks s' (current c s)) = Some (c, a))"
  shows "cpu_ok X s' c"
proof -
  have curr: "current c s' = current c s" using assms(2) by (simp add: current_def)
  have "current c s = rq_idle (rqs s c) \<or> (\<exists>a. t_array (tasks s' (current c s)) = Some (c, a))"
    using assms(1,7) unfolding cpu_ok_def by metis
  then show ?thesis using assms(1) unfolding cpu_ok_def curr assms(3-6) by blast
qed

lemma cpu_ok_upd_task:
  assumes "cpu_ok X s c" and "t_array (f (tasks s p)) = t_array (tasks s p)"
    and "t_state (f (tasks s p)) = t_state (tasks s p) \<or> t_state (f (tasks s p)) = TASK_RUNNING"
    and "t_prio (f (tasks s p)) = t_prio (tasks s p)"
  shows "cpu_ok X (upd_task p f s) c"
proof (rule cpu_ok_frame [OF assms(1)])
  have "t_state (tasks s (rq_idle (rqs s c))) = TASK_RUNNING" using assms(1) by (simp add: cpu_ok_def)
  with assms(3) show "t_state (tasks (upd_task p f s) (rq_idle (rqs s c))) = t_state (tasks s (rq_idle (rqs s c)))"
    by auto
qed (use assms(2,4) in auto)

lemma cpu_ok_resched [simp]: "cpu_ok X s c \<Longrightarrow> cpu_ok X (resched_task p s) c"
  unfolding resched_task_def by (rule cpu_ok_upd_task) simp_all

text \<open>A task that sleeps and is no idle task runs on no CPU.\<close>

lemma sleeper_not_current:
  assumes "cpu_ok X s c" and "t_array (tasks s p) = None" and "t_prio (tasks s p) < MAX_PRIO"
  shows "p \<noteq> current c s" and "p \<noteq> rq_idle (rqs s c)"
  using assms by (auto simp: cpu_ok_def)

section \<open>Waking a sleeper\<close>

text \<open>The update of the fast migration, and the wake-up proper.\<close>

definition wake_cpu :: "cpu \<Rightarrow> tptr \<Rightarrow> bool \<Rightarrow> ('l, 'b) sched \<Rightarrow> cpu" where
  "wake_cpu me p sync s = (if fast_migrates me p sync s then me else t_cpu (tasks s p))"

lemma wake_queued:
  assumes "t_array (tasks s p) \<noteq> None"
  shows "try_to_wake_up K me p sync s = (False, upd_task p (\<lambda>t. t\<lparr>t_state := TASK_RUNNING\<rparr>) s)"
  using assms by (simp add: try_to_wake_up_def Let_def)

lemma wake_sleeping:
  fixes s :: "('l, 'b) sched" and K :: "('l, 'b) klib" and me :: cpu and sync :: bool
  assumes "t_array (tasks s p) = None"
  defines "c \<equiv> wake_cpu me p sync s"
  defines "s1 \<equiv> (let s0 = upd_task p (\<lambda>t. t\<lparr>t_cpu := c\<rparr>) s in
    if t_state (tasks s p) = TASK_UNINTERRUPTIBLE
    then upd_rq c (\<lambda>r. r\<lparr>rq_nr_uninterruptible := rq_nr_uninterruptible r - 1\<rparr>) s0 else s0)"
  defines "s2 \<equiv> activate_task K p c s1"
  shows "try_to_wake_up K me p sync s =
    (True, upd_task p (\<lambda>t. t\<lparr>t_state := TASK_RUNNING\<rparr>)
       (if t_prio (tasks s2 p) < t_prio (tasks s2 (current c s2)) then resched_task (current c s2) s2 else s2))"
proof -
  have "(if fast_migrates me p sync s then upd_task p (\<lambda>t. t\<lparr>t_cpu := me\<rparr>) s else s) =
      upd_task p (\<lambda>t. t\<lparr>t_cpu := c\<rparr>) s"
    by (simp add: c_def wake_cpu_def upd_task_def)
  then show ?thesis
    using assms(1) by (simp add: try_to_wake_up_def Let_def s1_def s2_def c_def wake_cpu_def current_def)
qed

context kernel_lib
begin

lemma fit_wake:
  assumes "task_ok K t" and "t_prio t < MAX_PRIO"
  shows "fit K c (t\<lparr>t_cpu := c\<rparr>)"
  using task_okD(5-9) [OF assms(1)] assms(2) by (simp add: fit_def policy_ok_def)

lemma try_to_wake_up_inv:
  assumes inv: "sched_inv K X s" and p: "p \<notin> X" and prio: "t_prio (tasks s p) < MAX_PRIO"
  shows "sched_inv K X (snd (try_to_wake_up K me p sync s))"
proof (cases "t_array (tasks s p) = None")
  case False
  with inv show ?thesis by (simp add: wake_queued sched_inv_state)
next
  case True
  let ?c = "wake_cpu me p sync s"
  let ?s0 = "upd_task p (\<lambda>t. t\<lparr>t_cpu := ?c\<rparr>) s"
  let ?s1 = "if t_state (tasks s p) = TASK_UNINTERRUPTIBLE
    then upd_rq ?c (\<lambda>r. r\<lparr>rq_nr_uninterruptible := rq_nr_uninterruptible r - 1\<rparr>) ?s0 else ?s0"
  have "sched_inv K (insert p X) ?s0" using sched_inv_insert_off [OF inv True] by simp
  then have s1: "sched_inv K (insert p X) ?s1" by (auto intro: sched_inv_upd_rq)
  have "fit K ?c ((tasks s p)\<lparr>t_cpu := ?c\<rparr>)"
    using q_invD(7) [OF sched_invD(1) [OF inv] p] prio by (rule fit_wake)
  then have "fit K ?c (tasks ?s1 p)" by simp
  with s1 p have "sched_inv K X (activate_task K p ?c ?s1)" by (rule activate_inv)
  then show ?thesis
    unfolding wake_sleeping [OF True] Let_def by (auto intro!: sched_inv_state)
qed

lemma try_to_wake_up_cpu_ok:
  assumes "cpu_ok X s c" and "t_prio (tasks s p) < MAX_PRIO"
  shows "cpu_ok X (snd (try_to_wake_up K me p sync s)) c"
proof (cases "t_array (tasks s p) = None")
  case False
  with assms show ?thesis by (auto simp: wake_queued intro!: cpu_ok_upd_task)
next
  case True
  note S = sleeper_not_current [OF assms(1) True assms(2)]
  have "cpu_ok X (activate_task K p d s1) c" if "tasks s1 = (tasks s)(p := t)"
    "rq_curr (rqs s1 c) = rq_curr (rqs s c)" "rq_idle (rqs s1 c) = rq_idle (rqs s c)" for d s1 t
    using that S by (intro cpu_ok_frame [OF assms(1)]) auto
  then show ?thesis
    unfolding wake_sleeping [OF True] Let_def
    by (auto intro!: cpu_ok_upd_task [where f = "\<lambda>t. t\<lparr>t_state := TASK_RUNNING\<rparr>"])
qed

end

text \<open>What a wake-up does: the task becomes runnable and is queued; one call reports success.\<close>

lemma try_to_wake_up_result:
  "fst (try_to_wake_up K me p sync s) \<longleftrightarrow> t_array (tasks s p) = None"
  "t_state (tasks (snd (try_to_wake_up K me p sync s)) p) = TASK_RUNNING"
  "t_array (tasks (snd (try_to_wake_up K me p sync s)) p) \<noteq> None"
proof -
  have "t_array (tasks s p) \<noteq> None \<or> t_array (tasks s p) = None" by blast
  then show "fst (try_to_wake_up K me p sync s) \<longleftrightarrow> t_array (tasks s p) = None"
    "t_state (tasks (snd (try_to_wake_up K me p sync s)) p) = TASK_RUNNING"
    "t_array (tasks (snd (try_to_wake_up K me p sync s)) p) \<noteq> None"
    by (auto simp: wake_queued wake_sleeping resched_task_def Let_def)
qed

section \<open>The wake-ups of a fork\<close>

lemma enqueue_head_frame [simp]:
  "tasks (enqueue_task_head K p a s) = (tasks s)(p := (tasks s p)\<lparr>t_array := Some a\<rparr>)"
  "rqs (enqueue_task_head K p a s) = rqs s" "jiffies (enqueue_task_head K p a s) = jiffies s"
  "current c (enqueue_task_head K p a s) = current c s"
  by (simp_all add: enqueue_task_head_def Let_def current_def)

lemma load_enqueue_head [simp]:
  "load (enqueue_task_head K p a s) c = load s c + (if c = fst a then 1 else 0)"
  by (cases a; cases "snd a") (auto simp: enqueue_task_head_def Let_def load_def)

lemma fork_penalty_frame [simp]:
  "rqs (fork_penalty K me p s) = rqs s" "jiffies (fork_penalty K me p s) = jiffies s"
  "current c (fork_penalty K me p s) = current c s"
  "t_array (tasks (fork_penalty K me p s) q) = t_array (tasks s q)"
  "t_policy (tasks (fork_penalty K me p s) q) = t_policy (tasks s q)"
  "t_is_short (tasks (fork_penalty K me p s) q) = t_is_short (tasks s q)"
  "t_time_slice (tasks (fork_penalty K me p s) q) = t_time_slice (tasks s q)"
  "q \<noteq> p \<Longrightarrow> t_state (tasks (fork_penalty K me p s) q) = t_state (tasks s q)"
  "q \<noteq> p \<Longrightarrow> t_prio (tasks (fork_penalty K me p s) q) = t_prio (tasks s q)"
  by (auto simp: fork_penalty_def Let_def current_def)

context kernel_lib
begin

lemma enqueue_head_q:
  assumes inv: "q_inv K (insert p X) s" and p: "p \<notin> X"
    and ok: "task_ok K ((tasks s p)\<lparr>t_array := Some a\<rparr>)"
  shows "q_inv K X (enqueue_task_head K p a s)"
    and "queue K (enqueue_task_head K p a s) =
      (queue K s)((a, t_prio (tasks s p)) := p # queue K s (a, t_prio (tasks s p)))"
proof -
  note D = q_invD [OF inv]
  have "p \<notin> set (k_queue K (lists s) r)" for r
    using D(1) [of p] by (cases r) (auto simp: queue_def)
  then show Q: "queue K (enqueue_task_head K p a s) =
      (queue K s)((a, t_prio (tasks s p)) := p # queue K s (a, t_prio (tasks s p)))"
    by (simp add: enqueue_task_head_def Let_def queue_def list_add_head)
  have range: "0 \<le> t_prio (tasks s p)" "t_prio (tasks s p) < MAX_PRIO"
    using ok by (cases a; simp add: task_ok_def queued_ok_def)+
  have B: "k_test_bit K (bitmap (arrays (enqueue_task_head K p a s) b)) =
    (if b = a then (k_test_bit K (bitmap (arrays s b)))(t_prio (tasks s p) := True)
     else k_test_bit K (bitmap (arrays s b)))" for b
    by (simp add: enqueue_task_head_def Let_def set_bit)
  have "links_ok K X (enqueue_task_head K p a s)"
    using D(1,2) p unfolding links_ok_def Q by auto
  moreover have "bits_ok K (enqueue_task_head K p a s)"
    using D(3,4) range unfolding bits_ok_def B Q by auto
  moreover have "on_array X (enqueue_task_head K p a s) b =
      (if b = a then insert p (on_array (insert p X) s a) else on_array (insert p X) s b)" for b
    using p by (auto simp: on_array_def)
  moreover have "nr_active (arrays (enqueue_task_head K p a s) b) =
      nr_active (arrays s b) + (if b = a then 1 else 0)" for b
    by (simp add: enqueue_task_head_def Let_def)
  moreover have "p \<notin> on_array (insert p X) s a" by (simp add: on_array_def)
  ultimately have "links_ok K X (enqueue_task_head K p a s)" "bits_ok K (enqueue_task_head K p a s)"
    "counts_ok X (enqueue_task_head K p a s)"
    using D(5,6) by (simp_all add: counts_ok_def card_insert_int)
  moreover have "task_ok K (tasks (enqueue_task_head K p a s) r)" if "r \<notin> X" for r
    using that D(7) ok by auto
  ultimately show "q_inv K X (enqueue_task_head K p a s)" by (simp add: q_inv_def)
qed

lemma penalty_bound:
  assumes "uint (w :: u32) \<le> MAX_SLEEP_AVG K" and "0 \<le> n" and "n \<le> 100"
  shows "uint (w * word_of_int n div 100) \<le> MAX_SLEEP_AVG K"
    and "uint (w * word_of_int n div 100) = uint w * n div 100"
proof -
  have n: "uint (word_of_int n :: u32) = n" using assms(2,3) by (intro uint_word_of_int_small) auto
  have M: "uint w \<le> 2048" "0 \<le> uint w" using assms(1) HZ_upper by (auto simp: MAX_SLEEP_AVG_def)
  have le: "uint w * n \<le> uint w * 100" using assms(3) M(2) by (intro mult_left_mono) auto
  then have "uint (w * word_of_int n) = uint w * n"
    using M n by (subst uint_mult_small) auto
  then show eq: "uint (w * word_of_int n div 100) = uint w * n div 100"
    by (simp add: uint_div_distrib)
  have "uint w * n div 100 \<le> uint w" using zdiv_mono1 [OF le, of 100] by simp
  with eq assms(1) show "uint (w * word_of_int n div 100) \<le> MAX_SLEEP_AVG K" by simp
qed

lemma parent_penalty_ok:
  assumes "task_ok K t"
  shows "task_ok K (t\<lparr>t_sleep_avg := t_sleep_avg t * word_of_int PARENT_PENALTY div 100\<rparr>)"
  by (rule task_ok_sleep_avg [OF assms penalty_bound(1) [OF task_okD(8) [OF assms]]])
    (simp_all add: PARENT_PENALTY_def)

lemma fork_penalty_inv:
  assumes inv: "sched_inv K (insert p X) s" and cpu: "cpu_ok (insert p X) s me"
    and fit: "fit K c (tasks s p)"
  shows "sched_inv K (insert p X) (fork_penalty K me p s)"
    and "fit K me (tasks (fork_penalty K me p s) p)"
proof -
  let ?c = "current me s"
  have c: "?c \<noteq> p" "?c \<notin> X" using cpu by (auto simp: cpu_ok_def)
  have "sched_inv K (insert p X) (upd_task ?c
      (\<lambda>t. t\<lparr>t_sleep_avg := t_sleep_avg t * word_of_int PARENT_PENALTY div 100\<rparr>) s')"
    if "sched_inv K (insert p X) s'" for s'
    using that by (rule sched_inv_upd_task) (simp_all add: parent_penalty_ok del: word_of_int_numeral)
  moreover have cur: "current me (upd_task p f s) = ?c" for f by simp
  ultimately show "sched_inv K (insert p X) (fork_penalty K me p s)"
    using inv by (simp add: fork_penalty_def Let_def del: upd_task_twice)
  have avg: "uint (t_sleep_avg (tasks s p) * word_of_int CHILD_PENALTY div 100) \<le> MAX_SLEEP_AVG K"
    using fit by (intro penalty_bound) (simp_all add: fit_def CHILD_PENALTY_def)
  have "t_prio (tasks s p) < MAX_RT_PRIO \<longleftrightarrow> t_policy (tasks s p) = SCHED_FIFO \<or> t_policy (tasks s p) = SCHED_RR"
    using fit by (simp add: fit_def policy_ok_def)
  then show "fit K me (tasks (fork_penalty K me p s) p)"
    using fit avg c(1)
    by (auto simp: fork_penalty_def Let_def fit_def policy_ok_def rt_task_def policy_consts)
qed

lemma wake_up_forked_inv:
  assumes "sched_inv K (insert p X) s" and "cpu_ok (insert p X) s me" and "p \<notin> X" and "fit K c (tasks s p)"
  shows "sched_inv K X (wake_up_forked_process K me p s)"
  unfolding wake_up_forked_process_def
  using fork_penalty_inv [OF assms(1,2,4)] assms(3) by (intro activate_inv)

text \<open>The child of a SHORT task goes to the head of the queue, its parent to the tail.\<close>

lemma enqueue_head_inv:
  assumes inv: "sched_inv K (insert p X) s" and p: "p \<notin> X" and fit: "fit K c (tasks s p)"
    and short: "t_policy (tasks s p) = SCHED_SHORT" "t_is_short (tasks s p) = 1"
  defines "s' \<equiv> upd_rq c (\<lambda>r. r\<lparr>rq_nr_running := rq_nr_running r + 1\<rparr>)
    (enqueue_task_head K p (c, Short_active) s)"
  shows "sched_inv K X s'"
proof -
  note A = sched_invD [OF inv]
  have "task_ok K ((tasks s p)\<lparr>t_array := Some (c, Short_active)\<rparr>)"
    using short by (intro fit_task_ok [OF fit]) (simp add: class_array_def)
  then have "q_inv K X (enqueue_task_head K p (c, Short_active) s)"
    by (rule enqueue_head_q(1) [OF A(1) p])
  then have "q_inv K X s'" by (simp add: s'_def)
  moreover have "rq_ok X s' d" for d
    using A(2) [of d] A(5,6) [of c] p unfolding rq_ok_def s'_def by (auto simp: expired_array_def)
  ultimately show ?thesis by (simp add: sched_inv_def)
qed

lemma requeue_short_inv:
  assumes inv: "sched_inv K X s" and p: "p \<notin> X" and a: "t_array (tasks s p) = Some (c, a)"
  shows "sched_inv K X (activate_task K p c (deactivate_task K p c s))"
proof -
  have fit: "fit K c (tasks s p)" using q_invD(7) [OF sched_invD(1) [OF inv] p] a by (rule queued_fit)
  then have "fit K c (tasks (deactivate_task K p c s) p)" by simp
  with deactivate_inv [OF inv p a] p show ?thesis by (rule activate_inv)
qed

lemma wake_up_short_forked_inv:
  assumes inv: "sched_inv K (insert p X) s" and cpu: "cpu_ok (insert p X) s me" and p: "p \<notin> X"
    and fit: "fit K c (tasks s p)" and f: "f \<notin> insert p X" "t_array (tasks s f) = Some (me, a)"
    and short: "t_policy (tasks s p) = SCHED_SHORT" "t_is_short (tasks s p) = 1"
  shows "sched_inv K X (wake_up_short_forked_process K me f p s)"
proof -
  note P = fork_penalty_inv [OF inv cpu fit]
  let ?s = "upd_rq me (\<lambda>r. r\<lparr>rq_nr_running := rq_nr_running r + 1\<rparr>)
    (enqueue_task_head K p (me, Short_active) (fork_penalty K me p s))"
  have "sched_inv K X ?s" using short by (intro enqueue_head_inv [OF P(1) p P(2)]) simp_all
  moreover have "t_array (tasks ?s f) = Some (me, a)" using f by auto
  ultimately have "sched_inv K X (activate_task K f me (deactivate_task K f me ?s))"
    using f(1) by (intro requeue_short_inv) auto
  then show ?thesis using short(2) by (simp add: wake_up_short_forked_process_def Let_def)
qed

section \<open>Exit\<close>

lemma exit_avg_bound:
  assumes "uint (a :: u32) \<le> m" and "uint (b :: u32) \<le> m" and "m \<le> 2048"
  shows "uint ((a * word_of_int EXIT_WEIGHT + b) div word_of_int (EXIT_WEIGHT + 1)) = (3 * uint a + uint b) div 4"
    and "(3 * uint a + uint b) div 4 \<le> m"
proof -
  have "uint (a * 3) = uint a * 3" using assms by (subst uint_mult_small) auto
  moreover from this have "uint (a * 3 + b) = uint (a * 3) + uint b"
    using assms by (intro uint_plus_small) auto
  ultimately show "uint ((a * word_of_int EXIT_WEIGHT + b) div word_of_int (EXIT_WEIGHT + 1)) = (3 * uint a + uint b) div 4"
    by (simp add: EXIT_WEIGHT_def uint_div_distrib mult.commute)
  show "(3 * uint a + uint b) div 4 \<le> m" using assms by linarith
qed

lemma sched_exit_inv:
  assumes inv: "sched_inv K X s" and cpu: "cpu_ok X s me"
    and p: "uint (t_sleep_avg (tasks s p)) \<le> MAX_SLEEP_AVG K"
  shows "sched_inv K X (sched_exit K me p s)"
proof -
  let ?c = "current me s"
  have M: "MAX_SLEEP_AVG K \<le> 2048" using HZ_upper by (simp add: MAX_SLEEP_AVG_def)
  have slice: "sched_inv K X (upd_task q (\<lambda>t. t\<lparr>t_time_slice := g t\<rparr>) t)" if "sched_inv K X t" for t q g
    using that by (rule sched_inv_upd_task) simp_all
  have avg: "sched_inv K X (upd_task ?c (\<lambda>t. t\<lparr>t_sleep_avg :=
      (t_sleep_avg t * word_of_int EXIT_WEIGHT + w) div word_of_int (EXIT_WEIGHT + 1)\<rparr>) t)"
    if "sched_inv K X t" "uint w \<le> MAX_SLEEP_AVG K" for t w
  proof (rule sched_inv_upd_task [OF that(1)])
    assume ok: "task_ok K (tasks t ?c)"
    note E = exit_avg_bound [OF task_okD(8) [OF ok] that(2) M]
    show "task_ok K ((tasks t ?c)\<lparr>t_sleep_avg :=
      (t_sleep_avg (tasks t ?c) * word_of_int EXIT_WEIGHT + w) div word_of_int (EXIT_WEIGHT + 1)\<rparr>)"
      using E by (intro task_ok_sleep_avg [OF ok]) simp
  qed simp_all
  have same: "t_sleep_avg (tasks (upd_task q (\<lambda>t. t\<lparr>t_time_slice := g t\<rparr>) t) p) = t_sleep_avg (tasks t p)" for q g t
    by simp
  show ?thesis
    unfolding sched_exit_def Let_def
    using inv p by (auto simp del: upd_task_twice of_int_add simp: same intro!: avg slice)
qed

end

end
