(* ===== verification/Sched_Init.thy ===== *)
theory Sched_Init imports Wakeup begin

text \<open>
  Boot: \<^verbatim>\<open>sched_init\<close> and \<^verbatim>\<open>init_idle\<close> establish the invariants. \<open>nr_cpus\<close> is
  \<^verbatim>\<open>NR_CPUS\<close>; before \<^verbatim>\<open>sched_init\<close> the runqueues are zero (static data), and the macro
  \<^verbatim>\<open>current\<close> is the task the boot CPU runs on, the argument \<open>cur\<close>. The calls that set up timers
  and bottom halves do not touch the modelled state.
\<close>

section \<open>Operations\<close>

text \<open>The list head and the bit of one level; an array; the four arrays of a runqueue.\<close>

definition init_level :: "('l, 'b) klib \<Rightarrow> aid \<Rightarrow> int \<Rightarrow> ('l, 'b) sched \<Rightarrow> ('l, 'b) sched" where
  "init_level K a k s =
     upd_array a (\<lambda>A. A\<lparr>bitmap := k_clear_bit K k (bitmap A)\<rparr>) (upd_lists (k_INIT_LIST_HEAD K (a, k)) s)"

definition init_delimiter :: "('l, 'b) klib \<Rightarrow> aid \<Rightarrow> ('l, 'b) sched \<Rightarrow> ('l, 'b) sched" where
  "init_delimiter K a s = upd_array a (\<lambda>A. A\<lparr>bitmap := k_set_bit K MAX_PRIO (bitmap A)\<rparr>) s"

definition init_cpu :: "('l, 'b) klib \<Rightarrow> cpu \<Rightarrow> ('l, 'b) sched \<Rightarrow> ('l, 'b) sched" where
  "init_cpu K i s =
     (let s = upd_rq i (\<lambda>r. r\<lparr>rq_active := Arr0, rq_expired := Arr1, rq_migration_queue := []\<rparr>) s;
          s = fold (\<lambda>a s. init_delimiter K (i, a) (fold (init_level K (i, a)) [0..MAX_PRIO - 1] s)) [Arr0, Arr1] s;
          s = fold (\<lambda>j s. init_level K (i, Overdue) j (init_level K (i, Short_active) j s)) [0..MAX_PRIO - 1] s
      in init_delimiter K (i, Overdue) (init_delimiter K (i, Short_active) s))"

definition sched_init :: "('l, 'b) klib \<Rightarrow> nat \<Rightarrow> cpu \<Rightarrow> tptr \<Rightarrow> ('l, 'b) sched \<Rightarrow> ('l, 'b) sched" where
  "sched_init K nr_cpus me cur s =
     (let s = fold (init_cpu K) [0..<nr_cpus] s;
          s = upd_rq me (\<lambda>r. r\<lparr>rq_curr := cur\<rparr>) s;
          s = upd_rq me (\<lambda>r. r\<lparr>rq_idle := cur\<rparr>) s;
          s = snd (wake_up_process K me cur s)
      in upd_mm 0 (\<lambda>m. m\<lparr>mm_count := mm_count m + 1\<rparr>) s)"

definition init_idle :: "('l, 'b) klib \<Rightarrow> tptr \<Rightarrow> cpu \<Rightarrow> ('l, 'b) sched \<Rightarrow> ('l, 'b) sched" where
  "init_idle K idle c s =
     (let rq = t_cpu (tasks s idle);
          s = upd_rq c (\<lambda>r. r\<lparr>rq_curr := idle, rq_idle := idle\<rparr>) s;
          s = deactivate_task K idle rq s;
          s = upd_task idle (\<lambda>t. t\<lparr>t_array := None, t_prio := MAX_PRIO, t_state := TASK_RUNNING,
                                   t_requested_time := 0, t_is_short := 0, t_cpu := c\<rparr>) s
      in upd_task idle (\<lambda>t. t\<lparr>t_need_resched := True\<rparr>) s)"

section \<open>What the initialisation leaves\<close>

lemma init_frame [simp]:
  "tasks (init_level K a k s) = tasks s" "rqs (init_level K a k s) = rqs s"
  "nr_active (arrays (init_level K a k s) b) = nr_active (arrays s b)"
  "tasks (init_delimiter K a s) = tasks s" "rqs (init_delimiter K a s) = rqs s"
  "nr_active (arrays (init_delimiter K a s) b) = nr_active (arrays s b)"
  "queue K (init_delimiter K a s) = queue K s" "jiffies (init_level K a k s) = jiffies s"
  "jiffies (init_delimiter K a s) = jiffies s"
  by (simp_all add: init_level_def init_delimiter_def queue_def)

lemma fold_levels_frame [simp]:
  "tasks (fold (init_level K a) ks s) = tasks s" "rqs (fold (init_level K a) ks s) = rqs s"
  "nr_active (arrays (fold (init_level K a) ks s) b) = nr_active (arrays s b)"
  "jiffies (fold (init_level K a) ks s) = jiffies s"
  by (induction ks arbitrary: s) simp_all

lemma fold_two_levels_frame [simp]:
  "tasks (fold (\<lambda>j s. init_level K a j (init_level K a' j s)) ks s) = tasks s"
  "rqs (fold (\<lambda>j s. init_level K a j (init_level K a' j s)) ks s) = rqs s"
  "nr_active (arrays (fold (\<lambda>j s. init_level K a j (init_level K a' j s)) ks s) b) = nr_active (arrays s b)"
  "jiffies (fold (\<lambda>j s. init_level K a j (init_level K a' j s)) ks s) = jiffies s"
  by (induction ks arbitrary: s) simp_all

text \<open>An array with empty queues, clear bits and the delimiter.\<close>

definition empty_array :: "('l, 'b) klib \<Rightarrow> ('l, 'b) sched \<Rightarrow> aid \<Rightarrow> bool" where
  "empty_array K s a \<longleftrightarrow>
     (\<forall>i. 0 \<le> i \<and> i < MAX_PRIO \<longrightarrow> queue K s (a, i) = [] \<and> \<not> k_test_bit K (bitmap (arrays s a)) i) \<and>
     k_test_bit K (bitmap (arrays s a)) MAX_PRIO"

context kernel_lib
begin

lemma init_level_effect:
  "queue K (init_level K a k s) = (queue K s)((a, k) := [])"
  "k_test_bit K (bitmap (arrays (init_level K a k s) b)) =
    (if b = a then (k_test_bit K (bitmap (arrays s b)))(k := False) else k_test_bit K (bitmap (arrays s b)))"
  by (simp_all add: init_level_def queue_def init_head clear_bit)

lemma init_delimiter_effect:
  "k_test_bit K (bitmap (arrays (init_delimiter K a s) b)) =
    (if b = a then (k_test_bit K (bitmap (arrays s b)))(MAX_PRIO := True) else k_test_bit K (bitmap (arrays s b)))"
  by (simp add: init_delimiter_def set_bit)

lemma fold_levels_effect:
  "queue K (fold (init_level K a) ks s) q = (if fst q = a \<and> snd q \<in> set ks then [] else queue K s q)"
  "k_test_bit K (bitmap (arrays (fold (init_level K a) ks s) b)) i =
    (if b = a \<and> i \<in> set ks then False else k_test_bit K (bitmap (arrays s b)) i)"
  by (induction ks arbitrary: s) (auto simp: init_level_effect)

lemma fold_two_levels_effect:
  "queue K (fold (\<lambda>j s. init_level K a j (init_level K a' j s)) ks s) q =
    (if (fst q = a \<or> fst q = a') \<and> snd q \<in> set ks then [] else queue K s q)"
  "k_test_bit K (bitmap (arrays (fold (\<lambda>j s. init_level K a j (init_level K a' j s)) ks s) b)) i =
    (if (b = a \<or> b = a') \<and> i \<in> set ks then False else k_test_bit K (bitmap (arrays s b)) i)"
  by (induction ks arbitrary: s) (auto simp: init_level_effect)

lemma init_cpu_effect:
  "empty_array K (init_cpu K i s) (i, a)"
  "c \<noteq> i \<Longrightarrow> empty_array K s (c, a) \<Longrightarrow> empty_array K (init_cpu K i s) (c, a)"
  "tasks (init_cpu K i s) = tasks s"
  "rqs (init_cpu K i s) = (rqs s)(i := (rqs s i)\<lparr>rq_active := Arr0, rq_expired := Arr1, rq_migration_queue := []\<rparr>)"
  "nr_active (arrays (init_cpu K i s) b) = nr_active (arrays s b)"
  "jiffies (init_cpu K i s) = jiffies s"
  by (cases a; simp add: init_cpu_def Let_def empty_array_def init_delimiter_effect fold_levels_effect
      fold_two_levels_effect)+

lemma init_cpus_effect:
  "tasks (fold (init_cpu K) cs s) = tasks s"
  "jiffies (fold (init_cpu K) cs s) = jiffies s"
  "nr_active (arrays (fold (init_cpu K) cs s) b) = nr_active (arrays s b)"
  "rq_nr_running (rqs (fold (init_cpu K) cs s) c) = rq_nr_running (rqs s c)"
  "rq_active (rqs (fold (init_cpu K) cs s) c) = (if c \<in> set cs then Arr0 else rq_active (rqs s c))"
  "rq_expired (rqs (fold (init_cpu K) cs s) c) = (if c \<in> set cs then Arr1 else rq_expired (rqs s c))"
  "c \<in> set cs \<or> empty_array K s (c, a) \<Longrightarrow> empty_array K (fold (init_cpu K) cs s) (c, a)"
proof (induction cs arbitrary: s)
  case (Cons i cs)
  { case 1 show ?case using Cons(1) by (simp add: init_cpu_effect) }
  { case 2 show ?case using Cons(2) by (simp add: init_cpu_effect) }
  { case 3 show ?case using Cons(3) by (simp add: init_cpu_effect) }
  { case 4 show ?case using Cons(4) by (simp add: init_cpu_effect) }
  { case 5 show ?case using Cons(5) by (simp add: init_cpu_effect) }
  { case 6 show ?case using Cons(6) by (simp add: init_cpu_effect) }
  { case 7 then show ?case using Cons(7) init_cpu_effect(1,2) by (cases "c = i") auto }
qed simp_all

end

section \<open>The invariant after boot\<close>

text \<open>
  The state before \<^verbatim>\<open>sched_init\<close>: counters are zero and no task is queued. CPUs beyond
  \<open>nr_cpus\<close> and levels beyond \<^verbatim>\<open>MAX_PRIO\<close> do not exist in the program; in the model they
  are empty.
\<close>

definition bss :: "('l, 'b) klib \<Rightarrow> nat \<Rightarrow> ('l, 'b) sched \<Rightarrow> bool" where
  "bss K nr_cpus s \<longleftrightarrow>
     (\<forall>a. nr_active (arrays s a) = 0) \<and> (\<forall>c. rq_nr_running (rqs s c) = 0) \<and>
     (\<forall>a i. i < 0 \<or> MAX_PRIO \<le> i \<longrightarrow> queue K s (a, i) = []) \<and>
     (\<forall>c \<ge> nr_cpus. rq_active (rqs s c) = Arr0 \<and> rq_expired (rqs s c) = Arr1 \<and>
        (\<forall>a. empty_array K s (c, a)))"

text \<open>A state with no task queued anywhere.\<close>

lemma idle_system_inv:
  assumes "\<And>c a. empty_array K s (c, a)" and "\<And>a i. i < 0 \<or> MAX_PRIO \<le> i \<Longrightarrow> queue K s (a, i) = []"
    and "\<And>a. nr_active (arrays s a) = 0" and "\<And>c. rq_nr_running (rqs s c) = 0"
    and "\<And>c. rq_active (rqs s c) = Arr0 \<and> rq_expired (rqs s c) = Arr1"
    and "\<And>p. p \<notin> X \<Longrightarrow> t_array (tasks s p) = None \<and> task_ok K (tasks s p)"
  shows "sched_inv K X s"
proof -
  have q: "queue K s q = []" for q
  proof (cases q)
    case (Pair a i)
    then show ?thesis using assms(1) [of "fst a" "snd a"] assms(2) [of i a]
      by (cases "i < 0 \<or> MAX_PRIO \<le> i") (auto simp: empty_array_def)
  qed
  have off: "on_array X s a = {}" for a using assms(6) by (auto simp: on_array_def)
  have "bits_ok K s"
    using assms(1) q unfolding bits_ok_def empty_array_def by (metis prod.collapse)
  moreover have "links_ok K X s"
    using q assms(6) unfolding links_ok_def by (metis distinct.simps(1) empty_iff list.set(1) option.distinct(1))
  moreover have "counts_ok X s" using off assms(3) by (simp add: counts_ok_def)
  ultimately have "q_inv K X s" using assms(6) by (simp add: q_inv_def)
  moreover have "rq_ok X s c" for c using assms(3-6) by (simp add: rq_ok_def load_def)
  ultimately show ?thesis by (simp add: sched_inv_def)
qed

context kernel_lib
begin

lemma init_task_ok: "task_ok K (INIT_TASK K)"
  using HZ_lower by (simp add: INIT_TASK_def task_ok_def queued_ok_def policy_ok_def policy_consts MAX_SLEEP_AVG_def)

lemma sched_init_inv:
  assumes bss: "bss K nr s" and cur: "tasks s cur = INIT_TASK K"
  shows "sched_inv K (- {cur}) (sched_init K nr me cur s)"
    and "t_array (tasks (sched_init K nr me cur s) cur) = Some (0, Arr0)"
    and "t_cpu (tasks (sched_init K nr me cur s) cur) = 0"
proof -
  let ?s1 = "fold (init_cpu K) [0..<nr] s"
  let ?s2 = "upd_rq me (\<lambda>r. r\<lparr>rq_idle := cur\<rparr>) (upd_rq me (\<lambda>r. r\<lparr>rq_curr := cur\<rparr>) ?s1)"
  note E = init_cpus_effect [where cs = "[0..<nr]" and s = s]
  have active: "rq_active (rqs ?s1 c) = Arr0 \<and> rq_expired (rqs ?s1 c) = Arr1" for c
    using bss by (simp add: E bss_def)
  have "sched_inv K (- {cur}) ?s1"
  proof (rule idle_system_inv)
    show "empty_array K ?s1 (c, a)" for c a
      using bss E(7) [of c a] by (cases "c < nr") (auto simp: bss_def)
    then show "queue K ?s1 (a, i) = []" if "i < 0 \<or> MAX_PRIO \<le> i" for a i
    proof -
      have "queue K (init_cpu K c t) (a, i) = queue K t (a, i)" for c and t :: "('l, 'b) sched"
        using that by (auto simp: init_cpu_def Let_def fold_levels_effect fold_two_levels_effect)
      then have "queue K (fold (init_cpu K) is t) (a, i) = queue K t (a, i)" for "is" and t :: "('l, 'b) sched"
        by (induction "is" arbitrary: t) simp_all
      moreover have "queue K s (a, i) = []" using bss that unfolding bss_def by blast
      ultimately show ?thesis by simp
    qed
    show "p \<notin> - {cur} \<Longrightarrow> t_array (tasks ?s1 p) = None \<and> task_ok K (tasks ?s1 p)" for p
      using cur init_task_ok by (simp add: E INIT_TASK_def)
  qed (use active bss in \<open>simp_all add: E bss_def\<close>)
  then have "sched_inv K (- {cur}) ?s2" by (auto intro!: sched_inv_upd_rq)
  moreover have "t_prio (tasks ?s2 cur) < MAX_PRIO" using cur by (simp add: E INIT_TASK_def)
  ultimately have "sched_inv K (- {cur}) (snd (try_to_wake_up K me cur False ?s2))"
    by (intro try_to_wake_up_inv) simp_all
  then show "sched_inv K (- {cur}) (sched_init K nr me cur s)"
    by (simp add: sched_init_def Let_def wake_up_process_def)
  show "t_array (tasks (sched_init K nr me cur s) cur) = Some (0, Arr0)"
    "t_cpu (tasks (sched_init K nr me cur s) cur) = 0"
    using cur active [of 0]
    by (auto simp: sched_init_def Let_def wake_up_process_def try_to_wake_up_def fast_migrates_def
        resched_task_def E INIT_TASK_def policy_consts active_array_def)
qed

lemma init_idle_inv:
  assumes inv: "sched_inv K X s" and p: "idle \<notin> X" and a: "t_array (tasks s idle) = Some (d, a)"
    and pol: "t_policy (tasks s idle) = SCHED_OTHER"
  shows "sched_inv K X (init_idle K idle c s)" and "cpu_ok X (init_idle K idle c s) c"
proof -
  let ?s1 = "upd_rq c (\<lambda>r. r\<lparr>rq_curr := idle, rq_idle := idle\<rparr>) s"
  let ?set = "\<lambda>t. t\<lparr>t_array := None, t_prio := MAX_PRIO, t_state := TASK_RUNNING,
    t_requested_time := 0, t_is_short := 0, t_cpu := c\<rparr>"
  have ok: "task_ok K (tasks s idle)" by (rule q_invD(7) [OF sched_invD(1) [OF inv] p])
  have d: "t_cpu (tasks s idle) = d" by (rule task_okD(1) [OF ok a])
  have "sched_inv K X ?s1" using inv by (rule sched_inv_upd_rq) simp_all
  then have "sched_inv K (insert idle X) (deactivate_task K idle d ?s1)"
    using p a by (intro deactivate_inv) auto
  then have s2: "sched_inv K (insert idle X) (upd_task idle ?set (deactivate_task K idle d ?s1))" by simp
  have "task_ok K (?set (tasks (deactivate_task K idle d ?s1) idle))"
    using ok pol by (simp add: task_ok_def queued_ok_def policy_ok_def policy_consts)
  then have "sched_inv K X (upd_task idle ?set (deactivate_task K idle d ?s1))"
    by (intro sched_inv_remove_off [OF s2]) simp_all
  then have "sched_inv K X (upd_task idle (\<lambda>t. t\<lparr>t_need_resched := True\<rparr>)
      (upd_task idle ?set (deactivate_task K idle d ?s1)))"
    by (rule sched_inv_upd_task) simp_all
  then show "sched_inv K X (init_idle K idle c s)" by (simp add: init_idle_def Let_def d)
  show "cpu_ok X (init_idle K idle c s) c"
    using p by (simp add: init_idle_def Let_def cpu_ok_def current_def)
qed

lemma boot_ok:
  assumes "bss K nr s" and "tasks s cur = INIT_TASK K"
  defines "s' \<equiv> init_idle K cur 0 (sched_init K nr 0 cur s)"
  shows "sched_inv K (- {cur}) s'" and "cpu_ok (- {cur}) s' 0"
proof -
  note S = sched_init_inv [OF assms(1,2), of 0]
  have "t_policy (tasks (sched_init K nr 0 cur s) cur) = SCHED_OTHER"
    using assms(2) by (simp add: sched_init_def Let_def wake_up_process_def try_to_wake_up_def
        resched_task_def init_cpus_effect INIT_TASK_def policy_consts)
  from init_idle_inv [OF S(1) _ S(2) this, of 0]
  show "sched_inv K (- {cur}) s'" "cpu_ok (- {cur}) s' 0" by (simp_all add: s'_def)
qed

end

end
