(* ===== verification/Pid_Hash.thy ===== *)
theory Pid_Hash imports Schedule begin

text \<open>
  The pid hash table of \<^verbatim>\<open>include/linux/sched.h\<close>. The scheduler's state holds every hash
  chain as a list of tasks. The second half of the theory has the pointers the header uses
  (\<^verbatim>\<open>pidhash_next\<close>, \<^verbatim>\<open>pidhash_pprev\<close>, the bucket heads) and shows that \<^verbatim>\<open>hash_pid\<close>,
  \<^verbatim>\<open>unhash_pid\<close> and the search of \<^verbatim>\<open>find_task_by_pid\<close> on them implement the list operations.
\<close>

section \<open>The table as lists\<close>

definition PIDHASH_SZ :: int where "PIDHASH_SZ = push_bit 10 1"

definition pid_hashfn :: "int \<Rightarrow> int" where
  "pid_hashfn x = (drop_bit 8 x XOR x) AND (PIDHASH_SZ - 1)"

definition find_task_by_pid :: "int \<Rightarrow> ('l, 'b) sched \<Rightarrow> tptr option" where
  "find_task_by_pid pid s = List.find (\<lambda>p. t_pid (tasks s p) = pid) (pidhash s (pid_hashfn pid))"

text \<open>The invariant of the table: tasks are in the chain of their pid, and pids differ.\<close>

definition pid_inv :: "('l, 'b) sched \<Rightarrow> bool" where
  "pid_inv s \<longleftrightarrow>
     (\<forall>h. distinct (pidhash s h) \<and> (\<forall>p \<in> set (pidhash s h). pid_hashfn (t_pid (tasks s p)) = h)) \<and>
     (\<forall>h h' p q. p \<in> set (pidhash s h) \<longrightarrow> q \<in> set (pidhash s h') \<longrightarrow>
        t_pid (tasks s p) = t_pid (tasks s q) \<longrightarrow> p = q)"

definition hashed :: "('l, 'b) sched \<Rightarrow> tptr \<Rightarrow> bool" where
  "hashed s p \<longleftrightarrow> (\<exists>h. p \<in> set (pidhash s h))"

lemma pid_hashfn_range: "0 \<le> pid_hashfn x \<and> pid_hashfn x < PIDHASH_SZ"
proof -
  have "(drop_bit 8 x XOR x) AND 1023 = (drop_bit 8 x XOR x) AND mask 10" by (simp add: mask_eq_exp_minus_1)
  also have "\<dots> = take_bit 10 (drop_bit 8 x XOR x)" by (simp only: take_bit_eq_mask)
  finally show ?thesis
    using take_bit_int_less_exp [of 10 "drop_bit 8 x XOR x"] by (simp add: pid_hashfn_def PIDHASH_SZ_def)
qed

lemma find_task_by_pid_iff:
  assumes "pid_inv s"
  shows "find_task_by_pid pid s = Some p \<longleftrightarrow> hashed s p \<and> t_pid (tasks s p) = pid"
proof
  assume "find_task_by_pid pid s = Some p"
  then show "hashed s p \<and> t_pid (tasks s p) = pid"
    unfolding find_task_by_pid_def find_Some_iff hashed_def by (metis nth_mem)
next
  assume "hashed s p \<and> t_pid (tasks s p) = pid"
  then obtain h where h: "p \<in> set (pidhash s h)" "t_pid (tasks s p) = pid" by (auto simp: hashed_def)
  with assms have "pid_hashfn pid = h" by (auto simp: pid_inv_def)
  with h have "find_task_by_pid pid s \<noteq> None"
    by (auto simp: find_task_by_pid_def find_None_iff)
  then obtain q where q: "find_task_by_pid pid s = Some q" by blast
  then have "q \<in> set (pidhash s (pid_hashfn pid))" "t_pid (tasks s q) = pid"
    unfolding find_task_by_pid_def find_Some_iff by (metis nth_mem)+
  with h assms q show "find_task_by_pid pid s = Some p" unfolding pid_inv_def by metis
qed

section \<open>The pointers\<close>

text \<open>A \<^verbatim>\<open>task_t **\<close> is the address of a bucket or of the \<^verbatim>\<open>pidhash_next\<close> field of a task.\<close>

datatype slot = Bucket int | Next tptr

record phash =
  ph_bucket :: "int \<Rightarrow> tptr option"
  pidhash_next :: "tptr \<Rightarrow> tptr option"
  pidhash_pprev :: "tptr \<Rightarrow> slot"

definition deref :: "slot \<Rightarrow> phash \<Rightarrow> tptr option" where
  "deref a h = (case a of Bucket i \<Rightarrow> ph_bucket h i | Next p \<Rightarrow> pidhash_next h p)"

definition assign :: "slot \<Rightarrow> tptr option \<Rightarrow> phash \<Rightarrow> phash" where
  "assign a v h =
     (case a of Bucket i \<Rightarrow> h\<lparr>ph_bucket := (ph_bucket h)(i := v)\<rparr>
      | Next p \<Rightarrow> h\<lparr>pidhash_next := (pidhash_next h)(p := v)\<rparr>)"

definition hash_pid :: "(tptr \<Rightarrow> int) \<Rightarrow> tptr \<Rightarrow> phash \<Rightarrow> phash" where
  "hash_pid pid p h =
     (let htable = Bucket (pid_hashfn (pid p));
          h = assign (Next p) (deref htable h) h;
          h = (case deref htable h of None \<Rightarrow> h
               | Some q \<Rightarrow> h\<lparr>pidhash_pprev := (pidhash_pprev h)(q := Next p)\<rparr>);
          h = assign htable (Some p) h
      in h\<lparr>pidhash_pprev := (pidhash_pprev h)(p := htable)\<rparr>)"

definition unhash_pid :: "tptr \<Rightarrow> phash \<Rightarrow> phash" where
  "unhash_pid p h =
     (let h = (case pidhash_next h p of None \<Rightarrow> h
               | Some q \<Rightarrow> h\<lparr>pidhash_pprev := (pidhash_pprev h)(q := pidhash_pprev h p)\<rparr>)
      in assign (pidhash_pprev h p) (pidhash_next h p) h)"

text \<open>The search loop. \<open>None\<close> means that it does not end.\<close>

partial_function (option) pid_walk ::
  "(tptr \<Rightarrow> int) \<Rightarrow> int \<Rightarrow> tptr option \<Rightarrow> phash \<Rightarrow> tptr option option" where
  "pid_walk pid n p h =
     (case p of None \<Rightarrow> Some None
      | Some q \<Rightarrow> if pid q \<noteq> n then pid_walk pid n (pidhash_next h q) h else Some (Some q))"

definition ptr_find_task :: "(tptr \<Rightarrow> int) \<Rightarrow> int \<Rightarrow> phash \<Rightarrow> tptr option option" where
  "ptr_find_task pid n h = pid_walk pid n (deref (Bucket (pid_hashfn n)) h) h"

text \<open>The chain that starts in a slot: its tasks, each pointing back to the slot before it.\<close>

fun chain :: "phash \<Rightarrow> slot \<Rightarrow> tptr list \<Rightarrow> bool" where
  "chain h a [] \<longleftrightarrow> deref a h = None"
| "chain h a (p # ps) \<longleftrightarrow> deref a h = Some p \<and> pidhash_pprev h p = a \<and> chain h (Next p) ps"

text \<open>The pointers represent a table of lists.\<close>

definition represents :: "phash \<Rightarrow> (int \<Rightarrow> tptr list) \<Rightarrow> bool" where
  "represents h t \<longleftrightarrow> (\<forall>i. chain h (Bucket i) (t i) \<and> distinct (t i)) \<and>
     (\<forall>i j p. p \<in> set (t i) \<longrightarrow> p \<in> set (t j) \<longrightarrow> i = j)"

section \<open>The pointer operations implement the list operations\<close>

lemma deref_assign [simp]:
  "deref a (assign b v h) = (if a = b then v else deref a h)"
  "pidhash_pprev (assign b v h) = pidhash_pprev h"
  by (cases a; cases b; simp add: deref_def assign_def)+

lemma deref_pprev [simp]: "deref a (h\<lparr>pidhash_pprev := f\<rparr>) = deref a h"
  by (cases a) (simp_all add: deref_def)

lemma next_deref: "pidhash_next h p = deref (Next p) h"
  by (simp add: deref_def)

text \<open>A chain depends only on the slots and the back pointers of its own tasks.\<close>

lemma chain_cong:
  assumes "deref a h' = deref a h"
    and "\<And>p. p \<in> set ps \<Longrightarrow> pidhash_pprev h' p = pidhash_pprev h p \<and> deref (Next p) h' = deref (Next p) h"
  shows "chain h' a ps = chain h a ps"
  using assms by (induction ps arbitrary: a) auto

lemma chain_determined:
  assumes "chain h a ps" and "chain h a qs"
  shows "ps = qs"
  using assms
proof (induction ps arbitrary: a qs)
  case Nil
  then show ?case by (cases qs) auto
next
  case (Cons p ps)
  then show ?case by (cases qs) auto
qed

lemma pid_walk_chain:
  assumes "chain h a ps"
  shows "pid_walk pid n (deref a h) h = Some (List.find (\<lambda>p. pid p = n) ps)"
  using assms
proof (induction ps arbitrary: a)
  case Nil
  then show ?case by (simp add: pid_walk.simps)
next
  case (Cons p ps)
  then have "pid_walk pid n (deref (Next p) h) h = Some (List.find (\<lambda>p. pid p = n) ps)" by simp
  with Cons.prems show ?case by (subst pid_walk.simps) (simp add: next_deref)
qed

lemma ptr_find_task_eq:
  assumes "represents h t"
  shows "ptr_find_task pid n h = Some (List.find (\<lambda>p. pid p = n) (t (pid_hashfn n)))"
  using assms by (simp add: ptr_find_task_def represents_def pid_walk_chain)

lemma hash_pid_represents:
  fixes h :: phash and pid :: "tptr \<Rightarrow> int" and p :: tptr
  assumes rep: "represents h t" and new: "\<And>i. p \<notin> set (t i)"
  defines "b \<equiv> pid_hashfn (pid p)"
  shows "represents (hash_pid pid p h) (t(b := p # t b))"
proof -
  let ?h = "hash_pid pid p h"
  have slots: "deref (Next p) ?h = deref (Bucket b) h" "deref (Bucket b) ?h = Some p"
    "a \<noteq> Next p \<Longrightarrow> a \<noteq> Bucket b \<Longrightarrow> deref a ?h = deref a h" for a
    by (auto simp: hash_pid_def Let_def b_def split: option.splits)
  have bk: "pidhash_pprev ?h p = Bucket b"
    "deref (Bucket b) h = Some q \<Longrightarrow> q \<noteq> p \<Longrightarrow> pidhash_pprev ?h q = Next p"
    "q \<noteq> p \<Longrightarrow> deref (Bucket b) h \<noteq> Some q \<Longrightarrow> pidhash_pprev ?h q = pidhash_pprev h q" for q
    by (auto simp: hash_pid_def Let_def b_def split: option.splits)
  have old: "chain h (Bucket i) (t i)" "distinct (t i)" for i
    using rep by (simp_all add: represents_def)
  have first: "deref (Bucket b) h = Some q \<Longrightarrow> q \<in> set (t b)" for q
    using old(1) [of b] by (cases "t b") auto
  have "chain ?h (Bucket i) (t i)" if "i \<noteq> b" for i
  proof -
    have "pidhash_pprev ?h q = pidhash_pprev h q \<and> deref (Next q) ?h = deref (Next q) h" if "q \<in> set (t i)" for q
    proof -
      have "q \<noteq> p" using new that by auto
      moreover have "deref (Bucket b) h \<noteq> Some q"
        using first rep that \<open>i \<noteq> b\<close> unfolding represents_def by blast
      ultimately show ?thesis using bk slots by simp
    qed
    then show ?thesis using chain_cong [of "Bucket i" ?h h "t i"] slots(3) old(1) that by simp
  qed
  moreover have "chain ?h (Next p) (t b)"
  proof (cases "t b")
    case Nil
    with old(1) [of b] slots show ?thesis by simp
  next
    case (Cons q qs)
    have q: "q \<noteq> p" "deref (Bucket b) h = Some q" "chain h (Next q) qs"
      using Cons old(1) [of b] new [of b] by auto
    have "pidhash_pprev ?h r = pidhash_pprev h r \<and> deref (Next r) ?h = deref (Next r) h" if "r \<in> set qs" for r
      using that Cons old(2) [of b] new [of b] q(2) bk(3) [of r] slots(3) [of "Next r"] by auto
    then have "chain ?h (Next q) qs"
      using chain_cong [of "Next q" ?h h qs] slots(3) [of "Next q"] q by simp
    with Cons q slots bk show ?thesis by simp
  qed
  ultimately show ?thesis
    using rep new slots(2) bk(1) unfolding represents_def by (auto split: if_splits)
qed

text \<open>Taking one task out of a chain.\<close>

lemma chain_mid:
  assumes "chain h a (ps @ p # qs)"
  shows "pidhash_pprev h p = (if ps = [] then a else Next (last ps))"
    and "deref (Next p) h = (case qs of [] \<Rightarrow> None | q # _ \<Rightarrow> Some q)"
  using assms by (induction ps arbitrary: a) (auto split: list.splits if_splits)

lemma unhash_slots:
  "deref a (unhash_pid p h) = (if a = pidhash_pprev h p then pidhash_next h p else deref a h)"
  "pidhash_next h p = Some q \<Longrightarrow> pidhash_pprev (unhash_pid p h) q = pidhash_pprev h p"
  "pidhash_next h p \<noteq> Some q \<Longrightarrow> pidhash_pprev (unhash_pid p h) q = pidhash_pprev h q"
  by (auto simp: unhash_pid_def Let_def split: option.splits)

lemma chain_remove:
  assumes "chain h a (ps @ p # qs)" and "distinct (ps @ p # qs)" and "a \<notin> Next ` set (ps @ p # qs)"
  shows "chain (unhash_pid p h) a (ps @ qs)"
  using assms
proof (induction ps arbitrary: a)
  case Nil
  note slots = unhash_slots [where p = p and h = h]
  have nx: "pidhash_next h p = (case qs of [] \<Rightarrow> None | q # _ \<Rightarrow> Some q)"
    using chain_mid(2) [OF Nil.prems(1)] by (simp add: next_deref)
  show ?case
  proof (cases qs)
    case Nil
    with \<open>chain h a ([] @ p # qs)\<close> nx slots show ?thesis by simp
  next
    case (Cons q rs)
    have "pidhash_pprev (unhash_pid p h) r = pidhash_pprev h r \<and>
        deref (Next r) (unhash_pid p h) = deref (Next r) h" if "r \<in> set rs" for r
    proof -
      have "Next r \<in> Next ` set ([] @ p # qs)" using that Cons by simp
      with Nil.prems(3) have "Next r \<noteq> a" by blast
      moreover have "r \<noteq> q" "a = pidhash_pprev h p" using Nil.prems Cons that by auto
      ultimately show ?thesis using slots(1) [of "Next r"] slots(3) [of r] nx Cons by simp
    qed
    moreover have "deref (Next q) (unhash_pid p h) = deref (Next q) h"
      using Nil.prems Cons slots(1) [of "Next q"] by auto
    ultimately have "chain (unhash_pid p h) (Next q) rs = chain h (Next q) rs"
      by (intro chain_cong) auto
    with Nil.prems Cons nx slots show ?thesis by simp
  qed
next
  case (Cons x ps)
  note slots = unhash_slots [where p = p and h = h]
  note mid = chain_mid [OF Cons.prems(1)]
  have "chain (unhash_pid p h) (Next x) (ps @ qs)"
    using Cons.prems by (intro Cons.IH) auto
  moreover have "a \<noteq> pidhash_pprev h p" using mid(1) Cons.prems(3) by (auto split: if_splits)
  moreover have "pidhash_next h p \<noteq> Some x"
    using mid(2) Cons.prems(2) by (auto simp: next_deref split: list.splits)
  ultimately show ?case using Cons.prems(1) slots by simp
qed

lemma unhash_pid_represents:
  assumes rep: "represents h t" and p: "p \<in> set (t b)"
  shows "represents (unhash_pid p h) (\<lambda>i. remove1 p (t i))"
proof -
  let ?h = "unhash_pid p h"
  note slots = unhash_slots [where p = p and h = h]
  have old: "chain h (Bucket i) (t i)" "distinct (t i)" for i
    using rep by (simp_all add: represents_def)
  have others: "q \<notin> set (t b)" if "q \<in> set (t i)" "i \<noteq> b" for q i
    using rep that unfolding represents_def by blast
  obtain ps qs where b: "t b = ps @ p # qs" using split_list [OF p] by blast
  have "chain h (Bucket b) (ps @ p # qs)" using old(1) [of b] b by simp
  note mid = chain_mid [OF this]
  have bk: "pidhash_pprev h p = Bucket b \<or> pidhash_pprev h p \<in> Next ` set (t b)"
    using mid(1) b by (auto split: if_splits)
  have fwd: "pidhash_next h p = Some q \<Longrightarrow> q \<in> set (t b)" for q
    using mid(2) b by (auto simp: next_deref split: list.splits)
  have "remove1 p (t b) = ps @ qs" using b old(2) [of b] by (auto simp: remove1_append)
  moreover have "chain ?h (Bucket b) (ps @ qs)"
    using b old [of b] by (intro chain_remove) auto
  moreover have "chain ?h (Bucket i) (t i)" "remove1 p (t i) = t i" if "i \<noteq> b" for i
  proof -
    have "pidhash_pprev ?h q = pidhash_pprev h q \<and> deref (Next q) ?h = deref (Next q) h" if "q \<in> set (t i)" for q
      using others [OF that \<open>i \<noteq> b\<close>] slots bk fwd by auto
    moreover have "deref (Bucket i) ?h = deref (Bucket i) h" using slots(1) bk that by auto
    ultimately show "chain ?h (Bucket i) (t i)" using chain_cong old(1) by blast
    show "remove1 p (t i) = t i" using others [OF _ that] p by (intro remove1_idem) blast
  qed
  ultimately have "chain ?h (Bucket i) (remove1 p (t i))" for i by (cases "i = b") simp_all
  then show ?thesis
    using rep unfolding represents_def by (auto dest: notin_set_remove1 intro: distinct_remove1)
qed

end
