(* ===== verification/Sched_Syscalls.thy ===== *)
theory Sched_Syscalls imports Wakeup Pid_Hash begin

text \<open>
  The scheduling system calls: nice values, \<^verbatim>\<open>setscheduler\<close> and its two entry points, the
  queries, and \<^verbatim>\<open>sys_sched_yield\<close>. A user pointer to a \<^verbatim>\<open>struct sched_param\<close> is an option,
  \<open>None\<close> for \<^verbatim>\<open>NULL\<close>; \<open>fault\<close> says that copying from or to user space fails. A value that
  a system call copies to user space is part of its result.
\<close>

section \<open>Capabilities and lookup\<close>

definition PF_SUPERPRIV :: u32 where "PF_SUPERPRIV = 0x100"

definition capable ::
  "('l, 'b) klib \<Rightarrow> cpu \<Rightarrow> capability \<Rightarrow> ('l, 'b) sched \<Rightarrow> bool \<times> ('l, 'b) sched" where
  "capable K me cap s =
     (if k_cap_raised K (t_cap_effective (tasks s (current me s))) cap
      then (True, upd_task (current me s) (\<lambda>t. t\<lparr>t_flags := t_flags t OR PF_SUPERPRIV\<rparr>) s)
      else (False, s))"

definition find_process_by_pid :: "cpu \<Rightarrow> int \<Rightarrow> ('l, 'b) sched \<Rightarrow> tptr option" where
  "find_process_by_pid me pid s = (if pid \<noteq> 0 then find_task_by_pid pid s else Some (current me s))"

section \<open>Nice values\<close>

definition set_user_nice :: "('l, 'b) klib \<Rightarrow> tptr \<Rightarrow> int \<Rightarrow> ('l, 'b) sched \<Rightarrow> ('l, 'b) sched" where
  "set_user_nice K p nice s =
     (if TASK_NICE (tasks s p) = nice \<or> nice < -20 \<or> nice > 19 then s
      else if rt_task (tasks s p) then upd_task p (\<lambda>t. t\<lparr>t_static_prio := NICE_TO_PRIO nice\<rparr>) s
      else
        (let rq = t_cpu (tasks s p);
             array = t_array (tasks s p);
             static_prio_old = t_static_prio (tasks s p);
             s = (case array of Some a \<Rightarrow> dequeue_task K p a s | None \<Rightarrow> s);
             s = upd_task p (\<lambda>t. t\<lparr>t_static_prio := NICE_TO_PRIO nice\<rparr>) s;
             s = (if \<not> (t_is_short (tasks s p) = -1 \<and> t_policy (tasks s p) = SCHED_SHORT)
                  then upd_task p (\<lambda>t. t\<lparr>t_prio := NICE_TO_PRIO nice\<rparr>) s else s)
         in case array of None \<Rightarrow> s
            | Some a \<Rightarrow>
                (let s = enqueue_task K p a s
                 in if NICE_TO_PRIO nice < static_prio_old \<or> p = rq_curr (rqs s rq)
                    then resched_task (rq_curr (rqs s rq)) s else s)))"

definition sys_nice ::
  "('l, 'b) klib \<Rightarrow> cpu \<Rightarrow> int \<Rightarrow> ('l, 'b) sched \<Rightarrow> int kres \<times> ('l, 'b) sched" where
  "sys_nice K me increment s =
     (let (allowed, s) = (if increment < 0 then capable K me CAP_SYS_NICE s else (True, s)) in
      if \<not> allowed then (Inl EPERM, s)
      else
        (let increment = (if increment < -40 then -40 else increment);
             increment = (if increment > 40 then 40 else increment);
             nice = PRIO_TO_NICE (t_static_prio (tasks s (current me s))) + increment;
             nice = (if nice < -20 then -20 else nice);
             nice = (if nice > 19 then 19 else nice)
         in (Inr 0, set_user_nice K (current me s) nice s)))"

section \<open>Changing the policy\<close>

record sched_param =
  sched_priority :: int
  sp_requested_time :: int

text \<open>
  The tests of the arguments. C parses \<^verbatim>\<open>policy == SCHED_OTHER != lp.sched_priority == 0\<close> as
  \<^verbatim>\<open>((policy == SCHED_OTHER) != lp.sched_priority) == 0\<close>. The comparison of the requested times
  has an unsigned operand, \<^verbatim>\<open>time_slice\<close>, and is unsigned.
\<close>

definition bad_param :: "('l, 'b) klib \<Rightarrow> task \<Rightarrow> int \<Rightarrow> sched_param \<Rightarrow> bool" where
  "bad_param K p policy lp \<longleftrightarrow>
     policy \<noteq> SCHED_SHORT \<and> (sched_priority lp < 0 \<or> sched_priority lp > MAX_USER_RT_PRIO - 1) \<or>
     policy \<noteq> SCHED_SHORT \<and> \<not> ((if policy = SCHED_OTHER then 1 else 0) \<noteq> sched_priority lp) \<or>
     policy = SCHED_SHORT \<and>
       (t_policy p = SCHED_SHORT \<and>
          (word_of_int (sp_requested_time lp) :: u32) \<le>
            word_of_int (t_requested_time p) - t_time_slice p * 1000 div word_of_int (k_HZ K) \<or>
        sp_requested_time lp > 3000 \<or> sp_requested_time lp < 1)"

text \<open>
  The permission tests, in the order of the code: \<^verbatim>\<open>!(...) || capable(CAP_SYS_NICE)\<close> twice, each
  of which marks the caller when the capability is granted, and four tests for SHORT.
\<close>

definition capable_unless ::
  "('l, 'b) klib \<Rightarrow> cpu \<Rightarrow> bool \<Rightarrow> ('l, 'b) sched \<Rightarrow> bool \<times> ('l, 'b) sched" where
  "capable_unless K me ok s = (if ok then (True, s) else capable K me CAP_SYS_NICE s)"

definition short_denied :: "task \<Rightarrow> task \<Rightarrow> int \<Rightarrow> bool" where
  "short_denied cur p policy \<longleftrightarrow>
     t_policy p = SCHED_SHORT \<and> policy \<noteq> SCHED_SHORT \<or>
     t_policy p = SCHED_SHORT \<and> t_is_short p = -1 \<or>
     policy = SCHED_SHORT \<and> t_policy p \<noteq> SCHED_OTHER \<and> t_policy p \<noteq> SCHED_SHORT \<or>
     policy = SCHED_SHORT \<and> t_euid cur \<noteq> 0 \<and> t_euid cur \<noteq> t_euid p"

definition sched_denied ::
  "('l, 'b) klib \<Rightarrow> cpu \<Rightarrow> tptr \<Rightarrow> int \<Rightarrow> ('l, 'b) sched \<Rightarrow> bool \<times> ('l, 'b) sched" where
  "sched_denied K me p policy s =
     (let (ok, s) = capable_unless K me (\<not> (policy = SCHED_FIFO \<or> policy = SCHED_RR)) s in
      if \<not> ok then (True, s) else
      (let cur = tasks s (current me s); t = tasks s p;
           (ok, s) = capable_unless K me (\<not> (t_euid cur \<noteq> t_euid t \<and> t_euid cur \<noteq> t_uid t)) s in
       if \<not> ok then (True, s)
       else (short_denied (tasks s (current me s)) (tasks s p) policy, s)))"

text \<open>The new time slice and the other fields of the task.\<close>

definition short_request :: "('l, 'b) klib \<Rightarrow> int \<Rightarrow> task \<Rightarrow> task" where
  "short_request K req t =
     (let t = (if t_policy t \<noteq> SCHED_SHORT
               then t\<lparr>t_is_short := 1, t_requested_time := req,
                      t_time_slice := word_of_int ((req * k_HZ K) sdiv 1000)\<rparr>
               else t\<lparr>t_time_slice := word_of_int ((req * k_HZ K) sdiv 1000)
                        - (word_of_int ((t_requested_time t * k_HZ K) sdiv 1000) - t_time_slice t),
                      t_requested_time := req\<rparr>);
          t = (if t_requested_time t = 0 then t\<lparr>t_requested_time := 1\<rparr> else t)
      in if t_time_slice t = 0 then t\<lparr>t_time_slice := 1\<rparr> else t)"

definition apply_policy :: "int \<Rightarrow> int \<Rightarrow> task \<Rightarrow> task" where
  "apply_policy policy prio t =
     (let t = t\<lparr>t_policy := policy\<rparr>;
          t = (if policy \<noteq> SCHED_SHORT then t\<lparr>t_rt_priority := prio\<rparr> else t)
      in if policy \<noteq> SCHED_OTHER \<and> policy \<noteq> SCHED_SHORT
         then t\<lparr>t_prio := MAX_USER_RT_PRIO - 1 - t_rt_priority t\<rparr>
         else t\<lparr>t_prio := t_static_prio t\<rparr>)"

definition change_policy ::
  "('l, 'b) klib \<Rightarrow> cpu \<Rightarrow> tptr \<Rightarrow> int \<Rightarrow> sched_param \<Rightarrow> ('l, 'b) sched \<Rightarrow> ('l, 'b) sched" where
  "change_policy K me p policy lp s =
     (let array = t_array (tasks s p);
          s = (if array \<noteq> None then deactivate_task K p (t_cpu (tasks s p)) s else s);
          s = (if policy = SCHED_SHORT
               then (let s = (if t_policy (tasks s p) \<noteq> SCHED_SHORT
                              then upd_task (current me s) (\<lambda>t. t\<lparr>t_need_resched := True\<rparr>) s else s)
                     in upd_task p (short_request K (sp_requested_time lp)) s)
               else s);
          s = upd_task p (apply_policy policy (sched_priority lp)) s
      in if array \<noteq> None then activate_task K p (t_cpu (tasks s p)) s else s)"

text \<open>What is done with the task found; the policy -1 stands for the task's own.\<close>

definition known_policy :: "int \<Rightarrow> bool" where
  "known_policy policy \<longleftrightarrow> \<not> (policy \<noteq> SCHED_FIFO \<and> policy \<noteq> SCHED_RR \<and>
     policy \<noteq> SCHED_OTHER \<and> policy \<noteq> SCHED_SHORT)"

definition setscheduler_task ::
  "('l, 'b) klib \<Rightarrow> cpu \<Rightarrow> tptr \<Rightarrow> int \<Rightarrow> sched_param \<Rightarrow> ('l, 'b) sched \<Rightarrow> int kres \<times> ('l, 'b) sched" where
  "setscheduler_task K me p policy lp s =
     (if \<not> policy < 0 \<and> \<not> known_policy policy then (Inl EINVAL, s)
      else
        (let policy = (if policy < 0 then t_policy (tasks s p) else policy)
         in if bad_param K (tasks s p) policy lp then (Inl EINVAL, s)
            else (let (denied, s) = sched_denied K me p policy s
                  in if denied then (Inl EPERM, s)
                     else (Inr 0, change_policy K me p policy lp s))))"

definition setscheduler ::
  "('l, 'b) klib \<Rightarrow> cpu \<Rightarrow> int \<Rightarrow> int \<Rightarrow> sched_param option \<Rightarrow> bool \<Rightarrow> ('l, 'b) sched \<Rightarrow>
    int kres \<times> ('l, 'b) sched" where
  "setscheduler K me pid policy param fault s =
     (case param of None \<Rightarrow> (Inl EINVAL, s)
      | Some lp \<Rightarrow>
          if pid < 0 then (Inl EINVAL, s)
          else if fault then (Inl EFAULT, s)
          else case find_process_by_pid me pid s of None \<Rightarrow> (Inl ESRCH, s)
               | Some p \<Rightarrow> setscheduler_task K me p policy lp s)"

definition sys_sched_setscheduler ::
  "('l, 'b) klib \<Rightarrow> cpu \<Rightarrow> int \<Rightarrow> int \<Rightarrow> sched_param option \<Rightarrow> bool \<Rightarrow> ('l, 'b) sched \<Rightarrow>
    int kres \<times> ('l, 'b) sched" where
  "sys_sched_setscheduler K me pid policy param fault s = setscheduler K me pid policy param fault s"

definition sys_sched_setparam ::
  "('l, 'b) klib \<Rightarrow> cpu \<Rightarrow> int \<Rightarrow> sched_param option \<Rightarrow> bool \<Rightarrow> ('l, 'b) sched \<Rightarrow>
    int kres \<times> ('l, 'b) sched" where
  "sys_sched_setparam K me pid param fault s = setscheduler K me pid (-1) param fault s"

section \<open>Queries\<close>

definition sys_sched_getscheduler :: "cpu \<Rightarrow> int \<Rightarrow> ('l, 'b) sched \<Rightarrow> int kres" where
  "sys_sched_getscheduler me pid s =
     (if pid < 0 then Inl EINVAL
      else case find_process_by_pid me pid s of None \<Rightarrow> Inl ESRCH
           | Some p \<Rightarrow> Inr (t_policy (tasks s p)))"

definition sys_sched_getparam ::
  "cpu \<Rightarrow> int \<Rightarrow> bool \<Rightarrow> bool \<Rightarrow> ('l, 'b) sched \<Rightarrow> sched_param kres" where
  "sys_sched_getparam me pid null fault s =
     (if null \<or> pid < 0 then Inl EINVAL
      else case find_process_by_pid me pid s of None \<Rightarrow> Inl ESRCH
           | Some p \<Rightarrow>
               if fault then Inl EFAULT
               else Inr \<lparr>sched_priority = t_rt_priority (tasks s p),
                         sp_requested_time = t_requested_time (tasks s p)\<rparr>)"

text \<open>The mask and the length \<^verbatim>\<open>sizeof(unsigned long)\<close>, which is 4.\<close>

definition sys_sched_getaffinity ::
  "('l, 'b) klib \<Rightarrow> cpu \<Rightarrow> int \<Rightarrow> u32 \<Rightarrow> bool \<Rightarrow> ('l, 'b) sched \<Rightarrow> (u32 \<times> int) kres" where
  "sys_sched_getaffinity K me pid len fault s =
     (if len < 4 then Inl EINVAL
      else case find_process_by_pid me pid s of None \<Rightarrow> Inl ESRCH
           | Some p \<Rightarrow> if fault then Inl EFAULT
                       else Inr (t_cpus_allowed (tasks s p) AND k_cpu_online_map K, 4))"

definition sys_sched_get_priority_max :: "int \<Rightarrow> int kres" where
  "sys_sched_get_priority_max policy =
     (if policy = SCHED_FIFO \<or> policy = SCHED_RR then Inr (MAX_USER_RT_PRIO - 1)
      else if policy = SCHED_OTHER then Inr 0 else Inl EINVAL)"

definition sys_sched_get_priority_min :: "int \<Rightarrow> int kres" where
  "sys_sched_get_priority_min policy =
     (if policy = SCHED_FIFO \<or> policy = SCHED_RR then Inr 1
      else if policy = SCHED_OTHER then Inr 0 else Inl EINVAL)"

text \<open>The interval is given in jiffies; \<^verbatim>\<open>jiffies_to_timespec\<close> is a header outside the repository.\<close>

definition sys_sched_rr_get_interval :: "('l, 'b) klib \<Rightarrow> cpu \<Rightarrow> int \<Rightarrow> bool \<Rightarrow> ('l, 'b) sched \<Rightarrow> int kres" where
  "sys_sched_rr_get_interval K me pid fault s =
     (if pid < 0 then Inl EINVAL
      else case find_process_by_pid me pid s of None \<Rightarrow> Inl ESRCH
           | Some p \<Rightarrow>
               if fault then Inl EFAULT
               else Inr (if t_policy (tasks s p) AND SCHED_FIFO \<noteq> 0 then 0 else TASK_TIMESLICE K (tasks s p)))"

section \<open>Yielding the processor\<close>

definition yield_other :: "('l, 'b) klib \<Rightarrow> tptr \<Rightarrow> aid \<Rightarrow> ('l, 'b) sched \<Rightarrow> ('l, 'b) sched" where
  "yield_other K p array s =
     (let prio = t_prio (tasks s p);
          s = upd_lists (k_list_del K p) s
      in if \<not> k_list_empty K (lists s) (array, prio)
         then upd_lists (k_list_add K p (list_next K (lists s) (array, prio))) s
         else
           (let s = upd_array array (\<lambda>A. A\<lparr>bitmap := k_clear_bit K prio (bitmap A)\<rparr>) s;
                i = k_find_first_bit K (bitmap (arrays s array));
                (i, s) = (if i = MAX_PRIO \<or> i \<le> prio then (prio, s)
                          else (i, upd_task p (\<lambda>t. t\<lparr>t_prio := i\<rparr>) s));
                s = upd_lists (k_list_add K p (list_next K (lists s) (array, i))) s
            in upd_array array (\<lambda>A. A\<lparr>bitmap := k_set_bit K i (bitmap A)\<rparr>) s))"

definition yield_requeue :: "('l, 'b) klib \<Rightarrow> cpu \<Rightarrow> ('l, 'b) sched \<Rightarrow> ('l, 'b) sched" where
  "yield_requeue K me s =
     (let p = current me s; array = the (t_array (tasks s p))
      in if t_policy (tasks s p) = SCHED_SHORT then activate_task K p me (deactivate_task K p me s)
         else if rt_task (tasks s p)
         then upd_lists (k_list_add_tail K p (array, t_prio (tasks s p))) (upd_lists (k_list_del K p) s)
         else yield_other K p array s)"

definition sys_sched_yield ::
  "('l, 'b) klib \<Rightarrow> bool \<Rightarrow> (nat \<Rightarrow> bool) \<Rightarrow> cpu \<Rightarrow> ('l, 'b) sched \<Rightarrow> (int kres \<times> ('l, 'b) sched) option" where
  "sys_sched_yield K in_interrupt trylock me s =
     map_option (\<lambda>s. (Inr 0, s)) (schedule K in_interrupt trylock me (yield_requeue K me s))"

end
