(* ===== verification/Syscall_Inv.thy ===== *)
theory Syscall_Inv imports Sched_Syscalls begin

text \<open>
  The system calls keep the scheduler's invariant. An error return changes nothing but the
  \<^verbatim>\<open>PF_SUPERPRIV\<close> flag of the caller.
\<close>

section \<open>Capabilities\<close>

definition set_flags :: "cpu \<Rightarrow> u32 \<Rightarrow> ('l, 'b) sched \<Rightarrow> ('l, 'b) sched" where
  "set_flags me f s = upd_task (current me s) (\<lambda>t. t\<lparr>t_flags := f\<rparr>) s"

lemma set_flags_same: "\<exists>f. s = set_flags me f s"
  by (rule exI [of _ "t_flags (tasks s (current me s))"]) (simp add: set_flags_def upd_task_def)

lemma set_flags_twice [simp]: "set_flags me f (set_flags me g s) = set_flags me f s"
  by (simp add: set_flags_def)

lemma capable_flags: "capable K me cap s = (b, s') \<Longrightarrow> \<exists>f. s' = set_flags me f s"
  using set_flags_same [of s me] by (auto simp: capable_def set_flags_def upd_task_def split: if_splits)

text \<open>The one change a failing call may make: \<^verbatim>\<open>capable\<close> has marked the caller.\<close>

definition marked :: "cpu \<Rightarrow> ('l, 'b) sched \<Rightarrow> ('l, 'b) sched \<Rightarrow> bool" where
  "marked me s s' \<longleftrightarrow>
     s' = s \<or> s' = upd_task (current me s) (\<lambda>t. t\<lparr>t_flags := t_flags t OR PF_SUPERPRIV\<rparr>) s"

lemma marked_refl [simp]: "marked me s s"
  by (simp add: marked_def)

lemma marked_trans: "marked me s s1 \<Longrightarrow> marked me s1 s2 \<Longrightarrow> marked me s s2"
  by (auto simp: marked_def or.assoc)

lemma capable_marks: "capable K me cap s = (b, s') \<Longrightarrow> marked me s s'"
  by (auto simp: capable_def marked_def split: if_splits)

lemma capable_granted: "capable K me cap s = (True, s') \<Longrightarrow> k_cap_raised K (t_cap_effective (tasks s (current me s))) cap"
  by (auto simp: capable_def split: if_splits)

lemma set_flags_tasks [simp]:
  "t_policy (tasks (set_flags me f s) p) = t_policy (tasks s p)"
  "t_is_short (tasks (set_flags me f s) p) = t_is_short (tasks s p)"
  "t_prio (tasks (set_flags me f s) p) = t_prio (tasks s p)"
  "t_static_prio (tasks (set_flags me f s) p) = t_static_prio (tasks s p)"
  "t_array (tasks (set_flags me f s) p) = t_array (tasks s p)"
  "t_euid (tasks (set_flags me f s) p) = t_euid (tasks s p)"
  "t_uid (tasks (set_flags me f s) p) = t_uid (tasks s p)"
  "t_cpu (tasks (set_flags me f s) p) = t_cpu (tasks s p)"
  "t_pid (tasks (set_flags me f s) p) = t_pid (tasks s p)"
  "t_time_slice (tasks (set_flags me f s) p) = t_time_slice (tasks s p)"
  "t_requested_time (tasks (set_flags me f s) p) = t_requested_time (tasks s p)"
  "t_cap_effective (tasks (set_flags me f s) p) = t_cap_effective (tasks s p)"
  "current c (set_flags me f s) = current c s" "rqs (set_flags me f s) = rqs s"
  by (auto simp: set_flags_def)

lemma sched_inv_flags [simp]: "sched_inv K X s \<Longrightarrow> sched_inv K X (set_flags me f s)"
  unfolding set_flags_def by (rule sched_inv_upd_task) simp_all

lemma cpu_ok_flags [simp]: "cpu_ok X s c \<Longrightarrow> cpu_ok X (set_flags me f s) c"
  unfolding set_flags_def by (rule cpu_ok_upd_task) simp_all

section \<open>Nice values\<close>

definition renice :: "int \<Rightarrow> task \<Rightarrow> task" where
  "renice nice t =
     (let t = t\<lparr>t_static_prio := NICE_TO_PRIO nice\<rparr>
      in if \<not> (t_is_short t = -1 \<and> t_policy t = SCHED_SHORT) then t\<lparr>t_prio := NICE_TO_PRIO nice\<rparr> else t)"

lemma set_user_nice_eq:
  assumes "-20 \<le> nice" and "nice \<le> 19" and "TASK_NICE (tasks s p) \<noteq> nice" and "\<not> rt_task (tasks s p)"
  shows "set_user_nice K p nice s =
    (case t_array (tasks s p) of None \<Rightarrow> upd_task p (renice nice) s
     | Some a \<Rightarrow>
         (let s' = enqueue_task K p a (upd_task p (renice nice) (dequeue_task K p a s))
          in if NICE_TO_PRIO nice < t_static_prio (tasks s p) \<or> p = rq_curr (rqs s (t_cpu (tasks s p)))
             then resched_task (rq_curr (rqs s (t_cpu (tasks s p)))) s' else s'))"
  using assms by (auto simp: set_user_nice_def renice_def Let_def upd_task_def split: option.splits)

lemma policy_ok_other:
  assumes "policy_ok t" and "\<not> rt_task t"
  shows "t_policy t = SCHED_OTHER \<or> t_policy t = SCHED_SHORT"
  using assms by (auto simp: policy_ok_def rt_task_def)

context kernel_lib
begin

lemma renice_fit:
  assumes "fit K c t" and "\<not> rt_task t" and "-20 \<le> nice" and "nice \<le> 19"
  shows "fit K c (renice nice t)" and "class_array t a \<Longrightarrow> class_array (renice nice t) a"
    and "MAX_RT_PRIO \<le> t_prio (renice nice t)" and "t_array (renice nice t) = t_array t"
  using assms by (auto simp: renice_def Let_def fit_def policy_ok_def class_array_def nice_defs rt_task_def)

lemma set_user_nice_inv:
  assumes inv: "sched_inv K X s" and p: "p \<notin> X" and prio: "t_prio (tasks s p) < MAX_PRIO"
  shows "sched_inv K X (set_user_nice K p nice s)"
proof (cases "-20 \<le> nice \<and> nice \<le> 19 \<and> TASK_NICE (tasks s p) \<noteq> nice")
  case False
  then have "set_user_nice K p nice s = s" by (auto simp: set_user_nice_def)
  with inv show ?thesis by simp
next
  case True
  have ok: "task_ok K (tasks s p)" using q_invD(7) [OF sched_invD(1) [OF inv] p] .
  show ?thesis
  proof (cases "rt_task (tasks s p)")
    case rt: True
    with True have "set_user_nice K p nice s = upd_task p (\<lambda>t. t\<lparr>t_static_prio := NICE_TO_PRIO nice\<rparr>) s"
      by (simp add: set_user_nice_def)
    moreover have "sched_inv K X (upd_task p (\<lambda>t. t\<lparr>t_static_prio := NICE_TO_PRIO nice\<rparr>) s)"
      using inv True by (intro sched_inv_upd_task)
        (auto simp: task_ok_def queued_ok_def policy_ok_def class_array_def nice_defs)
    ultimately show ?thesis by simp
  next
    case rt: False
    note eq = set_user_nice_eq [OF _ _ _ rt, of nice K]
    show ?thesis
    proof (cases "t_array (tasks s p)")
      case None
      have "fit K (t_cpu (tasks s p)) (tasks s p)"
        using ok prio by (simp add: fit_def task_ok_def)
      note R = renice_fit [OF this rt, of nice]
      have "task_ok K (renice nice (tasks s p))" using R(1,4) True None by (intro fit_off) auto
      then have "sched_inv K X (upd_task p (renice nice) s)"
        using sched_inv_insert_off [OF inv None] R(4) None True
        by (intro sched_inv_remove_off [of K p X]) auto
      with True None eq show ?thesis by simp
    next
      case (Some ca)
      then obtain c a where ca: "t_array (tasks s p) = Some (c, a)" by (cases ca) auto
      have fit: "fit K c (tasks s p)" using queued_fit [OF ok ca] .
      note R = renice_fit [OF fit rt, of nice]
      have "sched_inv K X (enqueue_task K p (c, a) (upd_task p (renice nice) (dequeue_task K p (c, a) s)))"
        using True R task_okD(4) [OF ok ca]
        by (intro move_inv [where f = "renice nice", OF inv p ca]) auto
      with True ca eq show ?thesis by (auto simp: Let_def)
    qed
  qed
qed

end

section \<open>Changing the policy\<close>

text \<open>When a change of policy is accepted.\<close>

definition may_change :: "task \<Rightarrow> int \<Rightarrow> int \<Rightarrow> bool" where
  "may_change t policy prio \<longleftrightarrow>
     (policy = SCHED_FIFO \<or> policy = SCHED_RR) \<and> t_policy t \<noteq> SCHED_SHORT \<and> 1 \<le> prio \<and> prio \<le> 99 \<or>
     policy = SCHED_OTHER \<and> t_policy t \<noteq> SCHED_SHORT \<or>
     policy = SCHED_SHORT \<and> (t_policy t = SCHED_OTHER \<or> t_policy t = SCHED_SHORT \<and> t_is_short t \<noteq> -1)"

lemma capable_unless_result:
  assumes "capable_unless K me ok s = (b, s')"
  shows "\<exists>f. s' = set_flags me f s"
    and "b \<longleftrightarrow> ok \<or> k_cap_raised K (t_cap_effective (tasks s (current me s))) CAP_SYS_NICE"
  using assms set_flags_same [of s me] capable_flags [of K me CAP_SYS_NICE s b s']
  by (auto simp: capable_unless_def capable_def split: if_splits)

lemma capable_unless_marks: "capable_unless K me ok s = (b, s') \<Longrightarrow> marked me s s'"
  by (auto simp: capable_unless_def capable_marks split: if_splits)

lemma sched_denied_marks: "sched_denied K me p policy s = (d, s') \<Longrightarrow> marked me s s'"
  unfolding sched_denied_def Let_def
  by (auto split: prod.splits if_splits dest!: capable_unless_marks intro: marked_trans)

lemma sched_denied_result:
  assumes "sched_denied K me p policy s = (d, s')"
  defines "raised \<equiv> k_cap_raised K (t_cap_effective (tasks s (current me s))) CAP_SYS_NICE"
  shows "\<exists>f. s' = set_flags me f s"
    and "\<not> d \<longleftrightarrow> (policy \<noteq> SCHED_FIFO \<and> policy \<noteq> SCHED_RR \<or> raised) \<and>
      (t_euid (tasks s (current me s)) = t_euid (tasks s p) \<or> t_euid (tasks s (current me s)) = t_uid (tasks s p) \<or> raised) \<and>
      \<not> short_denied (tasks s (current me s)) (tasks s p) policy"
proof -
  obtain ok1 s1 where 1: "capable_unless K me (\<not> (policy = SCHED_FIFO \<or> policy = SCHED_RR)) s = (ok1, s1)"
    by fastforce
  from capable_unless_result [OF 1] obtain f where f: "s1 = set_flags me f s"
    and ok1: "ok1 \<longleftrightarrow> \<not> (policy = SCHED_FIFO \<or> policy = SCHED_RR) \<or> raised" by (auto simp: raised_def)
  let ?cur = "tasks s1 (current me s1)" and ?t = "tasks s1 p"
  obtain ok2 s2 where 2: "capable_unless K me (\<not> (t_euid ?cur \<noteq> t_euid ?t \<and> t_euid ?cur \<noteq> t_uid ?t)) s1 = (ok2, s2)"
    by fastforce
  from capable_unless_result [OF 2] obtain g where g: "s2 = set_flags me g s"
    and ok2: "ok2 \<longleftrightarrow> \<not> (t_euid ?cur \<noteq> t_euid ?t \<and> t_euid ?cur \<noteq> t_uid ?t) \<or> raised"
    by (auto simp: f raised_def)
  have eq: "sched_denied K me p policy s =
      (if \<not> ok1 then (True, s1) else if \<not> ok2 then (True, s2)
       else (short_denied (tasks s2 (current me s2)) (tasks s2 p) policy, s2))"
    unfolding sched_denied_def 1 prod.case Let_def 2 ..
  show "\<exists>f. s' = set_flags me f s" using assms(1) f g by (auto simp: eq split: if_splits)
  have "short_denied (tasks s2 (current me s2)) (tasks s2 p) policy \<longleftrightarrow>
      short_denied (tasks s (current me s)) (tasks s p) policy"
    by (simp add: short_denied_def g)
  then show "\<not> d \<longleftrightarrow> (policy \<noteq> SCHED_FIFO \<and> policy \<noteq> SCHED_RR \<or> raised) \<and>
      (t_euid (tasks s (current me s)) = t_euid (tasks s p) \<or> t_euid (tasks s (current me s)) = t_uid (tasks s p) \<or> raised) \<and>
      \<not> short_denied (tasks s (current me s)) (tasks s p) policy"
    using assms(1) ok1 ok2 by (auto simp: eq f split: if_splits)
qed

lemma accepted_may_change:
  assumes "sched_denied K me p policy s = (False, s')" and "\<not> bad_param K (tasks s p) policy lp"
    and "known_policy policy"
  shows "may_change (tasks s p) policy (sched_priority lp)"
proof -
  have "\<not> short_denied (tasks s (current me s)) (tasks s p) policy"
    using sched_denied_result(2) [OF assms(1)] by simp
  with assms(2,3) show ?thesis
    by (auto simp: short_denied_def may_change_def bad_param_def known_policy_def policy_consts split: if_splits)
qed

lemma short_request_fields [simp]:
  "t_array (short_request K r t) = t_array t" "t_cpu (short_request K r t) = t_cpu t"
  "t_policy (short_request K r t) = t_policy t" "t_static_prio (short_request K r t) = t_static_prio t"
  "t_sleep_avg (short_request K r t) = t_sleep_avg t" "t_prio (short_request K r t) = t_prio t"
  "t_is_short (short_request K r t) = (if t_policy t = SCHED_SHORT then t_is_short t else 1)"
  "t_state (short_request K r t) = t_state t"
  by (simp_all add: short_request_def Let_def)

lemma apply_policy_fields [simp]:
  "t_array (apply_policy pol n t) = t_array t" "t_cpu (apply_policy pol n t) = t_cpu t"
  "t_policy (apply_policy pol n t) = pol" "t_static_prio (apply_policy pol n t) = t_static_prio t"
  "t_sleep_avg (apply_policy pol n t) = t_sleep_avg t" "t_is_short (apply_policy pol n t) = t_is_short t"
  "t_state (apply_policy pol n t) = t_state t" "t_time_slice (apply_policy pol n t) = t_time_slice t"
  "t_requested_time (apply_policy pol n t) = t_requested_time t"
  "t_prio (apply_policy pol n t) =
    (if pol \<noteq> SCHED_OTHER \<and> pol \<noteq> SCHED_SHORT then MAX_USER_RT_PRIO - 1 - n else t_static_prio t)"
  by (simp_all add: apply_policy_def Let_def)

text \<open>The task after the change, without its place on the runqueue.\<close>

definition changed :: "('l, 'b) klib \<Rightarrow> int \<Rightarrow> sched_param \<Rightarrow> task \<Rightarrow> task" where
  "changed K policy lp t = apply_policy policy (sched_priority lp)
     (if policy = SCHED_SHORT then short_request K (sp_requested_time lp) t else t)"

lemma changed_fields [simp]:
  "t_array (changed K pol lp t) = t_array t" "t_cpu (changed K pol lp t) = t_cpu t"
  "t_policy (changed K pol lp t) = pol" "t_static_prio (changed K pol lp t) = t_static_prio t"
  by (simp_all add: changed_def)

lemma changed_fit:
  assumes "task_ok K t" and "may_change t policy (sched_priority lp)"
  shows "fit K (t_cpu t) (changed K policy lp t)"
  using assms unfolding may_change_def
  by (elim disjE conjE) (simp_all add: changed_def fit_def task_ok_def policy_ok_def policy_consts)

lemma changed_eq:
  "changed K SCHED_SHORT lp =
    (\<lambda>t. apply_policy SCHED_SHORT (sched_priority lp) (short_request K (sp_requested_time lp) t))"
  "policy \<noteq> SCHED_SHORT \<Longrightarrow> changed K policy lp = apply_policy policy (sched_priority lp)"
  by (simp_all add: changed_def fun_eq_iff)

lemma change_policy_eq:
  "change_policy K me p policy lp s =
    (let c = t_cpu (tasks s p);
         s1 = (if t_array (tasks s p) \<noteq> None then deactivate_task K p c s else s);
         s2 = (if policy = SCHED_SHORT \<and> t_policy (tasks s p) \<noteq> SCHED_SHORT
               then upd_task (current me s) (\<lambda>t. t\<lparr>t_need_resched := True\<rparr>) s1 else s1);
         s3 = upd_task p (changed K policy lp) s2
     in if t_array (tasks s p) \<noteq> None then activate_task K p c s3 else s3)"
  by (cases "policy = SCHED_SHORT"; cases "p = current me s")
    (simp_all add: change_policy_def changed_eq Let_def)

context kernel_lib
begin

lemma change_policy_inv:
  assumes inv: "sched_inv K X s" and p: "p \<notin> X"
    and may: "may_change (tasks s p) policy (sched_priority lp)"
  shows "sched_inv K X (change_policy K me p policy lp s)"
proof -
  let ?c = "t_cpu (tasks s p)" and ?q = "current me s"
  let ?mark = "policy = SCHED_SHORT \<and> t_policy (tasks s p) \<noteq> SCHED_SHORT"
  have ok: "task_ok K (tasks s p)" using q_invD(7) [OF sched_invD(1) [OF inv] p] .
  have fit: "fit K ?c (changed K policy lp t)"
    if "t = (tasks s p)\<lparr>t_array := None\<rparr> \<or> t = (tasks s p)\<lparr>t_array := None, t_need_resched := True\<rparr>" for t
  proof -
    have "task_ok K t" using that task_ok_off [OF ok] by auto
    moreover have "may_change t policy (sched_priority lp)" "t_cpu t = ?c" using that may by (auto simp: may_change_def)
    ultimately show ?thesis using changed_fit by metis
  qed
  have mark: "sched_inv K Y (upd_task ?q (\<lambda>t. t\<lparr>t_need_resched := True\<rparr>) t)" if "sched_inv K Y t" for Y t
    using that by (rule sched_inv_upd_task) simp_all
  show ?thesis
  proof (cases "t_array (tasks s p)")
    case None
    then have n: "(tasks s p)\<lparr>t_array := None\<rparr> = tasks s p" by (rule t_array_same)
    let ?s2 = "if ?mark then upd_task ?q (\<lambda>t. t\<lparr>t_need_resched := True\<rparr>) s else s"
    have s2: "sched_inv K (insert p X) ?s2" using mark sched_inv_insert_off [OF inv None] by auto
    have "fit K ?c (changed K policy lp (tasks ?s2 p))"
      by (rule fit) (auto simp: n None t_array_same)
    then have off: "task_ok K (changed K policy lp (tasks ?s2 p))" "t_array (changed K policy lp (tasks ?s2 p)) = None"
      using None by (auto intro: fit_off)
    have "sched_inv K (insert p X) (upd_task p (changed K policy lp) ?s2)" using s2 by simp
    then have "sched_inv K X (upd_task p (changed K policy lp) ?s2)"
      by (rule sched_inv_remove_off) (use off in simp_all)
    with None show ?thesis by (simp add: change_policy_eq Let_def)
  next
    case (Some ca)
    then obtain a where a: "t_array (tasks s p) = Some (?c, a)"
      using task_okD(1) [OF ok] by (cases ca) auto
    let ?s1 = "deactivate_task K p ?c s"
    let ?s2 = "if ?mark then upd_task ?q (\<lambda>t. t\<lparr>t_need_resched := True\<rparr>) ?s1 else ?s1"
    have s2: "sched_inv K (insert p X) ?s2" using mark deactivate_inv [OF inv p a] by auto
    have "fit K ?c (changed K policy lp (tasks ?s2 p))" by (rule fit) auto
    then have "sched_inv K X (activate_task K p ?c (upd_task p (changed K policy lp) ?s2))"
      using s2 p by (intro activate_inv) auto
    with a show ?thesis by (simp add: change_policy_eq Let_def)
  qed
qed

end

end
