(* ===== verification/Sched_Yield.thy ===== *)
theory Sched_Yield imports Syscall_Inv begin

text \<open>
  \<^verbatim>\<open>sys_sched_yield\<close> keeps the invariant, and where the task goes: a SHORT or real-time task to
  the tail of its queue, an ordinary task behind the next one, or to the next level.
\<close>

section \<open>Yielding\<close>

text \<open>
  Moving a queued task to another place of the same array, at the tail of the lists' view, with
  the bits kept exact.
\<close>

lemma q_inv_relink:
  assumes inv: "q_inv K X s" and p: "p \<notin> X" and a: "t_array (tasks s p) = Some a"
    and tasks: "tasks s' = (tasks s)(p := (tasks s p)\<lparr>t_prio := i\<rparr>)"
    and count: "\<And>b. nr_active (arrays s' b) = nr_active (arrays s b)"
    and ok: "task_ok K ((tasks s p)\<lparr>t_prio := i\<rparr>)"
    and q: "queue K s' = (queue K s)((a, t_prio (tasks s p)) := remove1 p (queue K s (a, t_prio (tasks s p))),
              (a, i) := ys)"
    and ys: "set ys = insert p (set (queue K s (a, i)))" "distinct ys"
    and bits: "\<And>b m. k_test_bit K (bitmap (arrays s' b)) m =
      (if b = a \<and> m = i then True
       else if b = a \<and> m = t_prio (tasks s p) then queue K s' (a, m) \<noteq> []
       else k_test_bit K (bitmap (arrays s b)) m)"
  shows "q_inv K X s'"
proof -
  note D = q_invD [OF inv] and P = q_inv_queued [OF inv p a]
  have i: "0 \<le> i" "i < MAX_PRIO"
    using ok a by (cases a; auto simp: task_ok_def queued_ok_def)+
  have "on_array X s' b = on_array X s b" for b
    unfolding on_array_def tasks by auto
  then have "counts_ok X s'" using D(5,6) count by (simp add: counts_ok_def)
  moreover have "links_ok K X s'"
    unfolding links_ok_def
  proof (intro conjI allI)
    fix r b j
    have new: "t_array (tasks s' r) = t_array (tasks s r)" "t_prio (tasks s' r) = (if r = p then i else t_prio (tasks s r))"
      by (simp_all add: tasks)
    have "queue K s' (b, j) = (if (b, j) = (a, i) then ys else if (b, j) = (a, t_prio (tasks s p))
        then remove1 p (queue K s (b, j)) else queue K s (b, j))" by (simp add: q)
    then have "set (queue K s' (b, j)) = (if (b, j) = (a, i) then insert p (set (queue K s (a, i)))
        else if (b, j) = (a, t_prio (tasks s p)) then set (queue K s (b, j)) - {p} else set (queue K s (b, j)))"
      using ys(1) set_remove1_eq [OF D(2) [of "(b, j)"]] by presburger
    then show "r \<in> set (queue K s' (b, j)) \<longleftrightarrow> r \<notin> X \<and> t_array (tasks s' r) = Some b \<and> t_prio (tasks s' r) = j"
      unfolding new using D(1) [of r b j] a p by (cases "r = p"; cases "(b, j) = (a, i)") (auto split: if_splits)
    show "distinct (queue K s' t)" for t
      using D(2) [of t] D(2) [of "(a, t_prio (tasks s p))"] ys(2) by (simp add: q distinct_remove1)
  qed
  moreover have "bits_ok K s'"
    unfolding bits_ok_def
  proof (intro conjI allI impI)
    fix b m
    have ne: "ys \<noteq> []" using ys(1) by auto
    show "k_test_bit K (bitmap (arrays s' b)) m \<longleftrightarrow> queue K s' (b, m) \<noteq> []" if "0 \<le> m" "m < MAX_PRIO"
    proof (cases "b = a \<and> (m = i \<or> m = t_prio (tasks s p))")
      case True
      with ne show ?thesis unfolding bits by (auto simp: q)
    next
      case False
      then have "queue K s' (b, m) = queue K s (b, m)" by (auto simp: q)
      with False D(3) [OF that, of b] show ?thesis unfolding bits by auto
    qed
    show "k_test_bit K (bitmap (arrays s' b)) MAX_PRIO"
      using D(4) i(2) P(3) by (simp add: bits)
  qed
  moreover have "task_ok K (tasks s' r)" if "r \<notin> X" for r
    using D(7) [OF that] ok unfolding tasks by simp
  ultimately show ?thesis by (simp add: q_inv_def)
qed

text \<open>Where an ordinary task goes: its own level if others wait there or no level is worse.\<close>

definition yield_level :: "('l, 'b) klib \<Rightarrow> tptr \<Rightarrow> aid \<Rightarrow> ('l, 'b) sched \<Rightarrow> int" where
  "yield_level K p array s =
     (let prio = t_prio (tasks s p);
          i = k_find_first_bit K (k_clear_bit K prio (bitmap (arrays s array)))
      in if remove1 p (queue K s (array, prio)) \<noteq> [] \<or> i = MAX_PRIO \<or> i \<le> prio then prio else i)"

text \<open>The queue of an ordinary task that yields: it goes behind the first task of the queue.\<close>

fun second :: "tptr \<Rightarrow> tptr list \<Rightarrow> tptr list" where
  "second p [] = [p]"
| "second p (x # xs) = x # p # xs"

lemma set_second [simp]: "set (second p xs) = insert p (set xs)"
  by (cases xs) auto

lemma distinct_second [simp]: "distinct (second p xs) \<longleftrightarrow> p \<notin> set xs \<and> distinct xs"
  by (cases xs) auto

context kernel_lib
begin

lemma queue_add_next:
  assumes "\<And>r. p \<notin> set (k_queue K l r)" and "distinct (k_queue K l q)"
    and "\<And>r x. r \<noteq> q \<Longrightarrow> x \<in> set (k_queue K l q) \<Longrightarrow> x \<notin> set (k_queue K l r)"
  shows "k_queue K (k_list_add K p (list_next K l q) l) = (k_queue K l)(q := second p (k_queue K l q))"
proof (cases "k_queue K l q")
  case Nil
  with list_add_head [OF assms(1), of q] show ?thesis by (simp add: list_next_def)
next
  case (Cons x xs)
  then have "k_queue K (k_list_add K p (Entry x) l) = (k_queue K l)(q := [] @ x # p # xs)"
    using assms by (intro list_add_entry) auto
  with Cons show ?thesis by (simp add: list_next_def)
qed

text \<open>A queued task taken off the lists, and nothing else.\<close>

lemma unlinked:
  assumes inv: "q_inv K X s" and p: "p \<notin> X" and a: "t_array (tasks s p) = Some a"
  defines "l \<equiv> k_list_del K p (lists s)"
  shows "k_queue K l = (queue K s)((a, t_prio (tasks s p)) := remove1 p (queue K s (a, t_prio (tasks s p))))"
    and "p \<notin> set (k_queue K l r)" and "distinct (k_queue K l r)"
    and "r \<noteq> q \<Longrightarrow> x \<in> set (k_queue K l q) \<Longrightarrow> x \<notin> set (k_queue K l r)"
proof -
  note D = q_invD [OF inv]
  let ?q = "(a, t_prio (tasks s p))"
  have member: "x \<in> set (queue K s q) \<longleftrightarrow> x \<notin> X \<and> t_array (tasks s x) = Some (fst q) \<and> t_prio (tasks s x) = snd q" for x q
    using D(1) by (cases q) simp
  have "k_queue K l = (k_queue K (lists s))(?q := remove1 p (k_queue K (lists s) ?q))"
    unfolding l_def
  proof (rule list_del)
    show "p \<in> set (k_queue K (lists s) ?q)" using member [of p ?q] p a by (simp add: queue_def)
    show "distinct (k_queue K (lists s) ?q)" using D(2) [of ?q] by (simp add: queue_def)
    show "p \<notin> set (k_queue K (lists s) r)" if "r \<noteq> ?q" for r
      using member [of p r] a that by (cases r) (auto simp: queue_def)
  qed
  then show l: "k_queue K l = (queue K s)(?q := remove1 p (queue K s ?q))" by (simp add: queue_def)
  have sets: "set (k_queue K l r) = set (queue K s r) - {p}" for r
    using D(2) [of ?q] member [of p r] a by (cases r) (auto simp: l)
  show "p \<notin> set (k_queue K l r)" by (simp add: sets)
  show "distinct (k_queue K l r)" using D(2) [of r] D(2) [of ?q] by (simp add: l distinct_remove1)
  show "x \<notin> set (k_queue K l r)" if "r \<noteq> q" "x \<in> set (k_queue K l q)"
    using that unfolding sets by (cases r; cases q) (auto simp: member)
qed

lemma sched_inv_relink:
  assumes inv: "sched_inv K X s" and q: "q_inv K X s'" and rqs: "rqs s' = rqs s"
    and count: "\<And>b. nr_active (arrays s' b) = nr_active (arrays s b)"
    and tasks: "tasks s' = (tasks s)(p := (tasks s p)\<lparr>t_prio := i\<rparr>)"
    and i: "t_prio (tasks s p) \<le> i"
  shows "sched_inv K X s'"
proof -
  have "rq_ok X s' c" for c
    using sched_invD(2) [OF inv, of c] i unfolding rq_ok_def
    by (force simp: rqs tasks load_def count expired_array_def)
  with q show ?thesis by (simp add: sched_inv_def)
qed

text \<open>The three ways a task is put back.\<close>

lemma yield_rt_ok:
  assumes inv: "sched_inv K X s" and p: "p \<notin> X" and a: "t_array (tasks s p) = Some a"
  defines "q \<equiv> (a, t_prio (tasks s p))"
  defines "s' \<equiv> upd_lists (k_list_add_tail K p q) (upd_lists (k_list_del K p) s)"
  shows "sched_inv K X s'" and "queue K s' = (queue K s)(q := remove1 p (queue K s q) @ [p])"
proof -
  note A = sched_invD(1) [OF inv] and U = unlinked [OF sched_invD(1) [OF inv] p a]
  have qs: "queue K s' = (queue K s)(q := remove1 p (queue K s q) @ [p])"
    using list_add_tail [OF U(2), of q] by (simp add: s'_def U(1) q_def)
  then show "queue K s' = (queue K s)(q := remove1 p (queue K s q) @ [p])" .
  have fr: "tasks s' = tasks s" "arrays s' = arrays s" "rqs s' = rqs s" by (simp_all add: s'_def)
  have mem: "p \<in> set (queue K s q)" using q_inv_queued(1) [OF A p a] by (simp add: q_def)
  have "q_inv K X s'"
  proof (rule q_inv_relink [OF A p a, where i = "t_prio (tasks s p)" and ys = "remove1 p (queue K s q) @ [p]"])
    show "k_test_bit K (bitmap (arrays s' b)) m =
      (if b = a \<and> m = t_prio (tasks s p) then True
       else if b = a \<and> m = t_prio (tasks s p) then queue K s' (a, m) \<noteq> []
       else k_test_bit K (bitmap (arrays s b)) m)" for b m
      using mem q_invD(3) [OF A, of m a] q_inv_queued(2,3) [OF A p a] by (auto simp: fr q_def)
  qed (use mem q_invD(2,7) [OF A] p in \<open>auto simp: fr qs q_def distinct_remove1\<close>)
  then show "sched_inv K X s'"
    by (rule sched_inv_relink [OF inv, where p = p and i = "t_prio (tasks s p)"]) (auto simp: fr)
qed

lemma yield_other_frame:
  assumes inv: "q_inv K X s" and p: "p \<notin> X" and a: "t_array (tasks s p) = Some a"
  defines "i \<equiv> yield_level K p a s"
  defines "rest \<equiv> (queue K s)((a, t_prio (tasks s p)) := remove1 p (queue K s (a, t_prio (tasks s p))))"
  shows "tasks (yield_other K p a s) = (tasks s)(p := (tasks s p)\<lparr>t_prio := i\<rparr>)"
    and "rqs (yield_other K p a s) = rqs s"
    and "nr_active (arrays (yield_other K p a s) b) = nr_active (arrays s b)"
    and "queue K (yield_other K p a s) = rest((a, i) := second p (rest (a, i)))"
    and "k_test_bit K (bitmap (arrays (yield_other K p a s) b)) m =
      (if b = a \<and> m = i then True
       else if b = a \<and> m = t_prio (tasks s p) then rest (a, m) \<noteq> []
       else k_test_bit K (bitmap (arrays s b)) m)"
proof -
  note U = unlinked [OF inv p a] and P = q_inv_queued [OF inv p a]
  let ?q = "(a, t_prio (tasks s p))" and ?l = "k_list_del K p (lists s)"
  have rest: "k_queue K ?l = rest" by (simp add: U(1) rest_def)
  note add = queue_add_next [OF U(2) U(3) U(4), unfolded rest]
  have bit: "k_test_bit K (bitmap (arrays s a)) (t_prio (tasks s p))"
    using q_invD(3) [OF inv P(2,3), of a] P(1) by auto
  have same: "(tasks s)(p := (tasks s p)\<lparr>t_prio := t_prio (tasks s p)\<rparr>) = tasks s" by simp
  have upd_same: "upd_task p (\<lambda>t. t\<lparr>t_prio := t_prio (tasks s p)\<rparr>) t = t" if "tasks t = tasks s" for t :: "('l, 'b) sched"
    using that by (simp add: upd_task_def)
  consider (queued) "rest ?q \<noteq> []" "i = t_prio (tasks s p)"
      "yield_other K p a s = upd_lists (k_list_add K p (list_next K ?l ?q)) (upd_lists (k_list_del K p) s)"
    | (alone) "rest ?q = []"
      "yield_other K p a s = upd_array a (\<lambda>A. A\<lparr>bitmap := k_set_bit K i (bitmap A)\<rparr>)
        (upd_lists (k_list_add K p (list_next K ?l (a, i)))
          (upd_task p (\<lambda>t. t\<lparr>t_prio := i\<rparr>)
            (upd_array a (\<lambda>A. A\<lparr>bitmap := k_clear_bit K (t_prio (tasks s p)) (bitmap A)\<rparr>)
              (upd_lists (k_list_del K p) s))))"
  proof (cases "rest ?q = []")
    case False
    then show ?thesis
      by (intro queued) (simp_all add: yield_other_def i_def yield_level_def Let_def list_empty rest, simp_all add: rest_def)
  next
    case True
    then have "remove1 p (queue K s ?q) = []" by (simp add: rest_def)
    then show ?thesis
      using True by (intro alone)
        (simp_all add: yield_other_def i_def yield_level_def Let_def list_empty rest upd_same)
  qed
  then show "tasks (yield_other K p a s) = (tasks s)(p := (tasks s p)\<lparr>t_prio := i\<rparr>)"
    "rqs (yield_other K p a s) = rqs s"
    "nr_active (arrays (yield_other K p a s) b) = nr_active (arrays s b)"
    "queue K (yield_other K p a s) = rest((a, i) := second p (rest (a, i)))"
    "k_test_bit K (bitmap (arrays (yield_other K p a s) b)) m =
      (if b = a \<and> m = i then True
       else if b = a \<and> m = t_prio (tasks s p) then rest (a, m) \<noteq> []
       else k_test_bit K (bitmap (arrays s b)) m)"
    using bit by (cases; auto simp: same add queue_def set_bit clear_bit)+
qed

lemma yield_level_bounds:
  assumes "q_inv K X s" and "p \<notin> X" and "t_array (tasks s p) = Some a"
  shows "t_prio (tasks s p) \<le> yield_level K p a s" and "yield_level K p a s < MAX_PRIO"
proof -
  have "t_prio (tasks s p) < MAX_PRIO" by (rule q_inv_queued(3) [OF assms])
  moreover from this have "k_test_bit K (k_clear_bit K (t_prio (tasks s p)) (bitmap (arrays s a))) MAX_PRIO"
    using q_invD(4) [OF assms(1), of a] by (simp add: clear_bit)
  then have "k_find_first_bit K (k_clear_bit K (t_prio (tasks s p)) (bitmap (arrays s a))) \<le> MAX_PRIO"
    by (rule find_first_bit_least(3)) simp_all
  ultimately show "t_prio (tasks s p) \<le> yield_level K p a s" "yield_level K p a s < MAX_PRIO"
    by (simp_all add: yield_level_def Let_def)
qed

lemma yield_other_inv:
  assumes inv: "sched_inv K X s" and p: "p \<notin> X" and a: "t_array (tasks s p) = Some a"
    and pol: "t_policy (tasks s p) = SCHED_OTHER"
  shows "sched_inv K X (yield_other K p a s)"
proof -
  note A = sched_invD(1) [OF inv]
  note F = yield_other_frame [OF A p a] and L = yield_level_bounds [OF A p a]
  let ?i = "yield_level K p a s"
  let ?rest = "(queue K s)((a, t_prio (tasks s p)) := remove1 p (queue K s (a, t_prio (tasks s p))))"
  have ok: "task_ok K (tasks s p)" by (rule q_invD(7) [OF A p])
  have "task_ok K ((tasks s p)\<lparr>t_prio := ?i\<rparr>)"
    using ok L pol by (auto simp: task_ok_def queued_ok_def policy_ok_def class_array_def policy_consts)
  moreover have "set (second p (?rest (a, ?i))) = insert p (set (queue K s (a, ?i)))"
    using q_invD(2) [OF A, of "(a, t_prio (tasks s p))"] by auto
  moreover have "distinct (second p (?rest (a, ?i)))"
    using q_invD(2) [OF A, of "(a, t_prio (tasks s p))"] q_invD(2) [OF A, of "(a, ?i)"] q_invD(1) [OF A, of p a ?i]
    by (auto simp: distinct_remove1)
  ultimately have "q_inv K X (yield_other K p a s)"
    by (intro q_inv_relink [OF A p a F(1) F(3) _ F(4)]) (auto simp: F(4,5))
  then show ?thesis by (rule sched_inv_relink [OF inv _ F(2,3,1) L(1)])
qed

lemma yield_requeue_inv:
  assumes inv: "sched_inv K X s" and cpu: "cpu_ok X s me" and busy: "current me s \<noteq> rq_idle (rqs s me)"
  shows "sched_inv K X (yield_requeue K me s)"
proof -
  let ?p = "current me s"
  from cpu busy obtain a where p: "?p \<notin> X" and a: "t_array (tasks s ?p) = Some (me, a)"
    by (auto simp: cpu_ok_def)
  have "policy_ok (tasks s ?p)" using task_okD(5) [OF q_invD(7) [OF sched_invD(1) [OF inv] p]] .
  then have "t_policy (tasks s ?p) = SCHED_OTHER"
    if "t_policy (tasks s ?p) \<noteq> SCHED_SHORT" "\<not> rt_task (tasks s ?p)"
    using that policy_ok_other by blast
  then show ?thesis
    using requeue_short_inv [OF inv p a] yield_rt_ok(1) [OF inv p a] yield_other_inv [OF inv p a] a
    by (simp add: yield_requeue_def Let_def)
qed

lemma yield_requeue_tasks:
  assumes inv: "sched_inv K X s" and cpu: "cpu_ok X s me" and busy: "current me s \<noteq> rq_idle (rqs s me)"
  shows "q \<noteq> current me s \<Longrightarrow> tasks (yield_requeue K me s) q = tasks s q"
    and "\<exists>b. t_array (tasks (yield_requeue K me s) (current me s)) = Some (me, b)"
    and "t_need_resched (tasks (yield_requeue K me s) r) = t_need_resched (tasks s r)"
    and "rq_curr (rqs (yield_requeue K me s) c) = rq_curr (rqs s c)"
    and "rq_idle (rqs (yield_requeue K me s) c) = rq_idle (rqs s c)"
proof -
  let ?p = "current me s"
  from cpu busy obtain a where p: "?p \<notin> X" and a: "t_array (tasks s ?p) = Some (me, a)"
    by (auto simp: cpu_ok_def)
  note F = yield_other_frame [OF sched_invD(1) [OF inv] p a]
  show "q \<noteq> current me s \<Longrightarrow> tasks (yield_requeue K me s) q = tasks s q"
    "\<exists>b. t_array (tasks (yield_requeue K me s) (current me s)) = Some (me, b)"
    "t_need_resched (tasks (yield_requeue K me s) r) = t_need_resched (tasks s r)"
    "rq_curr (rqs (yield_requeue K me s) c) = rq_curr (rqs s c)"
    "rq_idle (rqs (yield_requeue K me s) c) = rq_idle (rqs s c)"
    using a F(1,2) by (auto simp: yield_requeue_def Let_def active_array_def)
qed

lemma sys_sched_yield_returns:
  assumes inv: "sched_inv K X s" and cpu: "cpu_ok X s me" and busy: "current me s \<noteq> rq_idle (rqs s me)"
    and fin: "finite (flagged s)"
  shows "\<exists>s'. sys_sched_yield K False lk me s = Some (Inr 0, s') \<and> passed K X me s'"
proof -
  let ?s = "yield_requeue K me s"
  note T = yield_requeue_tasks [OF inv cpu busy]
  have s: "sched_inv K X ?s" by (rule yield_requeue_inv [OF inv cpu busy])
  have "tasks ?s (rq_idle (rqs s me)) = tasks s (rq_idle (rqs s me))" using busy by (intro T(1)) simp
  then have "cpu_ok X ?s me" using T(2) by (intro cpu_ok_frame [OF cpu T(4,5)]) simp_all
  moreover have "flagged ?s = flagged s" using T(3) by (simp add: flagged_def)
  ultimately obtain s' where "schedule K False lk me ?s = Some s'" "passed K X me s'"
    using schedule_returns [OF s, of me lk] fin by auto
  then show ?thesis by (simp add: sys_sched_yield_def)
qed

end

end
