(* ===== verification/Example_State.thy ===== *)
theory Example_State imports Sched_Init Sched_Yield Wakeup begin

text \<open>
  Concrete systems for the witnesses: one CPU that runs its idle task (task 0), one task
  under test (task 7), and all other tasks asleep. \<open>sleeping\<close> has task 7 asleep, \<open>woken\<close> has
  it on the runqueue, \<open>running\<close> has it on the CPU.
\<close>

abbreviation Kx :: "(qid \<Rightarrow> tptr list, int list) klib" where "Kx \<equiv> ref_lib 512 False"

definition idle_rq :: runqueue where
  "idle_rq = \<lparr>rq_nr_running = 0, rq_nr_switches = 0, rq_expired_timestamp = 0,
     rq_nr_uninterruptible = 0, rq_curr = 0, rq_idle = 0, rq_active = Arr0, rq_expired = Arr1,
     rq_prev_nr_running = (\<lambda>_. 0), rq_migration_thread = None, rq_migration_queue = []\<rparr>"

definition idle_task :: task where
  "idle_task = (INIT_TASK Kx)\<lparr>t_prio := MAX_PRIO\<rparr>"

definition sleeping :: "task \<Rightarrow> (qid \<Rightarrow> tptr list, int list) sched" where
  "sleeping t = \<lparr>tasks = (\<lambda>_. INIT_TASK Kx)(0 := idle_task, 7 := t), rqs = (\<lambda>_. idle_rq),
     arrays = (\<lambda>_. \<lparr>nr_active = 0, bitmap = [MAX_PRIO]\<rparr>), lists = (\<lambda>_. []),
     mms = (\<lambda>_. \<lparr>mm_users = 1, mm_count = 5, mm_freed = False\<rparr>),
     pidhash = (\<lambda>h. if h = 7 then [7] else []), jiffies = 1000, kstat_user = (\<lambda>_. 0),
     kstat_nice = (\<lambda>_. 0), kstat_system = (\<lambda>_. 0), bug = False\<rparr>"

definition woken :: "task \<Rightarrow> (qid \<Rightarrow> tptr list, int list) sched" where
  "woken t = snd (try_to_wake_up Kx 0 7 False (sleeping t))"

definition running :: "task \<Rightarrow> (qid \<Rightarrow> tptr list, int list) sched" where
  "running t = schedule_once Kx True 0 (woken t)"

text \<open>An ordinary task, a SHORT task that asked for 100 ms, and an overdue one.\<close>

definition other_ex :: task where
  "other_ex = (INIT_TASK Kx)\<lparr>t_pid := 7, t_state := TASK_INTERRUPTIBLE\<rparr>"

definition short_ex :: task where
  "short_ex = other_ex\<lparr>t_policy := SCHED_SHORT, t_is_short := 1, t_requested_time := 100,
     t_time_slice := 51\<rparr>"

definition overdue_ex :: task where
  "overdue_ex = short_ex\<lparr>t_is_short := -1, t_prio := MAX_PRIO - 1\<rparr>"

definition fifo_ex :: task where
  "fifo_ex = other_ex\<lparr>t_policy := SCHED_FIFO, t_prio := 50, t_rt_priority := 49\<rparr>"

lemmas ex_defs = other_ex_def short_ex_def overdue_ex_def fifo_ex_def idle_task_def INIT_TASK_def

lemma short_ex [simp]: "t_policy short_ex = SCHED_SHORT" "t_is_short short_ex = 1" "t_prio short_ex = 120"
  "t_time_slice short_ex = 51" "t_requested_time short_ex = 100"
  by (simp_all add: ex_defs)

text \<open>A task that may stand at task 7: asleep, well formed, not an idle task.\<close>

definition ex_ok :: "task \<Rightarrow> bool" where
  "ex_ok t \<longleftrightarrow> t_array t = None \<and> task_ok Kx t \<and> t_prio t < MAX_PRIO \<and> t_cpu t = 0"

lemma task_ok_ex: "task_ok Kx (INIT_TASK Kx)" "task_ok Kx idle_task"
  "task_ok Kx other_ex" "task_ok Kx short_ex" "task_ok Kx overdue_ex" "task_ok Kx fifo_ex"
  by (simp_all add: ex_defs task_ok_def queued_ok_def policy_ok_def policy_consts MAX_SLEEP_AVG_def ref_lib_def)

lemma ex_ok [simp]: "ex_ok other_ex" "ex_ok short_ex" "ex_ok overdue_ex" "ex_ok fifo_ex"
  using task_ok_ex by (simp_all add: ex_ok_def ex_defs)

lemma sleeping_simps [simp]:
  "current c (sleeping t) = 0" "rq_idle (rqs (sleeping t) c) = 0" "tasks (sleeping t) 7 = t"
  "tasks (sleeping t) 0 = idle_task" "rq_curr (rqs (sleeping t) c) = 0"
  "jiffies (sleeping t) = 1000" "flagged (sleeping t) = (if t_need_resched t then {7} else {})"
  by (auto simp: sleeping_def current_def idle_rq_def flagged_def ex_defs)

lemma sleeping_inv:
  assumes "ex_ok t"
  shows "sched_inv Kx {} (sleeping t)"
proof (rule idle_system_inv)
  show "t_array (tasks (sleeping t) p) = None \<and> task_ok Kx (tasks (sleeping t) p)" for p
    using assms task_ok_ex by (auto simp: sleeping_def ex_ok_def ex_defs)
qed (simp_all add: empty_array_def sleeping_def queue_def idle_rq_def ref_lib_def)

lemma sleeping_cpu: "cpu_ok {} (sleeping t) c"
  by (simp add: cpu_ok_def ex_defs TASK_RUNNING_def)

lemma woken_inv:
  assumes "ex_ok t"
  shows "sched_inv Kx {} (woken t)" and "cpu_ok {} (woken t) c"
  unfolding woken_def
  by (rule ref512.try_to_wake_up_inv [OF sleeping_inv [OF assms]])
    (use assms in \<open>simp_all add: ex_ok_def ref512.try_to_wake_up_cpu_ok sleeping_cpu\<close>)

lemma running_inv:
  assumes "ex_ok t"
  shows "sched_inv Kx {} (running t)" and "cpu_ok {} (running t) 0"
  unfolding running_def
  by (rule ref512.schedule_once_ok [OF woken_inv [OF assms]])+

lemma woken_eq:
  assumes "ex_ok t"
  obtains s1 b where "woken t = upd_task 7 (\<lambda>t. t\<lparr>t_state := TASK_RUNNING\<rparr>)
      (if b then resched_task 0 (activate_task Kx 7 0 s1) else activate_task Kx 7 0 s1)"
    and "tasks s1 = tasks (sleeping t)" and "\<And>c. rq_curr (rqs s1 c) = 0" and "\<And>c. rq_idle (rqs s1 c) = 0"
proof
  have t: "t_array t = None" "t_cpu t = 0" and same: "t\<lparr>t_cpu := 0\<rparr> = t"
    using assms by (simp_all add: ex_ok_def)
  let ?s1 = "if t_state t = TASK_UNINTERRUPTIBLE
    then upd_rq 0 (\<lambda>r. r\<lparr>rq_nr_uninterruptible := rq_nr_uninterruptible r - 1\<rparr>) (upd_task 7 (\<lambda>t. t\<lparr>t_cpu := 0\<rparr>) (sleeping t))
    else upd_task 7 (\<lambda>t. t\<lparr>t_cpu := 0\<rparr>) (sleeping t)"
  show "tasks ?s1 = tasks (sleeping t)" using same by (simp add: fun_eq_iff)
  show "rq_curr (rqs ?s1 c) = 0" "rq_idle (rqs ?s1 c) = 0" for c by auto
  show "woken t = upd_task 7 (\<lambda>t. t\<lparr>t_state := TASK_RUNNING\<rparr>)
      (if t_prio (tasks (activate_task Kx 7 0 ?s1) 7) < t_prio (tasks (activate_task Kx 7 0 ?s1) 0)
       then resched_task 0 (activate_task Kx 7 0 ?s1) else activate_task Kx 7 0 ?s1)"
    unfolding woken_def using t
    by (simp add: wake_sleeping wake_cpu_def fast_migrates_def current_def)
qed

lemma woken_tasks:
  assumes "ex_ok t"
  shows "t_array (tasks (woken t) 7) \<noteq> None" and "t_state (tasks (woken t) 0) = TASK_RUNNING"
    and "t_array (tasks (woken t) 0) = None" and "current c (woken t) = 0"
    and "t_policy (tasks (woken t) 7) = t_policy t" and "t_time_slice (tasks (woken t) 7) = t_time_slice t"
    and "t_is_short (tasks (woken t) 7) = t_is_short t" and "t_cpu (tasks (woken t) 7) = 0"
    and "rq_idle (rqs (woken t) c) = 0"
    and "p \<noteq> 7 \<Longrightarrow> t_array (tasks (woken t) p) = None"
    and "t_need_resched (tasks (woken t) p) \<Longrightarrow> p = 0 \<or> p = 7"
    and "t_policy t = SCHED_SHORT \<Longrightarrow> t_prio (tasks (woken t) 7) = t_prio t"
proof -
  obtain s1 b where w: "woken t = upd_task 7 (\<lambda>t. t\<lparr>t_state := TASK_RUNNING\<rparr>)
      (if b then resched_task 0 (activate_task Kx 7 0 s1) else activate_task Kx 7 0 s1)"
    and s1: "tasks s1 = tasks (sleeping t)" "\<And>c. rq_curr (rqs s1 c) = 0" "\<And>c. rq_idle (rqs s1 c) = 0"
    using woken_eq [OF assms] by metis
  have s: "t_array (tasks (sleeping t) p) = None \<and> \<not> t_need_resched (tasks (sleeping t) p)" if "p \<noteq> 7" for p
    using that by (simp add: sleeping_def ex_defs)
  have c: "t_cpu t = 0" using assms by (simp add: ex_ok_def)
  have state: "t_state idle_task = TASK_RUNNING" "t_array idle_task = None" by (simp_all add: ex_defs TASK_RUNNING_def)
  show "t_array (tasks (woken t) 7) \<noteq> None" "t_state (tasks (woken t) 0) = TASK_RUNNING"
    "t_array (tasks (woken t) 0) = None" "current c (woken t) = 0"
    "t_policy (tasks (woken t) 7) = t_policy t" "t_time_slice (tasks (woken t) 7) = t_time_slice t"
    "t_is_short (tasks (woken t) 7) = t_is_short t" "t_cpu (tasks (woken t) 7) = 0"
    "rq_idle (rqs (woken t) c) = 0"
    by (simp_all add: w s1 state resched_task_def c current_def)
  show "t_prio (tasks (woken t) 7) = t_prio t" if "t_policy t = SCHED_SHORT"
    using that by (simp add: w s1 resched_task_def)
  show "t_array (tasks (woken t) p) = None" if "p \<noteq> 7"
    using s that by (simp add: w s1 state resched_task_def)
  show "p = 0 \<or> p = 7" if "t_need_resched (tasks (woken t) p)"
    using s [of p] that by (auto simp: w s1 resched_task_def split: if_splits)
qed

lemma running_tasks:
  assumes "ex_ok t"
  shows "current 0 (running t) = 7" and "t_array (tasks (running t) 7) \<noteq> None"
    and "t_policy (tasks (running t) 7) = t_policy t" and "t_time_slice (tasks (running t) 7) = t_time_slice t"
    and "t_is_short (tasks (running t) 7) = t_is_short t" and "rq_idle (rqs (running t) c) = 0"
    and "p \<noteq> 7 \<Longrightarrow> t_array (tasks (running t) p) = None"
    and "t_policy t = SCHED_SHORT \<Longrightarrow> t_prio (tasks (running t) 7) = t_prio t"
proof -
  obtain n s1 where c: "choose_next Kx True 0 (leave_cpu Kx 0 (woken t)) = (n, s1)" by fastforce
  have r: "running t = switch_tasks 0 0 n s1"
    by (simp add: running_def schedule_once_def c woken_tasks [OF assms])
  have inv: "sched_inv Kx {} (leave_cpu Kx 0 (woken t))"
    by (rule ref512.leave_cpu_inv [OF woken_inv [OF assms]])
  note ok = ref512.choose_next_ok [OF inv c]
  have "tasks s1 = tasks (leave_cpu Kx 0 (woken t))"
    using c by (auto simp: choose_next_def choose_here_def ref_lib_def Let_def split: if_splits)
  moreover have "tasks (leave_cpu Kx 0 (woken t)) p = tasks (woken t) p" if "p \<noteq> 0" for p
    using that by (simp add: leave_cpu_other woken_tasks [OF assms])
  ultimately have t: "tasks s1 p = tasks (woken t) p" if "p \<noteq> 0" for p using that by simp
  have idle: "t_array (tasks s1 0) = None"
    using leave_cpu_idle [OF woken_inv(2) [OF assms, where c = 0], where K = Kx]
    by (simp add: woken_tasks [OF assms] \<open>tasks s1 = tasks (leave_cpu Kx 0 (woken t))\<close>)
  obtain d a where ca: "t_array (tasks s1 7) = Some (d, a)"
    using woken_tasks(1) [OF assms] by (auto simp: t)
  then have "7 \<in> on_array {} s1 (0, a)"
    using task_okD(1) [OF q_invD(7) [OF sched_invD(1) [OF ok(1)], where p = 7] ca]
    by (simp add: on_array_def t woken_tasks [OF assms])
  then obtain b where "n \<in> on_array {} s1 (0, b)"
    using ok(2) by (auto simp: next_ok_def split: if_splits)
  then have "t_array (tasks s1 n) \<noteq> None" by (simp add: on_array_def)
  then have n: "n = 7"
    using idle t woken_tasks(10) [OF assms] by (metis)
  obtain s2 where s2: "(migrate Kx 0)\<^sup>*\<^sup>* (leave_cpu Kx 0 (woken t)) s2"
    "\<And>c. rq_idle (rqs s1 c) = rq_idle (rqs s2 c)" "\<And>c. current c s1 = current c s2"
    using ok(3) by blast
  have "current 0 s1 = 0"
    using migrations_keep(1) [OF s2(1)] s2(3) by (simp add: woken_tasks [OF assms])
  then show "current 0 (running t) = 7" by (simp add: r n switch_tasks_current)
  show "t_array (tasks (running t) 7) \<noteq> None" by (simp add: r t woken_tasks [OF assms])
  show "rq_idle (rqs (running t) c) = 0"
    using migrations_keep(2) [OF s2(1)] s2(2) by (simp add: r woken_tasks [OF assms])
  show "t_policy (tasks (running t) 7) = t_policy t" by (simp add: r t woken_tasks [OF assms])
  show "t_time_slice (tasks (running t) 7) = t_time_slice t" "t_is_short (tasks (running t) 7) = t_is_short t"
    by (simp_all add: r n t woken_tasks [OF assms] switch_tasks_def context_switch_def mmdrop_def Let_def)
  show "t_prio (tasks (running t) 7) = t_prio t" if "t_policy t = SCHED_SHORT"
    using woken_tasks(12) [OF assms that] by (simp add: r t)
  show "t_array (tasks (running t) p) = None" if "p \<noteq> 7"
    using that idle t [of p] woken_tasks(10) [OF assms that] by (cases "p = 0") (simp_all add: r)
qed

text \<open>Task 7 runs and has made a child, task 8, which is not yet in the scheduler's hands.\<close>

definition forked :: "task \<Rightarrow> task \<Rightarrow> (qid \<Rightarrow> tptr list, int list) sched" where
  "forked t child = upd_task 8 (\<lambda>_. child) (running t)"

lemma forked_inv:
  assumes "ex_ok t"
  shows "sched_inv Kx {8} (forked t child)" and "cpu_ok {8} (forked t child) 0"
    and "current 0 (forked t child) = 7" and "tasks (forked t child) 8 = child"
    and "tasks (forked t child) 7 = tasks (running t) 7"
proof -
  note r = running_tasks [OF assms]
  have "sched_inv Kx {8} (running t)"
    by (rule sched_inv_insert_off [OF running_inv(1) [OF assms] r(7)]) simp
  then show "sched_inv Kx {8} (forked t child)" by (simp add: forked_def)
  show "cpu_ok {8} (forked t child) 0"
    using running_inv(2) [OF assms] by (simp add: forked_def cpu_ok_def r)
qed (simp_all add: forked_def running_tasks [OF assms])

lemma running_array:
  assumes "ex_ok t"
  obtains a where "t_array (tasks (running t) 7) = Some (0, a)"
    and "t_policy t = SCHED_SHORT \<Longrightarrow> a = (if t_is_short t = 1 then Short_active else Overdue)"
proof -
  obtain a where a: "t_array (tasks (running t) 7) = Some (0, a)"
    using running_inv(2) [OF assms] running_tasks(1,2,6) [OF assms] by (auto simp: cpu_ok_def)
  have "class_array (tasks (running t) 7) a"
    using q_inv_queued(5) [OF sched_invD(1) [OF running_inv(1) [OF assms]] _ a] by simp
  then show thesis
    using that [OF a] running_tasks(3,5) [OF assms] by (simp add: class_array_def split: if_splits)
qed

end
