(* ===== verification/Sched_Policy.thy ===== *)
theory Sched_Policy imports Syscall_Inv begin

text \<open>
  \<^verbatim>\<open>setscheduler\<close> as a whole: its errors change nothing but the caller's flags, it keeps the
  invariant, and what a request for the SHORT policy does to the task.
\<close>

section \<open>Outcomes\<close>

text \<open>The policy asked for.\<close>

definition asked_policy :: "task \<Rightarrow> int \<Rightarrow> int" where
  "asked_policy t policy = (if policy < 0 then t_policy t else policy)"

lemma setscheduler_task_cases:
  obtains (unknown) "0 \<le> policy" "\<not> known_policy policy" "setscheduler_task K me p policy lp s = (Inl EINVAL, s)"
  | (param) "policy < 0 \<or> known_policy policy" "bad_param K (tasks s p) (asked_policy (tasks s p) policy) lp"
      "setscheduler_task K me p policy lp s = (Inl EINVAL, s)"
  | (denied) s1 where "sched_denied K me p (asked_policy (tasks s p) policy) s = (True, s1)"
      "setscheduler_task K me p policy lp s = (Inl EPERM, s1)"
  | (granted) s1 where "policy < 0 \<or> known_policy policy" "\<not> bad_param K (tasks s p) (asked_policy (tasks s p) policy) lp"
      "sched_denied K me p (asked_policy (tasks s p) policy) s = (False, s1)"
      "setscheduler_task K me p policy lp s =
        (Inr 0, change_policy K me p (asked_policy (tasks s p) policy) lp s1)"
proof -
  obtain d s1 where d: "sched_denied K me p (asked_policy (tasks s p) policy) s = (d, s1)" by fastforce
  have eq: "setscheduler_task K me p policy lp s =
      (if \<not> policy < 0 \<and> \<not> known_policy policy then (Inl EINVAL, s)
       else if bad_param K (tasks s p) (asked_policy (tasks s p) policy) lp then (Inl EINVAL, s)
       else if d then (Inl EPERM, s1)
       else (Inr 0, change_policy K me p (asked_policy (tasks s p) policy) lp s1))"
    unfolding setscheduler_task_def Let_def asked_policy_def [symmetric] d prod.case ..
  show thesis
  proof (cases "\<not> policy < 0 \<and> \<not> known_policy policy")
    case True
    with eq show ?thesis by (intro unknown) auto
  next
    case known: False
    show ?thesis
    proof (cases "bad_param K (tasks s p) (asked_policy (tasks s p) policy) lp")
      case True
      with known eq show ?thesis by (intro param) auto
    next
      case False
      with known eq d show ?thesis by (cases d) (auto intro: denied granted)
    qed
  qed
qed

lemma setscheduler_granted:
  assumes "find_process_by_pid me pid s = Some p"
    and "setscheduler K me pid policy (Some lp) fault s = (Inr r, s')"
  obtains s1 where "\<not> bad_param K (tasks s p) (asked_policy (tasks s p) policy) lp"
    and "sched_denied K me p (asked_policy (tasks s p) policy) s = (False, s1)" and "marked me s s1"
    and "s' = change_policy K me p (asked_policy (tasks s p) policy) lp s1"
proof -
  have "setscheduler_task K me p policy lp s = (Inr r, s')"
    using assms by (auto simp: setscheduler_def split: if_splits)
  then show thesis
  proof (cases rule: setscheduler_task_cases [of policy K me p lp s])
    case (granted s1)
    with \<open>setscheduler_task K me p policy lp s = (Inr r, s')\<close> sched_denied_marks [OF granted(3)]
    show ?thesis by (intro that) auto
  qed auto
qed

lemma marked_flags: "marked me s s1 \<Longrightarrow> \<exists>f. s1 = set_flags me f s"
  using set_flags_same [of s me] by (auto simp: marked_def set_flags_def upd_task_def)

text \<open>The other tasks, and the fields of the task itself, after a change of policy.\<close>

lemma change_policy_other:
  "q \<noteq> p \<Longrightarrow> t_policy (tasks (change_policy K me p pol lp s) q) = t_policy (tasks s q)"
  "q \<noteq> p \<Longrightarrow> t_is_short (tasks (change_policy K me p pol lp s) q) = t_is_short (tasks s q)"
  by (simp_all add: change_policy_eq Let_def)

lemma change_policy_task:
  "t_policy (tasks (change_policy K me p pol lp s) p) = pol"
  "t_is_short (tasks (change_policy K me p pol lp s) p) =
    (if pol = SCHED_SHORT \<and> t_policy (tasks s p) \<noteq> SCHED_SHORT then 1 else t_is_short (tasks s p))"
  by (simp_all add: change_policy_eq changed_def Let_def)

lemma setscheduler_task_frame:
  assumes "fst (setscheduler_task K me p policy lp s) = Inl e"
  shows "marked me s (snd (setscheduler_task K me p policy lp s))"
proof (cases rule: setscheduler_task_cases [of policy K me p lp s])
  case (denied s1)
  with sched_denied_marks [OF denied(1)] show ?thesis by simp
qed (use assms in auto)

lemma setscheduler_error_frame:
  assumes "fst (setscheduler K me pid policy param fault s) = Inl e"
  shows "marked me s (snd (setscheduler K me pid policy param fault s))"
  using assms setscheduler_task_frame
  by (auto simp: setscheduler_def split: option.splits if_splits)

context kernel_lib
begin

lemma setscheduler_task_inv:
  assumes inv: "sched_inv K X s" and p: "p \<notin> X"
  shows "sched_inv K X (snd (setscheduler_task K me p policy lp s))"
proof (cases rule: setscheduler_task_cases [of policy K me p lp s])
  case (denied s1)
  with sched_denied_result(1) [OF denied(1)] inv show ?thesis by auto
next
  case (granted s1)
  let ?pol = "asked_policy (tasks s p) policy"
  from sched_denied_result(1) [OF granted(3)] obtain f where f: "s1 = set_flags me f s" ..
  have "policy_ok (tasks s p)"
    using task_okD(5) [OF q_invD(7) [OF sched_invD(1) [OF inv] p]] .
  then have "known_policy ?pol"
    using granted(1) by (auto simp: asked_policy_def known_policy_def policy_ok_def)
  with accepted_may_change [OF granted(3,2)] have "may_change (tasks s1 p) ?pol (sched_priority lp)"
    by (simp add: f may_change_def)
  then have "sched_inv K X (change_policy K me p ?pol lp s1)"
    using inv p f by (intro change_policy_inv) auto
  with granted(4) show ?thesis by simp
qed (use inv in simp_all)

lemma setscheduler_inv:
  assumes "sched_inv K X s" and "\<And>p. find_process_by_pid me pid s = Some p \<Longrightarrow> p \<notin> X"
  shows "sched_inv K X (snd (setscheduler K me pid policy param fault s))"
  using assms setscheduler_task_inv by (auto simp: setscheduler_def split: option.splits)

end

text \<open>The error of every argument, in the order of the tests.\<close>

lemma setscheduler_errors:
  "fst (setscheduler K me pid policy None fault s) = Inl EINVAL"
  "pid < 0 \<Longrightarrow> fst (setscheduler K me pid policy (Some lp) fault s) = Inl EINVAL"
  "\<not> pid < 0 \<Longrightarrow> fst (setscheduler K me pid policy (Some lp) True s) = Inl EFAULT"
  "\<not> pid < 0 \<Longrightarrow> find_process_by_pid me pid s = None \<Longrightarrow>
    fst (setscheduler K me pid policy (Some lp) False s) = Inl ESRCH"
  "\<not> pid < 0 \<Longrightarrow> find_process_by_pid me pid s = Some p \<Longrightarrow>
    setscheduler K me pid policy (Some lp) False s = setscheduler_task K me p policy lp s"
  by (simp_all add: setscheduler_def)

lemma setscheduler_task_result:
  assumes "0 \<le> policy"
  shows "fst (setscheduler_task K me p policy lp s) =
    (if \<not> known_policy policy \<or> bad_param K (tasks s p) policy lp then Inl EINVAL
     else if fst (sched_denied K me p policy s) then Inl EPERM else Inr 0)"
  using assms by (auto simp: setscheduler_task_def Let_def split: prod.splits)

end
