(* ===== verification/Hw2_Syscalls.thy ===== *)
theory Hw2_Syscalls imports Sched_Policy Sched_Yield begin

text \<open>
  The three system calls about the SHORT policy (\<^verbatim>\<open>kernel/hw2_syscalls.c\<close>), their user-space
  wrappers (\<^verbatim>\<open>hw2_syscalls.h\<close>), and the life of a SHORT task: the time a request grants, the
  renewed request, and what happens when the time is used up.
\<close>

section \<open>The system calls\<close>

definition sys_is_short :: "int \<Rightarrow> ('l, 'b) sched \<Rightarrow> int kres" where
  "sys_is_short pid s =
     (case find_task_by_pid pid s of None \<Rightarrow> Inl ESRCH
      | Some t \<Rightarrow>
          if t_policy (tasks s t) \<noteq> SCHED_SHORT then Inl EINVAL
          else if t_is_short (tasks s t) = -1 then Inr 0
          else Inr 1)"

definition sys_short_remaining_time :: "('l, 'b) klib \<Rightarrow> int \<Rightarrow> ('l, 'b) sched \<Rightarrow> int kres" where
  "sys_short_remaining_time K pid s =
     (case find_task_by_pid pid s of None \<Rightarrow> Inl ESRCH
      | Some t \<Rightarrow>
          if t_policy (tasks s t) \<noteq> SCHED_SHORT then Inl EINVAL
          else Inr (sint (t_time_slice (tasks s t) * 1000 div word_of_int (k_HZ K))))"

definition sys_was_short :: "int \<Rightarrow> ('l, 'b) sched \<Rightarrow> int kres" where
  "sys_was_short pid s =
     (case find_task_by_pid pid s of None \<Rightarrow> Inl ESRCH
      | Some t \<Rightarrow>
          if t_policy (tasks s t) = SCHED_SHORT then Inl EINVAL
          else Inr (- t_is_short (tasks s t)))"

section \<open>The user-space wrappers\<close>

text \<open>
  The numbers of \<^verbatim>\<open>asm/errno.h\<close>; the register \<open>eax\<close> a system call leaves; the decoding that the
  three wrappers share, whose result is the value returned and the value stored in \<^verbatim>\<open>errno\<close>.
\<close>

fun errno_code :: "errno \<Rightarrow> int" where
  "errno_code EPERM = 1"
| "errno_code ESRCH = 3"
| "errno_code ECHILD = 10"
| "errno_code EAGAIN = 11"
| "errno_code ENOMEM = 12"
| "errno_code EFAULT = 14"
| "errno_code EBUSY = 16"
| "errno_code EINVAL = 22"
| "errno_code ERESTARTSYS = 512"

definition eax :: "int kres \<Rightarrow> u32" where
  "eax r = (case r of Inl e \<Rightarrow> word_of_int (- errno_code e) | Inr v \<Rightarrow> word_of_int v)"

definition wrapper :: "u32 \<Rightarrow> int \<times> int option" where
  "wrapper res =
     (if res \<ge> word_of_int (-125) then (sint (word_of_int (-1) :: u32), Some (sint (- res)))
      else (sint res, None))"

definition is_short :: "int \<Rightarrow> ('l, 'b) sched \<Rightarrow> int \<times> int option" where
  "is_short pid s = wrapper (eax (sys_is_short pid s))"

definition short_remaining_time :: "('l, 'b) klib \<Rightarrow> int \<Rightarrow> ('l, 'b) sched \<Rightarrow> int \<times> int option" where
  "short_remaining_time K pid s = wrapper (eax (sys_short_remaining_time K pid s))"

definition was_short :: "int \<Rightarrow> ('l, 'b) sched \<Rightarrow> int \<times> int option" where
  "was_short pid s = wrapper (eax (sys_was_short pid s))"

text \<open>The wrapper decodes what the kernel encodes.\<close>

lemma wrapper_error:
  assumes "e \<noteq> ERESTARTSYS"
  shows "wrapper (eax (Inl e)) = (-1, Some (errno_code e))"
  using assms by (cases e) (simp_all add: wrapper_def eax_def word_le_def unsigned_minus_1_eq_mask mask_eq_exp_minus_1)

lemma wrapper_value:
  assumes "0 \<le> v" and "v < 2 ^ 31"
  shows "wrapper (eax (Inr v)) = (v, None)"
proof -
  have "uint (word_of_int v :: u32) = v" "sint (word_of_int v :: u32) = v"
    using assms by (auto intro!: uint_word_of_int_small sint_word_of_int_small)
  with assms show ?thesis by (simp add: wrapper_def eax_def word_le_def)
qed

section \<open>Time slices in milliseconds and jiffies\<close>

text \<open>The slice a request of \<open>r\<close> milliseconds grants.\<close>

definition granted :: "('l, 'b) klib \<Rightarrow> int \<Rightarrow> int" where
  "granted K r = max 1 (r * k_HZ K div 1000)"

context kernel_lib
begin

lemma granted_word:
  assumes "1 \<le> r" and "r \<le> 3000"
  shows "uint (word_of_int ((r * k_HZ K) sdiv 1000) :: u32) = r * k_HZ K div 1000"
    and "0 \<le> r * k_HZ K div 1000" and "r * k_HZ K div 1000 \<le> 3072"
proof -
  have "r * k_HZ K \<le> 3000 * 1024" using assms HZ_lower HZ_upper by (intro mult_mono) auto
  then show le: "r * k_HZ K div 1000 \<le> 3072" by linarith
  have nonneg: "0 \<le> r * k_HZ K" using assms HZ_lower by (intro mult_nonneg_nonneg) auto
  then show ge: "0 \<le> r * k_HZ K div 1000" by linarith
  have "(r * k_HZ K) sdiv 1000 = r * k_HZ K div 1000" using nonneg by (intro sdiv_nonneg) auto
  with le ge show "uint (word_of_int ((r * k_HZ K) sdiv 1000) :: u32) = r * k_HZ K div 1000"
    by (simp add: uint_word_of_int_small)
qed

lemma uint_eq_0: "uint (w :: u32) = 0 \<longleftrightarrow> w = 0"
  by (simp add: uint_0_iff)

text \<open>The first request.\<close>

lemma short_request_new:
  assumes "t_policy t \<noteq> SCHED_SHORT" and "1 \<le> r" and "r \<le> 3000"
  shows "uint (t_time_slice (short_request K r t)) = granted K r"
    and "t_requested_time (short_request K r t) = r" and "t_is_short (short_request K r t) = 1"
  using assms granted_word [OF assms(2,3)]
  by (auto simp: short_request_def Let_def granted_def uint_eq_0 [symmetric])

text \<open>The remaining time that is reported, for a slice of moderate size.\<close>

lemma remaining_ms:
  assumes "0 \<le> uint (w :: u32)" and "uint w \<le> 3072"
  shows "sint (w * 1000 div word_of_int (k_HZ K)) = uint w * 1000 div k_HZ K"
proof -
  have H: "uint (word_of_int (k_HZ K) :: u32) = k_HZ K"
    using HZ_lower HZ_upper by (intro uint_word_of_int_small) auto
  have "uint (w * 1000) = uint w * 1000" using assms by (subst uint_mult_small) auto
  then have u: "uint (w * 1000 div word_of_int (k_HZ K)) = uint w * 1000 div k_HZ K"
    by (simp add: uint_div_distrib H)
  have "uint w * 1000 div k_HZ K \<le> uint w * 1000 div 1"
    using HZ_lower assms by (intro zdiv_mono2) auto
  then have "uint w * 1000 div k_HZ K < 2 ^ 31" using assms by simp
  moreover have "0 \<le> uint w * 1000 div k_HZ K"
    using HZ_lower assms by (intro pos_imp_zdiv_nonneg_iff [THEN iffD2]) auto
  ultimately have "sint (word_of_int (uint w * 1000 div k_HZ K) :: u32) = uint w * 1000 div k_HZ K"
    by (intro sint_word_of_int_small) auto
  with u show ?thesis by (metis word_of_int_uint)
qed

text \<open>Right after the request: at most what was asked for, and less by a jiffy and a rounding at most.\<close>

lemma granted_ms:
  assumes "1 \<le> r" and "r \<le> 3000" and "1000 \<le> r * k_HZ K"
  shows "granted K r * 1000 div k_HZ K \<le> r" and "k_HZ K * (r - granted K r * 1000 div k_HZ K) < 1000 + k_HZ K"
proof -
  let ?H = "k_HZ K"
  have H: "0 < ?H" using HZ_lower by simp
  have "1 \<le> r * ?H div 1000" using assms(3) by linarith
  then have g: "granted K r = r * ?H div 1000" by (simp add: granted_def)
  have lo: "granted K r * 1000 \<le> r * ?H" and hi: "r * ?H < granted K r * 1000 + 1000"
    unfolding g by linarith+
  have "granted K r * 1000 div ?H \<le> r * ?H div ?H" using lo H by (intro zdiv_mono1) auto
  then show "granted K r * 1000 div ?H \<le> r" using H by simp
  have "granted K r * 1000 = ?H * (granted K r * 1000 div ?H) + granted K r * 1000 mod ?H" by simp
  moreover have "granted K r * 1000 mod ?H < ?H" using H by simp
  ultimately have "granted K r * 1000 < ?H * (granted K r * 1000 div ?H) + ?H" by linarith
  with hi show "?H * (r - granted K r * 1000 div ?H) < 1000 + ?H"
    by (simp add: right_diff_distrib mult.commute)
qed

text \<open>
  A renewed request. The test compares unsigned words: \<^verbatim>\<open>p->requested_time\<close> less the time the slice
  is worth wraps around when the slice is worth more, and the request is then refused, whatever
  it is. For an accepted request the jiffies used are subtracted from the new slice. When the first request
  was worth less than a jiffy, and so was rounded up to one, the jiffies used are -1 before the first
  tick; the two unsigned subtractions wrap around and back, and the new slice is a jiffy longer.
\<close>

lemma slice_ms:
  assumes "uint (w :: u32) \<le> 4000000"
  shows "w * 1000 div word_of_int (k_HZ K) = word_of_int (uint w * 1000 div k_HZ K)"
    and "0 \<le> uint w * 1000 div k_HZ K" and "uint w * 1000 div k_HZ K \<le> 40000000"
    and "uint w * 1000 div k_HZ K * k_HZ K \<le> uint w * 1000"
proof -
  have H: "100 \<le> k_HZ K" "k_HZ K \<le> 1024" using HZ_lower HZ_upper .
  have "uint (word_of_int (k_HZ K) :: u32) = k_HZ K" using H by (intro uint_word_of_int_small) auto
  moreover have "uint (w * 1000) = uint w * 1000" using assms by (subst uint_mult_small) auto
  ultimately have "uint (w * 1000 div word_of_int (k_HZ K)) = uint w * 1000 div k_HZ K"
    by (simp add: uint_div_distrib)
  then show "w * 1000 div word_of_int (k_HZ K) = word_of_int (uint w * 1000 div k_HZ K)"
    by (metis word_of_int_uint)
  show "0 \<le> uint w * 1000 div k_HZ K" using H by (simp add: pos_imp_zdiv_nonneg_iff)
  have "uint w * 1000 div k_HZ K \<le> uint w * 1000 div 100" using H by (intro zdiv_mono2) auto
  then show "uint w * 1000 div k_HZ K \<le> 40000000" using assms by simp
  have "uint w * 1000 div k_HZ K * k_HZ K + uint w * 1000 mod k_HZ K = uint w * 1000" by (rule div_mult_mod_eq)
  moreover have "0 \<le> uint w * 1000 mod k_HZ K" using H by simp
  ultimately show "uint w * 1000 div k_HZ K * k_HZ K \<le> uint w * 1000" by linarith
qed

lemma renewal_test:
  fixes t :: task and lp :: sched_param
  assumes "t_policy t = SCHED_SHORT" and req: "1 \<le> t_requested_time t" "t_requested_time t \<le> 3000"
    and slice: "uint (t_time_slice t) \<le> 4000000"
  defines "left \<equiv> uint (t_time_slice t) * 1000 div k_HZ K" and "r \<equiv> sp_requested_time lp"
  shows "bad_param K t SCHED_SHORT lp \<longleftrightarrow>
    r < 1 \<or> 3000 < r \<or> r \<le> t_requested_time t - left \<or> t_requested_time t < left"
proof (cases "1 \<le> r \<and> r \<le> 3000")
  case True
  let ?d = "word_of_int (t_requested_time t) - t_time_slice t * 1000 div word_of_int (k_HZ K) :: u32"
  note S = slice_ms [OF slice, folded left_def]
  have d: "?d = word_of_int (t_requested_time t - left)" using S(1) by simp
  have r: "uint (word_of_int r :: u32) = r" by (rule uint_word_of_int_small) (use True in simp_all)
  have "word_of_int r \<le> ?d \<longleftrightarrow> r \<le> t_requested_time t - left \<or> t_requested_time t < left"
  proof (cases "left \<le> t_requested_time t")
    case le: True
    have "uint ?d = t_requested_time t - left"
      unfolding d by (rule uint_word_of_int_small) (use le req S(2) in simp_all)
    with le r show ?thesis by (simp add: word_le_def)
  next
    case False
    have "?d = word_of_int (2 ^ 32 + (t_requested_time t - left))"
      unfolding d by (simp add: word_of_int_eq_iff take_bit_eq_mod)
    then have "uint ?d = uint (word_of_int (2 ^ 32 + (t_requested_time t - left)) :: u32)" by (rule arg_cong)
    also have "\<dots> = 2 ^ 32 + (t_requested_time t - left)"
      by (rule uint_word_of_int_small) (use False req S(3) in simp_all)
    finally have "uint ?d = 2 ^ 32 + (t_requested_time t - left)" .
    with False True r S(3) req show ?thesis by (simp add: word_le_def)
  qed
  with True assms(1) show ?thesis by (auto simp: bad_param_def r_def)
qed (auto simp: bad_param_def r_def)

lemma short_renewed:
  assumes short: "t_policy t = SCHED_SHORT" and req: "1 \<le> t_requested_time t" "t_requested_time t \<le> 3000"
    and slice: "uint (t_time_slice t) \<le> 4000000"
    and ok: "\<not> bad_param K t SCHED_SHORT lp"
  defines "r \<equiv> sp_requested_time lp"
  defines "used \<equiv> t_requested_time t * k_HZ K div 1000 - uint (t_time_slice t)"
  shows "uint (t_time_slice (short_request K r t)) = max 1 (r * k_HZ K div 1000 - used)"
    and "t_requested_time (short_request K r t) = r" and "0 \<le> r * k_HZ K div 1000 - used"
proof -
  let ?H = "k_HZ K" and ?q = "t_requested_time t" and ?s = "uint (t_time_slice t)"
  let ?e = "uint (t_time_slice t) * 1000 div k_HZ K" and ?n = "r * k_HZ K div 1000 - used"
  have H: "100 \<le> ?H" using HZ_lower .
  have r: "1 \<le> r" "r \<le> 3000" and less: "?q - ?e < r"
    using ok renewal_test [OF short req slice, of lp] by (auto simp: r_def)
  note G = granted_word [OF req] and G' = granted_word [OF r]
  have "(?q - ?e) * ?H \<le> r * ?H" using less H by (intro mult_right_mono) auto
  then have "?q * ?H - ?s * 1000 \<le> r * ?H" using slice_ms(4) [OF slice] by (simp add: left_diff_distrib)
  then have "?q * ?H div 1000 - ?s \<le> r * ?H div 1000" by linarith
  then show ge: "0 \<le> ?n" by (simp add: used_def)
  have T: "word_of_int ((x * ?H) sdiv 1000) = (word_of_int (x * ?H div 1000) :: u32)"
    if "uint (word_of_int ((x * ?H) sdiv 1000) :: u32) = x * ?H div 1000" for x
    using that by (metis word_of_int_uint)
  have "word_of_int ((r * ?H) sdiv 1000) - (word_of_int ((?q * ?H) sdiv 1000) - t_time_slice t) =
      (word_of_int ?n :: u32)"
    unfolding T [OF G(1)] T [OF G'(1)] by (simp add: used_def)
  moreover have "uint (word_of_int ?n :: u32) = ?n"
    by (rule uint_word_of_int_small) (use ge G(2) G'(3) slice in \<open>simp_all add: used_def\<close>)
  ultimately have w: "uint (word_of_int ((r * ?H) sdiv 1000) - (word_of_int ((?q * ?H) sdiv 1000) - t_time_slice t)) = ?n"
    by simp
  then show "uint (t_time_slice (short_request K r t)) = max 1 ?n"
    using short r ge by (auto simp: short_request_def Let_def uint_eq_0 [symmetric])
  show "t_requested_time (short_request K r t) = r"
    using short r by (auto simp: short_request_def Let_def)
qed

end

section \<open>What the queries say\<close>

text \<open>\<^verbatim>\<open>is_short\<close> and \<^verbatim>\<open>was_short\<close> answer for complementary sets of tasks.\<close>

lemma short_queries:
  assumes "find_task_by_pid pid s = Some p" and "policy_ok (tasks s p)"
  shows "sys_is_short pid s = (if t_policy (tasks s p) \<noteq> SCHED_SHORT then Inl EINVAL
      else if t_is_short (tasks s p) = 1 then Inr 1 else Inr 0)"
    and "sys_was_short pid s = (if t_policy (tasks s p) = SCHED_SHORT then Inl EINVAL
      else if t_is_short (tasks s p) = -1 then Inr 1 else Inr 0)"
  using assms by (auto simp: sys_is_short_def sys_was_short_def policy_ok_def)

end
