(* ===== verification/Short_Life.thy ===== *)
theory Short_Life imports Hw2_Syscalls begin

text \<open>
  The life of a SHORT task under the timer tick: its slice is counted down, then it is an
  overdue SHORT task, and after the overdue slice an ordinary task.
\<close>

section \<open>Counting down a slice\<close>

lemma tick_counters_iter [simp]:
  "t_time_slice ((tick_counters ^^ n) t) = t_time_slice t - word_of_nat n"
  "t_policy ((tick_counters ^^ n) t) = t_policy t" "t_is_short ((tick_counters ^^ n) t) = t_is_short t"
  "t_requested_time ((tick_counters ^^ n) t) = t_requested_time t" "t_array ((tick_counters ^^ n) t) = t_array t"
  "t_static_prio ((tick_counters ^^ n) t) = t_static_prio t" "t_prio ((tick_counters ^^ n) t) = t_prio t"
  by (induction n) simp_all

text \<open>
  The ticks of a uniprocessor on a running timeshare task: until the last jiffy of its slice
  they only count.
\<close>

definition ticks_on :: "('l, 'b) klib \<Rightarrow> cpu \<Rightarrow> ('l, 'b) sched \<Rightarrow> bool" where
  "ticks_on K me s \<longleftrightarrow>
     \<not> k_config_smp K \<and> current me s \<noteq> rq_idle (rqs s me) \<and> \<not> rt_task (tasks s (current me s)) \<and>
     (\<exists>a. t_array (tasks s (current me s)) = Some (me, a) \<and> a \<in> {rq_active (rqs s me), Short_active, Overdue})"

lemma tick_step:
  assumes "ticks_on K me s"
  shows "scheduler_tick K lk me irq u y s = timeshare_tick K me (current me s) (account_tick me u y s)"
  using assms by (auto simp: ticks_on_def scheduler_tick_queued no_rebalance_def)

lemma ticks_run:
  fixes K :: "('l, 'b) klib" and lk irq :: bool and u y :: int
  assumes on: "ticks_on K me s" and "n < unat (t_time_slice (tasks s (current me s)))"
  defines "s' \<equiv> (scheduler_tick K lk me irq u y ^^ n) s"
  shows "tasks s' = (tasks s)(current me s := (tick_counters ^^ n) (tasks s (current me s)))"
    and "rqs s' = rqs s" and "jiffies s' = jiffies s" and "ticks_on K me s'"
proof -
  let ?p = "current me s"
  have "n < unat (t_time_slice (tasks s ?p)) \<Longrightarrow>
    tasks ((scheduler_tick K lk me irq u y ^^ n) s) = (tasks s)(?p := (tick_counters ^^ n) (tasks s ?p)) \<and>
    rqs ((scheduler_tick K lk me irq u y ^^ n) s) = rqs s \<and>
    jiffies ((scheduler_tick K lk me irq u y ^^ n) s) = jiffies s \<and>
    ticks_on K me ((scheduler_tick K lk me irq u y ^^ n) s)"
  proof (induction n)
    case (Suc n)
    let ?t = "(scheduler_tick K lk me irq u y ^^ n) s"
    have IH: "tasks ?t = (tasks s)(?p := (tick_counters ^^ n) (tasks s ?p))" "rqs ?t = rqs s"
      "jiffies ?t = jiffies s" "ticks_on K me ?t"
      using Suc.IH Suc_lessD [OF Suc.prems] by blast+
    have cur: "current me ?t = ?p" using IH(2) by (simp add: current_def)
    have ne: "t_time_slice (tasks s ?p) \<noteq> word_of_nat (Suc n)"
    proof
      assume "t_time_slice (tasks s ?p) = word_of_nat (Suc n)"
      then have "unat (t_time_slice (tasks s ?p)) \<le> Suc n" by (metis unat_of_nat mod_less_eq_dividend)
      with Suc.prems show False by simp
    qed
    then have "t_time_slice (tasks s ?p) - word_of_nat n - 1 \<noteq> 0" by (simp add: algebra_simps)
    then have step: "scheduler_tick K lk me irq u y ?t = upd_task ?p tick_counters (account_tick me u y ?t)"
      by (simp add: tick_step [OF IH(4)] cur timeshare_tick_eq Let_def IH(1))
    have "ticks_on K me (upd_task ?p tick_counters (account_tick me u y ?t))"
      using on cur IH(2) by (simp add: ticks_on_def current_def IH(1) rt_task_def)
    then show ?case by (simp add: step IH)
  qed (use on in simp)
  with assms(2) show "tasks s' = (tasks s)(?p := (tick_counters ^^ n) (tasks s ?p))"
    "rqs s' = rqs s" "jiffies s' = jiffies s" "ticks_on K me s'"
    unfolding s'_def by blast+
qed

lemma last_tick:
  fixes K :: "('l, 'b) klib" and lk irq :: bool and u y :: int
  assumes on: "ticks_on K me s" and slice: "unat (t_time_slice (tasks s (current me s))) = Suc n"
  obtains s1 where "tasks s1 = (tasks s)(current me s := (tick_counters ^^ Suc n) (tasks s (current me s)))"
    and "rqs s1 = rqs s" and "jiffies s1 = jiffies s"
    and "(scheduler_tick K lk me irq u y ^^ Suc n) s =
      (if t_policy (tasks s (current me s)) \<noteq> SCHED_SHORT then other_expiry K me (current me s) s1
       else short_expiry K me (current me s) s1)"
proof -
  let ?p = "current me s" and ?t = "(scheduler_tick K lk me irq u y ^^ n) s"
  have n: "n < unat (t_time_slice (tasks s ?p))" using slice by simp
  note run = ticks_run [OF on n, where lk = lk and irq = irq and u = u and y = y]
  have cur: "current me ?t = ?p" using run(2) by (simp add: current_def)
  have "t_time_slice (tasks s ?p) = word_of_nat (Suc n)"
    unfolding slice [symmetric] by simp
  then have zero: "t_time_slice (tasks s ?p) - word_of_nat n - 1 = 0" by simp
  show thesis
  proof (rule that [where ?s1.0 = "upd_task ?p tick_counters (account_tick me u y ?t)"])
    show "(scheduler_tick K lk me irq u y ^^ Suc n) s =
      (if t_policy (tasks s ?p) \<noteq> SCHED_SHORT
       then other_expiry K me ?p (upd_task ?p tick_counters (account_tick me u y ?t))
       else short_expiry K me ?p (upd_task ?p tick_counters (account_tick me u y ?t)))"
      using zero by (simp add: tick_step [OF run(4)] cur timeshare_tick_eq Let_def run(1))
  qed (simp_all add: run)
qed

end
