(* ===== verification/Sched_Props.thy ===== *)
theory Sched_Props imports Example_State Short_Life begin

text \<open>
  Properties of the scheduler core: \<^verbatim>\<open>schedule\<close>, \<^verbatim>\<open>scheduler_tick\<close>, the load balancer, the
  priority arrays, the arithmetic of priorities and time slices, and the boot. Each property is
  followed by its witness.
\<close>

section \<open>Choosing the next task\<close>

text \<open>
  C1. \<^verbatim>\<open>schedule\<close> returns: called outside an interrupt in a state that satisfies the runqueue
  invariant, with finitely many tasks asked to reschedule, its loop ends. The invariants hold
  again and the task it leaves on the CPU is not asked to reschedule.
\<close>

theorem schedule_terminates:
  assumes "kernel_lib K" and "sched_inv K X s" and "cpu_ok X s me"
    and "finite {p. t_need_resched (tasks s p)}"
  shows "\<exists>s'. schedule K False lk me s = Some s' \<and> sched_inv K X s' \<and> cpu_ok X s' me \<and>
    \<not> t_need_resched (tasks s' (current me s'))"
  using kernel_lib.schedule_returns [OF assms(1-3)] assms(4) by (auto simp: flagged_def passed_def)

lemma woken_flagged:
  assumes "ex_ok t"
  shows "finite {p. t_need_resched (tasks (woken t) p)}"
  by (rule finite_subset [where B = "{0, 7}"]) (use woken_tasks(11) [OF assms] in auto)

theorem schedule_terminates_witness:
  "\<exists>s'. schedule Kx False (\<lambda>_. True) 0 (woken short_ex) = Some s' \<and> sched_inv Kx {} s' \<and>
    cpu_ok {} s' 0 \<and> \<not> t_need_resched (tasks s' (current 0 s'))"
  by (rule schedule_terminates [OF ref512.kernel_lib_axioms woken_inv woken_flagged]) simp_all

text \<open>
  C2. The policy order. The task \<^verbatim>\<open>schedule\<close> leaves on the CPU is the idle task when the runqueue
  is empty; otherwise no runnable task of the CPU is of a better class (real time, then SHORT,
  then OTHER, then overdue SHORT), none in its array has a better priority, and it is the
  head of its queue.
\<close>

theorem schedule_policy_order:
  assumes "kernel_lib K" and "sched_inv K X s" and "cpu_ok X s me"
    and "finite {p. t_need_resched (tasks s p)}" and "schedule K False lk me s = Some s'"
    and "c = current me s'"
  shows "(if \<forall>q a. q \<notin> X \<longrightarrow> t_array (tasks s' q) \<noteq> Some (me, a) then c = rq_idle (rqs s' me)
    else \<exists>a. t_array (tasks s' c) = Some (me, a) \<and> c = hd (queue K s' ((me, a), t_prio (tasks s' c))) \<and>
      (\<forall>q b. q \<notin> X \<longrightarrow> t_array (tasks s' q) = Some (me, b) \<longrightarrow>
        prio_class (tasks s' c) \<le> prio_class (tasks s' q) \<and>
        (b = a \<longrightarrow> t_prio (tasks s' c) \<le> t_prio (tasks s' q))))"
proof -
  have "next_ok K X me s' c"
    using kernel_lib.schedule_returns [OF assms(1-3), where lk = lk] assms(4-6)
    by (simp add: flagged_def passed_def)
  then consider "\<forall>a. on_array X s' (me, a) = {}" "c = rq_idle (rqs s' me)"
    | a where "c \<in> on_array X s' (me, a)" "c = hd (queue K s' ((me, a), t_prio (tasks s' c)))"
      "\<forall>b. \<forall>q \<in> on_array X s' (me, b). prio_class (tasks s' c) \<le> prio_class (tasks s' q)"
      "\<forall>q \<in> on_array X s' (me, a). t_prio (tasks s' c) \<le> t_prio (tasks s' q)"
    unfolding next_ok_def by (metis (no_types, lifting))
  then show ?thesis
  proof cases
    case 1
    then have "\<forall>q a. q \<notin> X \<longrightarrow> t_array (tasks s' q) \<noteq> Some (me, a)"
      by (auto simp: on_array_def)
    with 1 show ?thesis by simp
  next
    case 2
    then have "\<not> (\<forall>q a. q \<notin> X \<longrightarrow> t_array (tasks s' q) \<noteq> Some (me, a))"
      by (auto simp: on_array_def)
    with 2 show ?thesis by (auto simp: on_array_def)
  qed
qed

theorem schedule_policy_order_witness:
  "\<exists>s'. schedule Kx False (\<lambda>_. True) 0 (woken short_ex) = Some s' \<and>
    (if \<forall>q a. q \<notin> {} \<longrightarrow> t_array (tasks s' q) \<noteq> Some (0, a) then current 0 s' = rq_idle (rqs s' 0)
    else \<exists>a. t_array (tasks s' (current 0 s')) = Some (0, a) \<and>
      current 0 s' = hd (queue Kx s' ((0, a), t_prio (tasks s' (current 0 s')))) \<and>
      (\<forall>q b. q \<notin> {} \<longrightarrow> t_array (tasks s' q) = Some (0, b) \<longrightarrow>
        prio_class (tasks s' (current 0 s')) \<le> prio_class (tasks s' q) \<and>
        (b = a \<longrightarrow> t_prio (tasks s' (current 0 s')) \<le> t_prio (tasks s' q))))"
proof -
  have ok: "ex_ok short_ex" by simp
  obtain s' where s': "schedule Kx False (\<lambda>_. True) 0 (woken short_ex) = Some s'"
    using ref512.schedule_returns [OF woken_inv [OF ok], where lk = "\<lambda>_. True"] woken_flagged [OF ok]
    by (auto simp: flagged_def)
  show ?thesis
    using schedule_policy_order [OF ref512.kernel_lib_axioms woken_inv [OF ok] woken_flagged [OF ok] s' refl] s'
    by blast
qed

section \<open>The timer tick\<close>

text \<open>C3. \<^verbatim>\<open>scheduler_tick\<close> keeps the runqueue invariant, whatever task it interrupts.\<close>

theorem scheduler_tick_keeps_invariant:
  assumes "kernel_lib K" and "sched_inv K X s" and "cpu_ok X s me"
  shows "sched_inv K X (scheduler_tick K lk me irq user_tick system s)"
  by (rule kernel_lib.scheduler_tick_inv [OF assms])

theorem scheduler_tick_keeps_invariant_witness:
  "sched_inv Kx {} (scheduler_tick Kx True 0 False 1 0 (running overdue_ex))"
  by (rule scheduler_tick_keeps_invariant [OF ref512.kernel_lib_axioms running_inv]) simp_all

text \<open>
  C4. A SHORT task that runs on a uniprocessor for the ticks of its slice is overdue after the
  last one, not before: it stays SHORT with the worst priority, is queued in the overdue array,
  is asked to reschedule, and has twice its requested time as its overdue slice.
\<close>

theorem short_expires_to_overdue:
  assumes "ticks_on K me s" and "p = current me s" and "t_policy (tasks s p) = SCHED_SHORT"
    and "t_is_short (tasks s p) = 1" and "unat (t_time_slice (tasks s p)) = Suc n"
  shows "(\<forall>i \<le> n. t_is_short (tasks ((scheduler_tick K lk me irq u y ^^ i) s) p) = 1) \<and>
    (let t = tasks ((scheduler_tick K lk me irq u y ^^ Suc n) s) p
     in t_policy t = SCHED_SHORT \<and> t_is_short t = -1 \<and> t_prio t = MAX_PRIO - 1 \<and>
        t_array t = Some (me, Overdue) \<and> t_need_resched t \<and>
        t_time_slice t = word_of_int ((2 * t_requested_time (tasks s p) * k_HZ K) sdiv 1000))"
proof
  show "\<forall>i \<le> n. t_is_short (tasks ((scheduler_tick K lk me irq u y ^^ i) s) p) = 1"
    using assms by (simp add: ticks_run(1))
  obtain s1 where s1: "tasks s1 = (tasks s)(p := (tick_counters ^^ Suc n) (tasks s p))"
    "(scheduler_tick K lk me irq u y ^^ Suc n) s = short_expiry K me p s1"
    using last_tick [OF assms(1), where n = n and lk = lk and irq = irq and u = u and y = y] assms
    by (auto simp del: funpow.simps)
  then show "let t = tasks ((scheduler_tick K lk me irq u y ^^ Suc n) s) p
     in t_policy t = SCHED_SHORT \<and> t_is_short t = -1 \<and> t_prio t = MAX_PRIO - 1 \<and>
        t_array t = Some (me, Overdue) \<and> t_need_resched t \<and>
        t_time_slice t = word_of_int ((2 * t_requested_time (tasks s p) * k_HZ K) sdiv 1000)"
    using assms by (simp add: short_expiry_overdue short_to_overdue_def Let_def del: funpow.simps)
qed

lemma running_ticks:
  assumes "ex_ok t" and "t_policy t = SCHED_SHORT"
  shows "ticks_on Kx 0 (running t)"
proof -
  note t = running_tasks [OF assms(1)]
  obtain c a where a: "t_array (tasks (running t) 7) = Some (c, a)" using t(2) by auto
  have ok: "task_ok Kx (tasks (running t) 7)"
    using sched_invD(1) [OF running_inv(1) [OF assms(1)]] by (simp add: q_invD(7))
  have "c = 0"
    using running_inv(2) [OF assms(1)] a t by (auto simp: cpu_ok_def)
  moreover have "a = Short_active \<or> a = Overdue"
    using task_okD(4) [OF ok a] t(3) assms(2) by (auto simp: class_array_def split: if_splits)
  moreover have "\<not> rt_task (tasks (running t) 7)"
    using task_okD(5) [OF ok] t(3) assms(2) by (auto simp: policy_ok_def rt_task_def policy_consts)
  ultimately show ?thesis
    using a t by (auto simp: ticks_on_def ref_lib_def)
qed

theorem short_expires_to_overdue_witness:
  "let t = tasks ((scheduler_tick Kx True 0 False 1 0 ^^ Suc 50) (running short_ex)) 7
   in t_is_short t = -1 \<and> t_array t = Some (0, Overdue)"
proof -
  have "ex_ok short_ex" by simp
  note t = running_tasks [OF this]
  show ?thesis
    using short_expires_to_overdue [OF running_ticks t(1) [symmetric], where n = 50 and lk = True and irq = False
        and u = 1 and y = 0]
    by (simp add: t Let_def del: funpow.simps)
qed

text \<open>
  C5. An overdue SHORT task that runs on a uniprocessor for the ticks of its slice is an ordinary
  task after the last one, with an ordinary slice and dynamic priority, queued in the active
  array; the mark that it was SHORT stays.
\<close>

theorem overdue_expires_to_other:
  assumes "ticks_on K me s" and "p = current me s" and "t_policy (tasks s p) = SCHED_SHORT"
    and "t_is_short (tasks s p) = -1" and "unat (t_time_slice (tasks s p)) = Suc n"
  shows "let t = tasks ((scheduler_tick K lk me irq u y ^^ Suc n) s) p
     in t_policy t = SCHED_OTHER \<and> t_is_short t = -1 \<and> t_array t = Some (active_array me s) \<and>
        t_need_resched t \<and> t_time_slice t = word_of_int (TASK_TIMESLICE K (tasks s p)) \<and>
        MAX_RT_PRIO \<le> t_prio t \<and> t_prio t < MAX_PRIO"
proof -
  obtain s1 where s1: "tasks s1 = (tasks s)(p := (tick_counters ^^ Suc n) (tasks s p))" "rqs s1 = rqs s"
    "(scheduler_tick K lk me irq u y ^^ Suc n) s = short_expiry K me p s1"
    using last_tick [OF assms(1), where n = n and lk = lk and irq = irq and u = u and y = y] assms
    by (auto simp del: funpow.simps)
  then show ?thesis
    using assms
    by (simp add: short_expiry_other overdue_to_other_def active_array_def TASK_TIMESLICE_def Let_def
        del: funpow.simps)
qed

theorem overdue_expires_to_other_witness:
  "let t = tasks ((scheduler_tick Kx True 0 False 1 0 ^^ Suc 50) (running overdue_ex)) 7
   in t_policy t = SCHED_OTHER \<and> t_is_short t = -1"
proof -
  have "ex_ok overdue_ex" by simp
  note t = running_tasks [OF this]
  show ?thesis
    using overdue_expires_to_other [OF running_ticks t(1) [symmetric], where n = 50 and lk = True and irq = False
        and u = 1 and y = 0]
    by (simp add: t Let_def del: funpow.simps) (simp add: ex_defs del: funpow.simps)
qed

section \<open>The priority arrays\<close>

definition serve :: "('l, 'b) klib \<Rightarrow> aid \<Rightarrow> int \<Rightarrow> ('l, 'b) sched \<Rightarrow> ('l, 'b) sched" where
  "serve K a i s = (let p = hd (queue K s (a, i)) in enqueue_task K p a (dequeue_task K p a s))"

context kernel_lib
begin

lemma serve_turns:
  assumes "q_inv K X s" and "p \<in> set (queue K s (a, i))"
  shows "\<exists>n < length (queue K s (a, i)). hd (queue K ((serve K a i ^^ n) s) (a, i)) = p \<and>
    q_inv K X ((serve K a i ^^ n) s)"
proof -
  have eq: "serve K a i = (\<lambda>t. enqueue_task K (hd (queue K t (a, i))) a (dequeue_task K (hd (queue K t (a, i))) a t))"
    by (simp add: serve_def Let_def fun_eq_iff)
  have ne: "queue K s (a, i) \<noteq> []" using assms(2) by auto
  obtain n where n: "n < length (queue K s (a, i))" "hd (queue K ((serve K a i ^^ n) s) (a, i)) = p"
    unfolding eq by (rule ra.every_task_served [OF assms])
  have "q_inv K X ((serve K a i ^^ n) s)"
    unfolding eq by (rule ra.serve_rounds(1) [OF assms(1) ne])
  with n show ?thesis by blast
qed

end

text \<open>
  Round robin: a queue served by moving its head to the tail, as \<^verbatim>\<open>scheduler_tick\<close> does with a
  RR task that used up its slice, reaches every task of the queue within as many turns as the
  queue is long.
\<close>

theorem round_robin_fair:
  assumes "kernel_lib K" and "q_inv K X s" and "p \<in> set (queue K s (a, i))"
  shows "\<exists>n < length (queue K s (a, i)). hd (queue K ((serve K a i ^^ n) s) (a, i)) = p \<and>
    q_inv K X ((serve K a i ^^ n) s)"
  by (rule kernel_lib.serve_turns [OF assms])

lemma woken_queue:
  assumes "ex_ok t"
  obtains a i where "7 \<in> set (queue Kx (woken t) (a, i))"
proof -
  obtain a where "t_array (tasks (woken t) 7) = Some a" using woken_tasks(1) [OF assms] by auto
  then have "7 \<in> set (queue Kx (woken t) (a, t_prio (tasks (woken t) 7)))"
    by (simp add: q_invD(1) [OF sched_invD(1) [OF woken_inv(1) [OF assms]]])
  then show thesis by (rule that)
qed

theorem round_robin_fair_witness:
  "\<exists>a i n. hd (queue Kx ((serve Kx a i ^^ n) (woken fifo_ex)) (a, i)) = 7"
proof -
  have ok: "ex_ok fifo_ex" by simp
  obtain a i where "7 \<in> set (queue Kx (woken fifo_ex) (a, i))" by (rule woken_queue [OF ok])
  then show ?thesis
    using round_robin_fair [OF ref512.kernel_lib_axioms sched_invD(1) [OF woken_inv(1) [OF ok]]] by blast
qed

text \<open>
  A RR task that heads its queue and uses the last jiffy of its slice moves to the tail,
  behind every task of its priority, and is asked to reschedule with a new slice.
\<close>

theorem rr_slice_rotates:
  assumes "kernel_lib K" and "sched_inv K X s" and "cpu_ok X s me" and "current me s \<noteq> rq_idle (rqs s me)"
    and "no_rebalance K s" and "t_policy (tasks s (current me s)) = SCHED_RR"
    and "t_time_slice (tasks s (current me s)) = 1"
    and "t_array (tasks s (current me s)) = Some (active_array me s)"
    and "queue K s (active_array me s, t_prio (tasks s (current me s))) = current me s # ps"
  shows "let s' = scheduler_tick K lk me irq u y s; t = tasks s' (current me s)
    in queue K s' (active_array me s, t_prio t) = ps @ [current me s] \<and> t_need_resched t \<and>
       t_time_slice t = word_of_int (TASK_TIMESLICE K t) \<and> t_prio t = t_prio (tasks s (current me s))"
proof -
  let ?p = "current me s" and ?s = "account_tick me u y s"
  have p: "?p \<notin> X" using assms(3) by (simp add: cpu_ok_def)
  have ok: "task_ok K (tasks s ?p)"
    by (rule q_invD(7) [OF sched_invD(1) [OF assms(2)] p])
  have rt: "rt_task (tasks s ?p)"
    using task_okD(5) [OF ok] assms(6) by (auto simp: policy_ok_def rt_task_def)
  have eq: "scheduler_tick K lk me irq u y s = rt_tick K me ?p ?s"
    using assms rt by (subst scheduler_tick_queued) (auto simp: active_array_def)
  have "queue K (rt_tick K me ?p ?s) (active_array me ?s, t_prio (tasks ?s ?p)) = ps @ [?p]"
    by (rule kernel_lib.rt_tick_rotates [OF assms(1), where X = X]) (use assms p in \<open>simp_all add: queue_def\<close>)
  then show ?thesis
    unfolding eq using assms(6,7) by (simp add: rt_tick_def Let_def TASK_TIMESLICE_def)
qed

definition rr_ex :: task where
  "rr_ex = fifo_ex\<lparr>t_policy := SCHED_RR, t_time_slice := 1\<rparr>"

lemma rr_ex: "ex_ok rr_ex" "t_policy rr_ex = SCHED_RR" "t_time_slice rr_ex = 1"
  by (simp_all add: rr_ex_def ex_ok_def ex_defs task_ok_def queued_ok_def policy_ok_def policy_consts
      MAX_SLEEP_AVG_def ref_lib_def)

lemma running_rr:
  obtains ps where "t_array (tasks (running rr_ex) 7) = Some (active_array 0 (running rr_ex))"
    and "queue Kx (running rr_ex) (active_array 0 (running rr_ex), t_prio (tasks (running rr_ex) 7)) = 7 # ps"
proof -
  let ?s = "running rr_ex"
  note t = running_tasks [OF rr_ex(1)]
  have inv: "sched_inv Kx {} ?s" by (rule running_inv [OF rr_ex(1)])
  have "next_ok Kx {} 0 ?s 7"
    using ref512.schedule_once_ok(3) [OF woken_inv [OF rr_ex(1)], where lk = True and me = 0] t(1)
    by (simp add: running_def)
  then have "\<exists>a. 7 \<in> on_array {} ?s (0, a) \<and> 7 = hd (queue Kx ?s ((0, a), t_prio (tasks ?s 7)))"
    using t(6) by (auto simp: next_ok_def split: if_splits)
  then obtain a where a: "7 \<in> on_array {} ?s (0, a)" "7 = hd (queue Kx ?s ((0, a), t_prio (tasks ?s 7)))"
    by blast
  have pol: "policy_ok (tasks ?s 7)"
    by (rule task_okD(5) [OF q_invD(7) [OF sched_invD(1) [OF inv]]]) simp
  have "prio_class (tasks ?s 7) = 0"
    using pol t(3) rr_ex(2) by (auto simp: policy_ok_def prio_class_def rt_task_def)
  then have "a = rq_active (rqs ?s 0)"
    using class_of_array [OF inv a(1)] by fastforce
  with a have act: "t_array (tasks ?s 7) = Some (active_array 0 ?s)"
    "7 = hd (queue Kx ?s (active_array 0 ?s, t_prio (tasks ?s 7)))"
    by (simp_all add: on_array_def active_array_def)
  then have "7 \<in> set (queue Kx ?s (active_array 0 ?s, t_prio (tasks ?s 7)))"
    by (simp add: q_invD(1) [OF sched_invD(1) [OF inv]])
  with act(2) have "queue Kx ?s (active_array 0 ?s, t_prio (tasks ?s 7)) =
      7 # tl (queue Kx ?s (active_array 0 ?s, t_prio (tasks ?s 7)))"
    by (cases "queue Kx ?s (active_array 0 ?s, t_prio (tasks ?s 7))") auto
  with act(1) show thesis by (rule that)
qed

theorem rr_slice_rotates_witness:
  "\<exists>ps. queue Kx (running rr_ex) (active_array 0 (running rr_ex), t_prio (tasks (running rr_ex) 7)) = 7 # ps \<and>
    queue Kx (scheduler_tick Kx True 0 False 1 0 (running rr_ex))
      (active_array 0 (running rr_ex), t_prio (tasks (running rr_ex) 7)) = ps @ [7]"
proof -
  note t = running_tasks [OF rr_ex(1)]
  obtain ps where ps: "t_array (tasks (running rr_ex) 7) = Some (active_array 0 (running rr_ex))"
    "queue Kx (running rr_ex) (active_array 0 (running rr_ex), t_prio (tasks (running rr_ex) 7)) = 7 # ps"
    by (rule running_rr)
  have "no_rebalance Kx (running rr_ex)" by (simp add: no_rebalance_def ref_lib_def)
  then show ?thesis
    using rr_slice_rotates [OF ref512.kernel_lib_axioms running_inv [OF rr_ex(1)], where ps = ps
        and lk = True and irq = False and u = 1 and y = 0] ps
    by (simp add: t rr_ex Let_def) metis
qed

text \<open>
  Queueing a task and taking it off again gives back every queue, the bits of all priorities
  and the counters of the arrays.
\<close>

theorem enqueue_dequeue_roundtrip:
  assumes "kernel_lib K" and "q_inv K (insert p X) s" and "p \<notin> X"
    and "task_ok K ((tasks s p)\<lparr>t_array := Some a\<rparr>)"
  shows "let s' = dequeue_task K p a (enqueue_task K p a s)
    in queue K s' = queue K s \<and> (\<forall>b. nr_active (arrays s' b) = nr_active (arrays s b)) \<and>
       (\<forall>b i. 0 \<le> i \<longrightarrow> i \<le> MAX_PRIO \<longrightarrow>
         k_test_bit K (bitmap (arrays s' b)) i = k_test_bit K (bitmap (arrays s b)) i)"
proof -
  let ?e = "enqueue_task K p a s" and ?i = "t_prio (tasks s p)"
  let ?d = "dequeue_task K p a ?e"
  have e: "q_inv K X ?e" by (rule kernel_lib.enqueue_inv [OF assms])
  have d: "q_inv K (insert p X) ?d"
    by (rule kernel_lib.dequeue_inv [OF assms(1) e assms(3)]) simp
  have "p \<notin> set (queue K s (a, ?i))" using q_invD(1) [OF assms(2), where p = p] by simp
  then have q: "queue K ?d = queue K s"
    by (subst kernel_lib.queue_dequeue [OF assms(1) e assms(3)])
      (simp_all add: kernel_lib.queue_enqueue [OF assms(1,2)] remove1_append fun_eq_iff)
  have "k_test_bit K (bitmap (arrays ?d b)) i = k_test_bit K (bitmap (arrays s b)) i"
    if "0 \<le> i" "i \<le> MAX_PRIO" for b i
    using that q_invD(3,4) [OF d, where a = b] q_invD(3,4) [OF assms(2), where a = b] q
    by (cases "i = MAX_PRIO") auto
  with q show ?thesis by (simp add: Let_def)
qed

theorem enqueue_dequeue_roundtrip_witness:
  "queue Kx (dequeue_task Kx 7 (0, Arr0) (enqueue_task Kx 7 (0, Arr0) (sleeping other_ex))) =
    queue Kx (sleeping other_ex)"
proof -
  have "q_inv Kx (insert 7 {}) (sleeping other_ex)"
    by (rule q_inv_insert_off [OF sched_invD(1) [OF sleeping_inv [OF ex_ok(1)]]]) (simp add: ex_defs)
  moreover have "task_ok Kx ((tasks (sleeping other_ex) 7)\<lparr>t_array := Some (0, Arr0)\<rparr>)"
    by (simp add: ex_defs task_ok_def queued_ok_def policy_ok_def policy_consts class_array_def
        MAX_SLEEP_AVG_def ref_lib_def)
  ultimately show ?thesis
    using enqueue_dequeue_roundtrip [OF ref512.kernel_lib_axioms, where p = 7 and X = "{}" and a = "(0, Arr0)"
        and s = "sleeping other_ex"]
    by (simp add: Let_def)
qed

end
