(* ===== verification/Task_Props.thy ===== *)
theory Task_Props imports Example_State begin

text \<open>
  Properties of the operations that move tasks on and off runqueues: the load balancer, the
  wake-ups, the wake-ups and the accounting of fork and exit, the yield; of the arithmetic of
  priorities and time slices; and of the boot.
\<close>

section \<open>Load balancing\<close>

text \<open>
  C7. The load balancer implements its contract: it only records queue lengths and pulls tasks
  that wait in the active or expired array of another CPU and may migrate (\<open>migrate\<close>). It keeps the
  runqueue invariant, no CPU's current task changes, and no task changes its state, priority or policy.
\<close>

theorem load_balance_refines:
  assumes "kernel_lib K" and "sched_inv K X s" and "s' = load_balance K trylock me idle s"
  shows "(migrate K me)\<^sup>*\<^sup>* s s' \<and> sched_inv K X s' \<and> (\<forall>c. current c s' = current c s) \<and>
    (\<forall>q. t_state (tasks s' q) = t_state (tasks s q) \<and> t_prio (tasks s' q) = t_prio (tasks s q) \<and>
      t_policy (tasks s' q) = t_policy (tasks s q))"
  using kernel_lib.load_balance_migrates [OF assms(1,2), where lk = trylock and me = me and idle = idle]
    migrations_keep [where s = s and s' = s'] unfolding assms(3) by blast

theorem load_balance_refines_witness:
  "(migrate Kx 1)\<^sup>*\<^sup>* (woken other_ex) (load_balance Kx True 1 True (woken other_ex))"
  using load_balance_refines [OF ref512.kernel_lib_axioms woken_inv(1) [OF ex_ok(1)] refl] by blast

text \<open>
  The search over the priority levels of an array ends: from level 0, \<open>MAX_PRIO + 1\<close> rounds are
  enough, whatever tasks are pulled on the way.
\<close>

theorem pull_levels_terminates:
  assumes "kernel_lib K" and "sched_inv K X s" and "busiest \<noteq> me"
    and "a = active_array busiest s \<or> a = expired_array busiest s"
  shows "\<exists>stop m' s'. pull_levels (nat MAX_PRIO + 1) K me busiest a idle 0 m s = Some (stop, m', s') \<and>
    sched_inv K X s'"
  using kernel_lib.pull_levels_returns [OF assms(1-3), where a = a and idx = 0 and fuel = "nat MAX_PRIO + 1"
      and idle = idle and m = m] assms(4)
  by (auto simp: active_array_def expired_array_def)

theorem pull_levels_terminates_witness:
  "\<exists>stop m' s'. pull_levels (nat MAX_PRIO + 1) Kx 1 0 (active_array 0 (woken other_ex)) True 0 1 (woken other_ex) =
    Some (stop, m', s') \<and> sched_inv Kx {} s'"
  by (rule pull_levels_terminates [OF ref512.kernel_lib_axioms woken_inv(1)]) simp_all

section \<open>Priorities and time slices\<close>

text \<open>
  C18. The dynamic priority of a task that is not real time is its static priority less a
  bonus between -5 and 5 that grows with its average sleep, clamped to the priorities of
  timeshare tasks; the unsigned arithmetic of the code does not wrap.
\<close>

theorem effective_prio_value:
  assumes "kernel_lib K" and "uint (t_sleep_avg t) \<le> MAX_SLEEP_AVG K"
  shows "\<exists>bonus. bonus = 10 * uint (t_sleep_avg t) div MAX_SLEEP_AVG K - 5 \<and> -5 \<le> bonus \<and> bonus \<le> 5 \<and>
    effective_prio K t = min (MAX_PRIO - 1) (max MAX_RT_PRIO (t_static_prio t - bonus))"
  using kernel_lib.effective_prio_eq [OF assms] kernel_lib.sleep_bonus(2,3) [OF assms] by simp

theorem effective_prio_value_witness:
  "\<exists>bonus. bonus = 10 * 1024 div MAX_SLEEP_AVG Kx - 5 \<and> -5 \<le> bonus \<and> bonus \<le> 5 \<and>
    effective_prio Kx (other_ex\<lparr>t_sleep_avg := 1024\<rparr>) = min (MAX_PRIO - 1) (max MAX_RT_PRIO (120 - bonus))"
  using effective_prio_value [OF ref512.kernel_lib_axioms, where t = "other_ex\<lparr>t_sleep_avg := 1024\<rparr>"]
  by (simp add: ex_defs MAX_SLEEP_AVG_def ref_lib_def)

text \<open>
  The time slice of a task lies between the minimum and the maximum slice, is at least a
  jiffy, and a task with a better static priority never gets a shorter one.
\<close>

theorem timeslice_bounds:
  assumes "kernel_lib K" and "MAX_RT_PRIO \<le> t_static_prio t" and "t_static_prio t < MAX_PRIO"
  shows "1 \<le> TASK_TIMESLICE K t \<and> MIN_TIMESLICE K \<le> TASK_TIMESLICE K t \<and> TASK_TIMESLICE K t \<le> MAX_TIMESLICE K \<and>
    (t_static_prio u \<le> t_static_prio t \<longrightarrow> TASK_TIMESLICE K t \<le> TASK_TIMESLICE K u)"
proof -
  let ?H = "k_HZ K"
  have H: "100 \<le> ?H" "?H \<le> 1024"
    using kernel_lib.HZ_lower [OF assms(1)] kernel_lib.HZ_upper [OF assms(1)] .
  have m: "MIN_TIMESLICE K = 10 * ?H div 1000" "MAX_TIMESLICE K = 300 * ?H div 1000"
    using H by (simp_all add: MIN_TIMESLICE_def MAX_TIMESLICE_def sdiv_nonneg)
  then have mm: "1 \<le> MIN_TIMESLICE K" "MIN_TIMESLICE K \<le> MAX_TIMESLICE K" using H by auto
  define d where "d = MAX_TIMESLICE K - MIN_TIMESLICE K"
  have slice: "TASK_TIMESLICE K x = MIN_TIMESLICE K + (d * (139 - t_static_prio x)) div 39"
    if "t_static_prio x < MAX_PRIO" for x
    using that mm by (simp add: TASK_TIMESLICE_def d_def sdiv_nonneg)
  have d: "0 \<le> d" using mm by (simp add: d_def)
  have "d * (139 - t_static_prio t) \<le> d * 39" using assms d by (intro mult_left_mono) auto
  then have "(d * (139 - t_static_prio t)) div 39 \<le> (d * 39) div 39" by (rule zdiv_mono1) simp
  then have le: "(d * (139 - t_static_prio t)) div 39 \<le> d" by simp
  have "0 \<le> d * (139 - t_static_prio t)" using assms d by simp
  then have ge: "0 \<le> (d * (139 - t_static_prio t)) div 39" by (simp add: pos_imp_zdiv_nonneg_iff)
  have "TASK_TIMESLICE K t \<le> TASK_TIMESLICE K u" if u: "t_static_prio u \<le> t_static_prio t"
  proof -
    have "d * (139 - t_static_prio t) \<le> d * (139 - t_static_prio u)"
      using u d by (intro mult_left_mono) auto
    then show ?thesis
      using slice [of t] slice [of u] u assms(3) by (simp add: zdiv_mono1)
  qed
  then show ?thesis using slice [OF assms(3)] ge le mm by (auto simp: d_def)
qed

theorem timeslice_bounds_witness:
  "1 \<le> TASK_TIMESLICE Kx other_ex \<and> TASK_TIMESLICE Kx other_ex \<le> MAX_TIMESLICE Kx"
  using timeslice_bounds [OF ref512.kernel_lib_axioms, where t = other_ex] by (simp add: ex_defs)

text \<open>
  The interactivity test. With the eleven dynamic priorities from five better to five worse
  than the static one, a task of nice -20, -10, 0, 10 and 19 counts as interactive for the first
  9, 6, 4, 2 and 0 of them. (The comment in the source says 7 for nice -10.)
\<close>

theorem interactive_table:
  "map (\<lambda>nice. map (\<lambda>bonus. TASK_INTERACTIVE
       (t\<lparr>t_static_prio := NICE_TO_PRIO nice, t_prio := NICE_TO_PRIO nice + bonus\<rparr>)) [-5..5])
     [-20, -10, 0, 10, 19] =
   map (\<lambda>n. replicate n True @ replicate (11 - n) False) [9, 6, 4, 2, 0]"
  by (simp add: TASK_INTERACTIVE_iff nice_defs upto.simps eval_nat_numeral)

section \<open>Wake-ups\<close>

text \<open>
  C9. \<^verbatim>\<open>try_to_wake_up\<close> leaves the task running on some queue, reports success exactly when
  it had to queue it, keeps the runqueue invariant and every CPU's condition, and asks the current
  task of the CPU it chose to reschedule when the woken task has a better priority.
\<close>

theorem try_to_wake_up_contract:
  assumes "kernel_lib K" and "sched_inv K X s" and "p \<notin> X" and "t_prio (tasks s p) < MAX_PRIO"
    and "try_to_wake_up K me p sync s = (success, s')"
  shows "(success \<longleftrightarrow> t_array (tasks s p) = None) \<and> t_state (tasks s' p) = TASK_RUNNING \<and>
    t_array (tasks s' p) \<noteq> None \<and> sched_inv K X s' \<and> (\<forall>c. cpu_ok X s c \<longrightarrow> cpu_ok X s' c) \<and>
    (success \<longrightarrow> t_prio (tasks s' p) < t_prio (tasks s' (current (t_cpu (tasks s' p)) s')) \<longrightarrow>
      t_need_resched (tasks s' (current (t_cpu (tasks s' p)) s')))"
proof -
  note result = try_to_wake_up_result [where K = K and p = p and s = s and me = me and sync = sync]
  have "t_need_resched (tasks s' (current (t_cpu (tasks s' p)) s'))"
    if "t_array (tasks s p) = None"
      "t_prio (tasks s' p) < t_prio (tasks s' (current (t_cpu (tasks s' p)) s'))"
  proof -
    define c where "c = wake_cpu me p sync s"
    define s1 where "s1 = (let s0 = upd_task p (\<lambda>t. t\<lparr>t_cpu := c\<rparr>) s in
      if t_state (tasks s p) = TASK_UNINTERRUPTIBLE
      then upd_rq c (\<lambda>r. r\<lparr>rq_nr_uninterruptible := rq_nr_uninterruptible r - 1\<rparr>) s0 else s0)"
    define a where "a = activate_task K p c s1"
    have s': "s' = upd_task p (\<lambda>t. t\<lparr>t_state := TASK_RUNNING\<rparr>)
       (if t_prio (tasks a p) < t_prio (tasks a (current c a)) then resched_task (current c a) a else a)"
      using assms(5) unfolding wake_sleeping [OF that(1)] a_def s1_def c_def by simp
    have "t_cpu (tasks s1 p) = c" by (simp add: s1_def Let_def)
    then have a_cpu: "t_cpu (tasks a p) = c" by (simp add: a_def)
    have cpu: "t_cpu (tasks s' p) = c" by (simp add: s' resched_task_def a_cpu)
    have cur: "current c s' = current c a"
      unfolding s' by (simp add: resched_task_def current_def)
    have prio: "t_prio (tasks s' q) = t_prio (tasks a q)" for q
      unfolding s' by (simp add: resched_task_def)
    show ?thesis
      using that(2) unfolding cpu cur prio by (simp add: s' resched_task_def)
  qed
  moreover have "sched_inv K X s'"
    using kernel_lib.try_to_wake_up_inv [OF assms(1-4), where me = me and sync = sync] assms(5) by simp
  moreover have "cpu_ok X s c \<longrightarrow> cpu_ok X s' c" for c
    using kernel_lib.try_to_wake_up_cpu_ok [OF assms(1), where X = X and s = s and c = c and p = p and
        me = me and sync = sync] assms(4,5) by simp
  ultimately show ?thesis using result assms(5) by simp
qed

theorem try_to_wake_up_contract_witness:
  "fst (try_to_wake_up Kx 0 7 False (sleeping short_ex)) \<and> sched_inv Kx {} (woken short_ex)"
proof -
  have ok: "ex_ok short_ex" by simp
  then show ?thesis
    using try_to_wake_up_contract [OF ref512.kernel_lib_axioms sleeping_inv [OF ok] _ _ prod.collapse [symmetric],
        where p = 7 and me = 0 and sync = False]
    by (simp add: woken_def ex_ok_def)
qed

section \<open>Fork and exit\<close>

lemma fork_penalty_lists [simp]: "lists (fork_penalty K me p s) = lists s"
  by (simp add: fork_penalty_def Let_def)

lemma fork_penalty_short:
  assumes "t_policy (tasks s p) = SCHED_SHORT"
  shows "t_prio (tasks (fork_penalty K me p s) p) = t_prio (tasks s p)"
  using assms by (auto simp: fork_penalty_def Let_def)

text \<open>
  C10. Both wake-ups of a new child put it on the runqueue of the forking CPU and keep the
  invariant: \<^verbatim>\<open>wake_up_forked_process\<close> for any parent, \<^verbatim>\<open>wake_up_short_forked_process\<close> for a
  SHORT parent with a SHORT child.
\<close>

theorem forked_child_wakes:
  assumes "kernel_lib K" and "sched_inv K (insert p X) s" and "cpu_ok (insert p X) s me" and "p \<notin> X"
    and "fit K c (tasks s p)" and "f = current me s" and "t_array (tasks s f) = Some (me, a)"
    and "short \<longrightarrow> t_policy (tasks s p) = SCHED_SHORT \<and> t_is_short (tasks s p) = 1"
  shows "let s' = (if short then wake_up_short_forked_process K me f p s else wake_up_forked_process K me p s)
    in sched_inv K X s' \<and> (\<exists>b. t_array (tasks s' p) = Some (me, b))"
proof -
  have f: "f \<notin> insert p X" using assms(3,6) by (auto simp: cpu_ok_def)
  have inv: "sched_inv K X (wake_up_forked_process K me p s)"
    by (rule kernel_lib.wake_up_forked_inv [OF assms(1-5)])
  have "sched_inv K X (wake_up_short_forked_process K me f p s)" if short
    using kernel_lib.wake_up_short_forked_inv [OF assms(1-5) f assms(7)] assms(8) that by simp
  moreover have "\<exists>b. t_array (tasks (wake_up_forked_process K me p s) p) = Some (me, b)"
    by (simp add: wake_up_forked_process_def active_array_def)
  moreover have "\<exists>b. t_array (tasks (wake_up_short_forked_process K me f p s) p) = Some (me, b)" if short
    using assms(8) that f by (simp add: wake_up_short_forked_process_def Let_def)
  ultimately show ?thesis using inv by (simp add: Let_def)
qed

lemma short_child: "fit Kx 0 short_ex"
  by (simp add: ex_defs fit_def policy_ok_def policy_consts MAX_SLEEP_AVG_def ref_lib_def)

theorem forked_child_wakes_witness:
  "sched_inv Kx {} (wake_up_short_forked_process Kx 0 7 8 (forked short_ex short_ex))"
proof -
  have ok: "ex_ok short_ex" by simp
  note F = forked_inv [OF ok, where child = short_ex]
  obtain a where a: "t_array (tasks (forked short_ex short_ex) 7) = Some (0, a)"
    using running_array [OF ok] F(5) by metis
  show ?thesis
    using forked_child_wakes [OF ref512.kernel_lib_axioms F(1,2) _ _ F(3) [symmetric] a, where short = True]
      short_child by (simp add: F(4) Let_def)
qed

lemma queue_deactivate:
  "queue K (deactivate_task K p c s) = queue K (dequeue_task K p (the (t_array (tasks s p))) s)"
  by (simp add: deactivate_task_def dequeue_task_def queue_def Let_def)

lemma queue_activate:
  assumes "kernel_lib K" and "q_inv K X s" and "p \<in> X" and "t_policy (tasks s p) = SCHED_SHORT"
    and "t_is_short (tasks s p) = 1"
  shows "queue K (activate_task K p c s) =
    (let q = ((c, Short_active), t_prio (tasks s p)) in (queue K s)(q := queue K s q @ [p]))"
  using kernel_lib.queue_enqueue [OF assms(1-3)] assms(4,5) by (simp add: activate_task_def Let_def)

text \<open>
  C11. The order after a SHORT task forks: in the queue of their priority the child stands
  first and the parent last, so that the child runs first and the tasks that waited before run
  before the parent.
\<close>

theorem short_fork_order:
  assumes "kernel_lib K" and "sched_inv K (insert p X) s" and "cpu_ok (insert p X) s me" and "p \<notin> X"
    and "fit K c (tasks s p)" and "t_policy (tasks s p) = SCHED_SHORT" and "t_is_short (tasks s p) = 1"
    and "t_array (tasks s f) = Some (me, Short_active)" and "f \<notin> insert p X"
    and "t_prio (tasks s f) = t_prio (tasks s p)"
  defines "q \<equiv> ((me, Short_active), t_prio (tasks s p))"
  shows "queue K (wake_up_short_forked_process K me f p s) q = p # remove1 f (queue K s q) @ [f]"
proof -
  let ?s1 = "fork_penalty K me p s"
  let ?s2 = "upd_rq me (\<lambda>r. r\<lparr>rq_nr_running := rq_nr_running r + 1\<rparr>) (enqueue_task_head K p (me, Short_active) ?s1)"
  let ?s3 = "deactivate_task K f me ?s2"
  have pen: "sched_inv K (insert p X) ?s1" "fit K me (tasks ?s1 p)"
    by (rule kernel_lib.fork_penalty_inv [OF assms(1-3,5)])+
  have cls: "class_array (tasks ?s1 p) Short_active"
    using assms(6,7) by (simp add: class_array_def)
  have head: "queue K ?s2 q = p # queue K s q"
    using kernel_lib.enqueue_head_q(2) [OF assms(1) sched_invD(1) [OF pen(1)] assms(4)
        fit_task_ok [OF pen(2) cls]] fork_penalty_short [OF assms(6), where K = K and me = me]
    by (simp add: q_def queue_def)
  have inv2: "sched_inv K X ?s2"
    by (rule kernel_lib.enqueue_head_inv [OF assms(1) pen(1) assms(4) pen(2)]) (use assms in simp_all)
  have f: "f \<noteq> p" "f \<notin> X" using assms(9) by auto
  have fa: "t_array (tasks ?s2 f) = Some (me, Short_active)" "t_prio (tasks ?s2 f) = t_prio (tasks s p)"
    "t_policy (tasks ?s2 f) = t_policy (tasks s f)" "t_is_short (tasks ?s2 f) = t_is_short (tasks s f)"
    using f assms(8,10) by simp_all
  have ok: "class_array (tasks s f) Short_active"
    using q_inv_queued(5) [OF sched_invD(1) [OF assms(2)] assms(9,8)] by simp
  then have short: "t_policy (tasks s f) = SCHED_SHORT" "t_is_short (tasks s f) = 1"
    by (auto simp: class_array_def split: if_splits)
  have "queue K (dequeue_task K f (me, Short_active) ?s2) q = remove1 f (queue K ?s2 q)"
    unfolding kernel_lib.queue_dequeue [OF assms(1) sched_invD(1) [OF inv2] f(2) fa(1)] fa(2) q_def by simp
  then have q3: "queue K ?s3 q = p # remove1 f (queue K s q)"
    using f(1) head by (simp add: queue_deactivate fa(1) del: enqueue_head_frame upd_rq_simps queue_cong)
  have inv3: "sched_inv K (insert f X) ?s3"
    by (rule kernel_lib.deactivate_inv [OF assms(1) inv2 f(2) fa(1)])
  have "queue K (activate_task K f me ?s3) q = queue K ?s3 q @ [f]"
    using queue_activate [OF assms(1) sched_invD(1) [OF inv3] insertI1, where c = me] short fa
    by (simp add: q_def Let_def del: enqueue_head_frame upd_rq_simps)
  then show ?thesis
    using assms(7) q3 by (simp add: wake_up_short_forked_process_def Let_def)
qed

theorem short_fork_order_witness:
  "queue Kx (wake_up_short_forked_process Kx 0 7 8 (forked short_ex short_ex)) ((0, Short_active), 120) =
    8 # remove1 7 (queue Kx (forked short_ex short_ex) ((0, Short_active), 120)) @ [7]"
proof -
  have ok: "ex_ok short_ex" by simp
  note F = forked_inv [OF ok, where child = short_ex]
  obtain a where a: "t_array (tasks (running short_ex) 7) = Some (0, Short_active)"
    using running_array [OF ok] by force
  show ?thesis
    using short_fork_order [OF ref512.kernel_lib_axioms F(1,2), where f = 7 and c = 0]
      running_tasks(8) [OF ok] short_child a by (simp add: F(4,5))
qed

text \<open>
  C16. The exit of a child that still has its first time slice gives the slice to the parent, which
  then holds the sum or, when that is more, the maximum slice; the average sleep of the parent
  becomes the weighted mean with the child's when the child slept less, and the invariant stays.
\<close>

theorem sched_exit_accounts:
  assumes "kernel_lib K" and "sched_inv K X s" and "cpu_ok X s me" and "cur = current me s" and "p \<noteq> cur"
    and "uint (t_sleep_avg (tasks s p)) \<le> MAX_SLEEP_AVG K" and "s' = sched_exit K me p s"
  shows "sched_inv K X s' \<and>
    t_time_slice (tasks s' cur) =
      (if t_first_time_slice (tasks s p) \<noteq> 0
       then min (t_time_slice (tasks s cur) + t_time_slice (tasks s p)) (word_of_int (MAX_TIMESLICE K))
       else t_time_slice (tasks s cur)) \<and>
    uint (t_sleep_avg (tasks s' cur)) =
      (if t_sleep_avg (tasks s p) < t_sleep_avg (tasks s cur)
       then (3 * uint (t_sleep_avg (tasks s cur)) + uint (t_sleep_avg (tasks s p))) div 4
       else uint (t_sleep_avg (tasks s cur))) \<and>
    (\<forall>q. q \<noteq> cur \<longrightarrow> tasks s' q = tasks s q)"
proof -
  have M: "MAX_SLEEP_AVG K \<le> 2048" using kernel_lib.HZ_upper [OF assms(1)] by (simp add: MAX_SLEEP_AVG_def)
  have cur: "cur \<notin> X" using assms(3,4) by (simp add: cpu_ok_def)
  have "uint (t_sleep_avg (tasks s cur)) \<le> MAX_SLEEP_AVG K"
    by (rule task_okD(8) [OF q_invD(7) [OF sched_invD(1) [OF assms(2)] cur]])
  note avg = kernel_lib.exit_avg_bound(1) [OF assms(1) this assms(6) M]
  have "sched_inv K X s'"
    unfolding assms(7) by (rule kernel_lib.sched_exit_inv [OF assms(1-3,6)])
  moreover have "t_time_slice (tasks s' cur) =
      (if t_first_time_slice (tasks s p) \<noteq> 0
       then min (t_time_slice (tasks s cur) + t_time_slice (tasks s p)) (word_of_int (MAX_TIMESLICE K))
       else t_time_slice (tasks s cur))"
    using assms(4,5) by (auto simp: assms(7) sched_exit_def Let_def min_def not_le)
  moreover have "t_sleep_avg (tasks s' cur) =
      (if t_sleep_avg (tasks s p) < t_sleep_avg (tasks s cur)
       then (t_sleep_avg (tasks s cur) * word_of_int EXIT_WEIGHT + t_sleep_avg (tasks s p)) div word_of_int (EXIT_WEIGHT + 1)
       else t_sleep_avg (tasks s cur))"
    using assms(4,5) by (simp add: assms(7) sched_exit_def Let_def)
  moreover have "\<forall>q. q \<noteq> cur \<longrightarrow> tasks s' q = tasks s q"
    using assms(4) by (simp add: assms(7) sched_exit_def Let_def)
  ultimately show ?thesis by (simp add: avg del: of_int_add)
qed

text \<open>The witness: a SHORT parent with 1500 jiffies left of a request of 3 s keeps 153 of them.\<close>

theorem sched_exit_accounts_witness:
  "t_time_slice (tasks (sched_exit Kx 0 8 (forked (short_ex\<lparr>t_requested_time := 3000, t_time_slice := 1500\<rparr>)
     (short_ex\<lparr>t_time_slice := 10, t_first_time_slice := 1\<rparr>))) 7) = 153"
proof -
  let ?t = "short_ex\<lparr>t_requested_time := 3000, t_time_slice := 1500\<rparr>"
  let ?c = "short_ex\<lparr>t_time_slice := 10, t_first_time_slice := 1\<rparr>"
  have ok: "ex_ok ?t" using ex_ok(2) by (simp add: ex_ok_def)
  note F = forked_inv [OF ok, where child = ?c] and R = running_tasks [OF ok]
  have "uint (t_sleep_avg short_ex) \<le> MAX_SLEEP_AVG Kx" by (simp add: ex_defs MAX_SLEEP_AVG_def ref_lib_def)
  then show ?thesis
    using sched_exit_accounts [OF ref512.kernel_lib_axioms F(1,2) F(3) [symmetric] _ _ refl, where p = 8]
    by (simp add: F(4,5) R) (simp add: MAX_TIMESLICE_def ref_lib_def min_def signed_divide_int_def)
qed

section \<open>Yielding\<close>

text \<open>
  C8. \<^verbatim>\<open>sched_yield\<close>, called by a task that is not the idle task, always succeeds: the requeueing
  keeps the invariant, so the call of \<^verbatim>\<open>schedule\<close> in it returns, with the invariants and a task
  that is the best of its CPU.
\<close>

theorem yield_succeeds:
  assumes "kernel_lib K" and "sched_inv K X s" and "cpu_ok X s me" and "current me s \<noteq> rq_idle (rqs s me)"
    and "finite {p. t_need_resched (tasks s p)}"
  shows "\<exists>s'. sys_sched_yield K False lk me s = Some (Inr 0, s') \<and> sched_inv K X s' \<and> cpu_ok X s' me \<and>
    next_ok K X me s' (current me s')"
  using kernel_lib.sys_sched_yield_returns [OF assms(1-4)] assms(5) by (auto simp: flagged_def passed_def)

theorem yield_succeeds_witness:
  "\<exists>s'. sys_sched_yield Kx False (\<lambda>_. True) 0 (running fifo_ex) = Some (Inr 0, s') \<and> sched_inv Kx {} s' \<and>
    cpu_ok {} s' 0 \<and> next_ok Kx {} 0 s' (current 0 s')"
proof -
  have ok: "ex_ok fifo_ex" by simp
  have "finite {p. t_need_resched (tasks (running fifo_ex) p)}"
  proof (rule finite_subset)
    show "{p. t_need_resched (tasks (running fifo_ex) p)} \<subseteq> {0, 7}"
      using ref512.schedule_once_ok(4) [OF woken_inv [OF ok], where lk = True] woken_tasks(11) [OF ok]
      unfolding running_def by blast
  qed simp
  then show ?thesis
    by (intro yield_succeeds [OF ref512.kernel_lib_axioms running_inv [OF ok]]) (simp_all add: running_tasks [OF ok])
qed

text \<open>
  Where a yielding task goes. A real-time task goes to the tail of its queue. An ordinary
  task that shares its queue goes to the second place of it; one that is alone goes to the
  second place of the next worse occupied level of its array, if there is one.
\<close>

theorem yield_place:
  assumes "kernel_lib K" and "sched_inv K X s" and "p = current me s" and "p \<notin> X"
    and "t_array (tasks s p) = Some a" and "t_policy (tasks s p) \<noteq> SCHED_SHORT"
  defines "q \<equiv> (a, t_prio (tasks s p))" and "s' \<equiv> yield_requeue K me s"
  shows "if rt_task (tasks s p) then queue K s' = (queue K s)(q := remove1 p (queue K s q) @ [p])
    else t_prio (tasks s' p) = yield_level K p a s \<and>
      (remove1 p (queue K s q) \<noteq> [] \<longrightarrow> queue K s' = (queue K s)(q := second p (remove1 p (queue K s q)))) \<and>
      t_prio (tasks s p) \<le> yield_level K p a s \<and> yield_level K p a s < MAX_PRIO"
proof (cases "rt_task (tasks s p)")
  case True
  then show ?thesis
    using kernel_lib.yield_rt_ok(2) [OF assms(1,2,4,5)] assms(3,5,6)
    by (simp add: s'_def q_def yield_requeue_def Let_def)
next
  case False
  then have s': "s' = yield_other K p a s"
    using assms(3,5,6) by (simp add: s'_def yield_requeue_def Let_def)
  note F = kernel_lib.yield_other_frame [OF assms(1) sched_invD(1) [OF assms(2)] assms(4,5)]
  have "yield_level K p a s = t_prio (tasks s p)" if "remove1 p (queue K s q) \<noteq> []"
    using that by (simp add: yield_level_def q_def Let_def)
  then show ?thesis
    using False F(1,4) kernel_lib.yield_level_bounds [OF assms(1) sched_invD(1) [OF assms(2)] assms(4,5)]
    by (simp add: s' q_def)
qed

theorem yield_place_witness:
  "\<exists>a. queue Kx (yield_requeue Kx 0 (running fifo_ex)) =
    (queue Kx (running fifo_ex))((a, t_prio (tasks (running fifo_ex) 7)) :=
      remove1 7 (queue Kx (running fifo_ex) (a, t_prio (tasks (running fifo_ex) 7))) @ [7])"
proof -
  have ok: "ex_ok fifo_ex" by simp
  note R = running_tasks [OF ok] and I = running_inv [OF ok]
  obtain a where a: "t_array (tasks (running fifo_ex) 7) = Some a" using R(2) by auto
  have pol: "t_policy (tasks (running fifo_ex) 7) = SCHED_FIFO" using R(3) by (simp add: fifo_ex_def)
  have "rt_task (tasks (running fifo_ex) 7)"
    using task_okD(5) [OF q_invD(7) [OF sched_invD(1) [OF I(1)]], of 7] pol by (simp add: policy_ok_def rt_task_def)
  then show ?thesis
    using yield_place [OF ref512.kernel_lib_axioms I(1) R(1) [symmetric] _ a] pol by (auto simp: policy_consts)
qed

section \<open>Boot\<close>

text \<open>
  C17. After \<^verbatim>\<open>sched_init\<close> and \<^verbatim>\<open>init_idle\<close> on the boot CPU, from the zeroed runqueues, the
  runqueue invariant holds and the boot task is the idle task of CPU 0.
\<close>

theorem boot_establishes_invariant:
  assumes "kernel_lib K" and "bss K nr_cpus s" and "tasks s cur = INIT_TASK K"
  defines "s' \<equiv> init_idle K cur 0 (sched_init K nr_cpus 0 cur s)"
  shows "sched_inv K (- {cur}) s' \<and> cpu_ok (- {cur}) s' 0 \<and> current 0 s' = cur \<and> rq_idle (rqs s' 0) = cur"
  using kernel_lib.boot_ok [OF assms(1-3)] unfolding s'_def
  by (simp add: init_idle_def Let_def current_def)

theorem boot_establishes_invariant_witness:
  "sched_inv Kx (- {0}) (init_idle Kx 0 0 (sched_init Kx 1 0 0
     ((sleeping other_ex)\<lparr>tasks := \<lambda>_. INIT_TASK Kx, arrays := \<lambda>_. \<lparr>nr_active = 0, bitmap = [MAX_PRIO]\<rparr>\<rparr>)))"
proof -
  have "bss Kx 1 ((sleeping other_ex)\<lparr>tasks := \<lambda>_. INIT_TASK Kx, arrays := \<lambda>_. \<lparr>nr_active = 0, bitmap = [MAX_PRIO]\<rparr>\<rparr>)"
    by (simp add: bss_def empty_array_def sleeping_def queue_def idle_rq_def ref_lib_def)
  then show ?thesis
    using boot_establishes_invariant [OF ref512.kernel_lib_axioms, where nr_cpus = 1 and cur = 0] by simp
qed

end
