(* ===== verification/Syscall_Props.thy ===== *)
theory Syscall_Props imports Example_State Hw2_Syscalls begin

text \<open>
  Properties of the system calls: the scheduling policy calls, the nice values, the queries
  of the SHORT policy with their user-space wrappers, and the pid hash they look tasks up in.
\<close>

section \<open>Changing the policy\<close>

lemma find_sleeping: "find_task_by_pid 7 (sleeping t) = (if t_pid t = 7 then Some 7 else None)"
  by (simp add: find_task_by_pid_def pid_hashfn_def PIDHASH_SZ_def sleeping_def)

lemma find_process_sleeping: "find_process_by_pid 0 7 (sleeping t) = (if t_pid t = 7 then Some 7 else None)"
  by (simp add: find_process_by_pid_def find_sleeping)

text \<open>
  C6. \<^verbatim>\<open>setscheduler\<close> keeps the runqueue invariant, whatever its arguments. When it returns an
  error the state is what it was, or the caller has been marked with \<open>PF_SUPERPRIV\<close> in addition to the
  flags it had (the capability test before the error succeeded).
\<close>

theorem setscheduler_safe:
  assumes "kernel_lib K" and "sched_inv K X s" and "\<And>p. find_process_by_pid me pid s = Some p \<Longrightarrow> p \<notin> X"
    and "setscheduler K me pid policy param fault s = (r, s')"
  shows "sched_inv K X s' \<and>
    (\<forall>e. r = Inl e \<longrightarrow>
      s' = s \<or> s' = upd_task (current me s) (\<lambda>t. t\<lparr>t_flags := t_flags t OR PF_SUPERPRIV\<rparr>) s)"
proof -
  have "sched_inv K X (snd (setscheduler K me pid policy param fault s))"
    by (rule kernel_lib.setscheduler_inv [OF assms(1,2)]) (rule assms(3))
  then show ?thesis
    using setscheduler_error_frame [where K = K and me = me and pid = pid and policy = policy and param = param
      and fault = fault and s = s] assms(4)
    by (auto simp: marked_def)
qed

theorem setscheduler_safe_witness:
  "sched_inv Kx {} (snd (setscheduler Kx 0 7 5 (Some \<lparr>sched_priority = 0, sp_requested_time = 100\<rparr>) False (sleeping other_ex)))"
  using setscheduler_safe [OF ref512.kernel_lib_axioms sleeping_inv [OF ex_ok(1)] _ prod.collapse [symmetric],
      where me = 0 and pid = 7 and policy = 5 and param = "Some \<lparr>sched_priority = 0, sp_requested_time = 100\<rparr>"
        and fault = False] by simp

text \<open>The parameter test over the integers, policy by policy.\<close>

lemma bad_rt_priority:
  "policy = SCHED_FIFO \<or> policy = SCHED_RR \<Longrightarrow>
    bad_param K t policy lp \<longleftrightarrow> sched_priority lp < 1 \<or> 99 < sched_priority lp"
  by (auto simp: bad_param_def policy_consts)

lemma bad_other_priority:
  "bad_param K t SCHED_OTHER lp \<longleftrightarrow> sched_priority lp < 0 \<or> 99 < sched_priority lp \<or> sched_priority lp = 1"
  by (auto simp: bad_param_def policy_consts)

lemma bad_short_request:
  assumes "kernel_lib K" and "t_policy t = SCHED_SHORT \<Longrightarrow> 1 \<le> t_requested_time t \<and> t_requested_time t \<le> 3000 \<and>
    uint (t_time_slice t) \<le> 4000000"
  shows "bad_param K t SCHED_SHORT lp \<longleftrightarrow> sp_requested_time lp < 1 \<or> 3000 < sp_requested_time lp \<or>
    t_policy t = SCHED_SHORT \<and>
      (sp_requested_time lp \<le> t_requested_time t - uint (t_time_slice t) * 1000 div k_HZ K \<or>
       t_requested_time t < uint (t_time_slice t) * 1000 div k_HZ K)"
  using kernel_lib.renewal_test [OF assms(1), where t = t and lp = lp] assms(2)
  by (cases "t_policy t = SCHED_SHORT") (auto simp: bad_param_def)

text \<open>The verdict on a call, from the tests of the code and over the integers.\<close>

lemma policy_verdict:
  assumes own: "t_policy t \<in> {SCHED_OTHER, SCHED_FIFO, SCHED_RR, SCHED_SHORT}"
    and d: "\<not> d \<longleftrightarrow> (pol \<noteq> SCHED_FIFO \<and> pol \<noteq> SCHED_RR \<or> able) \<and>
      (t_euid cur = t_euid t \<or> t_euid cur = t_uid t \<or> able) \<and> \<not> short_denied cur t pol"
    and bad: "bad_param K t SCHED_SHORT lp \<longleftrightarrow> bad"
  shows "(if \<not> known_policy pol \<or> bad_param K t pol lp then Inl EINVAL else if d then Inl EPERM else Inr 0) =
    (if pol = SCHED_FIFO \<or> pol = SCHED_RR then
       (if sched_priority lp < 1 \<or> 99 < sched_priority lp then Inl EINVAL
        else if \<not> able \<or> t_policy t = SCHED_SHORT then Inl EPERM else Inr 0)
     else if pol = SCHED_OTHER then
       (if sched_priority lp < 0 \<or> 99 < sched_priority lp \<or> sched_priority lp = 1 then Inl EINVAL
        else if \<not> (t_euid cur = t_euid t \<or> t_euid cur = t_uid t) \<and> \<not> able \<or> t_policy t = SCHED_SHORT
        then Inl EPERM else Inr 0)
     else if pol = SCHED_SHORT then
       (if bad then Inl EINVAL
        else if \<not> (t_euid cur = t_euid t \<or> t_euid cur = t_uid t) \<and> \<not> able \<or>
           t_policy t = SCHED_FIFO \<or> t_policy t = SCHED_RR \<or> t_policy t = SCHED_SHORT \<and> t_is_short t = -1 \<or>
           t_euid cur \<noteq> 0 \<and> t_euid cur \<noteq> t_euid t
        then Inl EPERM else Inr 0)
     else Inl EINVAL)"
proof -
  consider (rt) "pol = SCHED_FIFO \<or> pol = SCHED_RR" | (other) "pol = SCHED_OTHER" | (short) "pol = SCHED_SHORT"
    | (unknown) "\<not> known_policy pol" by (auto simp: known_policy_def)
  then show ?thesis
  proof cases
    case rt
    then have "d \<longleftrightarrow> \<not> able \<or> t_policy t = SCHED_SHORT" "known_policy pol"
      using d by (auto simp: short_denied_def known_policy_def policy_consts)
    with rt bad_rt_priority [OF rt, of K t lp] show ?thesis by simp
  next
    case other
    then have "d \<longleftrightarrow> \<not> (t_euid cur = t_euid t \<or> t_euid cur = t_uid t) \<and> \<not> able \<or> t_policy t = SCHED_SHORT"
      "pol \<noteq> SCHED_FIFO" "pol \<noteq> SCHED_RR" "known_policy pol"
      using d by (auto simp: short_denied_def known_policy_def policy_consts)
    with other show ?thesis by (simp add: bad_other_priority)
  next
    case short
    then have "d \<longleftrightarrow> \<not> (t_euid cur = t_euid t \<or> t_euid cur = t_uid t) \<and> \<not> able \<or>
        t_policy t = SCHED_FIFO \<or> t_policy t = SCHED_RR \<or> t_policy t = SCHED_SHORT \<and> t_is_short t = -1 \<or>
        t_euid cur \<noteq> 0 \<and> t_euid cur \<noteq> t_euid t"
      "pol \<noteq> SCHED_FIFO" "pol \<noteq> SCHED_RR" "pol \<noteq> SCHED_OTHER" "known_policy pol"
      using d own by (auto simp: short_denied_def known_policy_def policy_consts)
    with short bad show ?thesis by simp
  next
    case unknown
    then show ?thesis by (auto simp: known_policy_def)
  qed
qed

text \<open>
  C15. What \<^verbatim>\<open>setscheduler\<close> returns, for every policy, -1 (the task's own, as \<^verbatim>\<open>sched_setparam\<close> passes
  it) included. FIFO and RR take the static priorities 1 to 99, need the capability, and are refused to
  a SHORT task; OTHER takes 0 and 2 to 99 (the code refuses 1 where it means to refuse all but 0), from
  the owner or with the capability, and is refused to a SHORT task; SHORT takes a requested time of 1 to
  3000 ms, for a SHORT task more than the milliseconds it has used, and is refused to an overdue task,
  to a real-time task and to a caller that is neither root nor runs as the same user. A SHORT task whose slice is worth
  more than its requested time, as a single jiffy can be, is refused every request.
\<close>

theorem setscheduler_result:
  assumes "kernel_lib K"
    and "\<And>p. find_process_by_pid me pid s = Some p \<Longrightarrow> policy_ok (tasks s p) \<and>
      (t_policy (tasks s p) = SCHED_SHORT \<longrightarrow> 1 \<le> t_requested_time (tasks s p) \<and>
        t_requested_time (tasks s p) \<le> 3000 \<and> uint (t_time_slice (tasks s p)) \<le> 4000000)"
  shows "fst (setscheduler K me pid policy param fault s) =
    (case param of None \<Rightarrow> Inl EINVAL
     | Some lp \<Rightarrow>
         if pid < 0 then Inl EINVAL else if fault then Inl EFAULT
         else case find_process_by_pid me pid s of None \<Rightarrow> Inl ESRCH
              | Some p \<Rightarrow>
                  (let t = tasks s p; cur = tasks s (current me s);
                       asked = (if policy < 0 then t_policy t else policy);
                       prio = sched_priority lp; r = sp_requested_time lp;
                       left = uint (t_time_slice t) * 1000 div k_HZ K;
                       able = k_cap_raised K (t_cap_effective cur) CAP_SYS_NICE;
                       owner = (t_euid cur = t_euid t \<or> t_euid cur = t_uid t)
                   in if asked = SCHED_FIFO \<or> asked = SCHED_RR then
                        (if prio < 1 \<or> 99 < prio then Inl EINVAL
                         else if \<not> able \<or> t_policy t = SCHED_SHORT then Inl EPERM else Inr 0)
                      else if asked = SCHED_OTHER then
                        (if prio < 0 \<or> 99 < prio \<or> prio = 1 then Inl EINVAL
                         else if \<not> owner \<and> \<not> able \<or> t_policy t = SCHED_SHORT then Inl EPERM else Inr 0)
                      else if asked = SCHED_SHORT then
                        (if r < 1 \<or> 3000 < r \<or>
                            t_policy t = SCHED_SHORT \<and> (r \<le> t_requested_time t - left \<or> t_requested_time t < left)
                         then Inl EINVAL
                         else if \<not> owner \<and> \<not> able \<or> t_policy t = SCHED_FIFO \<or> t_policy t = SCHED_RR \<or>
                            t_policy t = SCHED_SHORT \<and> t_is_short t = -1 \<or>
                            t_euid cur \<noteq> 0 \<and> t_euid cur \<noteq> t_euid t
                         then Inl EPERM else Inr 0)
                      else Inl EINVAL))"
proof (cases "\<exists>lp p. param = Some lp \<and> \<not> pid < 0 \<and> \<not> fault \<and> find_process_by_pid me pid s = Some p")
  case True
  then obtain lp p where call: "param = Some lp" "\<not> pid < 0" "\<not> fault" "find_process_by_pid me pid s = Some p" by blast
  define pol where "pol = (if policy < 0 then t_policy (tasks s p) else policy)"
  note ok = assms(2) [OF call(4)]
  obtain d s1 where d: "sched_denied K me p pol s = (d, s1)" by fastforce
  have own: "t_policy (tasks s p) \<in> {SCHED_OTHER, SCHED_FIFO, SCHED_RR, SCHED_SHORT}"
    using ok by (simp add: policy_ok_def)
  then have eq: "fst (setscheduler K me pid policy param fault s) =
      (if \<not> known_policy pol \<or> bad_param K (tasks s p) pol lp then Inl EINVAL else if d then Inl EPERM else Inr 0)"
    using d by (auto simp: call setscheduler_def setscheduler_task_def Let_def known_policy_def pol_def)
  show ?thesis
    unfolding eq
    by (subst policy_verdict [OF own sched_denied_result(2) [OF d]
        bad_short_request [OF assms(1) ok [THEN conjunct2, rule_format]]])
      (simp_all only: call option.case if_False Let_def pol_def)
qed (auto simp: setscheduler_def split: option.splits)

theorem setscheduler_result_witness:
  "fst (setscheduler Kx 0 7 3 (Some \<lparr>sched_priority = 0, sp_requested_time = 100\<rparr>) False (sleeping other_ex)) = Inl EINVAL \<and>
   fst (setscheduler Kx 0 7 (-1) (Some \<lparr>sched_priority = 0, sp_requested_time = 1\<rparr>) False (sleeping short_ex)) = Inl EINVAL \<and>
   fst (setscheduler Kx 0 7 (-1) (Some \<lparr>sched_priority = 0, sp_requested_time = 2\<rparr>) False (sleeping short_ex)) = Inr 0"
proof -
  have f: "find_process_by_pid 0 7 (sleeping t) = (if t_pid t = 7 then Some 7 else None)" for t
    by (rule find_process_sleeping)
  have ok: "policy_ok other_ex" "policy_ok short_ex"
    using task_okD(5) task_ok_ex(3,4) by blast+
  have pid: "t_pid other_ex = 7" "t_pid short_ex = 7" "t_policy other_ex = SCHED_OTHER" "t_euid short_ex = 0"
    "t_euid idle_task = 0" by (simp_all add: ex_defs)
  have k: "k_HZ Kx = 512" by (simp add: ref_lib_def)
  note R = setscheduler_result [OF ref512.kernel_lib_axioms, where me = 0 and pid = 7 and fault = False]
  show ?thesis
    using R [where policy = 3 and s = "sleeping other_ex"
        and param = "Some \<lparr>sched_priority = 0, sp_requested_time = 100\<rparr>"]
      R [where policy = "-1" and s = "sleeping short_ex" and param = "Some \<lparr>sched_priority = 0, sp_requested_time = 1\<rparr>"]
      R [where policy = "-1" and s = "sleeping short_ex" and param = "Some \<lparr>sched_priority = 0, sp_requested_time = 2\<rparr>"]
    by (simp add: f pid ok k policy_consts Let_def)
qed

text \<open>
  C12. The SHORT policy cannot be left or entered at will, through \<^verbatim>\<open>sched_setscheduler\<close> or (with
  the policy -1) \<^verbatim>\<open>sched_setparam\<close>. When a call succeeds the task has the policy asked for and no
  other task has changed its own. A task that was SHORT was not overdue, and is SHORT and not overdue
  afterwards. A task that is SHORT afterwards was SHORT or OTHER, its requested time is between 1 and 3000 ms, and the
  caller is root or runs as the same effective user; if it was OTHER it is a fresh SHORT task.
\<close>

theorem short_policy_guarded:
  assumes "find_process_by_pid me pid s = Some p"
    and "setscheduler K me pid policy (Some lp) fault s = (Inr r, s')"
    and "cur = tasks s (current me s)" and "t = tasks s p" and "t' = tasks s' p"
  shows "t_policy t' = (if policy < 0 then t_policy t else policy) \<and>
    (\<forall>q. q \<noteq> p \<longrightarrow> t_policy (tasks s' q) = t_policy (tasks s q) \<and> t_is_short (tasks s' q) = t_is_short (tasks s q)) \<and>
    (t_policy t = SCHED_SHORT \<longrightarrow>
      t_is_short t \<noteq> -1 \<and> t_policy t' = SCHED_SHORT \<and> t_is_short t' = t_is_short t) \<and>
    (t_policy t' = SCHED_SHORT \<longrightarrow>
      (t_policy t = SCHED_OTHER \<and> t_is_short t' = 1 \<or> t_policy t = SCHED_SHORT) \<and>
      1 \<le> sp_requested_time lp \<and> sp_requested_time lp \<le> 3000 \<and>
      (t_euid cur = 0 \<or> t_euid cur = t_euid t))"
proof -
  let ?pol = "asked_policy (tasks s p) policy"
  obtain s1 where g: "\<not> bad_param K (tasks s p) ?pol lp" "sched_denied K me p ?pol s = (False, s1)"
    "marked me s s1" "s' = change_policy K me p ?pol lp s1"
    using setscheduler_granted [OF assms(1,2)] .
  obtain f where s1: "s1 = set_flags me f s" using marked_flags [OF g(3)] ..
  have nd: "\<not> short_denied (tasks s (current me s)) (tasks s p) ?pol"
    using sched_denied_result(2) [OF g(2)] by simp
  have t': "t_policy t' = ?pol"
    "t_is_short t' = (if ?pol = SCHED_SHORT \<and> t_policy t \<noteq> SCHED_SHORT then 1 else t_is_short t)"
    by (simp_all add: assms(4,5) g(4) change_policy_task s1)
  have "t_policy (tasks s' q) = t_policy (tasks s q) \<and> t_is_short (tasks s' q) = t_is_short (tasks s q)" if "q \<noteq> p" for q
    using that by (simp add: g(4) change_policy_other s1)
  with nd g(1) t' show ?thesis
    unfolding assms(3,4) by (auto simp: short_denied_def bad_param_def asked_policy_def policy_consts)
qed

lemma other_becomes_short:
  "fst (setscheduler Kx 0 7 SCHED_SHORT (Some \<lparr>sched_priority = 0, sp_requested_time = 100\<rparr>) False
    (sleeping other_ex)) = Inr 0"
  by (simp add: setscheduler_def find_process_sleeping setscheduler_task_def sched_denied_def capable_unless_def
      short_denied_def bad_param_def known_policy_def policy_consts)
    (simp add: ex_defs policy_consts)

text \<open>A SHORT task that asked for one millisecond, less than a jiffy, and has its first jiffy left.\<close>

definition brief_ex :: task where
  "brief_ex = short_ex\<lparr>t_requested_time := 1, t_time_slice := 1\<rparr>"

lemma brief_ex [simp]: "t_policy brief_ex = SCHED_SHORT" "t_is_short brief_ex = 1" "t_pid brief_ex = 7"
  "t_requested_time brief_ex = 1" "t_time_slice brief_ex = 1" "t_euid brief_ex = 0" "t_euid idle_task = 0"
  by (simp_all add: brief_ex_def ex_defs)

lemma brief_renewed:
  "fst (setscheduler Kx 0 7 (-1) (Some \<lparr>sched_priority = 0, sp_requested_time = 200\<rparr>) False (sleeping brief_ex)) = Inr 0"
  by (simp add: setscheduler_def find_process_sleeping setscheduler_task_def sched_denied_def capable_unless_def
      short_denied_def bad_param_def known_policy_def policy_consts ref_lib_def)

lemma find_brief: "find_process_by_pid 0 7 (sleeping brief_ex) = Some 7"
  by (simp add: find_process_sleeping)

theorem short_policy_guarded_witness:
  "t_policy (tasks (snd (setscheduler Kx 0 7 (-1) (Some \<lparr>sched_priority = 0, sp_requested_time = 200\<rparr>) False
    (sleeping brief_ex))) 7) = SCHED_SHORT"
proof -
  obtain s' where s': "setscheduler Kx 0 7 (-1) (Some \<lparr>sched_priority = 0, sp_requested_time = 200\<rparr>) False
    (sleeping brief_ex) = (Inr 0, s')" by (metis prod.collapse brief_renewed)
  show ?thesis
    using short_policy_guarded [OF find_brief s' refl refl refl] by (simp add: s')
qed

text \<open>
  C13. A task that becomes SHORT gets the jiffies of its requested time, at least one, as its slice,
  is a fresh SHORT task with its static priority, and stands in the SHORT array of its CPU if it
  was runnable.
\<close>

theorem short_slice_granted:
  assumes "kernel_lib K" and "find_process_by_pid me pid s = Some p" and "t_policy (tasks s p) \<noteq> SCHED_SHORT"
    and "setscheduler K me pid SCHED_SHORT (Some lp) fault s = (Inr 0, s')"
  shows "let t = tasks s' p; r = sp_requested_time lp
    in t_policy t = SCHED_SHORT \<and> t_is_short t = 1 \<and> t_requested_time t = r \<and>
       uint (t_time_slice t) = max 1 (r * k_HZ K div 1000) \<and> t_prio t = t_static_prio (tasks s p) \<and>
       t_array t = (if t_array (tasks s p) = None then None else Some (t_cpu (tasks s p), Short_active))"
proof -
  have pos: "0 \<le> SCHED_SHORT" by (simp add: policy_consts)
  have r: "setscheduler_task K me p SCHED_SHORT lp s = (Inr 0, s')"
    using assms(2,4) by (auto simp: setscheduler_def split: if_splits)
  obtain s1 where ok: "\<not> bad_param K (tasks s p) SCHED_SHORT lp" "sched_denied K me p SCHED_SHORT s = (False, s1)"
    "s' = change_policy K me p SCHED_SHORT lp s1"
    using r pos by (cases "sched_denied K me p SCHED_SHORT s")
      (auto simp: setscheduler_task_def split: if_splits)
  obtain f where s1: "s1 = set_flags me f s" using sched_denied_result(1) [OF ok(2)] by blast
  have range: "1 \<le> sp_requested_time lp" "sp_requested_time lp \<le> 3000"
    using ok(1) by (auto simp: bad_param_def)
  have new: "uint (t_time_slice (changed K SCHED_SHORT lp t)) = max 1 (sp_requested_time lp * k_HZ K div 1000) \<and>
      t_requested_time (changed K SCHED_SHORT lp t) = sp_requested_time lp \<and>
      t_is_short (changed K SCHED_SHORT lp t) = 1 \<and> t_prio (changed K SCHED_SHORT lp t) = t_static_prio t"
    if "t_policy t \<noteq> SCHED_SHORT" for t
    using kernel_lib.short_request_new [OF assms(1) that range] by (simp add: granted_def changed_eq)
  have policy: "t_policy (tasks s1 p) \<noteq> SCHED_SHORT" "t_array (tasks s1 p) = t_array (tasks s p)"
    "t_static_prio (tasks s1 p) = t_static_prio (tasks s p)" "t_cpu (tasks s1 p) = t_cpu (tasks s p)"
    using assms(3) by (simp_all add: s1)
  show ?thesis
    unfolding ok(3) change_policy_eq using policy new
    by (cases "t_array (tasks s p)"; cases "p = current me s1") (simp_all add: Let_def)
qed

theorem short_slice_granted_witness:
  "t_time_slice (tasks (snd (setscheduler Kx 0 7 SCHED_SHORT (Some \<lparr>sched_priority = 0, sp_requested_time = 100\<rparr>) False
    (sleeping other_ex))) 7) = 51"
proof -
  note r = other_becomes_short
  then obtain s' where s': "setscheduler Kx 0 7 SCHED_SHORT (Some \<lparr>sched_priority = 0, sp_requested_time = 100\<rparr>) False
    (sleeping other_ex) = (Inr 0, s')" by (metis prod.collapse)
  have f: "find_process_by_pid 0 7 (sleeping other_ex) = Some 7"
    by (simp add: find_process_sleeping) (simp add: ex_defs)
  have "uint (t_time_slice (tasks s' 7)) = uint (51 :: u32)"
    using short_slice_granted [OF ref512.kernel_lib_axioms f _ s']
    by (simp add: Let_def) (simp add: ex_defs policy_consts ref_lib_def)
  then show ?thesis by (simp add: s' word_uint_eq_iff)
qed



text \<open>
  The remaining time reported for a freshly granted slice of at least a jiffy is at
  most the time requested, and less by no more than the rounding of two conversions.
\<close>

theorem remaining_time_of_new_slice:
  assumes "kernel_lib K" and "find_task_by_pid pid s = Some p" and "t_policy (tasks s p) = SCHED_SHORT"
    and "1 \<le> r" and "r \<le> 3000" and "1000 \<le> r * k_HZ K" and "uint (t_time_slice (tasks s p)) = r * k_HZ K div 1000"
  shows "\<exists>ms. sys_short_remaining_time K pid s = Inr ms \<and> ms \<le> r \<and> k_HZ K * (r - ms) < 1000 + k_HZ K"
proof -
  have H: "100 \<le> k_HZ K" "k_HZ K \<le> 1024"
    using kernel_lib.HZ_lower [OF assms(1)] kernel_lib.HZ_upper [OF assms(1)] .
  have "granted K r = r * k_HZ K div 1000" using assms(6) by (simp add: granted_def)
  moreover have "uint (t_time_slice (tasks s p)) \<le> 3072"
    using assms(7) kernel_lib.granted_word(3) [OF assms(1,4,5)] by simp
  moreover note kernel_lib.granted_word(2) [OF assms(1,4,5)]
  ultimately show ?thesis
    using kernel_lib.granted_ms [OF assms(1,4-6)] assms(2,3,7)
      kernel_lib.remaining_ms [OF assms(1), where w = "t_time_slice (tasks s p)"]
    by (simp add: sys_short_remaining_time_def)
qed

theorem remaining_time_of_new_slice_witness:
  "\<exists>ms. sys_short_remaining_time Kx 7 (sleeping short_ex) = Inr ms \<and> ms \<le> 100 \<and> 512 * (100 - ms) < 1512"
  using remaining_time_of_new_slice [OF ref512.kernel_lib_axioms, where pid = 7 and s = "sleeping short_ex" and r = 100]
  by (simp add: find_sleeping) (simp add: ex_defs ref_lib_def)

section \<open>Nice values\<close>

text \<open>
  \<^verbatim>\<open>set_user_nice\<close> keeps the runqueue invariant for any task that is not an idle task and any
  nice value, in range or not, and a nice value in range is what \<^verbatim>\<open>task_nice\<close> then reports.
\<close>

theorem set_user_nice_safe:
  assumes "kernel_lib K" and "sched_inv K X s" and "p \<notin> X" and "t_prio (tasks s p) < MAX_PRIO"
    and "s' = set_user_nice K p nice s"
  shows "sched_inv K X s' \<and>
    (-20 \<le> nice \<longrightarrow> nice \<le> 19 \<longrightarrow> task_nice (tasks s' p) = nice) \<and>
    (nice < -20 \<or> 19 < nice \<longrightarrow> s' = s)"
proof -
  have "sched_inv K X s'"
    unfolding assms(5) by (rule kernel_lib.set_user_nice_inv [OF assms(1-4)])
  moreover have "task_nice (tasks s' p) = nice" if "-20 \<le> nice" "nice \<le> 19"
    unfolding assms(5) using that
    by (cases "t_array (tasks s p)")
      (auto simp: set_user_nice_def Let_def task_nice_def nice_defs resched_task_def)
  moreover have "s' = s" if "nice < -20 \<or> 19 < nice"
    using that by (auto simp: assms(5) set_user_nice_def)
  ultimately show ?thesis by blast
qed

theorem set_user_nice_safe_witness:
  "task_nice (tasks (set_user_nice Kx 7 (-5) (woken other_ex)) 7) = -5"
proof -
  have ok: "ex_ok other_ex" by simp
  have "t_prio (tasks (woken other_ex) 7) < MAX_PRIO"
    using woken_tasks(1) [OF ok] q_inv_queued(3) [OF sched_invD(1) [OF woken_inv(1) [OF ok]]] by fastforce
  then show ?thesis
    using set_user_nice_safe [OF ref512.kernel_lib_axioms woken_inv(1) [OF ok] _ _ refl, where p = 7 and nice = "-5"]
    by simp
qed

section \<open>The queries and their wrappers\<close>

text \<open>
  What a program sees through the wrappers \<^verbatim>\<open>is_short\<close> and \<^verbatim>\<open>was_short\<close>: -1 and
  \<open>errno = ESRCH\<close> for an unknown pid; for a SHORT task, 1 or 0 (overdue) from the first and -1 with
  \<open>EINVAL\<close> from the second; for any other task -1 with \<open>EINVAL\<close> from the first, and from the second 1
  exactly when it was SHORT once.
\<close>

theorem short_queries_seen:
  assumes "\<And>p. find_task_by_pid pid s = Some p \<Longrightarrow> policy_ok (tasks s p)"
  shows "is_short pid s =
      (case find_task_by_pid pid s of None \<Rightarrow> (-1, Some 3)
       | Some p \<Rightarrow> if t_policy (tasks s p) \<noteq> SCHED_SHORT then (-1, Some 22)
                   else if t_is_short (tasks s p) = 1 then (1, None) else (0, None)) \<and>
    was_short pid s =
      (case find_task_by_pid pid s of None \<Rightarrow> (-1, Some 3)
       | Some p \<Rightarrow> if t_policy (tasks s p) = SCHED_SHORT then (-1, Some 22)
                   else if t_is_short (tasks s p) = -1 then (1, None) else (0, None))"
proof (cases "find_task_by_pid pid s")
  case None
  then show ?thesis
    using wrapper_error [of ESRCH] by (simp add: is_short_def was_short_def sys_is_short_def sys_was_short_def)
next
  case (Some p)
  show ?thesis
    unfolding is_short_def was_short_def short_queries [OF Some assms [OF Some]]
    using wrapper_error [of EINVAL] wrapper_value [of 1] wrapper_value [of 0] by (simp add: Some)
qed

theorem short_queries_seen_witness:
  "is_short 7 (sleeping overdue_ex) = (0, None) \<and> was_short 7 (sleeping overdue_ex) = (-1, Some 22)"
proof -
  have ok: "policy_ok overdue_ex" by (simp add: ex_defs policy_ok_def policy_consts)
  have f: "find_task_by_pid 7 (sleeping overdue_ex) = Some 7" by (simp add: find_sleeping) (simp add: ex_defs)
  show ?thesis
    using short_queries_seen [where pid = 7 and s = "sleeping overdue_ex"] ok f
    by (simp add: overdue_ex_def)
qed

text \<open>
  The wrappers give back what the kernel returned: an error number as -1 with \<open>errno\<close>, a value
  that a C int holds unchanged, although both travel in one register.
\<close>

theorem wrapper_roundtrip:
  assumes "case r of Inl e \<Rightarrow> e \<noteq> ERESTARTSYS | Inr v \<Rightarrow> 0 \<le> v \<and> v < 2 ^ 31"
  shows "wrapper (eax r) = (case r of Inl e \<Rightarrow> (-1, Some (errno_code e)) | Inr v \<Rightarrow> (v, None))"
  using assms wrapper_error wrapper_value by (cases r) simp_all

theorem wrapper_roundtrip_witness:
  "wrapper (eax (Inl EPERM)) = (-1, Some 1) \<and> wrapper (eax (Inr 3000)) = (3000, None)"
  using wrapper_roundtrip [of "Inl EPERM"] wrapper_roundtrip [of "Inr 3000"] by simp

section \<open>Divergences from the intent\<close>

text \<open>
  The parameter test accepts SCHED_OTHER with every static priority from 0 to 99 except 1. (The
  test is meant to demand 0 for OTHER and 1 to 99 for FIFO and RR, but C groups
  \<^verbatim>\<open>policy == SCHED_OTHER != lp.sched_priority == 0\<close> from the left.)
\<close>

theorem other_accepts_priorities:
  "bad_param K t SCHED_OTHER lp \<longleftrightarrow> sched_priority lp \<notin> {0..99} - {1}"
  by (auto simp: bad_param_def policy_consts)

text \<open>
  \<^verbatim>\<open>sched_rr_get_interval\<close> tests a bit of the policy: it reports no interval for a SHORT task (policy
  5) as for a FIFO task, and the length of a time slice for OTHER and RR.
\<close>

theorem rr_interval_by_policy:
  assumes "0 \<le> pid" and "find_process_by_pid me pid s = Some p" and "policy_ok (tasks s p)"
  shows "sys_sched_rr_get_interval K me pid False s =
    Inr (if t_policy (tasks s p) \<in> {SCHED_FIFO, SCHED_SHORT} then 0 else TASK_TIMESLICE K (tasks s p))"
  using assms by (auto simp: sys_sched_rr_get_interval_def policy_ok_def policy_consts)

theorem rr_interval_by_policy_witness:
  "sys_sched_rr_get_interval Kx 0 7 False (sleeping short_ex) = Inr 0"
proof -
  have ok: "policy_ok short_ex" by (simp add: ex_defs policy_ok_def policy_consts)
  have f: "find_process_by_pid 0 7 (sleeping short_ex) = Some 7"
    by (simp add: find_process_sleeping) (simp add: ex_defs)
  show ?thesis using rr_interval_by_policy [OF _ f] ok by simp
qed

section \<open>The pid hash\<close>

text \<open>
  C19. The chained table of pointers implements the table of lists: a search returns, and finds
  the first task of the bucket with the pid; adding a task that is in no chain prepends it to its
  bucket; removing one takes it out of its chain, through its back pointer.
\<close>

theorem pid_hash_refines:
  assumes "represents h t"
  shows "ptr_find_task pid n h = Some (List.find (\<lambda>p. pid p = n) (t (pid_hashfn n))) \<and>
    ((\<forall>i. p \<notin> set (t i)) \<longrightarrow>
      represents (hash_pid pid p h) (t(pid_hashfn (pid p) := p # t (pid_hashfn (pid p))))) \<and>
    (p \<in> set (t b) \<longrightarrow> represents (unhash_pid p h) (\<lambda>i. remove1 p (t i)))"
  using ptr_find_task_eq [OF assms] hash_pid_represents [OF assms] unhash_pid_represents [OF assms] by blast

definition empty_hash :: phash where
  "empty_hash = \<lparr>ph_bucket = (\<lambda>_. None), pidhash_next = (\<lambda>_. None), pidhash_pprev = (\<lambda>_. Bucket 0)\<rparr>"

theorem pid_hash_refines_witness:
  "represents (hash_pid int 7 empty_hash) ((\<lambda>_. [])(7 := [7]))"
proof -
  have "represents empty_hash (\<lambda>_. [])" by (simp add: represents_def deref_def empty_hash_def)
  then show ?thesis
    using pid_hash_refines [of empty_hash "\<lambda>_. []" int 7 7] by (simp add: pid_hashfn_def PIDHASH_SZ_def)
qed

text \<open>
  With distinct pids in the table, \<^verbatim>\<open>find_task_by_pid\<close> finds a task exactly when it is hashed and
  has that pid.
\<close>

theorem find_task_by_pid_correct:
  assumes "pid_inv s"
  shows "find_task_by_pid pid s = Some p \<longleftrightarrow> hashed s p \<and> t_pid (tasks s p) = pid"
  by (rule find_task_by_pid_iff [OF assms])

theorem find_task_by_pid_correct_witness:
  "find_task_by_pid 7 (sleeping other_ex) = Some 7 \<longleftrightarrow> hashed (sleeping other_ex) 7 \<and> t_pid other_ex = 7"
proof -
  have "pid_inv (sleeping other_ex)"
    by (simp add: pid_inv_def sleeping_def pid_hashfn_def PIDHASH_SZ_def) (simp add: ex_defs)
  then show ?thesis using find_task_by_pid_correct [of "sleeping other_ex" 7 7] by simp
qed

end
