(* ===== verification/Wait_Queue.thy ===== *)
theory Wait_Queue imports Wakeup Schedule begin

text \<open>
  Wait queues (\<^verbatim>\<open>__wake_up\<close> and the functions around it), the \<^verbatim>\<open>sleep_on\<close> family and
  completions. A wait queue is a value of an unknown type \<open>'w\<close>: its list operations
  (\<^verbatim>\<open>linux/wait.h\<close>) are parameters, with their behaviour as the locale \<open>wait_lib\<close>. A
  function that sleeps is modelled in two parts, up to its call of \<^verbatim>\<open>schedule\<close> and from its
  return, because the CPU goes on as another task in between.
\<close>

declare split_paired_All [simp del] split_paired_Ex [simp del]

section \<open>The library\<close>

record wait_entry =
  wq_task :: tptr
  wq_exclusive :: bool

record 'w wlib =
  w_entries :: "'w \<Rightarrow> wait_entry list"
  w_add :: "wait_entry \<Rightarrow> 'w \<Rightarrow> 'w"
  w_add_tail :: "wait_entry \<Rightarrow> 'w \<Rightarrow> 'w"
  w_remove :: "wait_entry \<Rightarrow> 'w \<Rightarrow> 'w"

locale wait_lib =
  fixes W :: "'w wlib"
  assumes add: "w_entries W (w_add W e q) = e # w_entries W q"
    and add_tail: "w_entries W (w_add_tail W e q) = w_entries W q @ [e]"
    and remove: "e \<in> set (w_entries W q) \<Longrightarrow> w_entries W (w_remove W e q) = remove1 e (w_entries W q)"

definition list_wlib :: "wait_entry list wlib" where
  "list_wlib = \<lparr>w_entries = \<lambda>q. q, w_add = (#), w_add_tail = \<lambda>e q. q @ [e], w_remove = remove1\<rparr>"

interpretation lw: wait_lib list_wlib
  by unfold_locales (simp_all add: list_wlib_def)

section \<open>Adding and removing\<close>

definition add_wait_queue :: "'w wlib \<Rightarrow> wait_entry \<Rightarrow> 'w \<Rightarrow> wait_entry \<times> 'w" where
  "add_wait_queue W wait q =
     (let wait = wait\<lparr>wq_exclusive := False\<rparr> in (wait, w_add W wait q))"

definition add_wait_queue_exclusive :: "'w wlib \<Rightarrow> wait_entry \<Rightarrow> 'w \<Rightarrow> wait_entry \<times> 'w" where
  "add_wait_queue_exclusive W wait q =
     (let wait = wait\<lparr>wq_exclusive := True\<rparr> in (wait, w_add_tail W wait q))"

definition remove_wait_queue :: "'w wlib \<Rightarrow> wait_entry \<Rightarrow> 'w \<Rightarrow> 'w" where
  "remove_wait_queue W wait q = w_remove W wait q"

section \<open>Waking\<close>

text \<open>
  The scan of \<^verbatim>\<open>__wake_up_common\<close>. \<open>nr_exclusive\<close> is a C int: starting from 0 it never
  becomes 0 again, so the scan wakes everything.
\<close>

fun wake_up_common ::
  "('l, 'b) klib \<Rightarrow> cpu \<Rightarrow> int \<Rightarrow> int \<Rightarrow> bool \<Rightarrow> wait_entry list \<Rightarrow> ('l, 'b) sched \<Rightarrow> ('l, 'b) sched" where
  "wake_up_common K me mode nr_exclusive sync [] s = s"
| "wake_up_common K me mode nr_exclusive sync (cur # es) s =
     (let p = wq_task cur in
      if t_state (tasks s p) AND mode = 0 then wake_up_common K me mode nr_exclusive sync es s
      else
        (let (success, s) = try_to_wake_up K me p sync s
         in if success \<and> wq_exclusive cur
            then (if nr_exclusive - 1 = 0 then s
                  else wake_up_common K me mode (nr_exclusive - 1) sync es s)
            else wake_up_common K me mode nr_exclusive sync es s))"

definition wake_up_q ::
  "('l, 'b) klib \<Rightarrow> 'w wlib \<Rightarrow> cpu \<Rightarrow> 'w option \<Rightarrow> int \<Rightarrow> int \<Rightarrow> ('l, 'b) sched \<Rightarrow> ('l, 'b) sched" where
  "wake_up_q K W me q mode nr_exclusive s =
     (case q of None \<Rightarrow> s
      | Some q \<Rightarrow> wake_up_common K me mode nr_exclusive False (w_entries W q) s)"

definition wake_up_q_sync ::
  "('l, 'b) klib \<Rightarrow> 'w wlib \<Rightarrow> cpu \<Rightarrow> 'w option \<Rightarrow> int \<Rightarrow> int \<Rightarrow> ('l, 'b) sched \<Rightarrow> ('l, 'b) sched" where
  "wake_up_q_sync K W me q mode nr_exclusive s =
     (case q of None \<Rightarrow> s
      | Some q \<Rightarrow>
          if nr_exclusive \<noteq> 0 then wake_up_common K me mode nr_exclusive True (w_entries W q) s
          else wake_up_common K me mode nr_exclusive False (w_entries W q) s)"

definition wake_up :: "('l, 'b) klib \<Rightarrow> 'w wlib \<Rightarrow> cpu \<Rightarrow> 'w option \<Rightarrow> ('l, 'b) sched \<Rightarrow> ('l, 'b) sched" where
  "wake_up K W me q = wake_up_q K W me q (TASK_UNINTERRUPTIBLE OR TASK_INTERRUPTIBLE) 1"

definition wake_up_all :: "('l, 'b) klib \<Rightarrow> 'w wlib \<Rightarrow> cpu \<Rightarrow> 'w option \<Rightarrow> ('l, 'b) sched \<Rightarrow> ('l, 'b) sched" where
  "wake_up_all K W me q = wake_up_q K W me q (TASK_UNINTERRUPTIBLE OR TASK_INTERRUPTIBLE) 0"

definition wake_up_interruptible ::
  "('l, 'b) klib \<Rightarrow> 'w wlib \<Rightarrow> cpu \<Rightarrow> 'w option \<Rightarrow> ('l, 'b) sched \<Rightarrow> ('l, 'b) sched" where
  "wake_up_interruptible K W me q = wake_up_q K W me q TASK_INTERRUPTIBLE 1"

definition wake_up_interruptible_all ::
  "('l, 'b) klib \<Rightarrow> 'w wlib \<Rightarrow> cpu \<Rightarrow> 'w option \<Rightarrow> ('l, 'b) sched \<Rightarrow> ('l, 'b) sched" where
  "wake_up_interruptible_all K W me q = wake_up_q K W me q TASK_INTERRUPTIBLE 0"

definition wake_up_interruptible_sync ::
  "('l, 'b) klib \<Rightarrow> 'w wlib \<Rightarrow> cpu \<Rightarrow> 'w option \<Rightarrow> ('l, 'b) sched \<Rightarrow> ('l, 'b) sched" where
  "wake_up_interruptible_sync K W me q =
     (if k_config_smp K then wake_up_q_sync K W me q TASK_INTERRUPTIBLE 1
      else wake_up_q K W me q TASK_INTERRUPTIBLE 1)"

lemma wake_modes [simp]:
  "TASK_UNINTERRUPTIBLE OR TASK_INTERRUPTIBLE = 3" "TASK_RUNNING AND m = 0"
  "TASK_UNINTERRUPTIBLE AND 3 \<noteq> 0" "TASK_INTERRUPTIBLE AND 3 \<noteq> 0"
  by (simp_all add: state_consts)

section \<open>What waking does\<close>

lemma try_to_wake_up_other:
  assumes "q \<noteq> p"
  shows "t_state (tasks (snd (try_to_wake_up K me p sync s)) q) = t_state (tasks s q)"
    and "t_array (tasks (snd (try_to_wake_up K me p sync s)) q) = t_array (tasks s q)"
    and "t_prio (tasks (snd (try_to_wake_up K me p sync s)) q) = t_prio (tasks s q)"
proof -
  let ?s' = "snd (try_to_wake_up K me p sync s)"
  have "t_state (tasks ?s' q) = t_state (tasks s q) \<and> t_array (tasks ?s' q) = t_array (tasks s q) \<and>
    t_prio (tasks ?s' q) = t_prio (tasks s q)"
  proof (cases "t_array (tasks s p) = None")
    case True
    define c where "c = wake_cpu me p sync s"
    define s1 where "s1 = (let s0 = upd_task p (\<lambda>t. t\<lparr>t_cpu := c\<rparr>) s in
      if t_state (tasks s p) = TASK_UNINTERRUPTIBLE
      then upd_rq c (\<lambda>r. r\<lparr>rq_nr_uninterruptible := rq_nr_uninterruptible r - 1\<rparr>) s0 else s0)"
    define a where "a = activate_task K p c s1"
    have s1: "tasks s1 q = tasks s q" using assms by (simp add: s1_def Let_def)
    have a: "tasks a q = tasks s q" using assms by (simp add: a_def s1)
    have "?s' = upd_task p (\<lambda>t. t\<lparr>t_state := TASK_RUNNING\<rparr>)
       (if t_prio (tasks a p) < t_prio (tasks a (current c a)) then resched_task (current c a) a else a)"
      unfolding wake_sleeping [OF True] a_def s1_def c_def by simp
    then show ?thesis using assms a by (auto simp: resched_task_def)
  next
    case False
    then show ?thesis using assms by (simp add: wake_queued)
  qed
  then show "t_state (tasks ?s' q) = t_state (tasks s q)" "t_array (tasks ?s' q) = t_array (tasks s q)"
    "t_prio (tasks ?s' q) = t_prio (tasks s q)" by blast+
qed

lemma wake_up_common_Cons:
  "wake_up_common K me mode nr sync (e # es) s =
     (if t_state (tasks s (wq_task e)) AND mode = 0 then wake_up_common K me mode nr sync es s
      else
        (let s' = snd (try_to_wake_up K me (wq_task e) sync s)
         in if t_array (tasks s (wq_task e)) = None \<and> wq_exclusive e
            then (if nr - 1 = 0 then s' else wake_up_common K me mode (nr - 1) sync es s')
            else wake_up_common K me mode nr sync es s'))"
  by (simp add: Let_def case_prod_beta try_to_wake_up_result(1))

declare wake_up_common.simps(2) [simp del]

lemma wake_up_common_frame:
  assumes "q \<notin> wq_task ` set es"
  shows "t_state (tasks (wake_up_common K me mode nr sync es s) q) = t_state (tasks s q) \<and>
    t_array (tasks (wake_up_common K me mode nr sync es s) q) = t_array (tasks s q) \<and>
    t_prio (tasks (wake_up_common K me mode nr sync es s) q) = t_prio (tasks s q)"
  using assms
proof (induction es arbitrary: nr s)
  case (Cons e es)
  then have "q \<noteq> wq_task e" by auto
  note T = try_to_wake_up_other [OF this, where K = K and me = me and sync = sync]
  show ?case using Cons by (simp add: wake_up_common_Cons Let_def T)
qed simp

lemma wake_up_common_keeps_running:
  assumes "t_state (tasks s q) = TASK_RUNNING"
  shows "t_state (tasks (wake_up_common K me mode nr sync es s) q) = TASK_RUNNING"
  using assms
proof (induction es arbitrary: nr s)
  case (Cons e es)
  have "t_state (tasks (snd (try_to_wake_up K me (wq_task e) sync s)) q) = TASK_RUNNING"
    using Cons.prems by (cases "q = wq_task e") (simp_all add: try_to_wake_up_result try_to_wake_up_other)
  with Cons show ?case by (simp add: wake_up_common_Cons Let_def)
qed simp

lemma wake_up_common_keeps_queued:
  assumes "t_array (tasks s q) \<noteq> None"
  shows "t_array (tasks (wake_up_common K me mode nr sync es s) q) \<noteq> None"
  using assms
proof (induction es arbitrary: nr s)
  case (Cons e es)
  have "t_array (tasks (snd (try_to_wake_up K me (wq_task e) sync s)) q) \<noteq> None"
    using Cons.prems try_to_wake_up_result(3) [where p = q]
    by (cases "q = wq_task e") (simp_all add: try_to_wake_up_other)
  with Cons show ?case by (simp add: wake_up_common_Cons Let_def)
qed simp

text \<open>A wait queue keeps its entries that are not exclusive before the exclusive ones.\<close>

definition wait_ordered :: "wait_entry list \<Rightarrow> bool" where
  "wait_ordered es \<longleftrightarrow> (\<exists>ns xs. es = ns @ xs \<and> (\<forall>e \<in> set ns. \<not> wq_exclusive e) \<and> (\<forall>e \<in> set xs. wq_exclusive e))"

lemma wait_ordered_Cons: "\<not> wq_exclusive e \<Longrightarrow> wait_ordered (e # es) \<longleftrightarrow> wait_ordered es"
proof
  assume "\<not> wq_exclusive e" "wait_ordered (e # es)"
  then obtain ns xs where ns: "e # es = ns @ xs" "\<forall>e \<in> set ns. \<not> wq_exclusive e" "\<forall>e \<in> set xs. wq_exclusive e"
    by (auto simp: wait_ordered_def)
  with \<open>\<not> wq_exclusive e\<close> have "es = tl ns @ xs" by (cases ns) auto
  then show "wait_ordered es" using ns list.set_sel(2) unfolding wait_ordered_def by (metis list.sel(2))
next
  assume e: "\<not> wq_exclusive e" and "wait_ordered es"
  then obtain ns xs where "es = ns @ xs" "\<forall>e \<in> set ns. \<not> wq_exclusive e" "\<forall>e \<in> set xs. wq_exclusive e"
    by (auto simp: wait_ordered_def)
  with e show "wait_ordered (e # es)"
    unfolding wait_ordered_def by (intro exI [of _ "e # ns"] exI [of _ xs]) auto
qed

lemma wait_ordered_exclusive: "wq_exclusive e \<Longrightarrow> wait_ordered (e # es) \<Longrightarrow> \<forall>x \<in> set es. wq_exclusive x"
proof -
  assume e: "wq_exclusive e" and "wait_ordered (e # es)"
  then obtain ns xs where ns: "e # es = ns @ xs" "\<forall>e \<in> set ns. \<not> wq_exclusive e" "\<forall>e \<in> set xs. wq_exclusive e"
    by (auto simp: wait_ordered_def)
  with e have "xs = e # es" by (cases ns) auto
  with ns(3) show ?thesis by simp
qed

lemma wake_all_shared:
  assumes "wait_ordered es" and "e \<in> set es" and "\<not> wq_exclusive e" and "t_state (tasks s (wq_task e)) AND mode \<noteq> 0"
  shows "t_state (tasks (wake_up_common K me mode nr sync es s) (wq_task e)) = TASK_RUNNING \<and>
    t_array (tasks (wake_up_common K me mode nr sync es s) (wq_task e)) \<noteq> None"
  using assms
proof (induction es arbitrary: nr s)
  case (Cons x es)
  have x: "\<not> wq_exclusive x"
    using wait_ordered_exclusive [of x es] Cons.prems(1-3) by auto
  let ?t = "snd (try_to_wake_up K me (wq_task x) sync s)"
  show ?case
  proof (cases "wq_task x = wq_task e")
    case True
    have "t_state (tasks ?t (wq_task e)) = TASK_RUNNING" "t_array (tasks ?t (wq_task e)) \<noteq> None"
      using try_to_wake_up_result(2,3) [where p = "wq_task x"] True by simp_all
    then show ?thesis
      using x True Cons.prems(4)
      by (simp add: wake_up_common_Cons Let_def wake_up_common_keeps_running wake_up_common_keeps_queued)
  next
    case False
    have "e \<in> set es" using Cons.prems(2) False by auto
    moreover have "wait_ordered es" using Cons.prems(1) x by (simp add: wait_ordered_Cons)
    ultimately show ?thesis
      using Cons.IH [of s nr] Cons.IH [of ?t nr] Cons.prems(3,4) x False
        try_to_wake_up_other(1) [where q = "wq_task e" and p = "wq_task x" and K = K and me = me and sync = sync and s = s]
      by (simp add: wake_up_common_Cons Let_def)
  qed
qed simp

context kernel_lib
begin

text \<open>A scan keeps the invariants, when its tasks are in the scheduler's hands and none is an idle task.\<close>

lemma wake_up_common_inv:
  assumes "sched_inv K X s" and "\<And>e. e \<in> set es \<Longrightarrow> wq_task e \<notin> X \<and> t_prio (tasks s (wq_task e)) < MAX_PRIO"
  shows "sched_inv K X (wake_up_common K me mode nr sync es s) \<and>
    (cpu_ok X s c \<longrightarrow> cpu_ok X (wake_up_common K me mode nr sync es s) c)"
  using assms
proof (induction es arbitrary: nr s)
  case (Cons e es)
  let ?p = "wq_task e"
  let ?t = "snd (try_to_wake_up K me ?p sync s)"
  have p: "?p \<notin> X" "t_prio (tasks s ?p) < MAX_PRIO" using Cons.prems(2) by simp_all
  have inv: "sched_inv K X ?t" by (rule try_to_wake_up_inv [OF Cons.prems(1) p])
  have cpu: "cpu_ok X s c \<longrightarrow> cpu_ok X ?t c" using try_to_wake_up_cpu_ok p(2) by blast
  obtain a where "t_array (tasks ?t ?p) = Some a" using try_to_wake_up_result(3) [where K = K and me = me and p = ?p and sync = sync and s = s] by auto
  then have "t_prio (tasks ?t ?p) < MAX_PRIO"
    by (rule q_inv_queued(3) [OF sched_invD(1) [OF inv] p(1)])
  then have ok: "wq_task x \<notin> X \<and> t_prio (tasks ?t (wq_task x)) < MAX_PRIO" if "x \<in> set es" for x
    using Cons.prems(2) [of x] that p(1)
    by (cases "wq_task x = ?p") (simp_all add: try_to_wake_up_other(3))
  have stay: "sched_inv K X (wake_up_common K me mode nr sync es s) \<and>
    (cpu_ok X s c \<longrightarrow> cpu_ok X (wake_up_common K me mode nr sync es s) c)"
    by (rule Cons.IH [OF Cons.prems(1)]) (use Cons.prems(2) in simp)
  have go: "sched_inv K X (wake_up_common K me mode n sync es ?t) \<and>
    (cpu_ok X ?t c \<longrightarrow> cpu_ok X (wake_up_common K me mode n sync es ?t) c)" for n
    by (rule Cons.IH [OF inv ok])
  show ?case
    using stay go inv cpu by (simp add: wake_up_common_Cons Let_def)
qed simp

end

section \<open>Sleeping on a queue\<close>

text \<open>
  The part of \<^verbatim>\<open>sleep_on\<close> and \<^verbatim>\<open>interruptible_sleep_on\<close> before the call of \<^verbatim>\<open>schedule\<close> and with it
  (\<^verbatim>\<open>SLEEP_ON_VAR\<close>, the state, \<^verbatim>\<open>SLEEP_ON_HEAD\<close>), and the part when the task runs again
  (\<^verbatim>\<open>SLEEP_ON_TAIL\<close>). The variants with a timeout call \<^verbatim>\<open>schedule_timeout\<close>, which is outside the
  repository: it is the argument \<open>schedule_timeout\<close>,
  which gives the time left and the queue and state it returns in.
\<close>

definition sleep_head ::
  "'w wlib \<Rightarrow> cpu \<Rightarrow> int \<Rightarrow> 'w \<Rightarrow> ('l, 'b) sched \<Rightarrow> wait_entry \<times> 'w \<times> ('l, 'b) sched" where
  "sleep_head W me state q s =
     (let wait = \<lparr>wq_task = current me s, wq_exclusive = False\<rparr>;
          s = upd_task (current me s) (\<lambda>t. t\<lparr>t_state := state\<rparr>) s
      in (wait, w_add W wait q, s))"

definition sleep_tail :: "'w wlib \<Rightarrow> wait_entry \<Rightarrow> 'w \<Rightarrow> 'w" where
  "sleep_tail W wait q = w_remove W wait q"

definition interruptible_sleep_on ::
  "('l, 'b) klib \<Rightarrow> 'w wlib \<Rightarrow> (nat \<Rightarrow> bool) \<Rightarrow> cpu \<Rightarrow> 'w \<Rightarrow> ('l, 'b) sched \<Rightarrow>
    (wait_entry \<times> 'w \<times> ('l, 'b) sched) option" where
  "interruptible_sleep_on K W trylock me q s =
     (let (wait, q, s) = sleep_head W me TASK_INTERRUPTIBLE q s
      in map_option (\<lambda>s. (wait, q, s)) (schedule K False trylock me s))"

definition sleep_on ::
  "('l, 'b) klib \<Rightarrow> 'w wlib \<Rightarrow> (nat \<Rightarrow> bool) \<Rightarrow> cpu \<Rightarrow> 'w \<Rightarrow> ('l, 'b) sched \<Rightarrow>
    (wait_entry \<times> 'w \<times> ('l, 'b) sched) option" where
  "sleep_on K W trylock me q s =
     (let (wait, q, s) = sleep_head W me TASK_UNINTERRUPTIBLE q s
      in map_option (\<lambda>s. (wait, q, s)) (schedule K False trylock me s))"

definition interruptible_sleep_on_timeout ::
  "'w wlib \<Rightarrow> (int \<Rightarrow> 'w \<Rightarrow> ('l, 'b) sched \<Rightarrow> int \<times> 'w \<times> ('l, 'b) sched) \<Rightarrow> cpu \<Rightarrow> 'w \<Rightarrow> int \<Rightarrow>
    ('l, 'b) sched \<Rightarrow> int \<times> 'w \<times> ('l, 'b) sched" where
  "interruptible_sleep_on_timeout W schedule_timeout me q timeout s =
     (let (wait, q, s) = sleep_head W me TASK_INTERRUPTIBLE q s;
          (timeout, q, s) = schedule_timeout timeout q s
      in (timeout, sleep_tail W wait q, s))"

definition sleep_on_timeout ::
  "'w wlib \<Rightarrow> (int \<Rightarrow> 'w \<Rightarrow> ('l, 'b) sched \<Rightarrow> int \<times> 'w \<times> ('l, 'b) sched) \<Rightarrow> cpu \<Rightarrow> 'w \<Rightarrow> int \<Rightarrow>
    ('l, 'b) sched \<Rightarrow> int \<times> 'w \<times> ('l, 'b) sched" where
  "sleep_on_timeout W schedule_timeout me q timeout s =
     (let (wait, q, s) = sleep_head W me TASK_UNINTERRUPTIBLE q s;
          (timeout, q, s) = schedule_timeout timeout q s
      in (timeout, sleep_tail W wait q, s))"

end
