(* ===== verification/Completion.thy ===== *)
theory Completion imports Wait_Queue begin

text \<open>
  Completions. \<^verbatim>\<open>wait_for_completion\<close> gives up the CPU inside its loop, so it is a state
  machine: \<open>wait_enter\<close> runs up to the first call of \<^verbatim>\<open>schedule\<close> (or to the end, when the completion
  is done), \<open>wait_resume\<close> from a return of \<^verbatim>\<open>schedule\<close> to the next call or to the end. The spinlock of
  the queue makes each of them, and \<open>complete\<close>, one step.
\<close>

declare split_paired_All [simp del] split_paired_Ex [simp del]

section \<open>Operations\<close>

record 'w completion =
  c_done :: u32
  c_wait :: 'w

definition complete ::
  "('l, 'b) klib \<Rightarrow> 'w wlib \<Rightarrow> cpu \<Rightarrow> 'w completion \<Rightarrow> ('l, 'b) sched \<Rightarrow> 'w completion \<times> ('l, 'b) sched" where
  "complete K W me x s =
     (x\<lparr>c_done := c_done x + 1\<rparr>,
      wake_up_common K me (TASK_UNINTERRUPTIBLE OR TASK_INTERRUPTIBLE) 1 False (w_entries W (c_wait x)) s)"

text \<open>The entry a waiting task puts on the queue.\<close>

definition waiter :: "tptr \<Rightarrow> wait_entry" where
  "waiter p = \<lparr>wq_task = p, wq_exclusive = True\<rparr>"

definition wait_enter ::
  "'w wlib \<Rightarrow> cpu \<Rightarrow> 'w completion \<Rightarrow> ('l, 'b) sched \<Rightarrow> bool \<times> 'w completion \<times> ('l, 'b) sched" where
  "wait_enter W me x s =
     (if c_done x = 0
      then (False, x\<lparr>c_wait := w_add_tail W (waiter (current me s)) (c_wait x)\<rparr>,
            upd_task (current me s) (\<lambda>t. t\<lparr>t_state := TASK_UNINTERRUPTIBLE\<rparr>) s)
      else (True, x\<lparr>c_done := c_done x - 1\<rparr>, s))"

definition wait_resume ::
  "'w wlib \<Rightarrow> cpu \<Rightarrow> 'w completion \<Rightarrow> ('l, 'b) sched \<Rightarrow> bool \<times> 'w completion \<times> ('l, 'b) sched" where
  "wait_resume W me x s =
     (if c_done x = 0
      then (False, x, upd_task (current me s) (\<lambda>t. t\<lparr>t_state := TASK_UNINTERRUPTIBLE\<rparr>) s)
      else (True, x\<lparr>c_wait := w_remove W (waiter (current me s)) (c_wait x), c_done := c_done x - 1\<rparr>, s))"

section \<open>The steps of a system around one completion\<close>

text \<open>
  \<open>nc\<close> and \<open>nf\<close> count the calls of \<open>complete\<close> and the waits that have returned. A waiter goes on
  only when it is in state running. The rest of the kernel may change anything, except that it
  does not put a waiter that is running back to sleep and changes the state of a sleeping waiter
  only by waking it.
\<close>

record ('w, 'l, 'b) csys =
  cs_x :: "'w completion"
  cs_s :: "('l, 'b) sched"
  cs_nc :: nat
  cs_nf :: nat

definition waiters :: "'w wlib \<Rightarrow> 'w completion \<Rightarrow> tptr list" where
  "waiters W x = map wq_task (w_entries W (c_wait x))"

definition awake :: "('l, 'b) sched \<Rightarrow> tptr \<Rightarrow> bool" where
  "awake s p \<longleftrightarrow> t_state (tasks s p) = TASK_RUNNING"

inductive cstep :: "('l, 'b) klib \<Rightarrow> 'w wlib \<Rightarrow> ('w, 'l, 'b) csys \<Rightarrow> ('w, 'l, 'b) csys \<Rightarrow> bool"
  for K :: "('l, 'b) klib" and W :: "'w wlib" where
  step_complete: "complete K W me (cs_x c) (cs_s c) = (x, s) \<Longrightarrow>
    cstep K W c (c\<lparr>cs_x := x, cs_s := s, cs_nc := cs_nc c + 1\<rparr>)"
| step_enter: "current me (cs_s c) \<notin> set (waiters W (cs_x c)) \<Longrightarrow>
    wait_enter W me (cs_x c) (cs_s c) = (finished, x, s) \<Longrightarrow>
    cstep K W c (c\<lparr>cs_x := x, cs_s := s, cs_nf := cs_nf c + (if finished then 1 else 0)\<rparr>)"
| step_resume: "current me (cs_s c) \<in> set (waiters W (cs_x c)) \<Longrightarrow> awake (cs_s c) (current me (cs_s c)) \<Longrightarrow>
    wait_resume W me (cs_x c) (cs_s c) = (finished, x, s) \<Longrightarrow>
    cstep K W c (c\<lparr>cs_x := x, cs_s := s, cs_nf := cs_nf c + (if finished then 1 else 0)\<rparr>)"
| step_other: "(\<And>p. p \<in> set (waiters W (cs_x c)) \<Longrightarrow>
      awake s p \<or> t_state (tasks s p) = t_state (tasks (cs_s c) p)) \<Longrightarrow>
    cstep K W c (c\<lparr>cs_s := s\<rparr>)"

section \<open>The invariant\<close>

definition awake_count :: "('l, 'b) sched \<Rightarrow> tptr list \<Rightarrow> nat" where
  "awake_count s ps = length (filter (awake s) ps)"

definition c_inv :: "'w wlib \<Rightarrow> ('w, 'l, 'b) csys \<Rightarrow> bool" where
  "c_inv W c \<longleftrightarrow>
     (let x = cs_x c; s = cs_s c; ps = waiters W x in
      unat (c_done x) + cs_nf c = cs_nc c \<and>
      distinct ps \<and> w_entries W (c_wait x) = map waiter ps \<and>
      (\<forall>p \<in> set ps. t_state (tasks s p) \<in> {TASK_RUNNING, TASK_UNINTERRUPTIBLE}) \<and>
      min (unat (c_done x)) (length ps) \<le> awake_count s ps)"

lemma waiter_task [simp]: "wq_task (waiter p) = p" "wq_exclusive (waiter p)"
  by (simp_all add: waiter_def)

lemma waiter_inj [simp]: "waiter p = waiter q \<longleftrightarrow> p = q"
  by (simp add: waiter_def)

lemma awake_count_mono:
  assumes "\<And>p. p \<in> set ps \<Longrightarrow> awake s p \<Longrightarrow> awake s' p"
  shows "awake_count s ps \<le> awake_count s' ps"
  using assms by (induction ps) (auto simp: awake_count_def)

lemma awake_count_less:
  assumes "\<And>p. p \<in> set ps \<Longrightarrow> awake s p \<Longrightarrow> awake s' p" and "q \<in> set ps" and "\<not> awake s q" and "awake s' q"
  shows "awake_count s ps < awake_count s' ps"
  using assms
proof (induction ps)
  case (Cons p ps)
  have mono: "awake_count s ps \<le> awake_count s' ps"
    by (rule awake_count_mono) (use Cons.prems in simp)
  show ?case
  proof (cases "q = p")
    case True
    with Cons.prems mono show ?thesis by (simp add: awake_count_def)
  next
    case False
    with Cons have "awake_count s ps < awake_count s' ps" by simp
    then show ?thesis using Cons.prems(1) [of p] by (simp add: awake_count_def)
  qed
qed simp

lemma awake_count_all: "awake_count s ps \<le> length ps" "(\<forall>p \<in> set ps. awake s p) \<Longrightarrow> awake_count s ps = length ps"
  by (simp_all add: awake_count_def)

lemma wake_up_common_state:
  "t_state (tasks (wake_up_common K me mode nr sync es s) q) = t_state (tasks s q) \<or>
   t_state (tasks (wake_up_common K me mode nr sync es s) q) = TASK_RUNNING"
proof (induction es arbitrary: nr s)
  case (Cons e es)
  have "t_state (tasks (snd (try_to_wake_up K me (wq_task e) sync s)) q) = t_state (tasks s q) \<or>
      t_state (tasks (snd (try_to_wake_up K me (wq_task e) sync s)) q) = TASK_RUNNING"
    by (cases "q = wq_task e") (simp_all add: try_to_wake_up_result try_to_wake_up_other)
  with Cons show ?case by (simp add: wake_up_common_Cons Let_def) (metis wake_up_common_keeps_running)
qed simp

text \<open>A completion wakes a waiter, if one sleeps.\<close>

lemma complete_wakes:
  assumes "distinct ps" and "\<forall>p \<in> set ps. t_state (tasks s p) \<in> {TASK_RUNNING, TASK_UNINTERRUPTIBLE}"
    and "\<exists>p \<in> set ps. \<not> awake s p"
  shows "\<exists>q \<in> set ps. \<not> awake s q \<and> awake (wake_up_common K me 3 1 False (map waiter ps) s) q"
  using assms
proof (induction ps)
  case (Cons p ps)
  show ?case
  proof (cases "awake s p")
    case True
    then have "wake_up_common K me 3 1 False (map waiter (p # ps)) s = wake_up_common K me 3 1 False (map waiter ps) s"
      by (simp add: wake_up_common_Cons awake_def)
    then show ?thesis using Cons True by auto
  next
    case False
    then have u: "t_state (tasks s p) = TASK_UNINTERRUPTIBLE" using Cons.prems(2) by (auto simp: awake_def)
    let ?t = "snd (try_to_wake_up K me p False s)"
    have t: "t_state (tasks ?t p) = TASK_RUNNING" by (simp add: try_to_wake_up_result)
    have "awake (wake_up_common K me 3 1 False (map waiter (p # ps)) s) p"
      using t wake_modes(3) by (simp add: wake_up_common_Cons u Let_def awake_def wake_up_common_keeps_running)
    with False show ?thesis by auto
  qed
qed simp

lemma unat_incr: "unat (w :: u32) + 1 < 2 ^ 32 \<Longrightarrow> unat (w + 1) = unat w + 1"
  by (simp add: unat_word_ariths)

lemma unat_decr: "(w :: u32) \<noteq> 0 \<Longrightarrow> unat (w - 1) = unat w - 1 \<and> 0 < unat w"
  by (simp add: unat_minus_one unat_gt_0)

lemma c_invD:
  assumes "c_inv W c"
  shows "unat (c_done (cs_x c)) + cs_nf c = cs_nc c" and "distinct (waiters W (cs_x c))"
    and "w_entries W (c_wait (cs_x c)) = map waiter (waiters W (cs_x c))"
    and "p \<in> set (waiters W (cs_x c)) \<Longrightarrow> t_state (tasks (cs_s c) p) \<in> {TASK_RUNNING, TASK_UNINTERRUPTIBLE}"
    and "min (unat (c_done (cs_x c))) (length (waiters W (cs_x c))) \<le> awake_count (cs_s c) (waiters W (cs_x c))"
  using assms by (auto simp: c_inv_def Let_def)

lemma awake_count_remove:
  assumes "distinct ps" and "p \<in> set ps" and "awake s p"
  shows "awake_count s ps = Suc (awake_count s (remove1 p ps))"
  using assms by (induction ps) (auto simp: awake_count_def remove1_idem)

lemma remove1_waiter: "remove1 (waiter p) (map waiter ps) = map waiter (remove1 p ps)"
  by (induction ps) auto

context wait_lib
begin

lemma complete_step:
  assumes inv: "c_inv W c" and eq: "complete K W me (cs_x c) (cs_s c) = (x, s)" and nc: "cs_nc c + 1 < 2 ^ 32"
  shows "c_inv W (c\<lparr>cs_x := x, cs_s := s, cs_nc := cs_nc c + 1\<rparr>)"
proof -
  note I = c_invD [OF inv]
  let ?ps = "waiters W (cs_x c)"
  have x: "x = (cs_x c)\<lparr>c_done := c_done (cs_x c) + 1\<rparr>"
    and s: "s = wake_up_common K me 3 1 False (map waiter ?ps) (cs_s c)"
    using eq I(3) by (simp_all add: complete_def)
  have ps: "waiters W x = ?ps" "c_wait x = c_wait (cs_x c)" by (simp_all add: x waiters_def)
  have dn: "unat (c_done x) = unat (c_done (cs_x c)) + 1"
    unfolding x using I(1) nc by (simp add: unat_incr)
  have keep: "awake s p" if "awake (cs_s c) p" for p
    using that by (simp add: s awake_def wake_up_common_keeps_running)
  have state: "t_state (tasks s p) \<in> {TASK_RUNNING, TASK_UNINTERRUPTIBLE}" if "p \<in> set ?ps" for p
    using I(4) [OF that] wake_up_common_state [where q = p and s = "cs_s c"] unfolding s by (metis insertCI)
  have "min (unat (c_done x)) (length ?ps) \<le> awake_count s ?ps"
  proof (cases "\<exists>p \<in> set ?ps. \<not> awake (cs_s c) p")
    case True
    then obtain q where "q \<in> set ?ps" "\<not> awake (cs_s c) q" "awake s q"
      using complete_wakes [OF I(2)] I(4) unfolding s by blast
    then have "awake_count (cs_s c) ?ps < awake_count s ?ps"
      by (intro awake_count_less) (auto intro: keep)
    then show ?thesis using I(5) dn by linarith
  next
    case False
    then have "awake_count s ?ps = length ?ps" by (intro awake_count_all(2)) (auto intro: keep)
    then show ?thesis by simp
  qed
  then show ?thesis
    using I(1-3) state dn by (simp add: c_inv_def Let_def ps)
qed

lemma enter_step:
  assumes inv: "c_inv W c" and p: "current me (cs_s c) \<notin> set (waiters W (cs_x c))"
    and eq: "wait_enter W me (cs_x c) (cs_s c) = (finished, x, s)"
  shows "c_inv W (c\<lparr>cs_x := x, cs_s := s, cs_nf := cs_nf c + (if finished then 1 else 0)\<rparr>)"
proof (cases "c_done (cs_x c) = 0")
  case True
  note I = c_invD [OF inv]
  have x: "w_entries W (c_wait x) = map waiter (waiters W (cs_x c) @ [current me (cs_s c)])" "c_done x = 0" "\<not> finished"
    and s: "s = upd_task (current me (cs_s c)) (\<lambda>t. t\<lparr>t_state := TASK_UNINTERRUPTIBLE\<rparr>) (cs_s c)"
    using eq True I(3) by (auto simp: wait_enter_def add_tail)
  then have ps: "waiters W x = waiters W (cs_x c) @ [current me (cs_s c)]"
    by (simp add: waiters_def comp_def)
  show ?thesis
    using x True p I by (auto simp: c_inv_def Let_def ps s)
next
  case False
  note I = c_invD [OF inv]
  have x: "x = (cs_x c)\<lparr>c_done := c_done (cs_x c) - 1\<rparr>" "finished" "s = cs_s c"
    using eq False by (auto simp: wait_enter_def)
  then have "waiters W x = waiters W (cs_x c)" by (simp add: waiters_def)
  then show ?thesis
    using x I unat_decr [OF False] by (simp add: c_inv_def Let_def)
qed

lemma resume_step:
  assumes inv: "c_inv W c" and p: "current me (cs_s c) \<in> set (waiters W (cs_x c))"
    and aw: "awake (cs_s c) (current me (cs_s c))"
    and eq: "wait_resume W me (cs_x c) (cs_s c) = (finished, x, s)"
  shows "c_inv W (c\<lparr>cs_x := x, cs_s := s, cs_nf := cs_nf c + (if finished then 1 else 0)\<rparr>)"
proof (cases "c_done (cs_x c) = 0")
  case True
  note I = c_invD [OF inv]
  have "x = cs_x c" "\<not> finished" "s = upd_task (current me (cs_s c)) (\<lambda>t. t\<lparr>t_state := TASK_UNINTERRUPTIBLE\<rparr>) (cs_s c)"
    using eq True by (auto simp: wait_resume_def)
  then show ?thesis using True I by (auto simp: c_inv_def Let_def)
next
  case False
  note I = c_invD [OF inv]
  let ?ps = "waiters W (cs_x c)" and ?p = "current me (cs_s c)"
  have mem: "waiter ?p \<in> set (w_entries W (c_wait (cs_x c)))" using p I(3) by auto
  have x: "c_done x = c_done (cs_x c) - 1" "finished" "s = cs_s c"
    and w: "c_wait x = w_remove W (waiter ?p) (c_wait (cs_x c))"
    using eq False by (auto simp: wait_resume_def)
  have e: "w_entries W (c_wait x) = map waiter (remove1 ?p ?ps)"
    unfolding w remove [OF mem] I(3) by (rule remove1_waiter)
  then have ps: "waiters W x = remove1 ?p ?ps" by (simp add: waiters_def comp_def)
  have "min (unat (c_done x)) (length (remove1 ?p ?ps)) \<le> awake_count (cs_s c) (remove1 ?p ?ps)"
    using I(5) awake_count_remove [OF I(2) p aw] unat_decr [OF False] p by (auto simp: length_remove1 x(1))
  then show ?thesis
    using I(1,2,4) e x unat_decr [OF False] by (auto simp: c_inv_def Let_def ps dest: notin_set_remove1)
qed

lemma cstep_inv:
  assumes "cstep K W c c'" and "c_inv W c" and "cs_nc c' < 2 ^ 32"
  shows "c_inv W c'"
  using assms(1)
proof cases
  case (step_complete me x s)
  then show ?thesis using complete_step [OF assms(2)] assms(3) by auto
next
  case (step_enter me finished x s)
  then show ?thesis using enter_step [OF assms(2)] by blast
next
  case (step_resume me finished x s)
  then show ?thesis using resume_step [OF assms(2)] by blast
next
  case (step_other s)
  note I = c_invD [OF assms(2)]
  have "awake_count (cs_s c) (waiters W (cs_x c)) \<le> awake_count s (waiters W (cs_x c))"
    by (rule awake_count_mono) (metis awake_def step_other(2))
  moreover have "t_state (tasks s p) \<in> {TASK_RUNNING, TASK_UNINTERRUPTIBLE}" if "p \<in> set (waiters W (cs_x c))" for p
    using I(4) [OF that] step_other(2) [OF that] by (auto simp: awake_def)
  ultimately show ?thesis
    using I step_other(1) by (simp add: c_inv_def Let_def)
qed

lemma cstep_nc: "cstep K W c c' \<Longrightarrow> cs_nc c \<le> cs_nc c'"
  by (cases rule: cstep.cases) auto

lemma csteps_inv:
  assumes "(cstep K W)\<^sup>*\<^sup>* c c'" and "c_inv W c" and "cs_nc c' < 2 ^ 32"
  shows "c_inv W c'"
  using assms
proof (induction rule: rtranclp_induct)
  case (step d e)
  then have "cs_nc d < 2 ^ 32" using cstep_nc [OF step(2)] by linarith
  with step show ?case using cstep_inv by blast
qed

end

text \<open>A fresh completion: not done, nobody waits.\<close>

definition fresh :: "'w wlib \<Rightarrow> ('w, 'l, 'b) csys \<Rightarrow> bool" where
  "fresh W c \<longleftrightarrow> c_done (cs_x c) = 0 \<and> w_entries W (c_wait (cs_x c)) = [] \<and> cs_nc c = 0 \<and> cs_nf c = 0"

lemma fresh_inv: "fresh W c \<Longrightarrow> c_inv W c"
  by (simp add: fresh_def c_inv_def waiters_def awake_count_def Let_def)

end
