(* ===== verification/Sleeping.thy ===== *)
theory Sleeping imports Wait_Queue Sched_Tick begin

text \<open>
  What happens to a task that gives up the CPU: \<^verbatim>\<open>schedule\<close> takes it off its runqueue, and
  no pass of the loop brings it back before it is woken.
\<close>

declare split_paired_All [simp del] split_paired_Ex [simp del]

definition asleep :: "cpu \<Rightarrow> tptr \<Rightarrow> int \<Rightarrow> ('l, 'b) sched \<Rightarrow> bool" where
  "asleep me p state s \<longleftrightarrow> t_array (tasks s p) = None \<and> t_state (tasks s p) = state \<and>
     p \<noteq> current me s \<and> p \<noteq> rq_idle (rqs s me)"

context kernel_lib
begin

lemma schedule_once_asleep:
  fixes s :: "('l, 'b) sched" and lk :: bool
  assumes inv: "sched_inv K X s" and cpu: "cpu_ok X s me"
    and p: "t_array (tasks (leave_cpu K me s) p) = None" "t_state (tasks (leave_cpu K me s) p) = state"
      "p \<noteq> rq_idle (rqs s me)"
  shows "asleep me p state (schedule_once K lk me s)"
proof -
  obtain n s1 where c: "choose_next K lk me (leave_cpu K me s) = (n, s1)" by fastforce
  have r: "schedule_once K lk me s = switch_tasks me (current me s) n s1"
    by (simp add: schedule_once_def c)
  note ok = choose_next_ok [OF leave_cpu_inv [OF inv cpu] c]
  obtain s2 where s2: "(migrate K me)\<^sup>*\<^sup>* (leave_cpu K me s) s2" "tasks s1 = tasks s2"
    "\<And>c. rq_idle (rqs s1 c) = rq_idle (rqs s2 c)" "\<And>c. current c s1 = current c s2"
    using ok(3) by blast
  have arr: "t_array (tasks s1 p) = None"
    using migrations_inv [OF s2(1) leave_cpu_inv [OF inv cpu], of p] p(1) s2(2) by simp
  have state: "t_state (tasks s1 p) = state" using migrations_keep(3) [OF s2(1)] s2(2) p(2) by simp
  have idle: "rq_idle (rqs s1 me) = rq_idle (rqs s me)" using migrations_keep(2) [OF s2(1)] s2(3) by simp
  have "current me s1 = current me s" using migrations_keep(1) [OF s2(1)] s2(4) by simp
  then have "current me (switch_tasks me (current me s) n s1) = n" by (simp add: switch_tasks_current)
  moreover have "n \<noteq> p" using next_okD [OF ok(2)] arr idle p(3) by auto
  ultimately show ?thesis using arr state idle p(3) by (auto simp: asleep_def r)
qed

lemma schedule_once_stays_asleep:
  assumes "sched_inv K X s" and "cpu_ok X s me" and "asleep me p state s"
  shows "asleep me p state (schedule_once K lk me s)"
  using assms(3) by (intro schedule_once_asleep [OF assms(1,2)]) (simp_all add: asleep_def leave_cpu_other)

lemma schedule_once_sleeps:
  assumes "sched_inv K X s" and "cpu_ok X s me" and "p = current me s" and "p \<noteq> rq_idle (rqs s me)"
    and "t_state (tasks s p) \<noteq> TASK_RUNNING"
    and "t_state (tasks s p) = TASK_INTERRUPTIBLE \<longrightarrow> t_sigpending (tasks s p) = 0"
  shows "asleep me p (t_state (tasks s p)) (schedule_once K lk me s)"
proof (rule schedule_once_asleep [OF assms(1,2)])
  show "t_array (tasks (leave_cpu K me s) p) = None" "t_state (tasks (leave_cpu K me s) p) = t_state (tasks s p)"
    using assms(3,5,6) by (auto simp: leave_cpu_def Let_def)
qed (rule assms(4))

lemma schedule_sleeps:
  fixes s :: "('l, 'b) sched"
  assumes inv: "sched_inv K X s" and cpu: "cpu_ok X s me" and fin: "finite (flagged s)"
    and p: "p = current me s" "p \<noteq> rq_idle (rqs s me)" and state: "t_state (tasks s p) \<noteq> TASK_RUNNING"
    and sig: "t_state (tasks s p) = TASK_INTERRUPTIBLE \<longrightarrow> t_sigpending (tasks s p) = 0"
    and ret: "schedule K False lk me s = Some s'"
  shows "asleep me p (t_state (tasks s p)) s' \<and> sched_inv K X s' \<and> cpu_ok X s' me"
proof -
  define b :: "nat \<times> ('l, 'b) sched \<Rightarrow> bool" where "b = (\<lambda>(n, s). t_need_resched (tasks s (current me s)))"
  define c where "c = (\<lambda>(n, s). (n + 1, schedule_once K (lk n) me s))"
  define P :: "nat \<times> ('l, 'b) sched \<Rightarrow> bool" where
    "P = (\<lambda>(n, u). passed K X me u \<and> asleep me p (t_state (tasks s p)) u)"
  define x0 where "x0 = (1 :: nat, schedule_once K (lk 0) me s)"
  have start: "P x0"
    using pass_shrinks(1) [OF inv cpu fin] schedule_once_sleeps [OF inv cpu p state sig]
    by (simp add: P_def x0_def)
  have step: "P (c x)" if "P x" "b x" for x
    using that pass_shrinks(1) [where X = X and me = me] schedule_once_stays_asleep [where X = X and me = me]
    by (cases x) (auto simp: P_def c_def passed_def)
  obtain x where x: "while_option b c x0 = Some x" and s': "s' = snd x"
    using ret by (auto simp: schedule_def b_def c_def x0_def)
  have "P x" by (rule while_option_rule [where P = P, OF _ x start]) (use step in blast)
  then show ?thesis by (cases x) (simp add: P_def passed_def s')
qed

end

end
