(* ===== verification/Wait_Event.thy ===== *)
theory Wait_Event imports Completion begin

text \<open>
  The macros \<^verbatim>\<open>wait_event\<close> and \<^verbatim>\<open>wait_event_interruptible\<close> of \<^verbatim>\<open>linux/sched.h\<close>. They hold no lock between the
  test of the condition and the call of \<^verbatim>\<open>schedule\<close>, so each statement is a step, and the steps of other
  CPUs, which make the condition true and then wake the queue, come in between in any order.
\<close>

declare split_paired_All [simp del] split_paired_Ex [simp del]

section \<open>The statements of the macros\<close>

text \<open>The statement a waiter is at, and what it returns: nothing, or \<^verbatim>\<open>-ERESTARTSYS\<close>.\<close>

datatype event_pc = Starting | Adding | Setting | Testing | Sleeping | Leaving "errno option" | Over "errno option"

definition event_entry :: "tptr \<Rightarrow> wait_entry" where
  "event_entry p = \<lparr>wq_task = p, wq_exclusive = False\<rparr>"

definition wait_event_first :: "bool \<Rightarrow> event_pc" where
  "wait_event_first condition = (if condition then Over None else Adding)"

definition event_state :: "bool \<Rightarrow> int" where
  "event_state interruptible = (if interruptible then TASK_INTERRUPTIBLE else TASK_UNINTERRUPTIBLE)"

definition wait_event_test :: "bool \<Rightarrow> event_pc" where
  "wait_event_test condition = (if condition then Leaving None else Sleeping)"

definition wait_event_interruptible_test :: "bool \<Rightarrow> bool \<Rightarrow> event_pc" where
  "wait_event_interruptible_test condition signal_pending =
     (if condition then Leaving None else if \<not> signal_pending then Sleeping else Leaving (Some ERESTARTSYS))"

section \<open>The steps\<close>

text \<open>
  \<open>ev_owed\<close> says that the condition became true and the wake-up that follows has not been made yet. A sleeping
  waiter goes on when it is in state running. The rest of the kernel keeps the waiter's entry and the order
  of the queue, and changes the state of the waiter only by waking it.
\<close>

record ('w, 'l, 'b) event =
  ev_pc :: event_pc
  ev_q :: 'w
  ev_s :: "('l, 'b) sched"
  ev_cond :: bool
  ev_owed :: bool

definition event_wake :: "('l, 'b) klib \<Rightarrow> 'w wlib \<Rightarrow> bool \<Rightarrow> cpu \<Rightarrow> 'w \<Rightarrow> ('l, 'b) sched \<Rightarrow> ('l, 'b) sched" where
  "event_wake K W interruptible me q = (if interruptible then wake_up_interruptible K W me (Some q) else wake_up K W me (Some q))"

inductive estep :: "('l, 'b) klib \<Rightarrow> 'w wlib \<Rightarrow> bool \<Rightarrow> tptr \<Rightarrow> ('w, 'l, 'b) event \<Rightarrow> ('w, 'l, 'b) event \<Rightarrow> bool"
  for K :: "('l, 'b) klib" and W :: "'w wlib" and intr :: bool and p :: tptr where
  event_first: "ev_pc c = Starting \<Longrightarrow> estep K W intr p c (c\<lparr>ev_pc := wait_event_first (ev_cond c)\<rparr>)"
| event_add: "ev_pc c = Adding \<Longrightarrow>
    estep K W intr p c (c\<lparr>ev_pc := Setting, ev_q := snd (add_wait_queue W (event_entry p) (ev_q c))\<rparr>)"
| event_set: "ev_pc c = Setting \<Longrightarrow>
    estep K W intr p c (c\<lparr>ev_pc := Testing, ev_s := upd_task p (\<lambda>t. t\<lparr>t_state := event_state intr\<rparr>) (ev_s c)\<rparr>)"
| event_test: "ev_pc c = Testing \<Longrightarrow> \<not> intr \<Longrightarrow> estep K W intr p c (c\<lparr>ev_pc := wait_event_test (ev_cond c)\<rparr>)"
| event_test_intr: "ev_pc c = Testing \<Longrightarrow> intr \<Longrightarrow>
    estep K W intr p c (c\<lparr>ev_pc := wait_event_interruptible_test (ev_cond c) (t_sigpending (tasks (ev_s c) p) \<noteq> 0)\<rparr>)"
| event_resume: "ev_pc c = Sleeping \<Longrightarrow> awake (ev_s c) p \<Longrightarrow> estep K W intr p c (c\<lparr>ev_pc := Setting\<rparr>)"
| event_leave: "ev_pc c = Leaving r \<Longrightarrow>
    estep K W intr p c (c\<lparr>ev_pc := Over r, ev_s := upd_task p (\<lambda>t. t\<lparr>t_state := TASK_RUNNING\<rparr>) (ev_s c),
      ev_q := remove_wait_queue W (event_entry p) (ev_q c)\<rparr>)"
| event_happens: "estep K W intr p c (c\<lparr>ev_cond := True, ev_owed := True\<rparr>)"
| event_wakes: "estep K W intr p c (c\<lparr>ev_s := event_wake K W intr me (ev_q c) (ev_s c), ev_owed := False\<rparr>)"
| event_other: "awake s p \<or> t_state (tasks s p) = t_state (tasks (ev_s c) p) \<Longrightarrow>
    (event_entry p \<in> set (w_entries W (ev_q c)) \<longrightarrow> event_entry p \<in> set (w_entries W q)) \<Longrightarrow>
    wait_ordered (w_entries W q) \<Longrightarrow> estep K W intr p c (c\<lparr>ev_s := s, ev_q := q\<rparr>)"

section \<open>The invariant\<close>

definition on_queue :: "event_pc \<Rightarrow> bool" where
  "on_queue pc \<longleftrightarrow> pc = Setting \<or> pc = Testing \<or> pc = Sleeping"

definition ev_inv :: "'w wlib \<Rightarrow> bool \<Rightarrow> tptr \<Rightarrow> ('w, 'l, 'b) event \<Rightarrow> bool" where
  "ev_inv W intr p c \<longleftrightarrow>
     (on_queue (ev_pc c) \<or> ev_pc c = Starting \<or> ev_pc c = Adding \<longrightarrow> wait_ordered (w_entries W (ev_q c))) \<and>
     (on_queue (ev_pc c) \<longrightarrow> event_entry p \<in> set (w_entries W (ev_q c))) \<and>
     (ev_pc c = Testing \<or> ev_pc c = Sleeping \<longrightarrow> t_state (tasks (ev_s c) p) \<in> {TASK_RUNNING, event_state intr}) \<and>
     (ev_pc c = Sleeping \<and> ev_cond c \<and> \<not> ev_owed c \<longrightarrow> awake (ev_s c) p) \<and>
     (ev_pc c = Leaving None \<or> ev_pc c = Over None \<longrightarrow> ev_cond c)"

lemma event_wake_result:
  assumes "t_state (tasks s p) \<in> {TASK_RUNNING, event_state intr}"
  shows "t_state (tasks (event_wake K W intr me q s) p) \<in> {TASK_RUNNING, event_state intr}"
    and "wait_ordered (w_entries W q) \<Longrightarrow> event_entry p \<in> set (w_entries W q) \<Longrightarrow> awake (event_wake K W intr me q s) p"
proof -
  obtain mode where w: "event_wake K W intr me q s = wake_up_common K me mode 1 False (w_entries W q) s"
    and m: "event_state intr AND mode \<noteq> 0"
    by (cases intr) (auto simp: event_wake_def wake_up_def wake_up_interruptible_def wake_up_q_def event_state_def state_consts)
  show "t_state (tasks (event_wake K W intr me q s) p) \<in> {TASK_RUNNING, event_state intr}"
    using wake_up_common_state [of K me mode 1 False "w_entries W q" s p] assms unfolding w by auto
  show "awake (event_wake K W intr me q s) p" if "wait_ordered (w_entries W q)" "event_entry p \<in> set (w_entries W q)"
  proof (cases "t_state (tasks s p) = TASK_RUNNING")
    case True
    then show ?thesis using wake_up_common_keeps_running unfolding w awake_def by blast
  next
    case False
    then show ?thesis
      using assms m wake_all_shared [OF that, of s mode] unfolding w awake_def by (simp add: event_entry_def)
  qed
qed

context wait_lib
begin

lemma estep_inv: "estep K W intr p c c' \<Longrightarrow> ev_inv W intr p c \<Longrightarrow> ev_inv W intr p c'"
proof (induction rule: estep.induct)
  case (event_wakes c me)
  show ?case
  proof (cases "ev_pc c = Testing \<or> ev_pc c = Sleeping")
    case True
    then have "t_state (tasks (ev_s c) p) \<in> {TASK_RUNNING, event_state intr}" using event_wakes by (simp add: ev_inv_def)
    note W = event_wake_result [OF this, where K = K and W = W and me = me and q = "ev_q c"]
    show ?thesis using True W(1) W(2) event_wakes by (simp add: ev_inv_def on_queue_def)
  next
    case False
    with event_wakes show ?thesis by (simp add: ev_inv_def on_queue_def)
  qed
next
  case (event_add c)
  then show ?case by (simp add: ev_inv_def on_queue_def add_wait_queue_def Let_def add event_entry_def wait_ordered_Cons)
next
  case (event_other s c q)
  from event_other(1) show ?case
  proof
    assume "awake s p"
    then show ?thesis using event_other(2-4) by (simp add: ev_inv_def on_queue_def awake_def)
  next
    assume "t_state (tasks s p) = t_state (tasks (ev_s c) p)"
    then show ?thesis using event_other(2-4) by (simp add: ev_inv_def on_queue_def awake_def)
  qed
qed (simp_all add: ev_inv_def on_queue_def awake_def wait_event_first_def wait_event_test_def wait_event_interruptible_test_def)

lemma esteps_inv: "(estep K W intr p)\<^sup>*\<^sup>* c c' \<Longrightarrow> ev_inv W intr p c \<Longrightarrow> ev_inv W intr p c'"
  by (induction rule: rtranclp_induct) (auto intro: estep_inv)

end

end
