(* ===== verification/Wait_Props.thy ===== *)
theory Wait_Props imports Example_State Completion Sleeping Wait_Event begin

text \<open>Properties of the wait queues, of sleeping on them, and of completions.\<close>

section \<open>Wait queues\<close>

lemma wait_orderedE:
  assumes "wait_ordered es"
  obtains ns xs where "es = ns @ xs" and "\<forall>e \<in> set ns. \<not> wq_exclusive e" and "\<forall>e \<in> set xs. wq_exclusive e"
  using assms unfolding wait_ordered_def by blast

lemma wait_orderedI:
  assumes "\<And>e. e \<in> set ns \<Longrightarrow> \<not> wq_exclusive e" and "\<And>e. e \<in> set xs \<Longrightarrow> wq_exclusive e"
  shows "wait_ordered (ns @ xs)"
  unfolding wait_ordered_def using assms by blast

lemma wait_ordered_remove:
  assumes "wait_ordered es"
  shows "wait_ordered (remove1 x es)"
proof -
  obtain ns xs where e: "es = ns @ xs" "\<forall>e \<in> set ns. \<not> wq_exclusive e" "\<forall>e \<in> set xs. wq_exclusive e"
    by (rule wait_orderedE [OF assms])
  have "wait_ordered (remove1 x ns @ xs)" "wait_ordered (ns @ remove1 x xs)"
    by (rule wait_orderedI; use e in \<open>blast dest: notin_set_remove1\<close>)+
  then show ?thesis by (simp add: e(1) remove1_append)
qed

lemma wait_ordered_snoc:
  assumes "wait_ordered es" and "wq_exclusive e"
  shows "wait_ordered (es @ [e])"
proof -
  obtain ns xs where s: "es = ns @ xs" "\<forall>e \<in> set ns. \<not> wq_exclusive e" "\<forall>e \<in> set xs. wq_exclusive e"
    by (rule wait_orderedE [OF assms(1)])
  have "wait_ordered (ns @ (xs @ [e]))"
    by (rule wait_orderedI) (use s assms(2) in auto)
  then show ?thesis by (simp add: s(1))
qed

text \<open>
  A wait queue keeps its shared entries before the exclusive ones under
  \<^verbatim>\<open>add_wait_queue\<close>, \<^verbatim>\<open>add_wait_queue_exclusive\<close> and \<^verbatim>\<open>remove_wait_queue\<close>, and removing an entry that
  was just added, and was not on the queue before, gives the queue back.
\<close>

theorem wait_queue_order:
  assumes "wait_lib W" and "wait_ordered (w_entries W q)" and "add = add_wait_queue W \<or> add = add_wait_queue_exclusive W"
    and "add e q = (e', q')" and "e' \<notin> set (w_entries W q)"
  shows "wait_ordered (w_entries W q') \<and> w_entries W (remove_wait_queue W e' q') = w_entries W q \<and>
    (x \<in> set (w_entries W q) \<longrightarrow> wait_ordered (w_entries W (remove_wait_queue W x q)))"
proof -
  note R = wait_lib.remove [OF assms(1)]
  have r: "x \<in> set (w_entries W q) \<longrightarrow> wait_ordered (w_entries W (remove_wait_queue W x q))"
    using wait_ordered_remove [OF assms(2)] by (simp add: remove_wait_queue_def R)
  from assms(3) show ?thesis
  proof
    assume "add = add_wait_queue W"
    then have e: "\<not> wq_exclusive e'" "w_entries W q' = e' # w_entries W q"
      using assms(4) by (auto simp: add_wait_queue_def Let_def wait_lib.add [OF assms(1)])
    then have "wait_ordered (w_entries W q')" using assms(2) by (simp add: wait_ordered_Cons)
    moreover have "w_entries W (remove_wait_queue W e' q') = w_entries W q"
      by (simp add: remove_wait_queue_def R e(2))
    ultimately show ?thesis using r by blast
  next
    assume "add = add_wait_queue_exclusive W"
    then have e: "wq_exclusive e'" "w_entries W q' = w_entries W q @ [e']"
      using assms(4) by (auto simp: add_wait_queue_exclusive_def Let_def wait_lib.add_tail [OF assms(1)])
    have "wait_ordered (w_entries W q')" unfolding e(2) by (rule wait_ordered_snoc [OF assms(2) e(1)])
    moreover have "w_entries W (remove_wait_queue W e' q') = w_entries W q"
      using assms(5) by (simp add: remove_wait_queue_def R e(2) remove1_append)
    ultimately show ?thesis using r by blast
  qed
qed

theorem wait_queue_order_witness:
  "wait_ordered (w_entries list_wlib (snd (add_wait_queue list_wlib \<lparr>wq_task = 3, wq_exclusive = True\<rparr> [waiter 7])))"
proof -
  have o: "wait_ordered (w_entries list_wlib [waiter 7])"
    by (auto simp: wait_ordered_def list_wlib_def intro: exI [of _ "[]"])
  have "\<lparr>wq_task = 3, wq_exclusive = False\<rparr> \<notin> set (w_entries list_wlib [waiter 7])"
    by (simp add: list_wlib_def waiter_def)
  then show ?thesis
    using wait_queue_order [OF lw.wait_lib_axioms o, of "add_wait_queue list_wlib" "\<lparr>wq_task = 3, wq_exclusive = True\<rparr>"]
    by (simp add: add_wait_queue_def Let_def)
qed

text \<open>
  What one scan does to an entry: it is reached unless an exclusive sleeper before it has been put on
  a runqueue and the scan wakes only one.
\<close>

definition reached :: "int \<Rightarrow> bool \<Rightarrow> ('l, 'b) sched \<Rightarrow> wait_entry list \<Rightarrow> bool" where
  "reached mode one s as \<longleftrightarrow>
     \<not> (one \<and> (\<exists>x \<in> set as. wq_exclusive x \<and> t_state (tasks s (wq_task x)) AND mode \<noteq> 0 \<and>
       t_array (tasks s (wq_task x)) = None))"

lemma reached_Cons:
  "reached mode one s (a # as) \<longleftrightarrow>
    \<not> (one \<and> wq_exclusive a \<and> t_state (tasks s (wq_task a)) AND mode \<noteq> 0 \<and> t_array (tasks s (wq_task a)) = None) \<and>
    reached mode one s as"
  by (auto simp: reached_def)

lemma reached_cong:
  assumes "\<And>x. x \<in> set as \<Longrightarrow> t_state (tasks u (wq_task x)) = t_state (tasks s (wq_task x)) \<and>
    t_array (tasks u (wq_task x)) = t_array (tasks s (wq_task x))"
  shows "reached mode one u as \<longleftrightarrow> reached mode one s as"
  using assms by (simp add: reached_def)

lemma scan_effect:
  assumes "distinct (map wq_task (as @ e # bs))" and "one \<longleftrightarrow> nr = 1" and "one \<or> nr \<le> 0"
    and "s' = wake_up_common K me mode nr sync (as @ e # bs) s"
  shows "if t_state (tasks s (wq_task e)) AND mode \<noteq> 0 \<and> reached mode one s as
    then t_state (tasks s' (wq_task e)) = TASK_RUNNING \<and> t_array (tasks s' (wq_task e)) \<noteq> None
    else t_state (tasks s' (wq_task e)) = t_state (tasks s (wq_task e)) \<and>
      t_array (tasks s' (wq_task e)) = t_array (tasks s (wq_task e))"
  using assms
proof (induction as arbitrary: s nr)
  case Nil
  let ?t = "snd (try_to_wake_up K me (wq_task e) sync s)"
  have e: "wq_task e \<notin> wq_task ` set bs" using Nil.prems(1) by simp
  note F = wake_up_common_frame [OF e, where K = K and me = me and mode = mode and sync = sync]
  have "t_state (tasks ?t (wq_task e)) = TASK_RUNNING" "t_array (tasks ?t (wq_task e)) \<noteq> None"
    using try_to_wake_up_result(2,3) [where K = K and p = "wq_task e" and sync = sync and s = s] by simp_all
  then show ?case
    using F by (simp add: Nil.prems(4) wake_up_common_Cons Let_def reached_def)
next
  case (Cons a as)
  let ?t = "snd (try_to_wake_up K me (wq_task a) sync s)"
  have d: "distinct (map wq_task (as @ e # bs))" using Cons.prems(1) by simp
  have same: "t_state (tasks ?t (wq_task x)) = t_state (tasks s (wq_task x)) \<and>
      t_array (tasks ?t (wq_task x)) = t_array (tasks s (wq_task x))" if "x \<in> set (as @ e # bs)" for x
  proof -
    have "wq_task x \<noteq> wq_task a" using that Cons.prems(1) by (metis append_Cons distinct.simps(2) image_eqI list.simps(9) set_map)
    then show ?thesis by (simp add: try_to_wake_up_other)
  qed
  have r: "reached mode one ?t as \<longleftrightarrow> reached mode one s as"
    by (rule reached_cong) (use same in auto)
  note e = same [of e, simplified]
  show ?case
  proof (cases "t_state (tasks s (wq_task a)) AND mode = 0")
    case True
    then have "s' = wake_up_common K me mode nr sync (as @ e # bs) s"
      by (simp add: Cons.prems(4) wake_up_common_Cons)
    from Cons.IH [OF d Cons.prems(2,3) this] True show ?thesis by (simp add: reached_Cons)
  next
    case wake: False
    show ?thesis
    proof (cases "t_array (tasks s (wq_task a)) = None \<and> wq_exclusive a")
      case True
      show ?thesis
      proof (cases one)
        case one: True
        with True wake Cons.prems(2) have "s' = ?t" "\<not> reached mode one s (a # as)"
          by (simp_all add: Cons.prems(4) wake_up_common_Cons Let_def reached_Cons)
        with e show ?thesis by simp
      next
        case all: False
        with Cons.prems(2,3) have nr: "one \<longleftrightarrow> nr - 1 = 1" "one \<or> nr - 1 \<le> 0" by auto
        have "s' = wake_up_common K me mode (nr - 1) sync (as @ e # bs) ?t"
          using True wake Cons.prems(2) all by (simp add: Cons.prems(4) wake_up_common_Cons Let_def)
        from Cons.IH [OF d nr this] all e r show ?thesis by (simp add: reached_Cons)
      qed
    next
      case False
      then have "s' = wake_up_common K me mode nr sync (as @ e # bs) ?t"
        using wake by (auto simp: Cons.prems(4) wake_up_common_Cons Let_def)
      from Cons.IH [OF d Cons.prems(2,3) this] False e r show ?thesis by (auto simp: reached_Cons)
    qed
  qed
qed

text \<open>
  C20. What the wake-up calls do to a queue of distinct tasks, entry by entry. \<^verbatim>\<open>wake_up\<close> and
  \<^verbatim>\<open>wake_up_interruptible\<close>, with or without \<^verbatim>\<open>sync\<close>, make every sleeping task of the queue runnable up to
  the first exclusive entry whose task they put on a runqueue, that one included, and none after it;
  \<^verbatim>\<open>wake_up_all\<close> and \<^verbatim>\<open>wake_up_interruptible_all\<close> every sleeping task. The interruptible calls count
  only tasks in interruptible sleep as sleeping. All other tasks keep their state and their array,
  and the invariants of the runqueues and of every CPU stay.
\<close>

theorem wake_up_effect:
  assumes "kernel_lib K" and "sched_inv K X s" and "distinct (map wq_task (w_entries W q))"
    and "\<And>e. e \<in> set (w_entries W q) \<Longrightarrow> wq_task e \<notin> X \<and> t_prio (tasks s (wq_task e)) < MAX_PRIO"
    and "(wake, mode, one) \<in> {
      (wake_up K W me, TASK_INTERRUPTIBLE OR TASK_UNINTERRUPTIBLE, True),
      (wake_up_interruptible K W me, TASK_INTERRUPTIBLE, True),
      (wake_up_interruptible_sync K W me, TASK_INTERRUPTIBLE, True),
      (wake_up_all K W me, TASK_INTERRUPTIBLE OR TASK_UNINTERRUPTIBLE, False),
      (wake_up_interruptible_all K W me, TASK_INTERRUPTIBLE, False)}"
    and "s' = wake (Some q) s"
  shows "sched_inv K X s' \<and> (\<forall>c. cpu_ok X s c \<longrightarrow> cpu_ok X s' c) \<and>
    (\<forall>as e bs. w_entries W q = as @ e # bs \<longrightarrow>
      (if t_state (tasks s (wq_task e)) AND mode \<noteq> 0 \<and>
          \<not> (one \<and> (\<exists>x \<in> set as. wq_exclusive x \<and> t_state (tasks s (wq_task x)) AND mode \<noteq> 0 \<and>
            t_array (tasks s (wq_task x)) = None))
       then t_state (tasks s' (wq_task e)) = TASK_RUNNING \<and> t_array (tasks s' (wq_task e)) \<noteq> None
       else t_state (tasks s' (wq_task e)) = t_state (tasks s (wq_task e)) \<and>
         t_array (tasks s' (wq_task e)) = t_array (tasks s (wq_task e)))) \<and>
    (\<forall>p. p \<notin> wq_task ` set (w_entries W q) \<longrightarrow>
      t_state (tasks s' p) = t_state (tasks s p) \<and> t_array (tasks s' p) = t_array (tasks s p))"
proof -
  obtain nr sync where s': "s' = wake_up_common K me mode nr sync (w_entries W q) s"
    and nr: "one \<longleftrightarrow> nr = 1" "one \<or> nr \<le> 0"
    using assms(5) unfolding assms(6)
    by (cases "k_config_smp K")
      (auto simp: wake_up_def wake_up_all_def wake_up_interruptible_def wake_up_interruptible_all_def
        wake_up_interruptible_sync_def wake_up_q_def wake_up_q_sync_def or.commute)
  have inv: "sched_inv K X s'" "\<And>c. cpu_ok X s c \<Longrightarrow> cpu_ok X s' c"
    unfolding s' using kernel_lib.wake_up_common_inv [OF assms(1,2,4)] by blast+
  have "if t_state (tasks s (wq_task e)) AND mode \<noteq> 0 \<and> reached mode one s as
    then t_state (tasks s' (wq_task e)) = TASK_RUNNING \<and> t_array (tasks s' (wq_task e)) \<noteq> None
    else t_state (tasks s' (wq_task e)) = t_state (tasks s (wq_task e)) \<and>
      t_array (tasks s' (wq_task e)) = t_array (tasks s (wq_task e))"
    if "w_entries W q = as @ e # bs" for as e bs
    by (rule scan_effect [OF _ nr]) (use assms(3) that s' in simp_all)
  moreover have "t_state (tasks s' p) = t_state (tasks s p) \<and> t_array (tasks s' p) = t_array (tasks s p)"
    if "p \<notin> wq_task ` set (w_entries W q)" for p
    unfolding s' using wake_up_common_frame [OF that] by blast
  ultimately show ?thesis
    using inv unfolding reached_def by blast
qed

theorem wake_up_effect_witness:
  "t_state (tasks (wake_up Kx list_wlib 0 (Some [waiter 3, waiter 7, waiter 5]) (sleeping other_ex)) 7) = TASK_RUNNING \<and>
   t_state (tasks (wake_up Kx list_wlib 0 (Some [waiter 3, waiter 7, waiter 5]) (sleeping other_ex)) 3) = TASK_RUNNING"
proof -
  have ok: "ex_ok other_ex" by simp
  let ?q = "[waiter 3, waiter 7, waiter 5]"
  have s: "t_state other_ex = TASK_INTERRUPTIBLE" "t_state (tasks (sleeping other_ex) 3) = TASK_RUNNING"
    "\<And>p. p \<noteq> 0 \<Longrightarrow> t_prio (tasks (sleeping other_ex) p) < MAX_PRIO"
    by (simp_all add: sleeping_def ex_defs TASK_RUNNING_def)
  have E: "w_entries list_wlib ?q = [] @ waiter 3 # [waiter 7, waiter 5]"
    "w_entries list_wlib ?q = [waiter 3] @ waiter 7 # [waiter 5]" by (simp_all add: list_wlib_def)
  have d: "distinct (map wq_task (w_entries list_wlib ?q))" by (simp add: list_wlib_def)
  have h: "wq_task e \<notin> {} \<and> t_prio (tasks (sleeping other_ex) (wq_task e)) < MAX_PRIO" if "e \<in> set (w_entries list_wlib ?q)" for e
    using that s(3) by (auto simp: list_wlib_def simp del: sleeping_simps)
  have m: "TASK_INTERRUPTIBLE AND (TASK_INTERRUPTIBLE OR TASK_UNINTERRUPTIBLE) \<noteq> 0"
    by (simp add: state_consts)
  note W = wake_up_effect [OF ref512.kernel_lib_axioms sleeping_inv [OF ok] d h insertI1 refl, where me = 0,
      THEN conjunct2, THEN conjunct2, THEN conjunct1, rule_format]
  show ?thesis using W [OF _ E(1)] W [OF _ E(2)] by (simp add: s m)
qed

text \<open>
  C21. A task that calls \<^verbatim>\<open>sleep_on\<close> leaves the CPU and every runqueue, with its entry on the
  queue, and a later \<^verbatim>\<open>wake_up\<close> of the queue makes it runnable again: the wake-up is not lost.
\<close>

theorem sleep_on_then_wake_up:
  assumes "kernel_lib K" and "wait_lib W" and "sched_inv K X s" and "cpu_ok X s me"
    and "finite {p. t_need_resched (tasks s p)}" and "p = current me s" and "p \<noteq> rq_idle (rqs s me)"
    and "sleep_on K W lk me q s = Some (e, q', s')" and "wait_ordered (w_entries W q)"
  shows "t_array (tasks s' p) = None \<and> current me s' \<noteq> p \<and> wq_task e = p \<and> e \<in> set (w_entries W q') \<and>
    (let w = wake_up K W me2 (Some q') s'
     in t_state (tasks w p) = TASK_RUNNING \<and> t_array (tasks w p) \<noteq> None)"
proof -
  let ?s = "upd_task p (\<lambda>t. t\<lparr>t_state := TASK_UNINTERRUPTIBLE\<rparr>) s"
  have q: "e = \<lparr>wq_task = p, wq_exclusive = False\<rparr>" "w_entries W q' = e # w_entries W q"
    and ret: "schedule K False lk me ?s = Some s'"
    using assms(6,8) by (auto simp: sleep_on_def sleep_head_def Let_def wait_lib.add [OF assms(2)])
  have inv: "sched_inv K X ?s" by (rule sched_inv_state [OF assms(3)])
  have cpu: "cpu_ok X ?s me"
    using assms(4,6,7) by (auto simp: cpu_ok_def current_def)
  have fin: "finite (flagged ?s)"
    by (rule finite_subset [OF _ assms(5)]) (auto simp: flagged_def split: if_splits)
  have a: "asleep me p TASK_UNINTERRUPTIBLE s'"
    using kernel_lib.schedule_sleeps [OF assms(1) inv cpu fin _ _ _ _ ret, where p = p] assms(6,7)
    by (simp add: state_consts)
  have "wait_ordered (w_entries W q')" using assms(9) q by (simp add: wait_ordered_Cons)
  moreover have "e \<in> set (w_entries W q')" "\<not> wq_exclusive e" using q by simp_all
  moreover have "t_state (tasks s' (wq_task e)) AND 3 \<noteq> 0"
    using a wake_modes(3) by (simp add: asleep_def q(1))
  ultimately show ?thesis
    using wake_all_shared [of "w_entries W q'" e s' 3 K me2 1 False] a q
    by (auto simp: Let_def asleep_def wake_up_def wake_up_q_def)
qed

lemma running_flagged:
  assumes "ex_ok t"
  shows "finite {p. t_need_resched (tasks (running t) p)}"
proof (rule finite_subset)
  show "{p. t_need_resched (tasks (running t) p)} \<subseteq> {0, 7}"
    using ref512.schedule_once_ok(4) [OF woken_inv [OF assms], where lk = True] woken_tasks(11) [OF assms]
    unfolding running_def by blast
qed simp

theorem sleep_on_then_wake_up_witness:
  "\<exists>e q' s'. sleep_on Kx list_wlib (\<lambda>_. True) 0 [] (running other_ex) = Some (e, q', s') \<and> wq_task e = 7 \<and>
    t_array (tasks s' 7) = None \<and> t_state (tasks (wake_up Kx list_wlib 0 (Some q') s') 7) = TASK_RUNNING"
proof -
  have ok: "ex_ok other_ex" by simp
  note R = running_tasks [OF ok] and I = running_inv [OF ok]
  let ?s = "upd_task 7 (\<lambda>t. t\<lparr>t_state := TASK_UNINTERRUPTIBLE\<rparr>) (running other_ex)"
  have inv: "sched_inv Kx {} ?s" by (rule sched_inv_state [OF I(1)])
  have cpu: "cpu_ok {} ?s 0"
    using I(2) R by (simp add: cpu_ok_def)
  have "finite (flagged ?s)"
    by (rule finite_subset [OF _ running_flagged [OF ok]]) (auto simp: flagged_def split: if_splits)
  then obtain s' where s': "schedule Kx False (\<lambda>_. True) 0 ?s = Some s'"
    using ref512.schedule_returns [OF inv cpu] by blast
  obtain e q' where e: "sleep_on Kx list_wlib (\<lambda>_. True) 0 [] (running other_ex) = Some (e, q', s')"
    using s' R(1) by (auto simp: sleep_on_def sleep_head_def Let_def)
  have "wait_ordered (w_entries list_wlib [])" by (simp add: wait_ordered_def list_wlib_def)
  then show ?thesis
    using sleep_on_then_wake_up [OF ref512.kernel_lib_axioms lw.wait_lib_axioms I running_flagged [OF ok]
        R(1) [symmetric] _ e] e R(6)
    by (simp add: Let_def)
qed

section \<open>Completions\<close>

text \<open>
  In every run around a fresh completion, whatever the order of the calls: a wait
  returns only for a call of \<^verbatim>\<open>complete\<close>, and \<^verbatim>\<open>done\<close> counts the completions nobody has taken yet.
\<close>

theorem completion_counts:
  assumes "wait_lib W" and "fresh W c" and "(cstep K W)\<^sup>*\<^sup>* c c'" and "cs_nc c' < 2 ^ 32"
  shows "cs_nf c' \<le> cs_nc c' \<and> unat (c_done (cs_x c')) = cs_nc c' - cs_nf c'"
  using c_invD(1) [OF wait_lib.csteps_inv [OF assms(1,3) fresh_inv [OF assms(2)] assms(4)]] by linarith

text \<open>The example run: task 7 waits, a completion is signalled, task 7 goes on.\<close>

definition cs_fresh :: "(wait_entry list, qid \<Rightarrow> tptr list, int list) csys" where
  "cs_fresh = \<lparr>cs_x = \<lparr>c_done = 0, c_wait = []\<rparr>, cs_s = running other_ex, cs_nc = 0, cs_nf = 0\<rparr>"

definition cs_waiting :: "(wait_entry list, qid \<Rightarrow> tptr list, int list) csys" where
  "cs_waiting = cs_fresh\<lparr>cs_x := \<lparr>c_done = 0, c_wait = [waiter 7]\<rparr>,
     cs_s := upd_task 7 (\<lambda>t. t\<lparr>t_state := TASK_UNINTERRUPTIBLE\<rparr>) (running other_ex)\<rparr>"

definition cs_signalled :: "(wait_entry list, qid \<Rightarrow> tptr list, int list) csys" where
  "cs_signalled = cs_waiting\<lparr>cs_x := \<lparr>c_done = 1, c_wait = [waiter 7]\<rparr>,
     cs_s := wake_up_common Kx 0 3 1 False [waiter 7] (cs_s cs_waiting), cs_nc := 1\<rparr>"

lemma cs_run:
  "fresh list_wlib cs_fresh" "(cstep Kx list_wlib)\<^sup>*\<^sup>* cs_fresh cs_signalled" "cs_nc cs_signalled = 1"
proof -
  have ok: "ex_ok other_ex" by simp
  note R = running_tasks [OF ok]
  show "fresh list_wlib cs_fresh" by (simp add: fresh_def cs_fresh_def list_wlib_def)
  show "cs_nc cs_signalled = 1" by (simp add: cs_signalled_def)
  have enter: "wait_enter list_wlib 0 (cs_x cs_fresh) (cs_s cs_fresh) =
      (False, \<lparr>c_done = 0, c_wait = [waiter 7]\<rparr>, upd_task 7 (\<lambda>t. t\<lparr>t_state := TASK_UNINTERRUPTIBLE\<rparr>) (running other_ex))"
    by (simp add: wait_enter_def cs_fresh_def R(1) list_wlib_def)
  have "current 0 (cs_s cs_fresh) \<notin> set (waiters list_wlib (cs_x cs_fresh))"
    by (simp add: waiters_def cs_fresh_def list_wlib_def)
  then have "cstep Kx list_wlib cs_fresh cs_waiting"
    using step_enter [OF _ enter, where K = Kx] by (simp add: cs_waiting_def cs_fresh_def)
  moreover have "complete Kx list_wlib 0 (cs_x cs_waiting) (cs_s cs_waiting) =
      (cs_x cs_signalled, cs_s cs_signalled)"
    by (simp add: complete_def cs_signalled_def cs_waiting_def cs_fresh_def list_wlib_def)
  then have "cstep Kx list_wlib cs_waiting cs_signalled"
    using step_complete [where K = Kx and W = list_wlib and c = cs_waiting and me = 0]
    by (simp add: cs_signalled_def cs_waiting_def cs_fresh_def)
  ultimately show "(cstep Kx list_wlib)\<^sup>*\<^sup>* cs_fresh cs_signalled"
    by (meson converse_rtranclp_into_rtranclp rtranclp.rtrancl_refl)
qed

theorem completion_counts_witness:
  "cs_nf cs_signalled \<le> 1 \<and> unat (c_done (cs_x cs_signalled)) = 1 - cs_nf cs_signalled"
  using completion_counts [OF lw.wait_lib_axioms cs_run(1,2)] by (simp add: cs_run(3))

text \<open>
  C30. No completion is lost: in every run around a fresh completion, when \<^verbatim>\<open>complete\<close> has been
  called \<open>n\<close> times more than waits have returned, at least \<open>n\<close> of the tasks on the queue, or all of
  them if they are fewer, are in state running. (Each of them takes one completion when it goes on, as
  long as \<^verbatim>\<open>done\<close> is not 0; which of them come first is up to the scheduler.)
\<close>

theorem completion_no_lost_wakeup:
  assumes "wait_lib W" and "fresh W c" and "(cstep K W)\<^sup>*\<^sup>* c c'" and "cs_nc c' < 2 ^ 32"
    and "es = w_entries W (c_wait (cs_x c'))"
  shows "distinct (map wq_task es) \<and>
    min (cs_nc c' - cs_nf c') (length es) \<le>
      length (filter (\<lambda>e. t_state (tasks (cs_s c') (wq_task e)) = TASK_RUNNING) es)"
proof -
  note I = c_invD [OF wait_lib.csteps_inv [OF assms(1,3) fresh_inv [OF assms(2)] assms(4)]]
  have "unat (c_done (cs_x c')) = cs_nc c' - cs_nf c'" using I(1) by linarith
  then show ?thesis
    using I(2,5) by (simp add: assms(5) waiters_def awake_count_def filter_map awake_def comp_def)
qed

theorem completion_no_lost_wakeup_witness:
  "t_state (tasks (cs_s cs_signalled) 7) = TASK_RUNNING"
proof -
  have "w_entries list_wlib (c_wait (cs_x cs_signalled)) = [waiter 7]" "cs_nf cs_signalled = 0"
    by (simp_all add: cs_signalled_def cs_waiting_def cs_fresh_def list_wlib_def)
  then show ?thesis
    using completion_no_lost_wakeup [OF lw.wait_lib_axioms cs_run(1,2) _ refl]
    by (simp add: cs_run(3) split: if_splits)
qed

section \<open>Events\<close>

text \<open>
  C31. \<^verbatim>\<open>wait_event\<close> and \<^verbatim>\<open>wait_event_interruptible\<close> lose no wake-up, although they hold no lock: in every interleaving
  with CPUs that make the condition true and then wake the queue, a waiter that sleeps in \<^verbatim>\<open>schedule\<close> after
  the wake-up was made is in state running and will go on; and the macros return 0 only when the condition is true.
\<close>

theorem wait_event_no_lost_wakeup:
  assumes "wait_lib W" and "ev_pc c = Starting" and "wait_ordered (w_entries W (ev_q c))" and "(estep K W intr p)\<^sup>*\<^sup>* c c'"
  shows "(ev_pc c' = Sleeping \<and> ev_cond c' \<and> \<not> ev_owed c' \<longrightarrow> t_state (tasks (ev_s c') p) = TASK_RUNNING) \<and>
    (ev_pc c' = Over None \<longrightarrow> ev_cond c')"
proof -
  have "ev_inv W intr p c" using assms(2,3) by (simp add: ev_inv_def on_queue_def)
  from wait_lib.esteps_inv [OF assms(1,4) this] show ?thesis by (simp add: ev_inv_def awake_def)
qed

text \<open>Task 7 starts to wait; the event happens only after it has tested the condition.\<close>

definition ev_start :: "(wait_entry list, qid \<Rightarrow> tptr list, int list) event" where
  "ev_start = \<lparr>ev_pc = Starting, ev_q = [], ev_s = running other_ex, ev_cond = False, ev_owed = False\<rparr>"

definition ev_asleep :: "(wait_entry list, qid \<Rightarrow> tptr list, int list) event" where
  "ev_asleep = \<lparr>ev_pc = Sleeping, ev_q = [event_entry 7], ev_s = upd_task 7 (\<lambda>t. t\<lparr>t_state := TASK_UNINTERRUPTIBLE\<rparr>) (running other_ex),
     ev_cond = False, ev_owed = False\<rparr>"

lemma ev_run: "(estep Kx list_wlib False 7)\<^sup>*\<^sup>* ev_start ev_asleep"
proof -
  let ?E = "estep Kx list_wlib False 7" and ?q = "[event_entry 7]"
  have "?E ev_start (ev_start\<lparr>ev_pc := Adding\<rparr>)"
    using event_first [of ev_start Kx list_wlib False 7] by (simp add: ev_start_def wait_event_first_def)
  moreover have "?E (ev_start\<lparr>ev_pc := Adding\<rparr>) (ev_start\<lparr>ev_pc := Setting, ev_q := ?q\<rparr>)"
    using event_add [of "ev_start\<lparr>ev_pc := Adding\<rparr>" Kx list_wlib False 7]
    by (simp add: ev_start_def add_wait_queue_def Let_def list_wlib_def event_entry_def)
  moreover have "?E (ev_start\<lparr>ev_pc := Setting, ev_q := ?q\<rparr>) (ev_asleep\<lparr>ev_pc := Testing\<rparr>)"
    using event_set [of "ev_start\<lparr>ev_pc := Setting, ev_q := ?q\<rparr>" Kx list_wlib False 7]
    by (simp add: ev_start_def ev_asleep_def event_state_def)
  moreover have "?E (ev_asleep\<lparr>ev_pc := Testing\<rparr>) ev_asleep"
    using event_test [of "ev_asleep\<lparr>ev_pc := Testing\<rparr>" False Kx list_wlib 7] by (simp add: ev_asleep_def wait_event_test_def)
  ultimately show ?thesis by (meson converse_rtranclp_into_rtranclp rtranclp.rtrancl_refl)
qed

theorem wait_event_no_lost_wakeup_witness:
  "\<exists>c. (estep Kx list_wlib False 7)\<^sup>*\<^sup>* ev_start c \<and> ev_pc c = Sleeping \<and> t_state (tasks (ev_s c) 7) = TASK_RUNNING"
proof -
  let ?E = "estep Kx list_wlib False 7"
  define c1 where "c1 = ev_asleep\<lparr>ev_cond := True, ev_owed := True\<rparr>"
  define c2 where "c2 = c1\<lparr>ev_s := event_wake Kx list_wlib False 0 (ev_q c1) (ev_s c1), ev_owed := False\<rparr>"
  have "?E ev_asleep c1" "?E c1 c2" unfolding c1_def c2_def by (rule event_happens, rule event_wakes)
  with ev_run have run: "?E\<^sup>*\<^sup>* ev_start c2" by (meson rtranclp.rtrancl_into_rtrancl)
  have c2: "ev_pc c2 = Sleeping" "ev_cond c2" "\<not> ev_owed c2" by (simp_all add: c2_def c1_def ev_asleep_def)
  have "ev_pc ev_start = Starting" "wait_ordered (w_entries list_wlib (ev_q ev_start))"
    by (simp_all add: ev_start_def wait_ordered_def list_wlib_def)
  from wait_event_no_lost_wakeup [OF lw.wait_lib_axioms this run] c2 run show ?thesis by blast
qed

end
