(* ===== verification/Affinity.thy ===== *)
theory Affinity imports Wakeup Schedule Syscall_Inv begin

text \<open>
  CPU affinity: \<^verbatim>\<open>set_cpus_allowed\<close>, \<^verbatim>\<open>sys_sched_setaffinity\<close>, the migration thread of a CPU, and
  the polling loop of \<^verbatim>\<open>wait_task_inactive\<close>. A migration request is its task; the semaphore that the
  requester waits on is the result of the step that serves the request.
\<close>

declare split_paired_All [simp del] split_paired_Ex [simp del]

section \<open>Operations\<close>

text \<open>
  The value \<open>True\<close> says that the caller has queued a request and waits for it. In the
  uniprocessor build the function is the empty macro of \<^verbatim>\<open>sched.h\<close>.
\<close>

definition set_cpus_allowed ::
  "('l, 'b) klib \<Rightarrow> cpu \<Rightarrow> tptr \<Rightarrow> u32 \<Rightarrow> ('l, 'b) sched \<Rightarrow> bool \<times> ('l, 'b) sched" where
  "set_cpus_allowed K me p new_mask s =
     (if \<not> k_config_smp K then (False, s)
      else
        (let new_mask = new_mask AND k_cpu_online_map K in
         if new_mask = 0 then (False, s\<lparr>bug := True\<rparr>)
         else
           (let rq = t_cpu (tasks s p);
                s = upd_task p (\<lambda>t. t\<lparr>t_cpus_allowed := new_mask\<rparr>) s
            in if new_mask AND push_bit rq 1 \<noteq> 0 then (False, s)
               else if t_array (tasks s p) = None \<and> p \<noteq> rq_curr (rqs s rq)
               then (False, upd_task p (\<lambda>t. t\<lparr>t_cpu := k_ffs K (t_cpus_allowed t)\<rparr>) s)
               else (let s = upd_rq rq (\<lambda>r. r\<lparr>rq_migration_queue := p # rq_migration_queue r\<rparr>) s
                     in (True, snd (wake_up_process K me (the (rq_migration_thread (rqs s rq))) s))))))"

definition sys_sched_setaffinity ::
  "('l, 'b) klib \<Rightarrow> cpu \<Rightarrow> int \<Rightarrow> u32 \<Rightarrow> u32 \<Rightarrow> bool \<Rightarrow> ('l, 'b) sched \<Rightarrow> int kres \<times> bool \<times> ('l, 'b) sched" where
  "sys_sched_setaffinity K me pid len user_mask fault s =
     (if len < 4 then (Inl EINVAL, False, s)
      else if fault then (Inl EFAULT, False, s)
      else
        (let new_mask = user_mask AND k_cpu_online_map K in
         if new_mask = 0 then (Inl EINVAL, False, s)
         else case find_process_by_pid me pid s of None \<Rightarrow> (Inl ESRCH, False, s)
         | Some p \<Rightarrow>
             (let (nice, s) = capable K me CAP_SYS_NICE s;
                  new_mask = (if \<not> nice then new_mask AND t_cpus_allowed_mask (tasks s p) else new_mask);
                  (nice, s) = capable K me CAP_SYS_NICE s;
                  s = (if nice
                       then upd_task p (\<lambda>t. t\<lparr>t_cpus_allowed_mask := t_cpus_allowed_mask t OR new_mask\<rparr>) s
                       else s)
              in if new_mask = 0 then (Inl EINVAL, False, s)
                 else
                   (let cur = tasks s (current me s); t = tasks s p;
                        (ok, s) = (if t_euid cur \<noteq> t_euid t \<and> t_euid cur \<noteq> t_uid t
                                   then capable K me CAP_SYS_NICE s else (True, s))
                    in if \<not> ok then (Inl EPERM, False, s)
                       else (let (waits, s) = set_cpus_allowed K me p new_mask s in (Inr 0, waits, s))))))"

text \<open>
  One round of the migration thread's loop, on its CPU: \<open>None\<close> when the queue is empty and it
  calls \<^verbatim>\<open>schedule\<close>, otherwise the request it has served.
\<close>

definition migrate_request :: "('l, 'b) klib \<Rightarrow> cpu \<Rightarrow> tptr \<Rightarrow> ('l, 'b) sched \<Rightarrow> ('l, 'b) sched" where
  "migrate_request K rq p s =
     (let cpu_dest = k_ffs K (t_cpus_allowed (tasks s p));
          cpu_src = t_cpu (tasks s p)
      in if cpu_src = rq
         then (let s = upd_task p (\<lambda>t. t\<lparr>t_cpu := cpu_dest\<rparr>) s
               in if t_array (tasks s p) \<noteq> None
                  then activate_task K p cpu_dest (deactivate_task K p cpu_src s) else s)
         else s)"

definition migration_round ::
  "('l, 'b) klib \<Rightarrow> cpu \<Rightarrow> ('l, 'b) sched \<Rightarrow> tptr option \<times> ('l, 'b) sched" where
  "migration_round K me s =
     (let s = upd_task (current me s) (\<lambda>t. t\<lparr>t_state := TASK_INTERRUPTIBLE\<rparr>) s
      in case rq_migration_queue (rqs s me) of [] \<Rightarrow> (None, s)
         | p # ps \<Rightarrow> (Some p, migrate_request K me p (upd_rq me (\<lambda>r. r\<lparr>rq_migration_queue := ps\<rparr>) s)))"

text \<open>
  \<^verbatim>\<open>wait_task_inactive\<close> polls. \<open>obs\<close> gives the state it sees at each reading; the second test of
  a round is made under the runqueue's lock. The value is the number of the last reading.
\<close>

partial_function (option) wait_task_inactive ::
  "(nat \<Rightarrow> ('l, 'b) sched) \<Rightarrow> tptr \<Rightarrow> nat \<Rightarrow> nat option" where
  "wait_task_inactive obs p n =
     (if rq_curr (rqs (obs n) (t_cpu (tasks (obs n) p))) = p then wait_task_inactive obs p (n + 1)
      else if rq_curr (rqs (obs (n + 1)) (t_cpu (tasks (obs (n + 1)) p))) = p
      then wait_task_inactive obs p (n + 2)
      else Some (n + 1))"

section \<open>The affinity of a task\<close>

lemma wait_task_inactive_correct:
  assumes "wait_task_inactive obs p n = Some m"
  shows "rq_curr (rqs (obs m) (t_cpu (tasks (obs m) p))) \<noteq> p \<and> n < m"
proof (rule wait_task_inactive.raw_induct [OF _ assms])
  fix f :: "(nat \<Rightarrow> ('a, 'b) sched) \<Rightarrow> tptr \<Rightarrow> nat \<Rightarrow> nat option" and obs p n m
  assume "\<And>obs p n m. f obs p n = Some m \<Longrightarrow> rq_curr (rqs (obs m) (t_cpu (tasks (obs m) p))) \<noteq> p \<and> n < m"
    and "(if rq_curr (rqs (obs n) (t_cpu (tasks (obs n) p))) = p then f obs p (n + 1)
      else if rq_curr (rqs (obs (n + 1)) (t_cpu (tasks (obs (n + 1)) p))) = p then f obs p (n + 2)
      else Some (n + 1)) = Some m"
  then show "rq_curr (rqs (obs m) (t_cpu (tasks (obs m) p))) \<noteq> p \<and> n < m"
    by (fastforce split: if_splits)
qed

lemma wait_task_inactive_returns:
  assumes "\<And>i. k \<le> i \<Longrightarrow> rq_curr (rqs (obs i) (t_cpu (tasks (obs i) p))) \<noteq> p"
  shows "\<exists>m. wait_task_inactive obs p n = Some m"
proof (induction "k - n" arbitrary: n rule: less_induct)
  case less
  show ?case
  proof (cases "k \<le> n")
    case True
    then show ?thesis using assms by (subst wait_task_inactive.simps) simp
  next
    case False
    then have "\<exists>m. wait_task_inactive obs p (n + 1) = Some m" "\<exists>m. wait_task_inactive obs p (n + 2) = Some m"
      by (intro less; simp)+
    then show ?thesis by (subst wait_task_inactive.simps) simp
  qed
qed

lemma cpu_array_swap: "t\<lparr>t_array := a, t_cpu := d\<rparr> = t\<lparr>t_cpu := d, t_array := a\<rparr>"
  by (cases t) simp

lemma deactivate_upd_cpu:
  "deactivate_task K p c (upd_task p (\<lambda>t. t\<lparr>t_cpu := d\<rparr>) s) =
    upd_task p (\<lambda>t. t\<lparr>t_cpu := d\<rparr>) (deactivate_task K p c s)"
  by (simp add: deactivate_task_def dequeue_task_def Let_def upd_task_def upd_rq_def upd_array_def upd_lists_def
      cpu_array_swap)

lemma task_ok_cpu: "task_ok K t \<Longrightarrow> t_array t = None \<Longrightarrow> task_ok K (t\<lparr>t_cpu := c\<rparr>)"
  by (simp add: task_ok_def queued_ok_def policy_ok_def)

context kernel_lib
begin

lemma migrate_request_inv:
  assumes inv: "sched_inv K X s" and p: "p \<notin> X"
  shows "sched_inv K X (migrate_request K me p s)"
proof (cases "t_cpu (tasks s p) = me")
  case src: True
  let ?d = "k_ffs K (t_cpus_allowed (tasks s p))"
  have ok: "task_ok K (tasks s p)" by (rule q_invD(7) [OF sched_invD(1) [OF inv] p])
  show ?thesis
  proof (cases "t_array (tasks s p)")
    case None
    then show ?thesis
      using src task_ok_cpu [OF ok None] by (auto simp: migrate_request_def Let_def intro!: sched_inv_upd_task [OF inv])
  next
    case (Some ca)
    then obtain a where a: "t_array (tasks s p) = Some (me, a)"
      using task_okD(1) [OF ok] src by (cases ca) auto
    let ?s1 = "upd_task p (\<lambda>t. t\<lparr>t_cpu := ?d\<rparr>) (deactivate_task K p me s)"
    have "sched_inv K (insert p X) (deactivate_task K p me s)" by (rule deactivate_inv [OF inv p a])
    then have "sched_inv K (insert p X) ?s1" by simp
    moreover have "fit K ?d (tasks ?s1 p)"
      using fit_wake [OF task_ok_off [OF ok]] task_okD(3) [OF ok a] by simp
    ultimately have "sched_inv K X (activate_task K p ?d ?s1)"
      using p by (intro activate_inv)
    then show ?thesis
      using src a by (simp add: migrate_request_def Let_def deactivate_upd_cpu)
  qed
qed (use inv in \<open>simp add: migrate_request_def Let_def\<close>)

lemma migrate_request_moves:
  assumes "t_cpu (tasks s p) = me"
  shows "t_cpu (tasks (migrate_request K me p s) p) = k_ffs K (t_cpus_allowed (tasks s p))"
    and "t_cpus_allowed (tasks (migrate_request K me p s) p) = t_cpus_allowed (tasks s p)"
    and "t_array (tasks (migrate_request K me p s) p) = None \<longleftrightarrow> t_array (tasks s p) = None"
  using assms by (auto simp: migrate_request_def Let_def deactivate_upd_cpu sleep_credit_def)

lemma migration_round_inv:
  assumes "sched_inv K X s" and "set (rq_migration_queue (rqs s me)) \<inter> X = {}"
  shows "sched_inv K X (snd (migration_round K me s))"
proof -
  let ?s = "upd_task (current me s) (\<lambda>t. t\<lparr>t_state := TASK_INTERRUPTIBLE\<rparr>) s"
  have inv: "sched_inv K X ?s" by (rule sched_inv_state [OF assms(1)])
  show ?thesis
  proof (cases "rq_migration_queue (rqs s me)")
    case Nil
    with inv show ?thesis by (simp add: migration_round_def Let_def)
  next
    case (Cons p ps)
    have "sched_inv K X (upd_rq me (\<lambda>r. r\<lparr>rq_migration_queue := ps\<rparr>) ?s)"
      by (rule sched_inv_upd_rq [OF inv]) simp_all
    then have "sched_inv K X (migrate_request K me p (upd_rq me (\<lambda>r. r\<lparr>rq_migration_queue := ps\<rparr>) ?s))"
      by (rule migrate_request_inv) (use assms(2) Cons in auto)
    then show ?thesis using Cons by (simp add: migration_round_def Let_def)
  qed
qed

lemma set_cpus_allowed_inv:
  assumes inv: "sched_inv K X s" and p: "p \<notin> X"
    and m: "rq_migration_thread (rqs s (t_cpu (tasks s p))) = Some m" "m \<notin> X" "t_prio (tasks s m) < MAX_PRIO"
  shows "sched_inv K X (snd (set_cpus_allowed K me p new_mask s))"
proof -
  let ?s1 = "upd_task p (\<lambda>t. t\<lparr>t_cpus_allowed := new_mask AND k_cpu_online_map K\<rparr>) s"
  let ?c = "t_cpu (tasks s p)"
  let ?s2 = "upd_rq ?c (\<lambda>r. r\<lparr>rq_migration_queue := p # rq_migration_queue r\<rparr>) ?s1"
  have s1: "sched_inv K X ?s1" by (rule sched_inv_upd_task [OF inv]) simp_all
  have s2: "sched_inv K X ?s2" by (rule sched_inv_upd_rq [OF s1]) simp_all
  have m2: "the (rq_migration_thread (rqs ?s2 ?c)) = m" using m(1) by simp
  have "t_prio (tasks ?s2 m) < MAX_PRIO" using m(3) by (cases "m = p") auto
  then have wake: "sched_inv K X (snd (wake_up_process K me m ?s2))"
    unfolding wake_up_process_def using m(2) by (intro try_to_wake_up_inv [OF s2]) simp_all
  have off: "sched_inv K X (upd_task p (\<lambda>t. t\<lparr>t_cpu := k_ffs K (t_cpus_allowed t)\<rparr>) ?s1)"
    if "t_array (tasks s p) = None"
  proof (rule sched_inv_upd_task [OF s1])
    show "task_ok K ((tasks ?s1 p)\<lparr>t_cpu := k_ffs K (t_cpus_allowed (tasks ?s1 p))\<rparr>)" if "task_ok K (tasks ?s1 p)"
      by (rule task_ok_cpu [OF that]) (use \<open>t_array (tasks s p) = None\<close> in simp)
  qed simp_all
  show ?thesis
    unfolding set_cpus_allowed_def Let_def using inv s1 off wake m2 by auto
qed

end

end
