(* ===== verification/Rq_Locks.thy ===== *)
theory Rq_Locks imports Kernel_Base begin

text \<open>
  The locking protocol of the runqueues. Here the locks themselves are the state: a code path
  is the sequence of its lock operations, several CPUs run such paths in any interleaving, and the
  question is whether they can block each other for ever. The rule of the source is that a
  path takes runqueue locks in ascending order; \<^verbatim>\<open>double_lock_balance\<close>, which holds one lock already,
  tries the other and falls back to releasing its own.
\<close>

section \<open>Lock programs\<close>

datatype lock_prog = Finished | Lock cpu lock_prog | Unlock cpu lock_prog | Trylock cpu lock_prog lock_prog

text \<open>
  \<^verbatim>\<open>task_rq_lock\<close> locks the runqueue it read from the task, and starts again when the task has moved
  in between: \<open>stale\<close> are the runqueues it locks in vain.
\<close>

fun task_rq_lock :: "cpu list \<Rightarrow> cpu \<Rightarrow> lock_prog \<Rightarrow> lock_prog" where
  "task_rq_lock [] rq k = Lock rq k"
| "task_rq_lock (old # stale) rq k = Lock old (Unlock old (task_rq_lock stale rq k))"

definition task_rq_unlock :: "cpu \<Rightarrow> lock_prog \<Rightarrow> lock_prog" where
  "task_rq_unlock rq k = Unlock rq k"

definition this_rq_lock :: "cpu \<Rightarrow> lock_prog \<Rightarrow> lock_prog" where
  "this_rq_lock me k = Lock me k"

definition rq_unlock :: "cpu \<Rightarrow> lock_prog \<Rightarrow> lock_prog" where
  "rq_unlock rq k = Unlock rq k"

definition double_rq_lock :: "cpu \<Rightarrow> cpu \<Rightarrow> lock_prog \<Rightarrow> lock_prog" where
  "double_rq_lock rq1 rq2 k =
     (if rq1 = rq2 then Lock rq1 k
      else if rq1 < rq2 then Lock rq1 (Lock rq2 k)
      else Lock rq2 (Lock rq1 k))"

definition double_rq_unlock :: "cpu \<Rightarrow> cpu \<Rightarrow> lock_prog \<Rightarrow> lock_prog" where
  "double_rq_unlock rq1 rq2 k = Unlock rq1 (if rq1 \<noteq> rq2 then Unlock rq2 k else k)"

definition balance_lock :: "cpu \<Rightarrow> cpu \<Rightarrow> lock_prog \<Rightarrow> lock_prog" where
  "balance_lock this_rq busiest k =
     Trylock busiest k
       (if busiest < this_rq then Unlock this_rq (Lock busiest (Lock this_rq k))
        else Lock busiest k)"

text \<open>The critical sections of the scheduler, and a CPU that runs a list of them.\<close>

datatype locked_section =
    This_rq cpu
  | Task_rq "cpu list" cpu
  | Both_rqs cpu cpu
  | Balance cpu cpu

fun run_section :: "locked_section \<Rightarrow> lock_prog \<Rightarrow> lock_prog" where
  "run_section (This_rq me) k = this_rq_lock me (rq_unlock me k)"
| "run_section (Task_rq stale rq) k = task_rq_lock stale rq (task_rq_unlock rq k)"
| "run_section (Both_rqs rq1 rq2) k = double_rq_lock rq1 rq2 (double_rq_unlock rq1 rq2 k)"
| "run_section (Balance me busiest) k =
     this_rq_lock me (balance_lock me busiest (Unlock busiest (rq_unlock me k)))"

fun sound_section :: "locked_section \<Rightarrow> bool" where
  "sound_section (Balance me busiest) = (busiest \<noteq> me)"
| "sound_section _ = True"

definition run_sections :: "locked_section list \<Rightarrow> lock_prog" where
  "run_sections ss = foldr run_section ss Finished"

section \<open>Interleaved execution\<close>

record lock_state =
  prog :: "nat \<Rightarrow> lock_prog"
  held :: "cpu \<Rightarrow> nat option"

inductive lstep :: "lock_state \<Rightarrow> lock_state \<Rightarrow> bool" where
  l_lock: "prog s t = Lock l k \<Longrightarrow> held s l = None \<Longrightarrow>
    lstep s (s\<lparr>prog := (prog s)(t := k), held := (held s)(l := Some t)\<rparr>)"
| l_unlock: "prog s t = Unlock l k \<Longrightarrow>
    lstep s (s\<lparr>prog := (prog s)(t := k), held := (held s)(l := None)\<rparr>)"
| l_try: "prog s t = Trylock l k k' \<Longrightarrow> held s l = None \<Longrightarrow>
    lstep s (s\<lparr>prog := (prog s)(t := k), held := (held s)(l := Some t)\<rparr>)"
| l_fail: "prog s t = Trylock l k k' \<Longrightarrow> held s l \<noteq> None \<Longrightarrow>
    lstep s (s\<lparr>prog := (prog s)(t := k')\<rparr>)"

section \<open>The lock order\<close>

text \<open>A program that holds \<open>H\<close> waits only for locks above all of \<open>H\<close>, and releases what it holds.\<close>

fun ordered :: "cpu set \<Rightarrow> lock_prog \<Rightarrow> bool" where
  "ordered H Finished \<longleftrightarrow> H = {}"
| "ordered H (Lock l k) \<longleftrightarrow> (\<forall>h \<in> H. h < l) \<and> ordered (insert l H) k"
| "ordered H (Unlock l k) \<longleftrightarrow> l \<in> H \<and> ordered (H - {l}) k"
| "ordered H (Trylock l k k') \<longleftrightarrow> l \<notin> H \<and> ordered (insert l H) k \<and> ordered H k'"

definition l_inv :: "nat set \<Rightarrow> lock_state \<Rightarrow> bool" where
  "l_inv T s \<longleftrightarrow> finite T \<and> (\<forall>t. t \<notin> T \<longrightarrow> prog s t = Finished) \<and>
     (\<forall>t. ordered {l. held s l = Some t} (prog s t))"

lemma ordered_task_rq_lock: "ordered {} (task_rq_lock stale rq k) \<longleftrightarrow> ordered {rq} k"
  by (induction stale) simp_all

lemma ordered_section:
  assumes "sound_section x" and "ordered {} k"
  shows "ordered {} (run_section x k)"
proof (cases x)
  case (Balance me b)
  then have "b \<noteq> me" using assms(1) by simp
  then have "insert b {me} - {b} = {me}" "insert me {b} - {b} = {me}" by auto
  with assms \<open>b \<noteq> me\<close> show ?thesis
    by (auto simp: Balance this_rq_lock_def rq_unlock_def balance_lock_def)
next
  case (Both_rqs r1 r2)
  then show ?thesis
    using assms(2) by (auto simp: double_rq_lock_def double_rq_unlock_def insert_Diff_if)
qed (use assms in \<open>simp_all add: this_rq_lock_def rq_unlock_def task_rq_unlock_def ordered_task_rq_lock\<close>)

lemma ordered_run: "list_all sound_section ss \<Longrightarrow> ordered {} (run_sections ss)"
  by (induction ss) (simp_all add: run_sections_def ordered_section)

definition holds :: "lock_state \<Rightarrow> nat \<Rightarrow> cpu set" where
  "holds s t = {l. held s l = Some t}"

lemma l_invD:
  assumes "l_inv T s"
  shows "finite T" and "t \<notin> T \<Longrightarrow> prog s t = Finished" and "ordered (holds s t) (prog s t)"
  using assms by (auto simp: l_inv_def holds_def)

lemma l_inv_upd:
  assumes inv: "l_inv T s" and t: "prog s t \<noteq> Finished" and p: "prog s' = (prog s)(t := k)"
    and others: "\<And>u. u \<noteq> t \<Longrightarrow> holds s' u = holds s u" and ord: "ordered (holds s' t) k"
  shows "l_inv T s'"
proof -
  have "t \<in> T" using l_invD(2) [OF inv] t by blast
  moreover have "ordered (holds s' u) (prog s' u)" for u
    using l_invD(3) [OF inv, of u] others [of u] ord by (cases "u = t") (simp_all add: p)
  ultimately show ?thesis
    using l_invD(1,2) [OF inv] unfolding l_inv_def holds_def by (auto simp: p)
qed

lemma lstep_inv:
  assumes "lstep s s'" and inv: "l_inv T s"
  shows "l_inv T s'"
  using assms(1)
proof cases
  case (l_lock t l k)
  have "ordered (holds s t) (Lock l k)" using l_invD(3) [OF inv, of t] l_lock(2) by simp
  moreover have "holds s' t = insert l (holds s t)" using l_lock by (auto simp: holds_def)
  moreover have "holds s' u = holds s u" if "u \<noteq> t" for u using l_lock that by (auto simp: holds_def)
  ultimately show ?thesis using l_lock by (intro l_inv_upd [OF inv, of t s' k]) auto
next
  case (l_unlock t l k)
  have ord: "ordered (holds s t) (Unlock l k)" using l_invD(3) [OF inv, of t] l_unlock(2) by simp
  then have h: "held s l = Some t" by (simp add: holds_def)
  have "holds s' t = holds s t - {l}" using l_unlock by (auto simp: holds_def)
  moreover have "holds s' u = holds s u" if "u \<noteq> t" for u using l_unlock h that by (auto simp: holds_def)
  ultimately show ?thesis using ord l_unlock by (intro l_inv_upd [OF inv, of t s' k]) auto
next
  case (l_try t l k k')
  have "ordered (holds s t) (Trylock l k k')" using l_invD(3) [OF inv, of t] l_try(2) by simp
  moreover have "holds s' t = insert l (holds s t)" using l_try by (auto simp: holds_def)
  moreover have "holds s' u = holds s u" if "u \<noteq> t" for u using l_try that by (auto simp: holds_def)
  ultimately show ?thesis using l_try by (intro l_inv_upd [OF inv, of t s' k]) auto
next
  case (l_fail t l k k')
  have "ordered (holds s t) (Trylock l k k')" using l_invD(3) [OF inv, of t] l_fail(2) by simp
  moreover have "holds s' u = holds s u" for u using l_fail by (auto simp: holds_def)
  ultimately show ?thesis using l_fail by (intro l_inv_upd [OF inv, of t s' k']) (auto simp: holds_def)
qed

text \<open>Whoever waits for the highest lock is waiting for someone who can go on.\<close>

definition can_step :: "lock_state \<Rightarrow> bool" where
  "can_step s \<longleftrightarrow> (\<exists>s'. lstep s s')"

lemma stuck_waits:
  assumes "\<not> can_step s" and "prog s t \<noteq> Finished"
  obtains l k u where "prog s t = Lock l k" and "held s l = Some u"
proof (cases "prog s t")
  case (Lock l k)
  then have "held s l \<noteq> None"
    using assms(1) l_lock [where s = s and t = t and l = l] by (auto simp: can_step_def)
  with Lock that show thesis by blast
next
  case (Unlock l k)
  then have "can_step s" using l_unlock [where s = s and t = t and l = l] by (auto simp: can_step_def)
  with assms(1) show thesis by simp
next
  case (Trylock l k k')
  then have "can_step s"
    using l_try [where s = s and t = t and l = l] l_fail [where s = s and t = t and l = l]
    by (cases "held s l = None") (auto simp: can_step_def)
  with assms(1) show thesis by simp
qed (use assms(2) in simp)

definition wanted :: "lock_state \<Rightarrow> nat \<Rightarrow> cpu" where
  "wanted s t = (case prog s t of Lock l k \<Rightarrow> l | _ \<Rightarrow> 0)"

lemma no_deadlock:
  assumes inv: "l_inv T s" and busy: "prog s t \<noteq> Finished"
  shows "can_step s"
proof (rule ccontr)
  assume stuck: "\<not> can_step s"
  let ?B = "{t. prog s t \<noteq> Finished}"
  have "finite ?B" by (rule finite_subset [OF _ l_invD(1) [OF inv]]) (use l_invD(2) [OF inv] in auto)
  moreover have "?B \<noteq> {}" using busy by auto
  ultimately have B: "finite (wanted s ` ?B)" "wanted s ` ?B \<noteq> {}" by simp_all
  obtain m where m: "m \<in> ?B" "wanted s m = Max (wanted s ` ?B)"
    using Max_in [OF B] by (metis (no_types, lifting) imageE)
  then have top: "wanted s t \<le> wanted s m" if "t \<in> ?B" for t
    using Max_ge [OF B(1)] that by simp
  obtain l k u where l: "prog s m = Lock l k" "held s l = Some u"
    using stuck_waits [OF stuck, of m] m(1) by auto
  then have h: "l \<in> holds s u" by (simp add: holds_def)
  then have "prog s u \<noteq> Finished" using l_invD(3) [OF inv, of u] by (auto simp: holds_def)
  then obtain l' k' v where l': "prog s u = Lock l' k'" "held s l' = Some v"
    using stuck_waits [OF stuck, of u] by auto
  then have "l < l'" using l_invD(3) [OF inv, of u] h by simp
  moreover have "l' \<le> l" using top [of u] l(1) l'(1) by (simp add: wanted_def)
  ultimately show False by simp
qed

end
