(* ===== verification/Lock_Props.thy ===== *)
theory Lock_Props imports Example_State Affinity Rq_Locks begin

text \<open>Properties of CPU affinity, of the migration threads, and of the runqueue locks.\<close>

section \<open>Locks\<close>

text \<open>Every run of a state that keeps to the lock order ends, with all programs finished.\<close>

fun lock_steps :: "lock_prog \<Rightarrow> nat" where
  "lock_steps Finished = 0"
| "lock_steps (Lock l k) = Suc (lock_steps k)"
| "lock_steps (Unlock l k) = Suc (lock_steps k)"
| "lock_steps (Trylock l k k') = Suc (lock_steps k + lock_steps k')"

lemma lock_sum_less:
  assumes "finite T" and "t \<in> T" and "lock_steps k < lock_steps (f t)"
  shows "(\<Sum>u\<in>T. lock_steps ((f(t := k)) u)) < (\<Sum>u\<in>T. lock_steps (f u))"
  by (rule sum_strict_mono_ex1) (use assms in auto)

lemma lstep_decreases:
  assumes "lstep s s'" and inv: "l_inv T s"
  shows "(\<Sum>t\<in>T. lock_steps (prog s' t)) < (\<Sum>t\<in>T. lock_steps (prog s t))"
proof -
  have "\<exists>t k. prog s' = (prog s)(t := k) \<and> lock_steps k < lock_steps (prog s t)"
    using assms(1) by cases (rule exI, rule exI, rule conjI, force, simp)+
  then obtain t k where t: "prog s' = (prog s)(t := k)" "lock_steps k < lock_steps (prog s t)" by blast
  then have "t \<in> T" using l_invD(2) [OF inv, of t] by (cases "prog s t") auto
  then show ?thesis
    using t lock_sum_less [of T t k "prog s"] l_invD(1) [OF inv] by simp
qed

lemma runs_to_end:
  assumes "l_inv T s"
  shows "\<exists>s'. lstep\<^sup>*\<^sup>* s s' \<and> (\<forall>t. prog s' t = Finished) \<and> (\<forall>l. held s' l = None)"
  using assms
proof (induction "\<Sum>t\<in>T. lock_steps (prog s t)" arbitrary: s rule: less_induct)
  case less
  note inv = less.prems
  show ?case
  proof (cases "\<forall>t. prog s t = Finished")
    case True
    then have "held s l \<noteq> Some t" for l t
      using l_invD(3) [OF inv, of t] by (auto simp: holds_def)
    then have "held s l = None" for l by (cases "held s l") auto
    then show ?thesis using True by (intro exI [of _ s]) simp
  next
    case False
    then obtain s1 where s1: "lstep s s1" using no_deadlock [OF inv] by (auto simp: can_step_def)
    show ?thesis
      using less.hyps [OF lstep_decreases [OF s1 inv] lstep_inv [OF s1 inv]] s1
      by (meson converse_rtranclp_into_rtranclp)
  qed
qed

definition lock_start :: "(nat \<Rightarrow> locked_section list) \<Rightarrow> lock_state" where
  "lock_start ss = \<lparr>prog = (\<lambda>t. run_sections (ss t)), held = (\<lambda>_. None)\<rparr>"

lemma lock_start_inv:
  assumes "finite T" and "\<And>t. t \<notin> T \<Longrightarrow> ss t = []" and "\<And>t. list_all sound_section (ss t)"
  shows "l_inv T (lock_start ss)"
  using assms ordered_run by (auto simp: l_inv_def lock_start_def run_sections_def)

lemma lsteps_inv: "lstep\<^sup>*\<^sup>* s s' \<Longrightarrow> l_inv T s \<Longrightarrow> l_inv T s'"
  by (induction rule: rtranclp_induct) (auto intro: lstep_inv)

text \<open>
  C32. CPUs that run any sequences of the scheduler's critical sections - their own
  runqueue, the runqueue of a task, two runqueues by \<^verbatim>\<open>double_rq_lock\<close>, two by
  \<^verbatim>\<open>double_lock_balance\<close> - never deadlock: whatever interleaving has been taken, as long as one of
  them has not finished some CPU can go on, no execution is longer than the number of lock
  operations written in the programs, and all sections can still be run to their end, where
  no lock is held.
\<close>

theorem runqueue_locks_safe:
  assumes "finite T" and "\<And>t. t \<notin> T \<Longrightarrow> ss t = []" and "\<And>t. list_all sound_section (ss t)"
    and run: "(lstep ^^ n) (lock_start ss) s"
  shows "((\<exists>t. prog s t \<noteq> Finished) \<longrightarrow> can_step s) \<and>
    n \<le> (\<Sum>t\<in>T. lock_steps (run_sections (ss t))) \<and>
    (\<exists>s'. lstep\<^sup>*\<^sup>* s s' \<and> (\<forall>t. prog s' t = Finished) \<and> (\<forall>l. held s' l = None))"
proof -
  have start: "l_inv T (lock_start ss)" using assms(1-3) by (rule lock_start_inv)
  have "l_inv T s" using run by (intro lsteps_inv [OF _ start]) (rule relpowp_imp_rtranclp)
  moreover have "n + (\<Sum>t\<in>T. lock_steps (prog s t)) \<le> (\<Sum>t\<in>T. lock_steps (run_sections (ss t)))"
    using run
  proof (induction n arbitrary: s)
    case 0
    then have "s = lock_start ss" by simp
    then show ?case by (simp add: lock_start_def)
  next
    case (Suc n)
    then obtain r where r: "(lstep ^^ n) (lock_start ss) r" "lstep r s" by auto
    have "l_inv T r" using r(1) by (intro lsteps_inv [OF _ start]) (rule relpowp_imp_rtranclp)
    then show ?case using Suc.IH [OF r(1)] lstep_decreases [OF r(2)] by fastforce
  qed
  ultimately show ?thesis using no_deadlock runs_to_end by fastforce
qed

text \<open>Two CPUs that balance against each other, the case the lock order is made for.\<close>

definition two_balancers :: "nat \<Rightarrow> locked_section list" where
  "two_balancers t = (if t = 0 then [Balance 0 1] else if t = 1 then [Balance 1 0, Both_rqs 1 0] else [])"

theorem runqueue_locks_safe_witness:
  "can_step (lock_start two_balancers) \<and>
    (\<exists>s'. lstep\<^sup>*\<^sup>* (lock_start two_balancers) s' \<and> (\<forall>t. prog s' t = Finished) \<and> (\<forall>l. held s' l = None))"
proof -
  have "(lstep ^^ 0) (lock_start two_balancers) (lock_start two_balancers)" by simp
  note safe = runqueue_locks_safe [of "{0, 1}" two_balancers, OF _ _ _ this]
  have "prog (lock_start two_balancers) 0 \<noteq> Finished"
    by (simp add: lock_start_def two_balancers_def run_sections_def this_rq_lock_def)
  moreover have "list_all sound_section (two_balancers t)" for t by (simp add: two_balancers_def)
  ultimately show ?thesis using safe by (simp add: two_balancers_def) blast
qed

section \<open>Affinity\<close>

lemma allowed_bit: "w AND 2 ^ c \<noteq> 0 \<Longrightarrow> bit (w :: u32) c"
  by (simp add: and_exp_eq_0_iff_not_bit)

lemma wake_other:
  assumes "p \<noteq> m"
  shows "t_cpu (tasks (snd (wake_up_process K me m s)) p) = t_cpu (tasks s p)"
    and "t_cpus_allowed (tasks (snd (wake_up_process K me m s)) p) = t_cpus_allowed (tasks s p)"
    and "rq_migration_queue (rqs (snd (wake_up_process K me m s)) c) = rq_migration_queue (rqs s c)"
  using assms by (auto simp: wake_up_process_def try_to_wake_up_def Let_def resched_task_def)

lemma rq_migration_deact [simp]:
  "rq_migration_queue (rqs (deactivate_task K p c s) d) = rq_migration_queue (rqs s d)"
  by (simp add: deactivate_task_def dequeue_task_def Let_def)

lemma rq_migration_serve [simp]:
  "rq_migration_queue (rqs (migrate_request K me p s) d) = rq_migration_queue (rqs s d)"
  by (auto simp: migrate_request_def Let_def)

lemma waiting_frame:
  assumes "set_cpus_allowed K me p new_mask s = (waits, s')" and "p \<noteq> m" and "k_config_smp K"
    and "rq_migration_thread (rqs s (t_cpu (tasks s p))) = Some m"
    and "new_mask AND k_cpu_online_map K \<noteq> 0"
  shows "t_cpus_allowed (tasks s' p) = new_mask AND k_cpu_online_map K"
    and "waits \<Longrightarrow> t_cpu (tasks s' p) = t_cpu (tasks s p)"
    and "waits \<Longrightarrow> rq_migration_queue (rqs s' (t_cpu (tasks s p))) = p # rq_migration_queue (rqs s (t_cpu (tasks s p)))"
  using assms by (auto simp: set_cpus_allowed_def Let_def wake_other split: if_splits)

text \<open>
  C33. \<^verbatim>\<open>set_cpus_allowed\<close> with a mask that names a CPU that is on-line keeps the runqueue invariant
  and stores the mask. When it returns without waiting the task is assigned to a CPU of the
  mask; otherwise the request of the task stands first in the queue of the migration thread of its CPU.
\<close>

theorem affinity_enforced:
  assumes K: "kernel_lib K" and inv: "sched_inv K X s" and p: "p \<notin> X" "p \<noteq> m" and smp: "k_config_smp K"
    and m: "rq_migration_thread (rqs s (t_cpu (tasks s p))) = Some m" "m \<notin> X" "t_prio (tasks s m) < MAX_PRIO"
    and mask: "new_mask AND k_cpu_online_map K \<noteq> 0"
    and r: "set_cpus_allowed K me p new_mask s = (waits, s')"
  shows "sched_inv K X s' \<and> t_cpus_allowed (tasks s' p) = new_mask AND k_cpu_online_map K \<and>
    (if waits
     then rq_migration_queue (rqs s' (t_cpu (tasks s' p))) = p # rq_migration_queue (rqs s (t_cpu (tasks s p)))
     else bit (new_mask AND k_cpu_online_map K) (t_cpu (tasks s' p)))"
proof -
  have "sched_inv K X s'"
    using kernel_lib.set_cpus_allowed_inv [OF K inv p(1) m, of me new_mask] r by simp
  moreover have "bit (new_mask AND k_cpu_online_map K) (t_cpu (tasks s' p))" if "\<not> waits"
    using r mask smp that kernel_lib.ffs [OF K mask]
    by (auto simp: set_cpus_allowed_def Let_def simp del: bit_and_iff dest: allowed_bit split: if_splits)
  ultimately show ?thesis
    using waiting_frame [OF r p(2) smp m(1) mask] by auto
qed

text \<open>A system of two CPUs whose task 7 sleeps on CPU 0, with task 9 as the migration thread of CPU 0.\<close>

abbreviation Kx2 :: "(qid \<Rightarrow> tptr list, int list) klib" where "Kx2 \<equiv> ref_lib 512 True"

definition two_cpus :: "(qid \<Rightarrow> tptr list, int list) sched" where
  "two_cpus = upd_rq 0 (\<lambda>r. r\<lparr>rq_migration_thread := Some 9\<rparr>) (sleeping other_ex)"

lemma two_cpus_simps:
  "t_cpu (tasks two_cpus 7) = 0" "rq_migration_thread (rqs two_cpus 0) = Some 9" "t_prio (tasks two_cpus 9) < 140"
  "k_config_smp Kx2" "k_cpu_online_map Kx2 = 3"
  by (simp_all add: two_cpus_def other_ex_def INIT_TASK_def sleeping_def ref_lib_def upd_rq_def)

lemma two_cpus_inv: "sched_inv Kx2 {} two_cpus"
proof -
  have "sched_inv Kx2 {} (sleeping other_ex) \<longleftrightarrow> sched_inv Kx {} (sleeping other_ex)"
    by (simp add: sched_inv_def q_inv_defs queue_def task_ok_def MAX_SLEEP_AVG_def ref_lib_def)
  then have "sched_inv Kx2 {} (sleeping other_ex)" using sleeping_inv [OF ex_ok(1)] by blast
  then show ?thesis unfolding two_cpus_def by (rule sched_inv_upd_rq) simp_all
qed

theorem affinity_enforced_witness:
  "\<exists>s'. set_cpus_allowed Kx2 0 7 6 two_cpus = (False, s') \<and> sched_inv Kx2 {} s' \<and>
    t_cpus_allowed (tasks s' 7) = 2 \<and> bit (2 :: u32) (t_cpu (tasks s' 7))"
proof -
  obtain w s' where r: "set_cpus_allowed Kx2 0 7 6 two_cpus = (w, s')" by force
  have w: "\<not> w"
    using r by (auto simp: set_cpus_allowed_def two_cpus_def ref_lib_def other_ex_def INIT_TASK_def sleeping_def
        idle_rq_def upd_rq_def upd_task_def)
  show ?thesis
    using affinity_enforced [OF ref512smp.kernel_lib_axioms two_cpus_inv, where p = 7 and m = 9 and me = 0 and new_mask = 6 and waits = w and s' = s'] r w
    by (simp add: two_cpus_simps)
qed

text \<open>
  C34. The round of a migration thread that takes a request of a task of its own CPU moves the task
  to a CPU its mask allows and keeps the runqueue invariant; the task stays runnable if it was, and the
  request leaves the queue. With no request the thread finds nothing to do and will sleep.
\<close>

theorem migration_served:
  assumes K: "kernel_lib K" and inv: "sched_inv K X s" and X: "set (rq_migration_queue (rqs s me)) \<inter> X = {}"
    and r: "migration_round K me s = (served, s')"
  shows "sched_inv K X s' \<and>
    (case rq_migration_queue (rqs s me) of
       [] \<Rightarrow> served = None \<and> t_state (tasks s' (current me s)) = TASK_INTERRUPTIBLE
     | p # ps \<Rightarrow> served = Some p \<and> rq_migration_queue (rqs s' me) = ps \<and>
         (t_cpu (tasks s p) = me \<and> t_cpus_allowed (tasks s p) \<noteq> 0 \<longrightarrow>
            bit (t_cpus_allowed (tasks s p)) (t_cpu (tasks s' p)) \<and>
            (t_array (tasks s' p) = None \<longleftrightarrow> t_array (tasks s p) = None)))"
proof (cases "rq_migration_queue (rqs s me)")
  case Nil
  then show ?thesis
    using r kernel_lib.migration_round_inv [OF K inv X] by (auto simp: migration_round_def Let_def)
next
  case (Cons p ps)
  define t where "t = upd_rq me (\<lambda>r. r\<lparr>rq_migration_queue := ps\<rparr>)
    (upd_task (current me s) (\<lambda>t. t\<lparr>t_state := TASK_INTERRUPTIBLE\<rparr>) s)"
  have s': "served = Some p" "s' = migrate_request K me p t"
    using r Cons by (simp_all add: migration_round_def Let_def t_def)
  have f: "t_cpu (tasks t p) = t_cpu (tasks s p)" "t_cpus_allowed (tasks t p) = t_cpus_allowed (tasks s p)"
    "t_array (tasks t p) = t_array (tasks s p)" "rq_migration_queue (rqs t me) = ps"
    by (simp_all add: t_def)
  have "rq_migration_queue (rqs s' me) = ps"
    using f(4) by (simp add: s'(2))
  moreover have "bit (t_cpus_allowed (tasks s p)) (t_cpu (tasks s' p)) \<and>
      (t_array (tasks s' p) = None \<longleftrightarrow> t_array (tasks s p) = None)"
    if "t_cpu (tasks s p) = me" "t_cpus_allowed (tasks s p) \<noteq> 0"
    using kernel_lib.migrate_request_moves [OF K, of t p me] kernel_lib.ffs [OF K that(2)] that(1) f by (simp add: s'(2))
  ultimately show ?thesis
    using kernel_lib.migration_round_inv [OF K inv X] r s'(1) Cons by simp
qed

text \<open>
  \<^verbatim>\<open>wait_task_inactive\<close> returns as soon as its task stays off the CPUs, and whenever it returns
  the last reading, made under the runqueue's lock, showed the task on no CPU.
\<close>

theorem wait_task_inactive_ends:
  assumes "\<And>i. k \<le> i \<Longrightarrow> rq_curr (rqs (obs i) (t_cpu (tasks (obs i) p))) \<noteq> p"
  shows "\<exists>m > n. wait_task_inactive obs p n = Some m \<and> rq_curr (rqs (obs m) (t_cpu (tasks (obs m) p))) \<noteq> p"
  using wait_task_inactive_returns [of k obs p n, OF assms] wait_task_inactive_correct by blast

text \<open>The migration thread of CPU 0 runs task 9 itself; its queue holds a request of task 7.\<close>

definition migrating :: "(qid \<Rightarrow> tptr list, int list) sched" where
  "migrating = upd_task 7 (\<lambda>t. t\<lparr>t_cpus_allowed := 2\<rparr>)
     (upd_rq 0 (\<lambda>r. r\<lparr>rq_migration_queue := [7]\<rparr>) two_cpus)"

lemma migrating_inv: "sched_inv Kx2 {} migrating"
  unfolding migrating_def by (rule sched_inv_upd_task, rule sched_inv_upd_rq [OF two_cpus_inv]) simp_all

theorem migration_served_witness:
  "\<exists>s'. migration_round Kx2 0 migrating = (Some 7, s') \<and> sched_inv Kx2 {} s' \<and>
    rq_migration_queue (rqs s' 0) = [] \<and> bit (2 :: u32) (t_cpu (tasks s' 7))"
proof -
  obtain w s' where r: "migration_round Kx2 0 migrating = (w, s')" by force
  have "rq_migration_queue (rqs migrating 0) = [7]" "t_cpu (tasks migrating 7) = 0"
    "t_cpus_allowed (tasks migrating 7) = 2"
    by (simp_all add: migrating_def two_cpus_def other_ex_def INIT_TASK_def)
  then show ?thesis
    using migration_served [OF ref512smp.kernel_lib_axioms migrating_inv, of 0 w s'] r by simp
qed

theorem wait_task_inactive_ends_witness:
  "\<exists>m > 0. wait_task_inactive (\<lambda>i. if i < 3 then running other_ex else sleeping other_ex) 7 0 = Some m \<and>
    rq_curr (rqs (if m < 3 then running other_ex else sleeping other_ex)
      (t_cpu (tasks (if m < 3 then running other_ex else sleeping other_ex) 7))) \<noteq> 7"
  using wait_task_inactive_ends
      [where k = 3 and n = 0 and p = 7 and obs = "\<lambda>i. if i < 3 then running other_ex else sleeping other_ex"]
  by simp

end
