(* ===== verification/Proc_Tree.thy ===== *)
theory Proc_Tree imports Kernel_Base "HOL-Library.Monad_Syntax" begin

text \<open>
  The process tree: the pointers of \<^verbatim>\<open>struct task_struct\<close> that link all tasks into a ring and the
  children of a task into a list, the macros \<^verbatim>\<open>REMOVE_LINKS\<close>, \<^verbatim>\<open>SET_LINKS\<close> and \<^verbatim>\<open>for_each_task\<close> of
  \<^verbatim>\<open>sched.h\<close>, and the lists they stand for: the tasks in the order of the ring, the
  children of each task from the youngest to the oldest.
\<close>

section \<open>The pointers\<close>

record links =
  next_task :: tptr
  prev_task :: tptr
  p_opptr :: "tptr option"
  p_pptr :: tptr
  p_cptr :: "tptr option"
  p_ysptr :: "tptr option"
  p_osptr :: "tptr option"

type_synonym tree = "tptr \<Rightarrow> links"

definition upd_link :: "tptr \<Rightarrow> (links \<Rightarrow> links) \<Rightarrow> tree \<Rightarrow> tree" where
  "upd_link p f L = L(p := f (L p))"

text \<open>The statically allocated first task.\<close>

definition init_task :: tptr where "init_task = 0"

definition REMOVE_LINKS :: "tptr \<Rightarrow> tree \<Rightarrow> tree" where
  "REMOVE_LINKS p L =
     (let L = upd_link (next_task (L p)) (\<lambda>l. l\<lparr>prev_task := prev_task (L p)\<rparr>) L;
          L = upd_link (prev_task (L p)) (\<lambda>l. l\<lparr>next_task := next_task (L p)\<rparr>) L;
          L = (case p_osptr (L p) of
                 Some os \<Rightarrow> upd_link os (\<lambda>l. l\<lparr>p_ysptr := p_ysptr (L p)\<rparr>) L
               | None \<Rightarrow> L)
      in case p_ysptr (L p) of
           Some ys \<Rightarrow> upd_link ys (\<lambda>l. l\<lparr>p_osptr := p_osptr (L p)\<rparr>) L
         | None \<Rightarrow> upd_link (p_pptr (L p)) (\<lambda>l. l\<lparr>p_cptr := p_osptr (L p)\<rparr>) L)"

definition SET_LINKS :: "tptr \<Rightarrow> tree \<Rightarrow> tree" where
  "SET_LINKS p L =
     (let L = upd_link p (\<lambda>l. l\<lparr>next_task := init_task\<rparr>) L;
          L = upd_link p (\<lambda>l. l\<lparr>prev_task := prev_task (L init_task)\<rparr>) L;
          L = upd_link (prev_task (L init_task)) (\<lambda>l. l\<lparr>next_task := p\<rparr>) L;
          L = upd_link init_task (\<lambda>l. l\<lparr>prev_task := p\<rparr>) L;
          L = upd_link p (\<lambda>l. l\<lparr>p_ysptr := None\<rparr>) L;
          L = upd_link p (\<lambda>l. l\<lparr>p_osptr := p_cptr (L (p_pptr (L p)))\<rparr>) L;
          L = (case p_osptr (L p) of
                 Some os \<Rightarrow> upd_link os (\<lambda>l. l\<lparr>p_ysptr := Some p\<rparr>) L
               | None \<Rightarrow> L)
      in upd_link (p_pptr (L p)) (\<lambda>l. l\<lparr>p_cptr := Some p\<rparr>) L)"

text \<open>
  The loop \<^verbatim>\<open>for_each_task\<close>, started at a task: the next pointer is read from the state the body has left;
  the body says whether it leaves the loop. A ring that does not lead back to \<^verbatim>\<open>init_task\<close> is a loop
  that does not return.
\<close>

partial_function (option) for_each_task ::
  "('s \<Rightarrow> tptr \<Rightarrow> tptr) \<Rightarrow> (tptr \<Rightarrow> 's \<Rightarrow> bool \<times> 's) \<Rightarrow> tptr \<Rightarrow> 's \<Rightarrow> 's option" where
  "for_each_task nx body p s =
     (if nx s p = init_task then Some s
      else if fst (body (nx s p) s) then Some (snd (body (nx s p) s))
      else for_each_task nx body (nx s p) (snd (body (nx s p) s)))"

text \<open>A field that an update does not write, and the field it does.\<close>

lemma upd_link_other [simp]:
  "(\<And>l. next_task (f l) = next_task l) \<Longrightarrow> next_task (upd_link p f L q) = next_task (L q)"
  "(\<And>l. prev_task (f l) = prev_task l) \<Longrightarrow> prev_task (upd_link p f L q) = prev_task (L q)"
  "(\<And>l. p_opptr (f l) = p_opptr l) \<Longrightarrow> p_opptr (upd_link p f L q) = p_opptr (L q)"
  "(\<And>l. p_pptr (f l) = p_pptr l) \<Longrightarrow> p_pptr (upd_link p f L q) = p_pptr (L q)"
  "(\<And>l. p_cptr (f l) = p_cptr l) \<Longrightarrow> p_cptr (upd_link p f L q) = p_cptr (L q)"
  "(\<And>l. p_ysptr (f l) = p_ysptr l) \<Longrightarrow> p_ysptr (upd_link p f L q) = p_ysptr (L q)"
  "(\<And>l. p_osptr (f l) = p_osptr l) \<Longrightarrow> p_osptr (upd_link p f L q) = p_osptr (L q)"
  by (simp_all add: upd_link_def)

lemma upd_link_field:
  "next_task (upd_link p (\<lambda>l. l\<lparr>next_task := v\<rparr>) L q) = (if q = p then v else next_task (L q))"
  "prev_task (upd_link p (\<lambda>l. l\<lparr>prev_task := v\<rparr>) L q) = (if q = p then v else prev_task (L q))"
  "p_pptr (upd_link p (\<lambda>l. l\<lparr>p_pptr := v\<rparr>) L q) = (if q = p then v else p_pptr (L q))"
  "p_opptr (upd_link p (\<lambda>l. l\<lparr>p_opptr := w\<rparr>) L q) = (if q = p then w else p_opptr (L q))"
  "p_cptr (upd_link p (\<lambda>l. l\<lparr>p_cptr := w\<rparr>) L q) = (if q = p then w else p_cptr (L q))"
  "p_ysptr (upd_link p (\<lambda>l. l\<lparr>p_ysptr := w\<rparr>) L q) = (if q = p then w else p_ysptr (L q))"
  "p_osptr (upd_link p (\<lambda>l. l\<lparr>p_osptr := w\<rparr>) L q) = (if q = p then w else p_osptr (L q))"
  by (simp_all add: upd_link_def)

section \<open>The lists\<close>

definition first :: "'a list \<Rightarrow> 'a option \<Rightarrow> 'a option" where
  "first xs z = (case xs of [] \<Rightarrow> z | x # _ \<Rightarrow> Some x)"

definition final :: "'a option \<Rightarrow> 'a list \<Rightarrow> 'a option" where
  "final y xs = (if xs = [] then y else Some (last xs))"

lemma first_simps [simp]: "first [] z = z" "first (x # xs) z = Some x" "first (xs @ ys) z = first xs (first ys z)"
  by (cases xs; simp add: first_def)+

lemma final_simps [simp]: "final y [] = y" "final y (x # xs) = final (Some x) xs"
  by (simp_all add: final_def)

text \<open>A segment of the ring between two tasks, and a list of siblings between a younger and an older one.\<close>

fun segment :: "tree \<Rightarrow> tptr \<Rightarrow> tptr list \<Rightarrow> tptr \<Rightarrow> bool" where
  "segment L a [] b \<longleftrightarrow> next_task (L a) = b \<and> prev_task (L b) = a"
| "segment L a (x # xs) b \<longleftrightarrow> next_task (L a) = x \<and> prev_task (L x) = a \<and> segment L x xs b"

fun siblings :: "tree \<Rightarrow> tptr option \<Rightarrow> tptr list \<Rightarrow> tptr option \<Rightarrow> bool" where
  "siblings L y [] z \<longleftrightarrow> True"
| "siblings L y (x # xs) z \<longleftrightarrow> p_ysptr (L x) = y \<and> p_osptr (L x) = first xs z \<and> siblings L (Some x) xs z"

text \<open>
  The pointers of the allocated tasks \<open>A\<close> represent the roster \<open>T\<close> of the tasks in the ring and the children
  \<open>ks\<close> of every task.
\<close>

definition tree_rep :: "tptr set \<Rightarrow> tree \<Rightarrow> tptr list \<Rightarrow> (tptr \<Rightarrow> tptr list) \<Rightarrow> bool" where
  "tree_rep A L T ks \<longleftrightarrow>
     init_task \<in> A \<and> set T \<subseteq> A \<and> distinct (init_task # T) \<and> segment L init_task T init_task \<and>
     (\<forall>c \<in> set T. p_pptr (L c) \<in> A) \<and>
     (\<forall>f \<in> A. p_cptr (L f) = first (ks f) None \<and> siblings L None (ks f) None \<and> distinct (ks f) \<and>
        set (ks f) = {c \<in> set T. p_pptr (L c) = f})"

lemma tree_repD:
  assumes "tree_rep A L T ks"
  shows "init_task \<in> A" and "set T \<subseteq> A" and "distinct T" and "init_task \<notin> set T"
    and "segment L init_task T init_task" and "c \<in> set T \<Longrightarrow> p_pptr (L c) \<in> A"
    and "f \<in> A \<Longrightarrow> p_cptr (L f) = first (ks f) None" and "f \<in> A \<Longrightarrow> siblings L None (ks f) None"
    and "f \<in> A \<Longrightarrow> distinct (ks f)" and "f \<in> A \<Longrightarrow> c \<in> set (ks f) \<longleftrightarrow> c \<in> set T \<and> p_pptr (L c) = f"
  using assms by (auto simp: tree_rep_def)

lemma tree_repI:
  assumes "init_task \<in> A" and "set T \<subseteq> A" and "distinct T" and "init_task \<notin> set T"
    and "segment L init_task T init_task" and "\<And>c. c \<in> set T \<Longrightarrow> p_pptr (L c) \<in> A"
    and "\<And>f. f \<in> A \<Longrightarrow> p_cptr (L f) = first (ks f) None" and "\<And>f. f \<in> A \<Longrightarrow> siblings L None (ks f) None"
    and "\<And>f. f \<in> A \<Longrightarrow> distinct (ks f)" and "\<And>f c. f \<in> A \<Longrightarrow> c \<in> set (ks f) \<longleftrightarrow> c \<in> set T \<and> p_pptr (L c) = f"
  shows "tree_rep A L T ks"
  unfolding tree_rep_def using assms by auto

section \<open>Segments\<close>

lemma segment_append: "segment L a (xs @ x # ys) b \<longleftrightarrow> segment L a xs x \<and> segment L x ys b"
  by (induction xs arbitrary: a) auto

lemma segment_cong:
  assumes "\<And>q. q \<in> insert a (set xs) \<Longrightarrow> next_task (L' q) = next_task (L q)"
    and "\<And>q. q \<in> insert b (set xs) \<Longrightarrow> prev_task (L' q) = prev_task (L q)"
  shows "segment L' a xs b \<longleftrightarrow> segment L a xs b"
  using assms
proof (induction xs arbitrary: a)
  case (Cons x xs)
  have "segment L' x xs b \<longleftrightarrow> segment L x xs b" by (rule Cons.IH) (use Cons.prems in auto)
  with Cons.prems show ?case by simp
qed simp

lemma segment_ends:
  assumes "segment L a xs b"
  shows "prev_task (L b) = last (a # xs)" and "next_task (L a) = hd (xs @ [b])"
  using assms by (induction xs arbitrary: a) auto

text \<open>The last link of a segment, changed.\<close>

lemma segment_relink:
  assumes "segment L a xs b" and "distinct (a # xs)" and "b' \<notin> set xs"
    and "\<And>q. q \<in> insert a (set xs) \<Longrightarrow>
      next_task (L' q) = (if q = last (a # xs) then b' else next_task (L q))"
    and "\<And>q. q \<in> set xs \<Longrightarrow> prev_task (L' q) = prev_task (L q)" and "prev_task (L' b') = last (a # xs)"
  shows "segment L' a xs b'"
  using assms
proof (induction xs arbitrary: a)
  case (Cons x xs)
  have "a \<noteq> last (x # xs)" using Cons.prems(2) last_in_set [of "x # xs"] by auto
  then have "next_task (L' a) = x" using Cons.prems by simp
  moreover have "segment L' x xs b'" by (rule Cons.IH) (use Cons.prems in \<open>auto split: if_splits\<close>)
  ultimately show ?case using Cons.prems by simp
qed simp

text \<open>The loop over the ring is the loop over the list.\<close>

fun loop_list :: "(tptr \<Rightarrow> 's \<Rightarrow> bool \<times> 's) \<Rightarrow> tptr list \<Rightarrow> 's \<Rightarrow> 's" where
  "loop_list body [] s = s"
| "loop_list body (q # qs) s =
     (if fst (body q s) then snd (body q s) else loop_list body qs (snd (body q s)))"

fun nexts :: "(tptr \<Rightarrow> tptr) \<Rightarrow> tptr \<Rightarrow> tptr list \<Rightarrow> tptr \<Rightarrow> bool" where
  "nexts nx a [] b \<longleftrightarrow> nx a = b"
| "nexts nx a (x # xs) b \<longleftrightarrow> nx a = x \<and> nexts nx x xs b"

lemma segment_nexts: "segment L a xs b \<Longrightarrow> nexts (\<lambda>q. next_task (L q)) a xs b"
  by (induction xs arbitrary: a) simp_all

lemma for_each_task_list:
  assumes "nexts (nx s) p T init_task" and "init_task \<notin> set T" and "\<And>s r. nx (snd (body r s)) = nx s"
  shows "for_each_task nx body p s = Some (loop_list body T s)"
  using assms(1,2)
proof (induction T arbitrary: p s)
  case (Cons q qs)
  have q: "nx s p = q" "q \<noteq> init_task" using Cons.prems by auto
  have "for_each_task nx body q (snd (body q s)) = Some (loop_list body qs (snd (body q s)))"
    by (rule Cons.IH) (use Cons.prems assms(3) in simp_all)
  then show ?case using q by (subst for_each_task.simps) simp
qed (subst for_each_task.simps, simp)

section \<open>The macros on the lists\<close>

lemma SET_LINKS_ring:
  assumes "p \<noteq> init_task"
  shows "next_task (SET_LINKS p L q) =
      (if q = prev_task (L init_task) then p else if q = p then init_task else next_task (L q))"
    and "prev_task (SET_LINKS p L q) =
      (if q = init_task then p else if q = p then prev_task (L init_task) else prev_task (L q))"
    and "p_opptr (SET_LINKS p L q) = p_opptr (L q)" and "p_pptr (SET_LINKS p L q) = p_pptr (L q)"
  using assms by (auto simp: SET_LINKS_def Let_def upd_link_field split: option.split)

lemma SET_LINKS_siblings:
  assumes "p \<noteq> init_task" and "p_cptr (L (p_pptr (L p))) \<noteq> Some p"
  shows "p_cptr (SET_LINKS p L q) = (if q = p_pptr (L p) then Some p else p_cptr (L q))"
    and "p_ysptr (SET_LINKS p L q) =
      (if p_cptr (L (p_pptr (L p))) = Some q then Some p else if q = p then None else p_ysptr (L q))"
    and "p_osptr (SET_LINKS p L q) = (if q = p then p_cptr (L (p_pptr (L p))) else p_osptr (L q))"
  using assms by (auto simp: SET_LINKS_def Let_def upd_link_field split: option.split)

lemma REMOVE_LINKS_ring:
  assumes "next_task (L p) \<noteq> p" and "prev_task (L p) \<noteq> p"
  shows "next_task (REMOVE_LINKS p L q) = (if q = prev_task (L p) then next_task (L p) else next_task (L q))"
    and "prev_task (REMOVE_LINKS p L q) = (if q = next_task (L p) then prev_task (L p) else prev_task (L q))"
    and "p_opptr (REMOVE_LINKS p L q) = p_opptr (L q)" and "p_pptr (REMOVE_LINKS p L q) = p_pptr (L q)"
  using assms by (auto simp: REMOVE_LINKS_def Let_def upd_link_field split: option.split)

lemma REMOVE_LINKS_siblings:
  assumes "p_osptr (L p) \<noteq> Some p" and "p_ysptr (L p) \<noteq> Some p"
  shows "p_cptr (REMOVE_LINKS p L q) =
      (if p_ysptr (L p) = None \<and> q = p_pptr (L p) then p_osptr (L p) else p_cptr (L q))"
    and "p_ysptr (REMOVE_LINKS p L q) = (if p_osptr (L p) = Some q then p_ysptr (L p) else p_ysptr (L q))"
    and "p_osptr (REMOVE_LINKS p L q) = (if p_ysptr (L p) = Some q then p_osptr (L p) else p_osptr (L q))"
  using assms by (auto simp: REMOVE_LINKS_def Let_def upd_link_field split: option.split)

section \<open>Siblings\<close>

lemma siblings_append: "siblings L y (us @ vs) z \<longleftrightarrow> siblings L y us (first vs z) \<and> siblings L (final y us) vs z"
  by (induction us arbitrary: y) auto

lemma siblings_cong:
  assumes "\<And>q. q \<in> set xs \<Longrightarrow> p_ysptr (L' q) = p_ysptr (L q) \<and> p_osptr (L' q) = p_osptr (L q)"
  shows "siblings L' y xs z \<longleftrightarrow> siblings L y xs z"
  using assms by (induction xs arbitrary: y) simp_all

lemma siblings_relink_end:
  assumes "siblings L y us z" and "distinct us" and "\<And>q. q \<in> set us \<Longrightarrow> p_ysptr (L' q) = p_ysptr (L q)"
    and "\<And>q. q \<in> set us \<Longrightarrow> p_osptr (L' q) = (if final y us = Some q then z' else p_osptr (L q))"
  shows "siblings L' y us z'"
  using assms
proof (induction us arbitrary: y)
  case (Cons u us)
  have "siblings L' (Some u) us z'" by (rule Cons.IH) (use Cons.prems in auto)
  moreover have "final (Some u) us = Some u \<longleftrightarrow> us = []"
    using Cons.prems(2) last_in_set [of us] by (auto simp: final_def)
  moreover have "us \<noteq> [] \<Longrightarrow> first us z' = first us z" by (cases us) simp_all
  ultimately show ?case using Cons.prems by auto
qed simp

lemma siblings_relink_begin:
  assumes "siblings L y vs z" and "distinct vs" and "\<And>q. q \<in> set vs \<Longrightarrow> p_osptr (L' q) = p_osptr (L q)"
    and "\<And>q. q \<in> set vs \<Longrightarrow> p_ysptr (L' q) = (if first vs None = Some q then y' else p_ysptr (L q))"
  shows "siblings L' y' vs z"
proof (cases vs)
  case (Cons v ws)
  then have "siblings L' (Some v) ws z \<longleftrightarrow> siblings L (Some v) ws z"
    using assms by (intro siblings_cong) auto
  with Cons assms show ?thesis by simp
qed simp

section \<open>The macros implement the lists\<close>

lemma first_notin: "first xs None = Some q \<Longrightarrow> q \<in> set xs"
  by (cases xs) simp_all

lemma final_notin: "final None xs = Some q \<Longrightarrow> q \<in> set xs"
  by (auto simp: final_def split: if_splits)

lemma SET_LINKS_refines:
  assumes rep: "tree_rep A L T ks" and p: "p \<in> A" "p \<notin> set T" "p \<noteq> init_task" and f: "p_pptr (L p) \<in> A"
  shows "tree_rep A (SET_LINKS p L) (T @ [p]) (ks(p_pptr (L p) := p # ks (p_pptr (L p))))"
proof -
  note D = tree_repD [OF rep]
  let ?f = "p_pptr (L p)" let ?L = "SET_LINKS p L"
  have c: "p_cptr (L ?f) = first (ks ?f) None" using D(7) f by simp
  have kids: "c \<in> set (ks g) \<Longrightarrow> c \<in> set T \<and> p_pptr (L c) = g" if "g \<in> A" for c g using D(10) [OF that] by simp
  have np: "p_cptr (L ?f) \<noteq> Some p" using first_notin [of "ks ?f" p] kids [OF f, of p] p(2) c by auto
  note R = SET_LINKS_ring [of p L, OF p(3)] and S = SET_LINKS_siblings [of p L, OF p(3) np]
  have prev: "prev_task (L init_task) = last (init_task # T)" by (rule segment_ends(1) [OF D(5)])
  have "p \<noteq> last (init_task # T)" using p(2,3) last_in_set [of T] by auto
  then have pp: "next_task (?L p) = init_task" using p(3) by (simp only: R prev if_False if_True simp_thms)
  have "segment ?L init_task T p"
  proof (rule segment_relink [OF D(5)])
    show "distinct (init_task # T)" "p \<notin> set T" using D(3,4) p by simp_all
  qed (use p D(4) in \<open>auto simp only: R prev set_simps insert_iff split: if_split\<close>)
  then have "segment ?L init_task (T @ [p]) init_task" using pp by (simp add: segment_append R(2))
  moreover have "siblings ?L None ((ks(?f := p # ks ?f)) g) None" if g: "g \<in> A" for g
  proof (cases "g = ?f")
    case True
    have "siblings ?L (Some p) (ks ?f) None"
      by (rule siblings_relink_begin [OF D(8) [OF f] D(9) [OF f]]) (use kids [OF f] p(2) in \<open>auto simp: S c\<close>)
    moreover have "p_ysptr (?L p) = None" "p_osptr (?L p) = first (ks ?f) None" using np by (simp_all add: S c)
    ultimately show ?thesis using True by simp
  next
    case False
    have "q \<noteq> p \<and> p_cptr (L ?f) \<noteq> Some q" if "q \<in> set (ks g)" for q
      using kids [OF g that] kids [OF f, of q] False p(2) first_notin [of "ks ?f" q] by (auto simp: c)
    then have "siblings ?L None (ks g) None \<longleftrightarrow> siblings L None (ks g) None"
      by (intro siblings_cong) (simp add: S)
    with False D(8) [OF g] show ?thesis by simp
  qed
  moreover have "c \<in> set ((ks(?f := p # ks ?f)) g) \<longleftrightarrow> c \<in> set (T @ [p]) \<and> p_pptr (?L c) = g" if "g \<in> A" for g c
    using D(10) [OF that, of c] p(2) by (auto simp: R(4))
  moreover have "distinct ((ks(?f := p # ks ?f)) g)" if "g \<in> A" for g
    using D(9) [OF that] kids [OF f, of p] p(2) by auto
  moreover have "p_cptr (?L g) = first ((ks(?f := p # ks ?f)) g) None" if "g \<in> A" for g
    using D(7) [OF that] by (simp add: S(1))
  moreover have "p_pptr (?L c) \<in> A" if "c \<in> set (T @ [p])" for c using D(6) [of c] f that by (auto simp: R(4))
  ultimately show ?thesis
    using D(1-4) p by (intro tree_repI) (simp_all del: fun_upd_apply)
qed

lemma REMOVE_LINKS_refines:
  assumes rep: "tree_rep A L T ks" and p: "p \<in> set T"
  shows "tree_rep A (REMOVE_LINKS p L) (remove1 p T) (ks(p_pptr (L p) := remove1 p (ks (p_pptr (L p)))))"
proof -
  note D = tree_repD [OF rep]
  let ?f = "p_pptr (L p)" let ?L = "REMOVE_LINKS p L"
  have f: "?f \<in> A" using D(6) p by simp
  have kids: "c \<in> set (ks g) \<longleftrightarrow> c \<in> set T \<and> p_pptr (L c) = g" if "g \<in> A" for c g using D(10) [OF that] by simp
  obtain xs ys where T: "T = xs @ p # ys" using p by (auto simp: in_set_conv_decomp)
  obtain us vs where k: "ks ?f = us @ p # vs" using p kids [OF f, of p] by (auto simp: in_set_conv_decomp)
  have dT: "distinct (xs @ p # ys)" "init_task \<notin> set (xs @ p # ys)" using D(3,4) T by simp_all
  have dk: "distinct (us @ p # vs)" using D(9) [OF f] k by simp
  have seg: "segment L init_task xs p" "segment L p ys init_task" using D(5) T by (simp_all add: segment_append)
  have ends: "prev_task (L p) = last (init_task # xs)" "next_task (L p) = hd (ys @ [init_task])"
    using segment_ends [OF seg(1)] segment_ends [OF seg(2)] by simp_all
  have sib: "siblings L None us (Some p)" "siblings L (Some p) vs None"
    "p_ysptr (L p) = final None us" "p_osptr (L p) = first vs None"
    using D(8) [OF f] by (simp_all add: k siblings_append)
  have "last (init_task # xs) \<in> insert init_task (set xs)" "hd (ys @ [init_task]) \<in> insert init_task (set ys)"
    using last_in_set [of "init_task # xs"] hd_in_set [of "ys @ [init_task]"] by auto
  with dT have pq: "last (init_task # xs) \<noteq> p" "hd (ys @ [init_task]) \<noteq> p" by force+
  then have np: "next_task (L p) \<noteq> p" "prev_task (L p) \<noteq> p" "p_osptr (L p) \<noteq> Some p" "p_ysptr (L p) \<noteq> Some p"
    using dk ends sib(3,4) first_notin [of vs p] final_notin [of us p] by auto
  note R = REMOVE_LINKS_ring [of L p, OF np(1,2)] and S = REMOVE_LINKS_siblings [of L p, OF np(3,4)]
  have rm: "remove1 p T = xs @ ys" "remove1 p (ks ?f) = us @ vs"
    using dT dk by (simp_all add: T k remove1_append)
  have hd_ys: "hd (ys @ [init_task]) \<notin> set xs" using dT by (cases ys) auto
  have relinked: "segment ?L init_task xs (hd (ys @ [init_task]))"
    using dT hd_ys ends pq by (intro segment_relink [OF seg(1)]) (auto simp: R)
  have "segment ?L init_task (xs @ ys) init_task"
  proof (cases ys)
    case (Cons y zs)
    have "last (init_task # xs) \<notin> insert y (set zs)"
      using dT last_in_set [of "init_task # xs"] Cons by auto
    then have "segment ?L y zs init_task \<longleftrightarrow> segment L y zs init_task"
      using dT Cons ends by (intro segment_cong) (auto simp: R)
    with relinked seg(2) Cons show ?thesis by (simp add: segment_append)
  qed (use relinked in simp)
  moreover have "siblings ?L None ((ks(?f := us @ vs)) g) None" if g: "g \<in> A" for g
  proof (cases "g = ?f")
    case True
    have "siblings ?L None us (first vs None)" "siblings ?L (final None us) vs None"
      using dk first_notin [of vs] final_notin [of us] sib(3,4)
      by (intro siblings_relink_end [OF sib(1)] siblings_relink_begin [OF sib(2)]; fastforce simp: S)+
    with True show ?thesis by (simp add: siblings_append)
  next
    case False
    have "p_osptr (L p) \<noteq> Some q \<and> p_ysptr (L p) \<noteq> Some q" if "q \<in> set (ks g)" for q
      using kids [OF g, of q] kids [OF f, of q] False that first_notin [of vs q] final_notin [of us q]
      by (auto simp: k sib(3,4))
    then have "siblings ?L None (ks g) None \<longleftrightarrow> siblings L None (ks g) None"
      by (intro siblings_cong) (simp add: S)
    with False D(8) [OF g] show ?thesis by simp
  qed
  moreover have "c \<in> set ((ks(?f := us @ vs)) g) \<longleftrightarrow> c \<in> set (xs @ ys) \<and> p_pptr (?L c) = g" if "g \<in> A" for g c
  proof -
    have "c \<in> set ((ks(?f := us @ vs)) g) \<longleftrightarrow> c \<in> set (ks g) \<and> c \<noteq> p"
      using dk k kids [OF that, of p] by auto
    then show ?thesis using D(10) [OF that, of c] dT by (auto simp: R(4) T)
  qed
  moreover have "distinct ((ks(?f := us @ vs)) g)" if "g \<in> A" for g
    using D(9) [OF that] dk by auto
  moreover have "p_cptr (?L g) = first ((ks(?f := us @ vs)) g) None" if "g \<in> A" for g
    using D(7) [OF that] k sib(3,4) by (cases us) (auto simp: S(1) final_def)
  ultimately show ?thesis
    unfolding rm using D dT by (intro tree_repI) (auto simp: R(4) T simp del: fun_upd_apply)
qed

lemma tree_rep_cong:
  assumes "\<And>q. next_task (L' q) = next_task (L q)" "\<And>q. prev_task (L' q) = prev_task (L q)"
    "\<And>q. p_pptr (L' q) = p_pptr (L q)" "\<And>q. p_cptr (L' q) = p_cptr (L q)"
    "\<And>q. p_ysptr (L' q) = p_ysptr (L q)" "\<And>q. p_osptr (L' q) = p_osptr (L q)"
  shows "tree_rep A L' T ks = tree_rep A L T ks"
proof -
  have "segment L' a xs b = segment L a xs b" "siblings L' y xs z = siblings L y xs z" for a b xs y z
    using assms by (intro segment_cong siblings_cong; simp)+
  then show ?thesis using assms by (simp add: tree_rep_def)
qed

end
