(* ===== verification/Proc_State.thy ===== *)
theory Proc_State imports Proc_Tree Pid_Hash Sched_Syscalls Wait_Queue begin

text \<open>
  The state that fork, exit and wait share: the scheduler's state, the process tree, the fields of
  \<^verbatim>\<open>struct task_struct\<close> that only they use, the thread groups, the users; the functions of other files of the
  kernel they call, as parameters; and the questions \<^verbatim>\<open>exit.c\<close> asks about process groups.
\<close>

section \<open>State\<close>

record proc =
  exit_signal :: int
  exit_code :: int
  pdeath_signal :: int
  parent_exec_id :: u32
  self_exec_id :: u32
  ptrace :: u32
  wait_busy :: int
  leader :: bool
  tms_utime :: int
  tms_stime :: int
  tms_cutime :: int
  tms_cstime :: int
  min_flt :: u32
  maj_flt :: u32
  nswap :: u32
  cmin_flt :: u32
  cmaj_flt :: u32
  cnswap :: u32
  user_of :: nat
  wait_chldexit :: "wait_entry list"

text \<open>The two counters of \<^verbatim>\<open>struct user_struct\<close>.\<close>

record user =
  u_count :: int
  u_processes :: int

text \<open>Calls of the signal code, in the order they are made.\<close>

datatype notice = Notify_parent tptr int | Send_sig int tptr | Kill_pg int int

record ('l, 'b, 'g) psys =
  sch :: "('l, 'b) sched"
  tree :: tree
  procs :: "tptr \<Rightarrow> proc"
  groups :: 'g
  users :: "nat \<Rightarrow> user"
  nr_threads :: int
  notices :: "notice list"

definition upd_sch :: "(('l, 'b) sched \<Rightarrow> ('l, 'b) sched) \<Rightarrow> ('l, 'b, 'g) psys \<Rightarrow> ('l, 'b, 'g) psys" where
  "upd_sch f s = s\<lparr>sch := f (sch s)\<rparr>"

definition upd_tree :: "(tree \<Rightarrow> tree) \<Rightarrow> ('l, 'b, 'g) psys \<Rightarrow> ('l, 'b, 'g) psys" where
  "upd_tree f s = s\<lparr>tree := f (tree s)\<rparr>"

definition upd_proc :: "tptr \<Rightarrow> (proc \<Rightarrow> proc) \<Rightarrow> ('l, 'b, 'g) psys \<Rightarrow> ('l, 'b, 'g) psys" where
  "upd_proc p f s = s\<lparr>procs := (procs s)(p := f (procs s p))\<rparr>"

abbreviation task_of :: "('l, 'b, 'g) psys \<Rightarrow> tptr \<Rightarrow> task" where
  "task_of s p \<equiv> tasks (sch s) p"

abbreviation pid_of :: "('l, 'b, 'g) psys \<Rightarrow> tptr \<Rightarrow> int" where
  "pid_of s p \<equiv> t_pid (tasks (sch s) p)"

lemma upd_simps [simp]:
  "sch (upd_sch f s) = f (sch s)" "tree (upd_sch f s) = tree s" "procs (upd_sch f s) = procs s"
  "groups (upd_sch f s) = groups s" "users (upd_sch f s) = users s" "nr_threads (upd_sch f s) = nr_threads s"
  "notices (upd_sch f s) = notices s"
  "sch (upd_tree g s) = sch s" "tree (upd_tree g s) = g (tree s)" "procs (upd_tree g s) = procs s"
  "groups (upd_tree g s) = groups s" "users (upd_tree g s) = users s" "nr_threads (upd_tree g s) = nr_threads s"
  "notices (upd_tree g s) = notices s"
  "sch (upd_proc p h s) = sch s" "tree (upd_proc p h s) = tree s"
  "procs (upd_proc p h s) = (procs s)(p := h (procs s p))"
  "groups (upd_proc p h s) = groups s" "users (upd_proc p h s) = users s" "nr_threads (upd_proc p h s) = nr_threads s"
  "notices (upd_proc p h s) = notices s"
  by (simp_all add: upd_sch_def upd_tree_def upd_proc_def)

definition PF_EXITING :: u32 where "PF_EXITING = 4"

section \<open>The functions of other files\<close>

text \<open>
  The lists of \<^verbatim>\<open>list.h\<close> that hold the thread groups; \<^verbatim>\<open>free_uid\<close>; what the signal code does with a
  call; the signal numbers and the task that adopts orphans.
\<close>

record ('l, 'b, 'g) plib =
  pk :: "('l, 'b) klib"
  next_thread :: "'g \<Rightarrow> tptr \<Rightarrow> tptr"
  tg_init :: "tptr \<Rightarrow> 'g \<Rightarrow> 'g"
  tg_add :: "tptr \<Rightarrow> tptr \<Rightarrow> 'g \<Rightarrow> 'g"
  tg_del :: "tptr \<Rightarrow> 'g \<Rightarrow> 'g"
  free_uid :: "nat \<Rightarrow> (nat \<Rightarrow> user) \<Rightarrow> (nat \<Rightarrow> user)"
  deliver :: "notice \<Rightarrow> ('l, 'b, 'g) psys \<Rightarrow> ('l, 'b, 'g) psys"
  child_reaper :: tptr
  SIGHUP :: int
  SIGCONT :: int
  SIGCHLD :: int
  SIGSTOP :: int

definition notify :: "('l, 'b, 'g) plib \<Rightarrow> notice \<Rightarrow> ('l, 'b, 'g) psys \<Rightarrow> ('l, 'b, 'g) psys" where
  "notify P n s = deliver P n (s\<lparr>notices := notices s @ [n]\<rparr>)"

text \<open>
  What \<^verbatim>\<open>fork.c\<close> and \<^verbatim>\<open>exit.c\<close> rely on: signals wake tasks and change their pending signals, but leave the process
  tree, the identifiers, the thread groups and the users alone, and do not revive a zombie.
\<close>

definition same_ids :: "task \<Rightarrow> task \<Rightarrow> bool" where
  "same_ids t t' \<longleftrightarrow> t_pid t' = t_pid t \<and> t_pgrp t' = t_pgrp t \<and> t_session t' = t_session t \<and> t_tgid t' = t_tgid t"

locale proc_lib =
  fixes next_thread :: "'g \<Rightarrow> tptr \<Rightarrow> tptr"
    and tg_init :: "tptr \<Rightarrow> 'g \<Rightarrow> 'g"
    and tg_add :: "tptr \<Rightarrow> tptr \<Rightarrow> 'g \<Rightarrow> 'g"
    and tg_del :: "tptr \<Rightarrow> 'g \<Rightarrow> 'g"
    and deliver :: "notice \<Rightarrow> ('l, 'b, 'g) psys \<Rightarrow> ('l, 'b, 'g) psys"
  assumes next_init: "next_thread (tg_init p g) = (next_thread g)(p := p)"
    and next_add: "p \<noteq> q \<Longrightarrow> next_thread (tg_add p q g) = (next_thread g)(p := next_thread g q, q := p)"
    and next_del: "inj (next_thread g) \<Longrightarrow> r \<noteq> p \<Longrightarrow>
      next_thread (tg_del p g) r = (if next_thread g r = p then next_thread g p else next_thread g r)"
    and deliver_frame: "tree (deliver n s) = tree s" "groups (deliver n s) = groups s"
      "users (deliver n s) = users s" "nr_threads (deliver n s) = nr_threads s" "notices (deliver n s) = notices s"
      "pidhash (sch (deliver n s)) = pidhash (sch s)" "rq_curr (rqs (sch (deliver n s)) c) = rq_curr (rqs (sch s) c)"
    and deliver_ids: "same_ids (task_of s p) (task_of (deliver n s) p)"
    and deliver_zombie: "t_state (task_of s p) = TASK_ZOMBIE \<longleftrightarrow> t_state (task_of (deliver n s) p) = TASK_ZOMBIE"

locale process_lib = proc_lib "next_thread P" "tg_init P" "tg_add P" "tg_del P" "deliver P"
  for P :: "('l, 'b, 'g) plib"
begin

lemma notify_frame [simp]:
  "tree (notify P n s) = tree s" "groups (notify P n s) = groups s" "users (notify P n s) = users s"
  "nr_threads (notify P n s) = nr_threads s" "notices (notify P n s) = notices s @ [n]"
  "pidhash (sch (notify P n s)) = pidhash (sch s)" "rq_curr (rqs (sch (notify P n s)) c) = rq_curr (rqs (sch s) c)"
  by (simp_all add: notify_def deliver_frame)

lemma notify_ids [simp]:
  "pid_of (notify P n s) p = pid_of s p" "t_pgrp (task_of (notify P n s) p) = t_pgrp (task_of s p)"
  "t_session (task_of (notify P n s) p) = t_session (task_of s p)"
  "t_tgid (task_of (notify P n s) p) = t_tgid (task_of s p)"
  "t_state (task_of (notify P n s) p) = TASK_ZOMBIE \<longleftrightarrow> t_state (task_of s p) = TASK_ZOMBIE"
  using deliver_ids [of "s\<lparr>notices := notices s @ [n]\<rparr>" p n] deliver_zombie [of "s\<lparr>notices := notices s @ [n]\<rparr>" p n]
  by (simp_all add: notify_def same_ids_def)

end

section \<open>Process groups\<close>

definition current_task :: "cpu \<Rightarrow> ('l, 'b, 'g) psys \<Rightarrow> tptr" where
  "current_task me s = current me (sch s)"

text \<open>The next task of the ring, in a loop whose variables are not part of the state, and in one that changes it.\<close>

abbreviation next_in :: "('l, 'b, 'g) psys \<Rightarrow> 's \<Rightarrow> tptr \<Rightarrow> tptr" where
  "next_in s \<equiv> \<lambda>_ q. next_task (tree s q)"

abbreviation next_of :: "('l, 'b, 'g) psys \<Rightarrow> tptr \<Rightarrow> tptr" where
  "next_of \<equiv> \<lambda>s q. next_task (tree s q)"

definition session_of_pgrp :: "int \<Rightarrow> ('l, 'b, 'g) psys \<Rightarrow> int option" where
  "session_of_pgrp pgrp s =
     for_each_task (next_in s)
       (\<lambda>p fallback.
          if t_session (task_of s p) \<le> 0 then (False, fallback)
          else if t_pgrp (task_of s p) = pgrp then (True, t_session (task_of s p))
          else if t_pid (task_of s p) = pgrp then (False, t_session (task_of s p))
          else (False, fallback))
       init_task (-1)"

definition will_become_orphaned_pgrp :: "int \<Rightarrow> tptr option \<Rightarrow> ('l, 'b, 'g) psys \<Rightarrow> bool option" where
  "will_become_orphaned_pgrp pgrp ignored_task s =
     for_each_task (next_in s)
       (\<lambda>p orphaned.
          let parent = p_pptr (tree s p)
          in if Some p = ignored_task \<or> t_pgrp (task_of s p) \<noteq> pgrp \<or> t_state (task_of s p) = TASK_ZOMBIE \<or>
                pid_of s parent = 1
             then (False, orphaned)
             else if t_pgrp (task_of s parent) \<noteq> pgrp \<and> t_session (task_of s parent) = t_session (task_of s p)
             then (True, False)
             else (False, orphaned))
       init_task True"

definition is_orphaned_pgrp :: "int \<Rightarrow> ('l, 'b, 'g) psys \<Rightarrow> bool option" where
  "is_orphaned_pgrp pgrp s = will_become_orphaned_pgrp pgrp None s"

definition has_stopped_jobs :: "int \<Rightarrow> ('l, 'b, 'g) psys \<Rightarrow> bool option" where
  "has_stopped_jobs pgrp s =
     for_each_task (next_in s)
       (\<lambda>p found.
          if t_pgrp (task_of s p) \<noteq> pgrp then (False, found)
          else if t_state (task_of s p) \<noteq> TASK_STOPPED then (False, found)
          else (True, True))
       init_task False"

section \<open>What the loops compute\<close>

text \<open>A task keeps its process group from being orphaned when its parent is in the session but not in the group.\<close>

definition holds_pgrp :: "int \<Rightarrow> tptr option \<Rightarrow> ('l, 'b, 'g) psys \<Rightarrow> tptr \<Rightarrow> bool" where
  "holds_pgrp pgrp ignored s p \<longleftrightarrow>
     Some p \<noteq> ignored \<and> t_pgrp (task_of s p) = pgrp \<and> t_state (task_of s p) \<noteq> TASK_ZOMBIE \<and>
     pid_of s (p_pptr (tree s p)) \<noteq> 1 \<and> t_pgrp (task_of s (p_pptr (tree s p))) \<noteq> pgrp \<and>
     t_session (task_of s (p_pptr (tree s p))) = t_session (task_of s p)"

definition on_ring :: "tree \<Rightarrow> tptr list \<Rightarrow> bool" where
  "on_ring L T \<longleftrightarrow> nexts (\<lambda>q. next_task (L q)) init_task T init_task \<and> init_task \<notin> set T"

lemma tree_rep_ring: "tree_rep A L T ks \<Longrightarrow> on_ring L T"
  using segment_nexts tree_repD(4,5) unfolding on_ring_def by blast

lemma on_ring_cong: "(\<And>q. next_task (L' q) = next_task (L q)) \<Longrightarrow> on_ring L' T \<longleftrightarrow> on_ring L T"
  by (simp add: on_ring_def)

lemma loop_list_search:
  assumes "\<And>q s. \<not> hit q \<Longrightarrow> body q s = (False, s)" and "\<And>q s. hit q \<Longrightarrow> body q s = (True, v)"
  shows "loop_list body qs s = (if \<exists>q \<in> set qs. hit q then v else s)"
proof (induction qs)
  case (Cons q qs)
  show ?case using Cons assms(1) [of q s] assms(2) [of q s] by (cases "hit q") simp_all
qed simp

lemma for_each_search:
  assumes "on_ring (tree s) T"
    and "\<And>q u. \<not> hit q \<Longrightarrow> body q u = (False, u)" and "\<And>q u. hit q \<Longrightarrow> body q u = (True, v)"
  shows "for_each_task (next_in s) body init_task u = Some (if \<exists>q \<in> set T. hit q then v else u)"
  using for_each_task_list [of "next_in s" u init_task T body] assms(1) loop_list_search [OF assms(2,3)]
  by (simp add: on_ring_def)

lemma will_become_orphaned_eq:
  assumes "on_ring (tree s) T"
  shows "will_become_orphaned_pgrp pgrp ig s = Some (\<forall>p \<in> set T. \<not> holds_pgrp pgrp ig s p)"
proof -
  have "will_become_orphaned_pgrp pgrp ig s = Some (if \<exists>p \<in> set T. holds_pgrp pgrp ig s p then False else True)"
    unfolding will_become_orphaned_pgrp_def Let_def
    by (rule for_each_search [OF assms]) (auto simp: holds_pgrp_def)
  then show ?thesis by auto
qed

lemma has_stopped_jobs_eq:
  assumes "on_ring (tree s) T"
  shows "has_stopped_jobs pgrp s =
    Some (\<exists>p \<in> set T. t_pgrp (task_of s p) = pgrp \<and> t_state (task_of s p) = TASK_STOPPED)"
proof -
  have "has_stopped_jobs pgrp s =
      Some (if \<exists>p \<in> set T. t_pgrp (task_of s p) = pgrp \<and> t_state (task_of s p) = TASK_STOPPED then True else False)"
    unfolding has_stopped_jobs_def by (rule for_each_search [OF assms]) auto
  then show ?thesis by auto
qed

text \<open>The session of a process group: of its first member that has a session, else of the last task with its number as pid.\<close>

lemma session_loop:
  "loop_list
     (\<lambda>p fallback.
        if t_session (task_of s p) \<le> 0 then (False, fallback)
        else if t_pgrp (task_of s p) = pgrp then (True, t_session (task_of s p))
        else if t_pid (task_of s p) = pgrp then (False, t_session (task_of s p))
        else (False, fallback)) T v =
   (case List.find (\<lambda>p. 0 < t_session (task_of s p) \<and> t_pgrp (task_of s p) = pgrp) T of
      Some p \<Rightarrow> t_session (task_of s p)
    | None \<Rightarrow> (let ps = filter (\<lambda>p. 0 < t_session (task_of s p) \<and> t_pid (task_of s p) = pgrp) T
               in if ps = [] then v else t_session (task_of s (last ps))))"
  by (induction T arbitrary: v) (auto simp: Let_def split: option.split)

lemma session_of_pgrp_eq:
  assumes "on_ring (tree s) T"
  shows "session_of_pgrp pgrp s = Some
    (case List.find (\<lambda>p. 0 < t_session (task_of s p) \<and> t_pgrp (task_of s p) = pgrp) T of
       Some p \<Rightarrow> t_session (task_of s p)
     | None \<Rightarrow> (let ps = filter (\<lambda>p. 0 < t_session (task_of s p) \<and> t_pid (task_of s p) = pgrp) T
                in if ps = [] then -1 else t_session (task_of s (last ps))))"
  unfolding session_of_pgrp_def
  by (subst for_each_task_list [where T = T])
    (use assms in \<open>simp_all only: session_loop on_ring_def not_False_eq_True simp_thms\<close>)

end
