(* ===== verification/Proc_Example.thy ===== *)
theory Proc_Example imports Proc_State Wakeup Example_State begin

text \<open>
  An instance of the functions of other files: thread groups as the map from a task to the next
  one; a signal marks its tasks and wakes a task that sleeps interruptibly. The systems of
  processes that the properties are applied to.
\<close>

definition signal_task :: "('l, 'b) klib \<Rightarrow> tptr \<Rightarrow> ('l, 'b) sched \<Rightarrow> ('l, 'b) sched" where
  "signal_task K p c =
     (let c = upd_task p (\<lambda>t. t\<lparr>t_sigpending := 1\<rparr>) c
      in if t_state (tasks c p) = TASK_INTERRUPTIBLE then snd (try_to_wake_up K 0 p False c) else c)"

fun ref_deliver :: "('l, 'b) klib \<Rightarrow> notice \<Rightarrow> ('l, 'b, 'g) psys \<Rightarrow> ('l, 'b, 'g) psys" where
  "ref_deliver K (Notify_parent p sig) s = upd_sch (signal_task K (p_pptr (tree s p))) s"
| "ref_deliver K (Send_sig sig p) s = upd_sch (signal_task K p) s"
| "ref_deliver K (Kill_pg pgrp sig) s =
     upd_sch (\<lambda>c. c\<lparr>tasks := (\<lambda>p. if t_pgrp (tasks c p) = pgrp
                                     then (tasks c p)\<lparr>t_sigpending := 1\<rparr> else tasks c p)\<rparr>) s"

definition ref_plib :: "(qid \<Rightarrow> tptr list, int list, tptr \<Rightarrow> tptr) plib" where
  "ref_plib = \<lparr>pk = Kx,
     next_thread = (\<lambda>g. g),
     tg_init = (\<lambda>p g. g(p := p)),
     tg_add = (\<lambda>p q g. g(p := g q, q := p)),
     tg_del = (\<lambda>p g r. if g r = p then g p else g r),
     free_uid = (\<lambda>u us. us(u := (us u)\<lparr>u_count := u_count (us u) - 1\<rparr>)),
     deliver = ref_deliver Kx, child_reaper = 5,
     SIGHUP = 1, SIGCONT = 18, SIGCHLD = 17, SIGSTOP = 19\<rparr>"

definition ids :: "task \<Rightarrow> int \<times> int \<times> int \<times> int" where
  "ids t = (t_pid t, t_pgrp t, t_session t, t_tgid t)"

lemma same_ids_ids: "same_ids t t' \<longleftrightarrow> ids t' = ids t"
  by (auto simp: same_ids_def ids_def)

lemma ids_upd: "(\<And>t. ids (f t) = ids t) \<Longrightarrow> ids (tasks (upd_task p f c) q) = ids (tasks c q)"
  by simp

lemma ids_activate: "ids (tasks (activate_task K p d c) q) = ids (tasks c q)"
  by (simp add: ids_def sleep_credit_def Let_def)

lemma state_activate: "t_state (tasks (activate_task K p d c) q) = t_state (tasks c q)"
  by (simp add: sleep_credit_def Let_def)

lemma wake_frame:
  "pidhash (snd (try_to_wake_up K me p False c)) = pidhash c"
  "rq_curr (rqs (snd (try_to_wake_up K me p False c)) d) = rq_curr (rqs c d)"
  "ids (tasks (snd (try_to_wake_up K me p False c)) q) = ids (tasks c q)"
  "t_state (tasks (snd (try_to_wake_up K me p False c)) q) = (if q = p then TASK_RUNNING else t_state (tasks c q))"
proof -
  have id: "ids (t\<lparr>t_state := v\<rparr>) = ids t" "ids (t\<lparr>t_need_resched := b\<rparr>) = ids t" for t v b
    by (simp_all add: ids_def)
  show "pidhash (snd (try_to_wake_up K me p False c)) = pidhash c"
    "rq_curr (rqs (snd (try_to_wake_up K me p False c)) d) = rq_curr (rqs c d)"
    by (simp_all add: try_to_wake_up_def fast_migrates_def Let_def resched_task_def del: activate_tasks)
  show "ids (tasks (snd (try_to_wake_up K me p False c)) q) = ids (tasks c q)"
    "t_state (tasks (snd (try_to_wake_up K me p False c)) q) = (if q = p then TASK_RUNNING else t_state (tasks c q))"
    by (simp_all add: try_to_wake_up_def fast_migrates_def Let_def resched_task_def ids_activate state_activate id
        del: activate_tasks)
qed

lemma signal_task_frame:
  "pidhash (signal_task K p c) = pidhash c" "rq_curr (rqs (signal_task K p c) d) = rq_curr (rqs c d)"
  "same_ids (tasks c q) (tasks (signal_task K p c) q)"
  "t_state (tasks (signal_task K p c) q) = TASK_ZOMBIE \<longleftrightarrow> t_state (tasks c q) = TASK_ZOMBIE"
proof -
  let ?c = "upd_task p (\<lambda>t. t\<lparr>t_sigpending := 1\<rparr>) c"
  have c: "ids (tasks ?c q) = ids (tasks c q)" "t_state (tasks ?c r) = t_state (tasks c r)" for r
    by (simp_all add: ids_def)
  show "pidhash (signal_task K p c) = pidhash c" "rq_curr (rqs (signal_task K p c) d) = rq_curr (rqs c d)"
    by (simp_all add: signal_task_def Let_def wake_frame)
  show "same_ids (tasks c q) (tasks (signal_task K p c) q)"
    by (simp add: signal_task_def Let_def same_ids_ids wake_frame(3) c del: upd_task_simps)
  show "t_state (tasks (signal_task K p c) q) = TASK_ZOMBIE \<longleftrightarrow> t_state (tasks c q) = TASK_ZOMBIE"
    by (auto simp: signal_task_def Let_def wake_frame(4) c state_consts simp del: upd_task_simps)
qed

lemma ref_deliver_frame:
  "tree (ref_deliver K n s) = tree s" "groups (ref_deliver K n s) = groups s"
  "users (ref_deliver K n s) = users s" "nr_threads (ref_deliver K n s) = nr_threads s"
  "notices (ref_deliver K n s) = notices s" "pidhash (sch (ref_deliver K n s)) = pidhash (sch s)"
  "rq_curr (rqs (sch (ref_deliver K n s)) c) = rq_curr (rqs (sch s) c)"
  "same_ids (task_of s p) (task_of (ref_deliver K n s) p)"
  "t_state (task_of (ref_deliver K n s) p) = TASK_ZOMBIE \<longleftrightarrow> t_state (task_of s p) = TASK_ZOMBIE"
proof -
  have refl: "same_ids t t" "same_ids t (t\<lparr>t_sigpending := 1\<rparr>)" for t by (simp_all add: same_ids_def)
  show "tree (ref_deliver K n s) = tree s" "groups (ref_deliver K n s) = groups s"
    "users (ref_deliver K n s) = users s" "nr_threads (ref_deliver K n s) = nr_threads s"
    "notices (ref_deliver K n s) = notices s" by (cases n; simp)+
  show "pidhash (sch (ref_deliver K n s)) = pidhash (sch s)"
    "rq_curr (rqs (sch (ref_deliver K n s)) c) = rq_curr (rqs (sch s) c)"
    "same_ids (task_of s p) (task_of (ref_deliver K n s) p)"
    "t_state (task_of (ref_deliver K n s) p) = TASK_ZOMBIE \<longleftrightarrow> t_state (task_of s p) = TASK_ZOMBIE"
    by (cases n; simp add: signal_task_frame refl)+
qed

interpretation ref_proc: process_lib ref_plib
proof
  fix n and s :: "(qid \<Rightarrow> tptr list, int list, tptr \<Rightarrow> tptr) psys" and c p
  have d: "deliver ref_plib = ref_deliver Kx" by (simp add: ref_plib_def)
  show "tree (deliver ref_plib n s) = tree s" "groups (deliver ref_plib n s) = groups s"
    "users (deliver ref_plib n s) = users s" "nr_threads (deliver ref_plib n s) = nr_threads s"
    "notices (deliver ref_plib n s) = notices s" "pidhash (sch (deliver ref_plib n s)) = pidhash (sch s)"
    "rq_curr (rqs (sch (deliver ref_plib n s)) c) = rq_curr (rqs (sch s) c)"
    "same_ids (task_of s p) (task_of (deliver ref_plib n s) p)"
    unfolding d by (rule ref_deliver_frame)+
  show "t_state (task_of s p) = TASK_ZOMBIE \<longleftrightarrow> t_state (task_of (deliver ref_plib n s) p) = TASK_ZOMBIE"
    unfolding d using ref_deliver_frame(9) by metis
qed (simp_all add: ref_plib_def)

section \<open>A family of processes\<close>

text \<open>
  The first task 0, \<^verbatim>\<open>init\<close> (task 5, pid 1), its child 7, which runs, and a task 8 that is a child of \<open>f\<close>.
\<close>

definition parent_ex :: "tptr \<Rightarrow> tptr \<Rightarrow> tptr" where
  "parent_ex f q = (if q = 8 then f else if q = 7 then 5 else 0)"

definition lone_ex :: "tptr \<Rightarrow> tree" where
  "lone_ex f = (\<lambda>q. \<lparr>next_task = 0, prev_task = 0, p_opptr = Some (parent_ex f q), p_pptr = parent_ex f q,
     p_cptr = None, p_ysptr = None, p_osptr = None\<rparr>)"

definition tree_ex :: "tptr \<Rightarrow> tree" where
  "tree_ex f = SET_LINKS 8 (SET_LINKS 7 (SET_LINKS 5 (lone_ex f)))"

definition kids_ex :: "tptr \<Rightarrow> tptr \<Rightarrow> tptr list" where
  "kids_ex f = (let ks = (\<lambda>_. [])(0 := [5], 5 := [7]) in ks(f := 8 # ks f))"

definition proc_ex :: proc where
  "proc_ex = \<lparr>exit_signal = 17, exit_code = 0, pdeath_signal = 0, parent_exec_id = 0, self_exec_id = 0,
     ptrace = 0, wait_busy = 0, leader = False, tms_utime = 3, tms_stime = 4, tms_cutime = 5, tms_cstime = 6,
     min_flt = 0, maj_flt = 0, nswap = 0, cmin_flt = 0, cmaj_flt = 0, cnswap = 0, user_of = 0, wait_chldexit = []\<rparr>"

definition family :: "tptr \<Rightarrow> (qid \<Rightarrow> tptr list, int list, tptr \<Rightarrow> tptr) psys" where
  "family f = \<lparr>sch = (running other_ex)\<lparr>tasks :=
       (tasks (running other_ex))(5 := (INIT_TASK Kx)\<lparr>t_pid := 1\<rparr>,
         7 := (tasks (running other_ex) 7)\<lparr>t_pid := 7, t_euid := 0\<rparr>, 8 := (INIT_TASK Kx)\<lparr>t_pid := 8\<rparr>),
       pidhash := (\<lambda>h. if h = 1 then [5] else if h = 7 then [7] else if h = 8 then [8] else [])\<rparr>,
     tree = tree_ex f, procs = (\<lambda>_. proc_ex), groups = (\<lambda>q. q),
     users = (\<lambda>_. \<lparr>u_count = 4, u_processes = 3\<rparr>), nr_threads = 3, notices = []\<rparr>"

lemma lone_rep: "tree_rep {0, 5, 7, 8} (lone_ex f) [] (\<lambda>_. [])"
  by (rule tree_repI) (simp_all add: lone_ex_def init_task_def)

lemma set_links_parents [simp]:
  "q \<noteq> init_task \<Longrightarrow> p_pptr (SET_LINKS q L r) = p_pptr (L r)" "q \<noteq> init_task \<Longrightarrow> p_opptr (SET_LINKS q L r) = p_opptr (L r)"
  by (simp_all add: SET_LINKS_ring)

lemma tree_ex_parents: "p_pptr (tree_ex f q) = parent_ex f q" "p_opptr (tree_ex f q) = Some (parent_ex f q)"
  by (simp_all add: tree_ex_def lone_ex_def init_task_def)

lemma family_rep:
  assumes "f = 5 \<or> f = 7"
  shows "tree_rep {0, 5, 7, 8} (tree (family f)) [5, 7, 8] (kids_ex f)"
proof -
  let ?A = "{0, 5, 7, 8} :: tptr set"
  have p: "p_pptr (lone_ex f q) = parent_ex f q" for q by (simp add: lone_ex_def)
  have "tree_rep ?A (SET_LINKS 5 (lone_ex f)) ([] @ [5]) ((\<lambda>_. [])(0 := [5]))"
    using SET_LINKS_refines [OF lone_rep, of 5 f] by (simp add: p parent_ex_def init_task_def)
  then have "tree_rep ?A (SET_LINKS 7 (SET_LINKS 5 (lone_ex f))) ([5] @ [7]) ((\<lambda>_. [])(0 := [5], 5 := [7]))"
    using SET_LINKS_refines [of ?A "SET_LINKS 5 (lone_ex f)" "[5]" "(\<lambda>_. [])(0 := [5])" 7]
    by (simp add: p parent_ex_def init_task_def)
  then have "tree_rep ?A (tree_ex f) ([5, 7] @ [8]) (kids_ex f)"
    using SET_LINKS_refines [of ?A "SET_LINKS 7 (SET_LINKS 5 (lone_ex f))" "[5, 7]" "(\<lambda>_. [])(0 := [5], 5 := [7])" 8] assms
    by (auto simp: p parent_ex_def init_task_def tree_ex_def kids_ex_def Let_def)
  then show ?thesis by (simp add: family_def)
qed

lemma family_simps [simp]:
  "current_task 0 (family f) = 7" "p_opptr (tree (family f) q) = Some (parent_ex f q)"
  "p_pptr (tree (family f) q) = parent_ex f q" "procs (family f) q = proc_ex" "groups (family f) = (\<lambda>q. q)"
  "pid_of (family f) 5 = 1" "pid_of (family f) 7 = 7" "pid_of (family f) 8 = 8"
  "t_euid (task_of (family f) 7) = 0" "pidhash (sch (family f)) h = (if h = 1 then [5] else if h = 7 then [7] else if h = 8 then [8] else [])"
  using running_tasks(1) [OF ex_ok(1)]
  by (simp_all add: family_def current_task_def current_def tree_ex_parents)

end
