(* ===== verification/Proc_Exit.thy ===== *)
theory Proc_Exit imports Proc_State begin

text \<open>
  The end of a process: its children get another parent (\<^verbatim>\<open>forget_original_parent\<close>), the relatives are told
  (\<^verbatim>\<open>exit_notify\<close>), and the task structure is given back when the parent has waited for it
  (\<^verbatim>\<open>release_task\<close>).
\<close>

section \<open>Operations\<close>

text \<open>The loop that looks for a thread of the group that is not exiting, started at \<open>r\<close>.\<close>

partial_function (option) pick_reaper ::
  "('l, 'b, 'g) plib \<Rightarrow> tptr \<Rightarrow> tptr \<Rightarrow> ('l, 'b, 'g) psys \<Rightarrow> tptr option" where
  "pick_reaper P father r s =
     (if t_flags (task_of s (next_thread P (groups s) r)) AND PF_EXITING = 0
      then Some (next_thread P (groups s) r)
      else if next_thread P (groups s) r \<noteq> father
      then pick_reaper P father (next_thread P (groups s) r) s
      else Some (next_thread P (groups s) r))"

definition reparent :: "('l, 'b, 'g) plib \<Rightarrow> tptr \<Rightarrow> tptr \<Rightarrow> tptr \<Rightarrow> ('l, 'b, 'g) psys \<Rightarrow> bool \<times> ('l, 'b, 'g) psys" where
  "reparent P father reaper p s =
     (False,
      if p_opptr (tree s p) = Some father
      then (let s = upd_proc p (\<lambda>r. r\<lparr>exit_signal := SIGCHLD P\<rparr>) s;
                s = upd_proc p (\<lambda>r. r\<lparr>self_exec_id := self_exec_id r + 1\<rparr>) s;
                s = upd_tree (upd_link p
                      (\<lambda>l. l\<lparr>p_opptr := Some (if p = reaper then child_reaper P else reaper)\<rparr>)) s;
                s = upd_sch (upd_task p (\<lambda>t. t\<lparr>t_first_time_slice := 0\<rparr>)) s
            in if pdeath_signal (procs s p) \<noteq> 0 then notify P (Send_sig (pdeath_signal (procs s p)) p) s else s)
      else s)"

definition forget_original_parent ::
  "('l, 'b, 'g) plib \<Rightarrow> tptr \<Rightarrow> ('l, 'b, 'g) psys \<Rightarrow> ('l, 'b, 'g) psys option" where
  "forget_original_parent P father s =
     do {
       reaper \<leftarrow> pick_reaper P father father s;
       let reaper = (if reaper = father then child_reaper P else reaper);
       for_each_task next_of (reparent P father reaper) init_task s
     }"

text \<open>The orphan check of a process group: both signals, if the group is orphaned and has a stopped job.\<close>

definition hup_orphans :: "('l, 'b, 'g) plib \<Rightarrow> int \<Rightarrow> tptr option \<Rightarrow> ('l, 'b, 'g) psys \<Rightarrow> ('l, 'b, 'g) psys option" where
  "hup_orphans P pgrp ignored s =
     do {
       orphaned \<leftarrow> will_become_orphaned_pgrp pgrp ignored s;
       if \<not> orphaned then Some s
       else do {
         stopped \<leftarrow> has_stopped_jobs pgrp s;
         Some (if stopped
               then notify P (Kill_pg pgrp (SIGCONT P)) (notify P (Kill_pg pgrp (SIGHUP P)) s)
               else s)
       }
     }"

text \<open>Moving the first child \<open>p\<close> of the exiting task to its original parent, and the rest of the round.\<close>

definition adopt :: "tptr \<Rightarrow> tptr \<Rightarrow> tree \<Rightarrow> tree" where
  "adopt cur p L =
     (let L = upd_link cur (\<lambda>l. l\<lparr>p_cptr := p_osptr (L p)\<rparr>) L;
          L = upd_link p (\<lambda>l. l\<lparr>p_ysptr := None\<rparr>) L;
          L = upd_link p (\<lambda>l. l\<lparr>p_pptr := the (p_opptr (L p))\<rparr>) L;
          L = upd_link p (\<lambda>l. l\<lparr>p_osptr := p_cptr (L (p_pptr (L p)))\<rparr>) L;
          L = (case p_osptr (L p) of
                 Some os \<Rightarrow> upd_link os (\<lambda>l. l\<lparr>p_ysptr := Some p\<rparr>) L
               | None \<Rightarrow> L)
      in upd_link (p_pptr (L p)) (\<lambda>l. l\<lparr>p_cptr := Some p\<rparr>) L)"

definition leave_child ::
  "('l, 'b, 'g) plib \<Rightarrow> tptr \<Rightarrow> tptr \<Rightarrow> ('l, 'b, 'g) psys \<Rightarrow> ('l, 'b, 'g) psys option" where
  "leave_child P cur p s =
     (let s = upd_proc p (\<lambda>r. r\<lparr>ptrace := 0\<rparr>) (upd_tree (adopt cur p) s);
          s = (if t_state (task_of s p) = TASK_ZOMBIE
               then notify P (Notify_parent p (exit_signal (procs s p))) s else s)
      in if t_pgrp (task_of s p) \<noteq> t_pgrp (task_of s cur) \<and> t_session (task_of s p) = t_session (task_of s cur)
         then hup_orphans P (t_pgrp (task_of s p)) None s
         else Some s)"

partial_function (option) leave_children ::
  "('l, 'b, 'g) plib \<Rightarrow> tptr \<Rightarrow> ('l, 'b, 'g) psys \<Rightarrow> ('l, 'b, 'g) psys option" where
  "leave_children P cur s =
     (case p_cptr (tree s cur) of None \<Rightarrow> Some s
      | Some p \<Rightarrow> Option.bind (leave_child P cur p s) (leave_children P cur))"

definition exit_notify :: "('l, 'b, 'g) plib \<Rightarrow> cpu \<Rightarrow> ('l, 'b, 'g) psys \<Rightarrow> ('l, 'b, 'g) psys option" where
  "exit_notify P me s =
     (let cur = current_task me s in
      do {
        s \<leftarrow> forget_original_parent P cur s;
        let t = p_pptr (tree s cur);
        s \<leftarrow> (if t_pgrp (task_of s t) \<noteq> t_pgrp (task_of s cur) \<and> t_session (task_of s t) = t_session (task_of s cur)
              then hup_orphans P (t_pgrp (task_of s cur)) (Some cur) s else Some s);
        let r = procs s cur;
        let (keep, sc) =
          (if exit_signal r \<noteq> SIGCHLD P \<and>
              (parent_exec_id r \<noteq> self_exec_id (procs s t) \<or> self_exec_id r \<noteq> parent_exec_id r)
           then capable (pk P) me CAP_KILL (sch s) else (True, sch s));
        let s = s\<lparr>sch := sc\<rparr>;
        let s = (if \<not> keep then upd_proc cur (\<lambda>r. r\<lparr>exit_signal := SIGCHLD P\<rparr>) s else s);
        let s = upd_sch (upd_task cur (\<lambda>t. t\<lparr>t_state := TASK_ZOMBIE\<rparr>)) s;
        let s = notify P (Notify_parent cur (exit_signal (procs s cur))) s;
        leave_children P cur s
      })"

text \<open>
  The hash at the level of its lists (Pid_Hash shows that the pointers implement them), the removal of
  a task from every list, and its release. The wait for the task to leave its CPU and
  \<^verbatim>\<open>release_thread\<close> do not change this state.
\<close>

definition hash_task :: "tptr \<Rightarrow> ('l, 'b) sched \<Rightarrow> ('l, 'b) sched" where
  "hash_task p s = (let h = pid_hashfn (t_pid (tasks s p)) in s\<lparr>pidhash := (pidhash s)(h := p # pidhash s h)\<rparr>)"

definition unhash_task :: "tptr \<Rightarrow> ('l, 'b) sched \<Rightarrow> ('l, 'b) sched" where
  "unhash_task p s =
     (let h = pid_hashfn (t_pid (tasks s p)) in s\<lparr>pidhash := (pidhash s)(h := remove1 p (pidhash s h))\<rparr>)"

definition unhash_process :: "('l, 'b, 'g) plib \<Rightarrow> tptr \<Rightarrow> ('l, 'b, 'g) psys \<Rightarrow> ('l, 'b, 'g) psys" where
  "unhash_process P p s =
     (let s = s\<lparr>nr_threads := nr_threads s - 1\<rparr>;
          s = upd_sch (unhash_task p) s;
          s = upd_tree (REMOVE_LINKS p) s
      in s\<lparr>groups := tg_del P p (groups s)\<rparr>)"

definition release_task :: "('l, 'b, 'g) plib \<Rightarrow> cpu \<Rightarrow> tptr \<Rightarrow> ('l, 'b, 'g) psys \<Rightarrow> ('l, 'b, 'g) psys" where
  "release_task P me p s =
     (let cur = current_task me s;
          s = (if p = cur then upd_sch (\<lambda>c. c\<lparr>bug := True\<rparr>) s else s);
          u = user_of (procs s p);
          s = s\<lparr>users := (users s)(u := (users s u)\<lparr>u_processes := u_processes (users s u) - 1\<rparr>)\<rparr>;
          s = s\<lparr>users := free_uid P u (users s)\<rparr>;
          s = unhash_process P p s;
          r = procs s p;
          s = upd_proc cur (\<lambda>c. c\<lparr>cmin_flt := cmin_flt c + (min_flt r + cmin_flt r)\<rparr>) s;
          s = upd_proc cur (\<lambda>c. c\<lparr>cmaj_flt := cmaj_flt c + (maj_flt r + cmaj_flt r)\<rparr>) s;
          s = upd_proc cur (\<lambda>c. c\<lparr>cnswap := cnswap c + (nswap r + cnswap r)\<rparr>) s;
          s = upd_sch (sched_exit (pk P) me p) s
      in upd_sch (upd_task p (\<lambda>t. t\<lparr>t_pid := 0\<rparr>)) s)"

section \<open>Who adopts the children\<close>

definition live_thread :: "('l, 'b, 'g) psys \<Rightarrow> tptr \<Rightarrow> bool" where
  "live_thread s r \<longleftrightarrow> t_flags (task_of s r) AND PF_EXITING = 0"

lemma pick_reaper_eq:
  assumes "nexts (next_thread P (groups s)) r ts father" and "father \<notin> set ts"
  shows "pick_reaper P father r s = Some (case List.find (live_thread s) ts of Some q \<Rightarrow> q | None \<Rightarrow> father)"
  using assms
proof (induction ts arbitrary: r)
  case Nil
  then show ?case by (subst pick_reaper.simps) simp
next
  case (Cons q ts)
  then have "next_thread P (groups s) r = q" "q \<noteq> father" by auto
  then show ?case using Cons by (subst pick_reaper.simps) (simp flip: live_thread_def)
qed

lemma find_in: "List.find Q xs = Some x \<Longrightarrow> x \<in> set xs"
  by (auto simp: find_Some_iff)

definition reaper_of :: "('l, 'b, 'g) plib \<Rightarrow> tptr \<Rightarrow> tptr list \<Rightarrow> ('l, 'b, 'g) psys \<Rightarrow> tptr" where
  "reaper_of P father ts s =
     (case List.find (live_thread s) ts of Some q \<Rightarrow> q | None \<Rightarrow> child_reaper P)"

definition new_parent :: "('l, 'b, 'g) plib \<Rightarrow> tptr \<Rightarrow> tptr \<Rightarrow> tptr" where
  "new_parent P reaper p = (if p = reaper then child_reaper P else reaper)"

text \<open>What the tree, the identifiers and the zombies are after the loop.\<close>

definition given_away :: "('l, 'b, 'g) plib \<Rightarrow> tptr \<Rightarrow> tptr \<Rightarrow> tptr list \<Rightarrow> tree \<Rightarrow> tree" where
  "given_away P father reaper T L =
     (\<lambda>q. if q \<in> set T \<and> p_opptr (L q) = Some father then (L q)\<lparr>p_opptr := Some (new_parent P reaper q)\<rparr> else L q)"

definition kin :: "('l, 'b, 'g) psys \<Rightarrow> ('l, 'b, 'g) psys \<Rightarrow> bool" where
  "kin s s' \<longleftrightarrow> groups s' = groups s \<and> users s' = users s \<and> nr_threads s' = nr_threads s \<and>
     pidhash (sch s') = pidhash (sch s) \<and> (\<forall>c. rq_curr (rqs (sch s') c) = rq_curr (rqs (sch s) c)) \<and>
     (\<forall>p. same_ids (task_of s p) (task_of s' p) \<and>
        (t_state (task_of s p) = TASK_ZOMBIE \<longrightarrow> t_state (task_of s' p) = TASK_ZOMBIE))"

lemma kin_refl [simp]: "kin s s"
  by (simp add: kin_def same_ids_def)

lemma kin_trans: "kin s s' \<Longrightarrow> kin s' s'' \<Longrightarrow> kin s s''"
  by (simp add: kin_def same_ids_def)

lemma kin_upd [simp]:
  "kin s (upd_tree f t) = kin s t" "kin s (upd_proc p g t) = kin s t"
  "kin s (upd_sch (upd_task p (\<lambda>t. t\<lparr>t_first_time_slice := v\<rparr>)) t) = kin s t"
  by (auto simp: kin_def same_ids_def)

lemma kinD:
  assumes "kin s s'"
  shows "t_pgrp (task_of s' p) = t_pgrp (task_of s p)" and "t_session (task_of s' p) = t_session (task_of s p)"
    and "pid_of s' p = pid_of s p" and "current_task me s' = current_task me s" and "groups s' = groups s"
    and "t_state (task_of s p) = TASK_ZOMBIE \<Longrightarrow> t_state (task_of s' p) = TASK_ZOMBIE"
  using assms by (auto simp: kin_def same_ids_def current_task_def current_def)

context process_lib
begin

lemma kin_notify [simp]: "kin s (notify P n t) = kin s t"
  by (simp add: kin_def same_ids_def)

lemma reparent_step:
  "fst (reparent P f r p s) = False" "kin s (snd (reparent P f r p s))"
  "tree (snd (reparent P f r p s)) =
    (if p_opptr (tree s p) = Some f then (tree s)(p := (tree s p)\<lparr>p_opptr := Some (new_parent P r p)\<rparr>) else tree s)"
proof -
  show "fst (reparent P f r p s) = False" by (simp add: reparent_def)
  show "kin s (snd (reparent P f r p s))"
    by (simp add: reparent_def Let_def)
  show "tree (snd (reparent P f r p s)) =
    (if p_opptr (tree s p) = Some f then (tree s)(p := (tree s p)\<lparr>p_opptr := Some (new_parent P r p)\<rparr>) else tree s)"
    by (auto simp: reparent_def Let_def upd_link_def new_parent_def fun_eq_iff)
qed

lemma reparent_loop:
  assumes "distinct T"
  shows "tree (loop_list (reparent P f r) T s) = given_away P f r T (tree s) \<and> kin s (loop_list (reparent P f r) T s)"
  using assms
proof (induction T arbitrary: s)
  case Nil
  then show ?case by (simp add: given_away_def)
next
  case (Cons q qs)
  let ?s = "snd (reparent P f r q s)"
  have "given_away P f r qs (tree ?s) = given_away P f r (q # qs) (tree s)"
    using Cons.prems by (auto simp: given_away_def reparent_step fun_eq_iff)
  moreover have "kin s (loop_list (reparent P f r) qs ?s)"
    by (rule kin_trans [OF reparent_step(2) [where f = f and r = r and p = q]]) (use Cons in simp)
  ultimately show ?case using Cons by (simp add: reparent_step(1))
qed

lemma forget_original_parent_eq:
  assumes ring: "on_ring (tree s) T" "distinct T"
    and group: "nexts (next_thread P (groups s)) father ts father" "father \<notin> set ts"
  shows "\<exists>s'. forget_original_parent P father s = Some s' \<and> kin s s' \<and>
    tree s' = given_away P father (reaper_of P father ts s) T (tree s)"
proof -
  define q where "q = (case List.find (live_thread s) ts of Some q \<Rightarrow> q | None \<Rightarrow> father)"
  let ?r = "if q = father then child_reaper P else q"
  have r: "?r = reaper_of P father ts s"
    using group(2) by (auto simp: q_def reaper_of_def dest: find_in split: option.splits)
  have "next_of (snd (reparent P father b a u)) = next_of u" for a b and u :: "('l, 'b, 'g) psys"
    by (simp add: reparent_step fun_eq_iff)
  then have "for_each_task next_of (reparent P father ?r) init_task s = Some (loop_list (reparent P father ?r) T s)"
    using ring(1) unfolding on_ring_def by (intro for_each_task_list) simp_all
  then have "forget_original_parent P father s = Some (loop_list (reparent P father ?r) T s)"
    using pick_reaper_eq [OF group] by (simp add: forget_original_parent_def flip: q_def)
  then show ?thesis using reparent_loop [OF ring(2), of father ?r s] unfolding r by blast
qed

end

lemma given_away_rep [simp]: "tree_rep A (given_away P f r T L) T' ks = tree_rep A L T' ks"
  by (rule tree_rep_cong) (simp_all add: given_away_def)

section \<open>The children change their parent\<close>

text \<open>
  Between two rounds the first child left still names the sibling that went before it; the lists are
  represented once that pointer is cleared, as the next round does.
\<close>

definition mended :: "tptr \<Rightarrow> tree \<Rightarrow> tree" where
  "mended cur L = (case p_cptr (L cur) of None \<Rightarrow> L | Some p \<Rightarrow> upd_link p (\<lambda>l. l\<lparr>p_ysptr := None\<rparr>) L)"

lemma mended_fields [simp]:
  "next_task (mended cur L q) = next_task (L q)" "prev_task (mended cur L q) = prev_task (L q)"
  "p_opptr (mended cur L q) = p_opptr (L q)" "p_pptr (mended cur L q) = p_pptr (L q)"
  "p_cptr (mended cur L q) = p_cptr (L q)" "p_osptr (mended cur L q) = p_osptr (L q)"
  "p_ysptr (mended cur L q) = (if p_cptr (L cur) = Some q then None else p_ysptr (L q))"
  by (auto simp: mended_def upd_link_field split: option.split)

lemma adopt_fields:
  assumes "p_opptr (L p) = Some g" and "g \<noteq> cur" and "p \<noteq> cur" and "p_cptr (L g) \<noteq> Some p"
  shows "next_task (adopt cur p L q) = next_task (L q)" and "prev_task (adopt cur p L q) = prev_task (L q)"
    and "p_opptr (adopt cur p L q) = p_opptr (L q)" and "p_pptr (adopt cur p L q) = (if q = p then g else p_pptr (L q))"
    and "p_cptr (adopt cur p L q) = (if q = g then Some p else if q = cur then p_osptr (L p) else p_cptr (L q))"
    and "p_osptr (adopt cur p L q) = (if q = p then p_cptr (L g) else p_osptr (L q))"
    and "p_ysptr (adopt cur p L q) =
      (if p_cptr (L g) = Some q then Some p else if q = p then None else p_ysptr (L q))"
  using assms by (auto simp: adopt_def Let_def upd_link_field split: option.split)

lemma adopt_refines:
  assumes rep: "tree_rep A (mended cur L) T ks" and cur: "cur \<in> A" "ks cur = p # cs" "cur \<notin> set (ks cur)"
    and g: "p_opptr (L p) = Some g" "g \<in> A" "g \<noteq> cur"
  shows "tree_rep A (mended cur (adopt cur p L)) T (ks(cur := cs, g := p # ks g))"
proof -
  note D = tree_repD [OF rep, simplified]
  have p: "p_cptr (L cur) = Some p" "p \<in> set T" "p_pptr (L p) = cur" "p \<noteq> cur"
    using D(7) [OF cur(1)] D(10) [OF cur(1), of p] cur by auto
  have kids: "c \<in> set (ks f) \<longleftrightarrow> c \<in> set T \<and> p_pptr (L c) = f" if "f \<in> A" for c f using D(10) [OF that] by simp
  have pg: "p \<notin> set (ks g)" "p \<notin> set cs" using kids [OF g(2)] p g(3) D(9) [OF cur(1)] cur(2) by auto
  have cg: "p_cptr (L g) = first (ks g) None" using D(7) [OF g(2)] by simp
  then have "p_cptr (L g) \<noteq> Some p" using first_notin [of "ks g" p] pg by auto
  note F = adopt_fields [OF g(1,3) p(4) this]
  have sibs: "siblings (mended cur L) (Some p) cs None" "p_osptr (L p) = first cs None"
    using D(8) [OF cur(1)] cur(2) by simp_all
  let ?L = "mended cur (adopt cur p L)" let ?k = "ks(cur := cs, g := p # ks g)"
  have disj: "q \<notin> set cs" if "q \<in> set (ks f)" "f \<in> A" "f \<noteq> cur" for q f
    using kids [OF that(2), of q] kids [OF cur(1), of q] that cur(2) by auto
  show ?thesis
  proof (rule tree_repI)
    show "segment ?L init_task T init_task"
      using D(5) by (subst segment_cong [where L = "mended cur L"]) (simp_all add: F)
    fix f assume f: "f \<in> A"
    show "p_cptr (?L f) = first (?k f) None" using D(7) [OF f] g(3) by (simp add: F sibs(2))
    show "distinct (?k f)" using D(9) [OF f] D(9) [OF cur(1)] D(9) [OF g(2)] cur(2) pg by simp
    show "c \<in> set (?k f) \<longleftrightarrow> c \<in> set T \<and> p_pptr (?L c) = f" for c
      using kids [OF f, of c] kids [OF cur(1), of c] kids [OF cur(1), of p] p(2,3) g(3) cur(2) pg(2) by (auto simp: F)
    show "siblings ?L None (?k f) None"
    proof (cases "f = g")
      case True
      have "siblings ?L (Some p) (ks g) None"
      proof (rule siblings_relink_begin [OF D(8) [OF g(2)] D(9) [OF g(2)]])
        fix q assume q: "q \<in> set (ks g)"
        then have "first cs None \<noteq> Some q" "q \<noteq> p" using disj [OF q g(2,3)] first_notin [of cs q] pg by auto
        then show "p_osptr (?L q) = p_osptr (mended cur L q)"
          "p_ysptr (?L q) = (if first (ks g) None = Some q then Some p else p_ysptr (mended cur L q))"
          by (auto simp: F p(1) sibs(2) g(3) cg)
      qed
      moreover have "p_ysptr (?L p) = None" "p_osptr (?L p) = first (ks g) None"
        using pg(1) first_notin [of "ks g" p] by (auto simp: F cg)
      ultimately show ?thesis using True by simp
    next
      case ng: False
      show ?thesis
      proof (cases "f = cur")
        case True
        have "siblings ?L None cs None"
        proof (rule siblings_relink_begin [OF sibs(1)])
          show "distinct cs" using D(9) [OF cur(1)] cur(2) by simp
          fix q assume q: "q \<in> set cs"
          have "q \<notin> set (ks g)" using disj [OF _ g(2,3), of q] q by blast
          then have "p_cptr (L g) \<noteq> Some q" using first_notin [of "ks g" q] cg by auto
          with q pg show "p_osptr (?L q) = p_osptr (mended cur L q)"
            "p_ysptr (?L q) = (if first cs None = Some q then None else p_ysptr (mended cur L q))"
            by (auto simp: F p(1) sibs(2) g(3) g(3) [symmetric])
        qed
        with True ng show ?thesis by simp
      next
        case False
        have "p_ysptr (?L q) = p_ysptr (mended cur L q) \<and> p_osptr (?L q) = p_osptr (mended cur L q)"
          if q: "q \<in> set (ks f)" for q
        proof -
          have "q \<notin> set cs" "q \<noteq> p" "q \<notin> set (ks g)"
            using disj [OF q f False] kids [OF f, of q] kids [OF g(2), of q] q p(3) False ng by auto
          then have "first cs None \<noteq> Some q" "p_cptr (L g) \<noteq> Some q"
            using first_notin [of cs q] first_notin [of "ks g" q] by (auto simp: cg)
          with \<open>q \<noteq> p\<close> show ?thesis by (simp add: F p(1) sibs(2) g(3))
        qed
        then have "siblings ?L None (ks f) None \<longleftrightarrow> siblings (mended cur L) None (ks f) None"
          by (intro siblings_cong)
        with ng False D(8) [OF f] show ?thesis by simp
      qed
    qed
  qed (use D g(2) in \<open>auto simp: F\<close>)
qed

end
