(* ===== verification/Exit_Notify.thy ===== *)
theory Exit_Notify imports Proc_Exit begin

text \<open>
  \<^verbatim>\<open>exit_notify\<close> always returns, leaves no task with the exiting one as its parent or original
  parent, and hands every child to its new original parent, youngest last.
\<close>

section \<open>The loop over the children\<close>

text \<open>The lists of children after the children \<open>cs\<close> of \<open>cur\<close> have moved to their parents \<open>par\<close>, in turn.\<close>

fun handed :: "(tptr \<Rightarrow> tptr) \<Rightarrow> tptr \<Rightarrow> tptr list \<Rightarrow> (tptr \<Rightarrow> tptr list) \<Rightarrow> tptr \<Rightarrow> tptr list" where
  "handed par cur [] ks = ks(cur := [])"
| "handed par cur (c # cs) ks = handed par cur cs (ks(cur := cs, par c := c # ks (par c)))"

lemma handed_eq:
  assumes "\<And>c. c \<in> set cs \<Longrightarrow> par c \<noteq> cur"
  shows "handed par cur cs ks f = (if f = cur then [] else rev (filter (\<lambda>c. par c = f) cs) @ ks f)"
  using assms by (induction cs arbitrary: ks) auto

lemma capable_kin: "kin s (s\<lparr>sch := snd (capable K me cap (sch s))\<rparr>)"
  by (auto simp: kin_def same_ids_def capable_def Let_def)

lemma zombie_kin: "kin s t \<Longrightarrow> kin s (upd_sch (upd_task p (\<lambda>t. t\<lparr>t_state := TASK_ZOMBIE\<rparr>)) t)"
  by (auto simp: kin_def same_ids_def)

lemma given_away_opptr:
  "p_opptr (given_away P f r T L q) =
    (if q \<in> set T \<and> p_opptr (L q) = Some f then Some (new_parent P r q) else p_opptr (L q))"
  by (simp add: given_away_def)

context process_lib
begin

lemma hup_orphans_eq:
  assumes "on_ring (tree s) T"
  shows "hup_orphans P pgrp ig s = Some
    (if (\<forall>p \<in> set T. \<not> holds_pgrp pgrp ig s p) \<and>
        (\<exists>p \<in> set T. t_pgrp (task_of s p) = pgrp \<and> t_state (task_of s p) = TASK_STOPPED)
     then notify P (Kill_pg pgrp (SIGCONT P)) (notify P (Kill_pg pgrp (SIGHUP P)) s) else s)"
  unfolding hup_orphans_def will_become_orphaned_eq [OF assms] has_stopped_jobs_eq [OF assms] by simp

lemma hup_orphans_frame:
  assumes "on_ring (tree s) T"
  shows "\<exists>s'. hup_orphans P pgrp ig s = Some s' \<and> tree s' = tree s \<and> kin s s'"
  unfolding hup_orphans_eq [OF assms] by simp

lemma leave_child_frame:
  assumes "on_ring (adopt cur p (tree s)) T"
  shows "\<exists>s'. leave_child P cur p s = Some s' \<and> tree s' = adopt cur p (tree s) \<and> kin s s'"
proof -
  let ?s = "upd_proc p (\<lambda>r. r\<lparr>ptrace := 0\<rparr>) (upd_tree (adopt cur p) s)"
  define s1 where "s1 = (if t_state (task_of ?s p) = TASK_ZOMBIE
    then notify P (Notify_parent p (exit_signal (procs ?s p))) ?s else ?s)"
  have s1: "tree s1 = adopt cur p (tree s)" "kin s s1" by (simp_all add: s1_def)
  obtain s2 where "hup_orphans P (t_pgrp (task_of s1 p)) None s1 = Some s2" "tree s2 = tree s1" "kin s1 s2"
    using hup_orphans_frame [of s1 T] assms s1(1) by metis
  moreover have "leave_child P cur p s =
      (if t_pgrp (task_of s1 p) \<noteq> t_pgrp (task_of s1 cur) \<and> t_session (task_of s1 p) = t_session (task_of s1 cur)
       then hup_orphans P (t_pgrp (task_of s1 p)) None s1 else Some s1)"
    unfolding leave_child_def Let_def s1_def ..
  ultimately show ?thesis using s1 kin_trans [OF s1(2)] by simp
qed

lemma leave_children_ends:
  assumes "tree_rep A (mended cur (tree s)) T ks" and "cur \<in> A" and "cur \<notin> set (ks cur)"
    and "\<forall>c \<in> set (ks cur). par c \<in> A \<and> par c \<noteq> cur \<and> p_opptr (tree s c) = Some (par c)"
  shows "\<exists>s'. leave_children P cur s = Some s' \<and> kin s s' \<and>
    tree_rep A (tree s') T (handed par cur (ks cur) ks) \<and> (\<forall>q. p_opptr (tree s' q) = p_opptr (tree s q))"
  using assms
proof (induction "ks cur" arbitrary: s ks)
  case Nil
  then have c: "p_cptr (tree s cur) = None" using tree_repD(7) [OF Nil.prems(1,2)] by simp
  then have "tree_rep A (tree s) T ks" using Nil.prems(1) by (simp add: mended_def)
  moreover have "ks(cur := []) = ks" using Nil.hyps by auto
  ultimately show ?case
    using c by (subst leave_children.simps) (simp flip: Nil.hyps)
next
  case (Cons p cs)
  note rep = Cons.prems(1) and cur = Cons.prems(2,3) and k = Cons.hyps(2) [symmetric]
  let ?L = "adopt cur p (tree s)" let ?ks = "ks(cur := cs, par p := p # ks (par p))"
  have p: "p_opptr (tree s p) = Some (par p)" "par p \<in> A" "par p \<noteq> cur" using Cons.prems(4) k by auto
  have c: "p_cptr (tree s cur) = Some p" using tree_repD(7) [OF rep cur(1)] k by simp
  have rep': "tree_rep A (mended cur ?L) T ?ks" by (rule adopt_refines [OF rep cur(1) k cur(2) p])
  have "on_ring ?L T" using tree_rep_ring [OF rep'] by (simp add: on_ring_def)
  then obtain s1 where s1: "leave_child P cur p s = Some s1" "tree s1 = ?L" "kin s s1"
    using leave_child_frame by blast
  have "p \<notin> set (ks (par p))" 
    using tree_repD(10) [OF rep cur(1), of p] tree_repD(10) [OF rep p(2), of p] p(3) k by auto
  then have "p_cptr (tree s (par p)) \<noteq> Some p" 
    using tree_repD(7) [OF rep p(2)] first_notin [of "ks (par p)" p] by auto
  then have op: "p_opptr (?L q) = p_opptr (tree s q)" for q
    using adopt_fields(3) [of "tree s" p "par p" cur q] p cur(2) k by auto
  have "\<exists>s'. leave_children P cur s1 = Some s' \<and> kin s1 s' \<and>
    tree_rep A (tree s') T (handed par cur (?ks cur) ?ks) \<and> (\<forall>q. p_opptr (tree s' q) = p_opptr (tree s1 q))"
  proof (rule Cons.hyps(1))
    show "cs = ?ks cur" using p(3) by simp
    show "tree_rep A (mended cur (tree s1)) T ?ks" using rep' s1(2) by simp
    show "cur \<in> A" by (rule cur)
    show "cur \<notin> set (?ks cur)" using cur(2) k p(3) by simp
    show "\<forall>c \<in> set (?ks cur). par c \<in> A \<and> par c \<noteq> cur \<and> p_opptr (tree s1 c) = Some (par c)"
      using Cons.prems(4) k p(3) by (simp add: s1(2) op)
  qed
  then show ?case
    using c s1 p(3) kin_trans [OF s1(3)] by (subst leave_children.simps) (auto simp: k op)
qed

text \<open>The part of \<^verbatim>\<open>exit_notify\<close> between the search for a new parent and the loop.\<close>

lemma exit_notify_prefix:
  assumes ring: "on_ring (tree s1) T" and f: "forget_original_parent P (current_task me s) s = Some s1" and k1: "kin s s1"
  shows "\<exists>s2. exit_notify P me s = leave_children P (current_task me s) s2 \<and> kin s s2 \<and> tree s2 = tree s1 \<and>
    t_state (task_of s2 (current_task me s)) = TASK_ZOMBIE"
proof -
  define cur where "cur = current_task me s"
  define t where "t = p_pptr (tree s1 cur)"
  define s2 where "s2 = (if t_pgrp (task_of s1 t) \<noteq> t_pgrp (task_of s1 cur) \<and>
      t_session (task_of s1 t) = t_session (task_of s1 cur)
    then the (hup_orphans P (t_pgrp (task_of s1 cur)) (Some cur) s1) else s1)"
  have s2: "(if t_pgrp (task_of s1 t) \<noteq> t_pgrp (task_of s1 cur) \<and> t_session (task_of s1 t) = t_session (task_of s1 cur)
      then hup_orphans P (t_pgrp (task_of s1 cur)) (Some cur) s1 else Some s1) = Some s2"
    using hup_orphans_eq [OF ring, of "t_pgrp (task_of s1 cur)" "Some cur"] by (simp add: s2_def)
  have k2: "kin s s2" "tree s2 = tree s1" using k1 hup_orphans_eq [OF ring] by (auto simp: s2_def)
  define r where "r = procs s2 cur"
  define kc where "kc = (if exit_signal r \<noteq> SIGCHLD P \<and>
        (parent_exec_id r \<noteq> self_exec_id (procs s2 t) \<or> self_exec_id r \<noteq> parent_exec_id r)
      then capable (pk P) me CAP_KILL (sch s2) else (True, sch s2))"
  have k3: "kin s (s2\<lparr>sch := snd kc\<rparr>)"
    using kin_trans [OF k2(1) capable_kin] k2(1) by (simp add: kc_def)
  define s3 where "s3 = (if \<not> fst kc then upd_proc cur (\<lambda>r. r\<lparr>exit_signal := SIGCHLD P\<rparr>) (s2\<lparr>sch := snd kc\<rparr>)
    else s2\<lparr>sch := snd kc\<rparr>)"
  define s4 where "s4 = upd_sch (upd_task cur (\<lambda>t. t\<lparr>t_state := TASK_ZOMBIE\<rparr>)) s3"
  define s5 where "s5 = notify P (Notify_parent cur (exit_signal (procs s4 cur))) s4"
  have "kin s s3" using k3 by (simp add: s3_def)
  then have k5: "kin s s5" unfolding s5_def s4_def by (simp add: zombie_kin)
  have "tree s5 = tree s1" using k2(2) by (simp add: s5_def s4_def s3_def)
  moreover have "t_state (task_of s5 cur) = TASK_ZOMBIE" by (simp add: s5_def s4_def)
  moreover have "exit_notify P me s = leave_children P cur s5"
    unfolding exit_notify_def Let_def cur_def [symmetric] f [folded cur_def] bind.bind_lunit t_def [symmetric] s2
      r_def [symmetric] kc_def [symmetric] s3_def s4_def s5_def by (simp add: case_prod_beta)
  ultimately show ?thesis using k5 unfolding cur_def by blast
qed

lemma exit_notify_ends:
  assumes rep: "tree_rep A (tree s) T ks" and cur: "current_task me s \<in> A" "p_pptr (tree s (current_task me s)) \<noteq> current_task me s"
    and group: "nexts (next_thread P (groups s)) (current_task me s) ts (current_task me s)" "current_task me s \<notin> set ts"
    and adopters: "set ts \<subseteq> A" "child_reaper P \<in> A" "child_reaper P \<noteq> current_task me s"
    and parents: "\<forall>c \<in> set T. \<exists>g \<in> A. p_opptr (tree s c) = Some g"
  defines "L \<equiv> given_away P (current_task me s) (reaper_of P (current_task me s) ts s) T (tree s)"
  shows "\<exists>s'. exit_notify P me s = Some s' \<and> kin s s' \<and>
    t_state (task_of s' (current_task me s)) = TASK_ZOMBIE \<and>
    tree_rep A (tree s') T (handed (\<lambda>c. the (p_opptr (L c))) (current_task me s) (ks (current_task me s)) ks) \<and>
    (\<forall>q. p_opptr (tree s' q) = p_opptr (L q)) \<and> (\<forall>q \<in> set T. p_opptr (L q) \<noteq> Some (current_task me s))"
proof -
  let ?cur = "current_task me s" let ?r = "reaper_of P ?cur ts s"
  obtain s1 where s1: "forget_original_parent P ?cur s = Some s1" "kin s s1" "tree s1 = L"
    using forget_original_parent_eq [OF tree_rep_ring [OF rep] tree_repD(3) [OF rep] group] L_def by blast
  have L: "tree_rep A L T ks" using rep by (simp add: L_def)
  then have "on_ring (tree s1) T" unfolding s1(3) by (rule tree_rep_ring)
  then obtain s2 where s2: "exit_notify P me s = leave_children P ?cur s2" "kin s s2" "tree s2 = L"
    "t_state (task_of s2 ?cur) = TASK_ZOMBIE"
    using exit_notify_prefix [OF _ s1(1,2)] s1(3) by auto
  have "?r \<in> A \<and> ?r \<noteq> ?cur"
    using adopters group(2) by (auto simp: reaper_of_def dest: find_in split: option.split)
  then have op: "\<exists>g \<in> A. p_opptr (L c) = Some g \<and> g \<noteq> ?cur" if "c \<in> set T" for c
    using parents adopters that by (auto simp: L_def given_away_opptr new_parent_def)
  have kids: "c \<in> set T" if "c \<in> set (ks ?cur)" for c using tree_repD(10) [OF rep cur(1)] that by simp
  have first: "first (ks ?cur) None = Some c \<Longrightarrow> p_ysptr (L c) = None" for c
    using tree_repD(8) [OF L cur(1)] by (cases "ks ?cur") auto
  have "upd_link c (\<lambda>l. l\<lparr>p_ysptr := None\<rparr>) L = L" if "first (ks ?cur) None = Some c" for c
    using first [OF that] by (auto simp: upd_link_def fun_eq_iff)
  then have "mended ?cur L = L"
    using tree_repD(7) [OF L cur(1)] by (simp add: mended_def split: option.split)
  then have "\<exists>s'. leave_children P ?cur s2 = Some s' \<and> kin s2 s' \<and>
    tree_rep A (tree s') T (handed (\<lambda>c. the (p_opptr (L c))) ?cur (ks ?cur) ks) \<and>
    (\<forall>q. p_opptr (tree s' q) = p_opptr (tree s2 q))"
  proof (intro leave_children_ends)
    show "tree_rep A (mended ?cur (tree s2)) T ks" using L \<open>mended ?cur L = L\<close> by (simp add: s2(3))
    show "?cur \<in> A" by (rule cur)
    show "?cur \<notin> set (ks ?cur)" using tree_repD(10) [OF rep cur(1)] cur(2) by simp
    show "\<forall>c \<in> set (ks ?cur). the (p_opptr (L c)) \<in> A \<and> the (p_opptr (L c)) \<noteq> ?cur \<and>
        p_opptr (tree s2 c) = Some (the (p_opptr (L c)))"
      using op [OF kids] unfolding s2(3) by force
  qed
  then obtain s' where s': "leave_children P ?cur s2 = Some s'" "kin s2 s'"
    "tree_rep A (tree s') T (handed (\<lambda>c. the (p_opptr (L c))) ?cur (ks ?cur) ks)"
    "\<forall>q. p_opptr (tree s' q) = p_opptr (L q)" by (auto simp: s2(3))
  show ?thesis
  proof (intro exI conjI)
    show "exit_notify P me s = Some s'" by (simp add: s2(1) s'(1))
    show "kin s s'" by (rule kin_trans [OF s2(2) s'(2)])
    show "t_state (task_of s' ?cur) = TASK_ZOMBIE" by (rule kinD(6) [OF s'(2) s2(4)])
    show "\<forall>q \<in> set T. p_opptr (L q) \<noteq> Some ?cur" using op by force
  qed (rule s')+
qed

end

end
