(* ===== verification/Proc_Attach.thy ===== *)
theory Proc_Attach imports Proc_State Hw2_Syscalls begin

text \<open>
  The system calls of \<^verbatim>\<open>HW1/kernel/pattach.c\<close>: \<^verbatim>\<open>attach_proc\<close>, which makes a process the youngest child of
  the caller, and the two calls that count and list the caller's children, with their
  user-space wrappers (\<^verbatim>\<open>HW1/pattach.h\<close>).
\<close>

section \<open>The system calls\<close>

text \<open>The walk over the original parents, from the caller up: is there a task with the pid below pid 1?\<close>

partial_function (option) ancestor_walk :: "int \<Rightarrow> tptr option \<Rightarrow> ('l, 'b, 'g) psys \<Rightarrow> bool option" where
  "ancestor_walk pid iter s =
     (case iter of None \<Rightarrow> Some False
      | Some i \<Rightarrow>
          if pid_of s i = 1 then Some False
          else if pid_of s i = pid then Some True
          else ancestor_walk pid (p_opptr (tree s i)) s)"

definition attach :: "tptr \<Rightarrow> tptr \<Rightarrow> tree \<Rightarrow> tree" where
  "attach cur t L =
     (let L = REMOVE_LINKS t L;
          L = upd_link t (\<lambda>l. l\<lparr>p_pptr := cur\<rparr>) L;
          L = upd_link t (\<lambda>l. l\<lparr>p_opptr := Some cur\<rparr>) L
      in SET_LINKS t L)"

definition sys_attach_proc :: "cpu \<Rightarrow> int \<Rightarrow> ('l, 'b, 'g) psys \<Rightarrow> (int kres \<times> ('l, 'b, 'g) psys) option" where
  "sys_attach_proc me pid s =
     (case find_task_by_pid pid (sch s) of None \<Rightarrow> Some (Inl ESRCH, s)
      | Some t \<Rightarrow>
          if pid = 1 then Some (Inl EINVAL, s)
          else
            (let cur = current_task me s in
             do {
               ancestor \<leftarrow> ancestor_walk pid (Some cur) s;
               Some
                 (if ancestor then (Inl EINVAL, s)
                  else
                    (let proc_euid = t_euid (task_of s t); curr_euid = t_euid (task_of s cur);
                         father = the (p_opptr (tree s t))
                     in if curr_euid \<noteq> 0 \<and> curr_euid \<noteq> proc_euid then (Inl EPERM, s)
                        else if wait_busy (procs s father) = -1 \<or> wait_busy (procs s father) = pid
                        then (Inl EBUSY, s)
                        else (Inr (pid_of s father), upd_tree (attach cur t) s)))
             }))"

partial_function (option) count_siblings :: "tptr \<Rightarrow> tptr \<Rightarrow> int \<Rightarrow> ('l, 'b, 'g) psys \<Rightarrow> int option" where
  "count_siblings youngest t res s =
     (case p_osptr (tree s t) of None \<Rightarrow> Some res
      | Some os \<Rightarrow> if os \<noteq> youngest then count_siblings youngest os (res + 1) s else Some res)"

definition sys_get_child_process_count :: "cpu \<Rightarrow> ('l, 'b, 'g) psys \<Rightarrow> int option" where
  "sys_get_child_process_count me s =
     (case p_cptr (tree s (current_task me s)) of None \<Rightarrow> Some 0
      | Some t \<Rightarrow> count_siblings t t 1 s)"

text \<open>The loop that fills the array; \<open>None\<close> would be a null pointer read.\<close>

fun collect_pids :: "nat \<Rightarrow> tptr option \<Rightarrow> ('l, 'b, 'g) psys \<Rightarrow> int list option" where
  "collect_pids 0 t s = Some []"
| "collect_pids (Suc i) t s =
     (case t of None \<Rightarrow> None
      | Some q \<Rightarrow> map_option ((#) (pid_of s q)) (collect_pids i (p_osptr (tree s q)) s))"

text \<open>\<open>alloc\<close> and \<open>copied\<close> are the outcomes of \<^verbatim>\<open>kmalloc\<close> and \<^verbatim>\<open>copy_to_user\<close>; the second component is what is written.\<close>

definition sys_get_child_processes ::
  "cpu \<Rightarrow> bool \<Rightarrow> u32 \<Rightarrow> bool \<Rightarrow> bool \<Rightarrow> ('l, 'b, 'g) psys \<Rightarrow> (int kres \<times> int list) option" where
  "sys_get_child_processes me result max_length alloc copied s =
     (if \<not> result then Some (Inl EFAULT, [])
      else if max_length = 0 \<or> p_cptr (tree s (current_task me s)) = None then Some (Inr 0, [])
      else
        do {
          count \<leftarrow> sys_get_child_process_count me s;
          let size = (if (word_of_int count :: u32) < max_length then count else sint max_length);
          if \<not> alloc then Some (Inl ENOMEM, [])
          else do {
            child_pids \<leftarrow> collect_pids (nat size) (p_cptr (tree s (current_task me s))) s;
            Some (if \<not> copied then (Inl EFAULT, []) else (Inr size, child_pids))
          }
        })"

section \<open>The user-space wrappers\<close>

definition attach_proc :: "cpu \<Rightarrow> int \<Rightarrow> ('l, 'b, 'g) psys \<Rightarrow> ((int \<times> int option) \<times> ('l, 'b, 'g) psys) option" where
  "attach_proc me pid s = map_option (\<lambda>(r, s). (wrapper (eax r), s)) (sys_attach_proc me pid s)"

definition get_child_processes ::
  "cpu \<Rightarrow> bool \<Rightarrow> u32 \<Rightarrow> bool \<Rightarrow> bool \<Rightarrow> ('l, 'b, 'g) psys \<Rightarrow> ((int \<times> int option) \<times> int list) option" where
  "get_child_processes me result max_length alloc copied s =
     map_option (\<lambda>(r, ps). (wrapper (eax r), ps)) (sys_get_child_processes me result max_length alloc copied s)"

definition get_child_process_count :: "cpu \<Rightarrow> ('l, 'b, 'g) psys \<Rightarrow> int option" where
  "get_child_process_count me s = map_option (\<lambda>n. sint (eax (Inr n))) (sys_get_child_process_count me s)"

section \<open>Counting and listing\<close>

lemma siblings_osptr: "siblings L y (x # xs) None \<Longrightarrow> p_osptr (L x) = first xs None"
  by simp

lemma count_siblings_eq:
  assumes "siblings (tree s) y (t # ts) None" and "youngest \<notin> set ts"
  shows "count_siblings youngest t res s = Some (res + int (length ts))"
  using assms
proof (induction ts arbitrary: y t res)
  case Nil
  then show ?case by (subst count_siblings.simps) simp
next
  case (Cons u us)
  then show ?case by (subst count_siblings.simps) auto
qed

lemma child_count_eq:
  assumes "tree_rep A (tree s) T ks" and "current_task me s \<in> A"
  shows "sys_get_child_process_count me s = Some (int (length (ks (current_task me s))))"
proof (cases "ks (current_task me s)")
  case (Cons c cs)
  note D = tree_repD(7-9) [OF assms]
  then have "count_siblings c c 1 s = Some (1 + int (length cs))"
    using Cons by (intro count_siblings_eq) auto
  then show ?thesis using Cons D by (simp add: sys_get_child_process_count_def)
qed (use tree_repD(7) [OF assms] in \<open>simp add: sys_get_child_process_count_def\<close>)

lemma collect_pids_eq:
  assumes "siblings (tree s) y ts None" and "n \<le> length ts"
  shows "collect_pids n (first ts None) s = Some (map (pid_of s) (take n ts))"
  using assms
proof (induction n arbitrary: y ts)
  case (Suc n)
  then obtain c cs where "ts = c # cs" by (cases ts) auto
  with Suc show ?case by auto
qed simp

section \<open>The ancestors\<close>

text \<open>A task that reaches pid 1 over original parents; the tasks on the way, itself included.\<close>

inductive lineage :: "('l, 'b, 'g) psys \<Rightarrow> tptr \<Rightarrow> tptr list \<Rightarrow> bool" for s where
  init_lineage: "pid_of s q = 1 \<Longrightarrow> lineage s q []"
| step_lineage: "pid_of s q \<noteq> 1 \<Longrightarrow> p_opptr (tree s q) = Some r \<Longrightarrow> lineage s r qs \<Longrightarrow> lineage s q (q # qs)"

inductive_cases lineageE: "lineage s q qs"

lemma ancestor_walk_eq:
  assumes "lineage s q qs"
  shows "ancestor_walk pid (Some q) s = Some (\<exists>r \<in> set qs. pid_of s r = pid)"
  using assms
proof induction
  case (init_lineage q)
  then show ?case by (subst ancestor_walk.simps) simp
next
  case (step_lineage q r qs)
  then show ?case by (subst ancestor_walk.simps) simp
qed

text \<open>The result, error by error.\<close>

lemma attach_result:
  assumes "lineage s (current_task me s) qs"
  shows "sys_attach_proc me pid s = Some
    (case find_task_by_pid pid (sch s) of None \<Rightarrow> (Inl ESRCH, s)
     | Some t \<Rightarrow>
         (let cur = current_task me s; father = the (p_opptr (tree s t)) in
          if pid = 1 \<or> (\<exists>r \<in> set qs. pid_of s r = pid) then (Inl EINVAL, s)
          else if t_euid (task_of s cur) \<noteq> 0 \<and> t_euid (task_of s cur) \<noteq> t_euid (task_of s t) then (Inl EPERM, s)
          else if wait_busy (procs s father) = -1 \<or> wait_busy (procs s father) = pid then (Inl EBUSY, s)
          else (Inr (pid_of s father), upd_tree (attach cur t) s)))"
  using ancestor_walk_eq [OF assms, of pid] by (simp add: sys_attach_proc_def Let_def split: option.split)

lemma attach_cases:
  assumes "lineage s cur qs" and "cur = current_task me s"
  obtains (error) e where "sys_attach_proc me pid s = Some (Inl e, s)"
  | (attached) t where "find_task_by_pid pid (sch s) = Some t" "pid \<noteq> 1" "pid \<notin> pid_of s ` set qs"
      "sys_attach_proc me pid s = Some (Inr (pid_of s (the (p_opptr (tree s t)))), upd_tree (attach cur t) s)"
proof (cases "find_task_by_pid pid (sch s)")
  case None
  with error show thesis by (simp add: sys_attach_proc_def)
next
  case (Some t)
  let ?father = "the (p_opptr (tree s t))"
  let ?einval = "pid = 1 \<or> (\<exists>r \<in> set qs. pid_of s r = pid)"
  let ?eperm = "t_euid (task_of s cur) \<noteq> 0 \<and> t_euid (task_of s cur) \<noteq> t_euid (task_of s t)"
  let ?ebusy = "wait_busy (procs s ?father) = -1 \<or> wait_busy (procs s ?father) = pid"
  note res = attach_result [OF assms(1) [unfolded assms(2)], of pid, folded assms(2)]
  show thesis
  proof (cases "?einval \<or> ?eperm \<or> ?ebusy")
    case True
    then consider ?einval | "\<not> ?einval" ?eperm | "\<not> ?einval" "\<not> ?eperm" ?ebusy by blast
    then have "\<exists>e. sys_attach_proc me pid s = Some (Inl e, s)"
      unfolding res Some Let_def option.case by cases (simp_all only: if_True if_False simp_thms, blast+)
    then show thesis using error by blast
  next
    case False
    then have "sys_attach_proc me pid s = Some (Inr (pid_of s ?father), upd_tree (attach cur t) s)"
      using res Some by (simp add: Let_def)
    with attached Some False show thesis by blast
  qed
qed

lemma lineage_cong:
  assumes "lineage s q qs" and "\<And>r. pid_of s' r = pid_of s r"
    and "\<And>r. r \<in> set qs \<Longrightarrow> p_opptr (tree s' r) = p_opptr (tree s r)"
  shows "lineage s' q qs"
  using assms(1,3)
proof induction
  case (init_lineage q)
  then show ?case using assms(2) lineage.init_lineage by metis
next
  case (step_lineage q r qs)
  then show ?case using assms(2) lineage.step_lineage [of s' q r qs] by simp
qed

section \<open>Attaching\<close>

lemma attach_fields:
  assumes "next_task (L t) \<noteq> t" and "prev_task (L t) \<noteq> t" and "t \<noteq> init_task"
  shows "p_opptr (attach cur t L q) = (if q = t then Some cur else p_opptr (L q))"
    and "p_pptr (attach cur t L q) = (if q = t then cur else p_pptr (L q))"
  using assms by (simp_all add: attach_def Let_def SET_LINKS_ring REMOVE_LINKS_ring upd_link_field)

lemma tree_rep_parent:
  assumes "tree_rep A L T ks" and "t \<notin> set T"
  shows "tree_rep A (upd_link t (\<lambda>l. l\<lparr>p_pptr := v\<rparr>) L) T ks"
proof (rule tree_repI)
  note D = tree_repD [OF assms(1)]
  show "segment (upd_link t (\<lambda>l. l\<lparr>p_pptr := v\<rparr>) L) init_task T init_task"
    using D(5) by (subst segment_cong [where L = L]) simp_all
  show "siblings (upd_link t (\<lambda>l. l\<lparr>p_pptr := v\<rparr>) L) None (ks f) None" if "f \<in> A" for f
    using D(8) [OF that] by (subst siblings_cong [where L = L]) simp_all
qed (use assms tree_repD [OF assms(1)] in \<open>auto simp: upd_link_field\<close>)

lemma ring_not_self:
  assumes "tree_rep A L T ks" and "t \<in> set T"
  shows "next_task (L t) \<noteq> t" and "prev_task (L t) \<noteq> t"
proof -
  note D = tree_repD [OF assms(1)]
  obtain xs ys where T: "T = xs @ t # ys" using assms(2) by (auto simp: in_set_conv_decomp)
  have seg: "segment L init_task xs t" "segment L t ys init_task" using D(5) T by (simp_all add: segment_append)
  have "last (init_task # xs) \<in> insert init_task (set xs)" "hd (ys @ [init_task]) \<in> insert init_task (set ys)"
    using last_in_set [of "init_task # xs"] hd_in_set [of "ys @ [init_task]"] by auto
  then show "next_task (L t) \<noteq> t" "prev_task (L t) \<noteq> t"
    using segment_ends(1) [OF seg(1)] segment_ends(2) [OF seg(2)] D(3,4) T by force+
qed

lemma attach_refines:
  assumes rep: "tree_rep A L T ks" and t: "t \<in> set T" and cur: "cur \<in> A"
  shows "tree_rep A (attach cur t L) (remove1 t T @ [t])
    ((ks(p_pptr (L t) := remove1 t (ks (p_pptr (L t)))))
       (cur := t # (ks(p_pptr (L t) := remove1 t (ks (p_pptr (L t))))) cur))"
proof -
  note D = tree_repD [OF rep]
  let ?ks = "ks(p_pptr (L t) := remove1 t (ks (p_pptr (L t))))"
  let ?L1 = "upd_link t (\<lambda>l. l\<lparr>p_pptr := cur\<rparr>) (REMOVE_LINKS t L)"
  let ?L2 = "upd_link t (\<lambda>l. l\<lparr>p_opptr := Some cur\<rparr>) ?L1"
  have out: "t \<notin> set (remove1 t T)" using D(3) by simp
  have "tree_rep A ?L1 (remove1 t T) ?ks"
    by (rule tree_rep_parent [OF REMOVE_LINKS_refines [OF rep t] out])
  moreover have "tree_rep A ?L2 (remove1 t T) ?ks = tree_rep A ?L1 (remove1 t T) ?ks" by (rule tree_rep_cong) simp_all
  ultimately have "tree_rep A ?L2 (remove1 t T) ?ks" by simp
  moreover have par: "p_pptr (?L2 t) = cur" by (simp add: upd_link_field)
  moreover have "t \<in> A" "t \<noteq> init_task" using D(2,4) t by auto
  ultimately show ?thesis
    using SET_LINKS_refines [of A ?L2 "remove1 t T" ?ks t] out cur by (simp add: attach_def Let_def)
qed

end
