(* ===== verification/Proc_Props.thy ===== *)
theory Proc_Props imports Proc_Example Exit_Notify Proc_Attach begin

text \<open>Properties of the process tree, of the end of a process, and of attaching one.\<close>

section \<open>The process tree\<close>

text \<open>
  C39. \<^verbatim>\<open>SET_LINKS\<close> and \<^verbatim>\<open>REMOVE_LINKS\<close> implement lists: when the pointers represent the ring of tasks and
  the lists of children, \<^verbatim>\<open>SET_LINKS\<close> puts a new task at the end of the ring and first among the children of
  its parent, and \<^verbatim>\<open>REMOVE_LINKS\<close> takes a task out of both, wherever it stands.
\<close>

theorem process_tree_refines:
  assumes "tree_rep A L T ks" and "p \<in> A" and "p \<noteq> init_task" and "p_pptr (L p) \<in> A"
  shows "if p \<in> set T
    then tree_rep A (REMOVE_LINKS p L) (remove1 p T) (ks(p_pptr (L p) := remove1 p (ks (p_pptr (L p)))))
    else tree_rep A (SET_LINKS p L) (T @ [p]) (ks(p_pptr (L p) := p # ks (p_pptr (L p))))"
  using assms SET_LINKS_refines REMOVE_LINKS_refines by simp

theorem process_tree_refines_witness:
  "tree_rep {0, 5, 7, 8} (REMOVE_LINKS 7 (tree (family 5))) [5, 8] ((kids_ex 5)(5 := [8]))"
  using process_tree_refines [OF family_rep [OF disjI1, OF refl], of 7]
  by (simp add: parent_ex_def init_task_def kids_ex_def Let_def)

section \<open>Exit\<close>

text \<open>
  C35. \<^verbatim>\<open>exit_notify\<close> always returns. The caller is then a zombie without children: each child has been
  moved to the front of the children of its original parent, which no task's is the caller any more, and
  the ring of tasks is unchanged. The children go to a thread of the caller's group that is not
  exiting, if there is one, and else to the child reaper.
\<close>

theorem exit_leaves_no_children:
  assumes P: "process_lib P" and cur: "cur = current_task me s" "cur \<in> A" "p_pptr (tree s cur) \<noteq> cur"
    and rep: "tree_rep A (tree s) T ks"
    and group: "nexts (next_thread P (groups s)) cur ts cur" "cur \<notin> set ts" "set ts \<subseteq> A"
    and reaper: "child_reaper P \<in> A" "child_reaper P \<noteq> cur"
    and parents: "\<forall>c \<in> set T. \<exists>g \<in> A. p_opptr (tree s c) = Some g"
  shows "\<exists>s' ks'. exit_notify P me s = Some s' \<and> t_state (task_of s' cur) = TASK_ZOMBIE \<and>
    tree_rep A (tree s') T ks' \<and> ks' cur = [] \<and>
    (\<forall>f. f \<noteq> cur \<longrightarrow> ks' f = rev (filter (\<lambda>c. p_opptr (tree s' c) = Some f) (ks cur)) @ ks f) \<and>
    (\<forall>q \<in> set T. p_opptr (tree s' q) =
       (if p_opptr (tree s q) = Some cur then Some (new_parent P (reaper_of P cur ts s) q)
        else p_opptr (tree s q)) \<and> p_opptr (tree s' q) \<noteq> Some cur)"
proof -
  define L where "L = given_away P cur (reaper_of P cur ts s) T (tree s)"
  obtain s' where s': "exit_notify P me s = Some s'" "t_state (task_of s' cur) = TASK_ZOMBIE"
    "tree_rep A (tree s') T (handed (\<lambda>c. the (p_opptr (L c))) cur (ks cur) ks)"
    "\<And>q. p_opptr (tree s' q) = p_opptr (L q)" "\<And>q. q \<in> set T \<Longrightarrow> p_opptr (L q) \<noteq> Some cur"
    using process_lib.exit_notify_ends [OF P rep, of me ts] cur group reaper parents unfolding L_def cur(1) by blast
  have kids: "c \<in> set T" if "c \<in> set (ks cur)" for c using tree_repD(10) [OF rep cur(2)] that by simp
  have some: "p_opptr (L c) \<noteq> None" if "c \<in> set T" for c
    using parents that by (auto simp: L_def given_away_opptr)
  have par: "the (p_opptr (L c)) = f \<longleftrightarrow> p_opptr (L c) = Some f" if "c \<in> set (ks cur)" for c f
    using some [OF kids [OF that]] by auto
  have "handed (\<lambda>c. the (p_opptr (L c))) cur (ks cur) ks f =
      (if f = cur then [] else rev (filter (\<lambda>c. p_opptr (tree s' c) = Some f) (ks cur)) @ ks f)" for f
    using par s'(5) kids by (subst handed_eq) (auto simp: s'(4) cong: filter_cong)
  moreover have "p_opptr (tree s' q) \<noteq> Some cur" if "q \<in> set T" for q using s'(4,5) that by simp
  moreover have "p_opptr (tree s' q) = (if p_opptr (tree s q) = Some cur
      then Some (new_parent P (reaper_of P cur ts s) q) else p_opptr (tree s q))" if "q \<in> set T" for q
    using that by (simp add: s'(4) L_def given_away_opptr)
  ultimately show ?thesis using s'(1-3) by (intro exI conjI) (assumption | simp)+
qed

theorem exit_leaves_no_children_witness:
  "\<exists>s' ks'. exit_notify ref_plib 0 (family 7) = Some s' \<and> t_state (task_of s' 7) = TASK_ZOMBIE \<and>
    tree_rep {0, 5, 7, 8} (tree s') [5, 7, 8] ks' \<and> ks' 7 = [] \<and> ks' 5 = [8, 7]"
proof -
  have rep: "tree_rep {0, 5, 7, 8} (tree (family 7)) [5, 7, 8] (kids_ex 7)" by (rule family_rep) simp
  have "reaper_of ref_plib 7 [] (family 7) = 5" by (simp add: reaper_of_def ref_plib_def)
  then show ?thesis
    using exit_leaves_no_children [OF ref_proc.process_lib_axioms refl _ _ rep, where ts = "[]" and me = 0]
    by (force simp: parent_ex_def ref_plib_def kids_ex_def new_parent_def Let_def)
qed

text \<open>
  C40. A process group becomes orphaned by the exit of a task exactly when no other live member has a parent of the
  same session outside the group, \<^verbatim>\<open>init\<close> not counted. The group then gets SIGHUP and SIGCONT, in this order, if
  it has a stopped member, and otherwise nothing happens.
\<close>

theorem orphaned_groups_hung_up:
  assumes "process_lib P" and "tree_rep A (tree s) T ks"
  shows "hup_orphans P pgrp ignored s = Some
    (if (\<forall>p \<in> set T. \<not> (Some p \<noteq> ignored \<and> t_pgrp (task_of s p) = pgrp \<and> t_state (task_of s p) \<noteq> TASK_ZOMBIE \<and>
          pid_of s (p_pptr (tree s p)) \<noteq> 1 \<and> t_pgrp (task_of s (p_pptr (tree s p))) \<noteq> pgrp \<and>
          t_session (task_of s (p_pptr (tree s p))) = t_session (task_of s p))) \<and>
        (\<exists>p \<in> set T. t_pgrp (task_of s p) = pgrp \<and> t_state (task_of s p) = TASK_STOPPED)
     then notify P (Kill_pg pgrp (SIGCONT P)) (notify P (Kill_pg pgrp (SIGHUP P)) s) else s)"
  using process_lib.hup_orphans_eq [OF assms(1) tree_rep_ring [OF assms(2)]] by (simp add: holds_pgrp_def)

theorem orphaned_groups_hung_up_witness:
  "\<exists>s. hup_orphans ref_plib 4 None (family 7) = Some s"
  using orphaned_groups_hung_up [OF ref_proc.process_lib_axioms family_rep [OF disjI2, OF refl], of 4 None] by blast

section \<open>Attaching a process\<close>

lemma lineage_attached:
  assumes t: "pid_of s t \<noteq> 1" "p_opptr (tree s' t) = Some cur" and other: "\<And>q. q \<noteq> t \<Longrightarrow> p_opptr (tree s' q) = p_opptr (tree s q)"
    and pid: "\<And>q. pid_of s' q = pid_of s q" and cur: "lineage s cur qs" "t \<notin> set qs"
    and q: "lineage s q qs'"
  shows "\<exists>rs. lineage s' q rs"
  using q
proof induction
  case (init_lineage q)
  then show ?case using pid lineage.init_lineage by metis
next
  case (step_lineage q r qs')
  show ?case
  proof (cases "q = t")
    case True
    have "p_opptr (tree s' r) = p_opptr (tree s r)" if "r \<in> set qs" for r using other [of r] that cur(2) by auto
    then have "lineage s' cur qs" by (rule lineage_cong [OF cur(1) pid])
    then show ?thesis using t pid True lineage.step_lineage [of s' t cur qs] by auto
  next
    case False
    then show ?thesis using step_lineage other [OF False] pid lineage.step_lineage [of s' q r] by metis
  qed
qed

text \<open>
  C38. \<^verbatim>\<open>attach_proc\<close> always returns when every task descends from \<^verbatim>\<open>init\<close>. An error changes nothing. On success
  the process is not the caller nor one of its ancestors, it is the youngest child of the caller and nobody else's, the value is the
  pid of its former parent, and every task still descends from \<^verbatim>\<open>init\<close>: no cycle of parents arises.
\<close>

theorem attach_proc_sound:
  assumes rep: "tree_rep A (tree s) T ks" and cur: "cur = current_task me s" "cur \<in> set T"
    and alive: "\<forall>q \<in> set T. \<exists>qs. lineage s q qs"
    and hash: "\<And>h p. p \<in> set (pidhash (sch s) h) \<Longrightarrow> p \<in> set T"
  shows "\<exists>r s'. sys_attach_proc me pid s = Some (r, s') \<and>
    (case r of Inl e \<Rightarrow> s' = s
     | Inr v \<Rightarrow>
         (\<exists>t qs ks'. find_task_by_pid pid (sch s) = Some t \<and> lineage s cur qs \<and> t \<notin> set qs \<and> t \<noteq> cur \<and>
            v = pid_of s (the (p_opptr (tree s t))) \<and> p_opptr (tree s' t) = Some cur \<and> p_pptr (tree s' t) = cur \<and>
            tree_rep A (tree s') (remove1 t T @ [t]) ks' \<and> hd (ks' cur) = t \<and>
            (\<forall>q \<in> set T. \<exists>rs. lineage s' q rs)))"
proof -
  obtain qs where qs: "lineage s cur qs" using alive cur(2) by blast
  from qs cur(1) show ?thesis
  proof (cases rule: attach_cases [where pid = pid])
    case (error e)
    then show ?thesis by simp
  next
    case (attached t)
    note t = attached(1-3) and run = attached(4)
    have pid: "pid_of s t = pid" and tT: "t \<in> set T"
      using t(1) hash [OF find_in [OF t(1) [unfolded find_task_by_pid_def]]]
      by (auto simp: find_task_by_pid_def find_Some_iff)
    have nt: "t \<notin> set qs" using t(3) pid by auto
    have "cur \<in> set qs \<or> pid_of s cur = 1" using qs by cases auto
    then have tc: "t \<noteq> cur" using nt t(2) pid by auto
    have ti: "t \<noteq> init_task" using tree_repD(4) [OF rep] tT by auto
    note F = attach_fields [of "tree s" t cur, OF ring_not_self [OF rep tT] ti]
    have cA: "cur \<in> A" using tree_repD(2) [OF rep] cur(2) by auto
    have "\<exists>rs. lineage (upd_tree (attach cur t) s) q rs" if qT: "q \<in> set T" for q
    proof -
      obtain qs' where qs': "lineage s q qs'" using alive qT by blast
      show ?thesis
      proof (rule lineage_attached [OF _ _ _ _ qs nt])
        show "pid_of s t \<noteq> 1" using t(2) pid by simp
        show "lineage s q qs'" by (rule qs')
      qed (simp_all add: F)
    qed
    moreover obtain ks' where "tree_rep A (attach cur t (tree s)) (remove1 t T @ [t]) ks'" "hd (ks' cur) = t"
      by (rule that [OF attach_refines [OF rep tT cA]]) simp
    moreover have "p_opptr (attach cur t (tree s) t) = Some cur" "p_pptr (attach cur t (tree s) t) = cur"
      by (simp_all add: F)
    ultimately show ?thesis
      using t(1) qs nt tc
      by (intro exI [of _ "Inr (pid_of s (the (p_opptr (tree s t))))"] exI [of _ "upd_tree (attach cur t) s"] conjI [OF run])
        (unfold sum.case upd_simps, blast)
  qed
qed

theorem attach_proc_sound_witness:
  "\<exists>s' ks'. sys_attach_proc 0 8 (family 5) = Some (Inr 1, s') \<and> p_opptr (tree s' 8) = Some 7 \<and>
    tree_rep {0, 5, 7, 8} (tree s') [5, 7, 8] ks' \<and> hd (ks' 7) = 8"
proof -
  have l5: "lineage (family 5) 5 []" by (rule lineage.init_lineage) simp
  have l7: "lineage (family 5) 7 [7]" and l8: "lineage (family 5) 8 [8]"
    by (rule lineage.step_lineage [OF _ _ l5]; simp add: parent_ex_def)+
  have find: "find_task_by_pid 8 (sch (family 5)) = Some 8"
    by (simp add: find_task_by_pid_def pid_hashfn_def PIDHASH_SZ_def)
  have r: "fst (the (sys_attach_proc 0 8 (family 5))) = Inr 1"
    using l7 by (simp add: attach_result find parent_ex_def Let_def proc_ex_def)
  have "\<forall>q \<in> set [5, 7, 8]. \<exists>qs. lineage (family 5) q qs" using l5 l7 l8 by auto
  moreover have "p \<in> set [5, 7, 8]" if "p \<in> set (pidhash (sch (family 5)) h)" for h p
    using that by (simp split: if_splits)
  ultimately obtain r' s' where s': "sys_attach_proc 0 8 (family 5) = Some (r', s')"
    "case r' of Inl e \<Rightarrow> s' = family 5
     | Inr v \<Rightarrow> \<exists>t qs ks'. find_task_by_pid 8 (sch (family 5)) = Some t \<and> lineage (family 5) 7 qs \<and> t \<notin> set qs \<and>
         t \<noteq> 7 \<and> v = pid_of (family 5) (the (p_opptr (tree (family 5) t))) \<and> p_opptr (tree s' t) = Some 7 \<and>
         p_pptr (tree s' t) = 7 \<and> tree_rep {0, 5, 7, 8} (tree s') (remove1 t [5, 7, 8] @ [t]) ks' \<and> hd (ks' 7) = t \<and>
         (\<forall>q \<in> set [5, 7, 8]. \<exists>rs. lineage s' q rs)"
    using attach_proc_sound [OF family_rep [OF disjI1, OF refl], of 7 0 8] by force
  then show ?thesis using r find by auto
qed

text \<open>
  \<^verbatim>\<open>get_child_process_count\<close> and \<^verbatim>\<open>get_child_processes\<close> return, report the number of children of the
  caller, and write the pids of the first children, youngest first, as many as fit.
\<close>

theorem children_listed:
  assumes rep: "tree_rep A (tree s) T ks" and cur: "current_task me s \<in> A"
    and small: "length (ks (current_task me s)) < 2 ^ 31"
  shows "sys_get_child_process_count me s = Some (int (length (ks (current_task me s)))) \<and>
    sys_get_child_processes me True max_length True True s =
      Some (let ps = map (pid_of s) (take (unat max_length) (ks (current_task me s))) in (Inr (int (length ps)), ps))"
proof -
  define k where "k = ks (current_task me s)"
  note count = child_count_eq [OF rep cur, folded k_def]
  have c: "p_cptr (tree s (current_task me s)) = first k None" "siblings (tree s) None k None"
    using tree_repD(7,8) [OF rep cur] by (simp_all add: k_def)
  have u: "unat (word_of_nat (length k) :: u32) = length k"
    using small by (simp add: k_def unat_of_nat)
  have "sys_get_child_processes me True max_length True True s =
      Some (let ps = map (pid_of s) (take (unat max_length) k) in (Inr (int (length ps)), ps))"
  proof (cases "max_length = 0 \<or> k = []")
    case True
    then show ?thesis using c(1) by (cases k) (auto simp: sys_get_child_processes_def)
  next
    case False
    then obtain x where fk: "first k None = Some x" by (cases k) auto
    have lt: "(word_of_nat (length k) :: u32) < max_length \<longleftrightarrow> length k < unat max_length"
      by (simp add: word_less_nat_alt u)
    have sint: "sint max_length = int (unat max_length)" if "\<not> length k < unat max_length"
    proof -
      have "unat max_length < 2147483648" using that small by (simp add: k_def)
      moreover have "uint max_length = int (unat max_length)" by (rule uint_nat)
      ultimately have "uint max_length < 2147483648" by linarith
      then have "sint (word_of_int (uint max_length) :: u32) = uint max_length"
        by (intro sint_word_of_int_small) (simp_all add: order_trans [OF _ uint_ge_0])
      then show ?thesis by simp
    qed
    have collect: "collect_pids n (first k None) s = Some (map (pid_of s) (take n k))" if "n \<le> length k" for n
      by (rule collect_pids_eq [OF c(2) that])
    show ?thesis
      using False by (cases "length k < unat max_length") (simp_all add: sys_get_child_processes_def c(1) count Let_def lt sint collect [unfolded fk] fk)
  qed
  with count show ?thesis by (simp add: k_def)
qed

theorem children_listed_witness:
  "sys_get_child_process_count 0 (family 7) = Some 1 \<and>
    sys_get_child_processes 0 True 4 True True (family 7) = Some (Inr 1, [8])"
  using children_listed [OF family_rep [OF disjI2, OF refl], of 0 4] by (simp add: kids_ex_def Let_def)

end
