(* ===== verification/Proc_Wait.thy ===== *)
theory Proc_Wait imports Proc_Exit Wait_Queue begin

text \<open>
  Waiting for children: \<^verbatim>\<open>sys_wait4\<close> and \<^verbatim>\<open>sys_waitpid\<close> of \<^verbatim>\<open>HW1/kernel/exit.c\<close>. A call is a start, and
  passes over the children that end with a result or go to sleep; the pass that follows a sleep
  is the jump to \<^verbatim>\<open>repeat\<close>.
\<close>

section \<open>Operations\<close>

text \<open>The bits of the option word, the last one for all bits that have no meaning.\<close>

record wait_opts =
  WNOHANG :: bool
  WUNTRACED :: bool
  wNOTHREAD :: bool
  wCLONE :: bool
  wALL :: bool
  w_unknown :: bool

text \<open>The user's buffers: is there one, and does the copy to it fail.\<close>

record wait_bufs =
  ru_fault :: bool
  stat_addr :: bool
  stat_fault :: bool

datatype wait_result = Wait_returns "int kres" "int option" | Wait_sleeps

definition PT_PTRACED :: u32 where "PT_PTRACED = 1"

definition signal_pending :: "task \<Rightarrow> bool" where
  "signal_pending p \<longleftrightarrow> t_sigpending p \<noteq> 0"

text \<open>The tests that make the loop over the children go on to the next one.\<close>

definition waits_for ::
  "('l, 'b, 'g) plib \<Rightarrow> tptr \<Rightarrow> int \<Rightarrow> wait_opts \<Rightarrow> ('l, 'b, 'g) psys \<Rightarrow> tptr \<Rightarrow> bool" where
  "waits_for P cur pid opts s p \<longleftrightarrow>
     (if pid > 0 then pid_of s p = pid
      else if pid = 0 then t_pgrp (task_of s p) = t_pgrp (task_of s cur)
      else if pid \<noteq> -1 then t_pgrp (task_of s p) = - pid
      else True) \<and>
     \<not> ((exit_signal (procs s p) \<noteq> SIGCHLD P) \<noteq> wCLONE opts \<and> \<not> wALL opts)"

definition reportable :: "wait_opts \<Rightarrow> ('l, 'b, 'g) psys \<Rightarrow> tptr \<Rightarrow> bool" where
  "reportable opts s p \<longleftrightarrow>
     (if t_state (task_of s p) = TASK_STOPPED
      then exit_code (procs s p) \<noteq> 0 \<and> (WUNTRACED opts \<or> ptrace (procs s p) AND PT_PTRACED \<noteq> 0)
      else t_state (task_of s p) = TASK_ZOMBIE)"

text \<open>The loop over the children of one thread: the first child to report, or the flag.\<close>

partial_function (option) scan_children ::
  "('l, 'b, 'g) plib \<Rightarrow> tptr \<Rightarrow> int \<Rightarrow> wait_opts \<Rightarrow> ('l, 'b, 'g) psys \<Rightarrow> tptr option \<Rightarrow> bool \<Rightarrow> (tptr + bool) option" where
  "scan_children P cur pid opts s p flag =
     (case p of None \<Rightarrow> Some (Inr flag)
      | Some c \<Rightarrow>
          if \<not> waits_for P cur pid opts s c then scan_children P cur pid opts s (p_osptr (tree s c)) flag
          else if reportable opts s c then Some (Inl c)
          else scan_children P cur pid opts s (p_osptr (tree s c)) True)"

partial_function (option) scan_threads ::
  "('l, 'b, 'g) plib \<Rightarrow> tptr \<Rightarrow> int \<Rightarrow> wait_opts \<Rightarrow> ('l, 'b, 'g) psys \<Rightarrow> tptr \<Rightarrow> bool \<Rightarrow> (tptr + bool) option" where
  "scan_threads P cur pid opts s tsk flag =
     Option.bind (scan_children P cur pid opts s (p_cptr (tree s tsk)) flag)
       (\<lambda>r. case r of Inl c \<Rightarrow> Some (Inl c)
            | Inr flag \<Rightarrow>
                if wNOTHREAD opts then Some (Inr flag)
                else if next_thread P (groups s) tsk \<noteq> cur
                then scan_threads P cur pid opts s (next_thread P (groups s) tsk) flag
                else Some (Inr flag))"

text \<open>What is done about the child that was found.\<close>

definition report_stopped ::
  "wait_bufs \<Rightarrow> tptr \<Rightarrow> ('l, 'b, 'g) psys \<Rightarrow> int kres \<times> int option \<times> ('l, 'b, 'g) psys" where
  "report_stopped bufs p s =
     (if ru_fault bufs then (Inl EFAULT, None, s)
      else if stat_addr bufs \<and> stat_fault bufs then (Inl EFAULT, None, s)
      else (Inr (pid_of s p),
            if stat_addr bufs then Some (push_bit 8 (exit_code (procs s p)) OR 127) else None,
            upd_proc p (\<lambda>r. r\<lparr>exit_code := 0\<rparr>) s))"

definition report_zombie ::
  "('l, 'b, 'g) plib \<Rightarrow> wait_bufs \<Rightarrow> cpu \<Rightarrow> tptr \<Rightarrow> ('l, 'b, 'g) psys \<Rightarrow> int kres \<times> int option \<times> ('l, 'b, 'g) psys" where
  "report_zombie P bufs me p s =
     (let cur = current_task me s; r = procs s p;
          s = upd_proc cur (\<lambda>c. c\<lparr>tms_cutime := tms_cutime c + (tms_utime r + tms_cutime r)\<rparr>) s;
          s = upd_proc cur (\<lambda>c. c\<lparr>tms_cstime := tms_cstime c + (tms_stime r + tms_cstime r)\<rparr>) s
      in if ru_fault bufs then (Inl EFAULT, None, s)
         else if stat_addr bufs \<and> stat_fault bufs then (Inl EFAULT, None, s)
         else
           (let retval = pid_of s p;
                s = (if p_opptr (tree s p) \<noteq> Some (p_pptr (tree s p))
                     then (let s = upd_tree (REMOVE_LINKS p) s;
                               s = upd_tree (upd_link p (\<lambda>l. l\<lparr>p_pptr := the (p_opptr l)\<rparr>)) s;
                               s = upd_tree (SET_LINKS p) s
                           in notify P (Notify_parent p (SIGCHLD P)) s)
                     else release_task P me p s)
            in (Inr retval, if stat_addr bufs then Some (exit_code r) else None, s)))"

definition report_child ::
  "('l, 'b, 'g) plib \<Rightarrow> wait_bufs \<Rightarrow> cpu \<Rightarrow> tptr \<Rightarrow> ('l, 'b, 'g) psys \<Rightarrow> int kres \<times> int option \<times> ('l, 'b, 'g) psys" where
  "report_child P bufs me p s =
     (if t_state (task_of s p) = TASK_STOPPED then report_stopped bufs p s else report_zombie P bufs me p s)"

definition wait4_start ::
  "wait_entry list wlib \<Rightarrow> cpu \<Rightarrow> int \<Rightarrow> wait_opts \<Rightarrow> ('l, 'b, 'g) psys \<Rightarrow> errno + ('l, 'b, 'g) psys" where
  "wait4_start W me pid opts s =
     (if w_unknown opts then Inl EINVAL
      else
        (let cur = current_task me s;
             s = upd_proc cur (\<lambda>c. c\<lparr>wait_busy := pid\<rparr>) s
         in Inr (upd_proc cur (\<lambda>c. c\<lparr>wait_chldexit :=
                   snd (add_wait_queue W \<lparr>wq_task = cur, wq_exclusive = False\<rparr> (wait_chldexit c))\<rparr>) s)))"

definition end_wait4 ::
  "wait_entry list wlib \<Rightarrow> cpu \<Rightarrow> ('l, 'b, 'g) psys \<Rightarrow> ('l, 'b, 'g) psys" where
  "end_wait4 W me s =
     (let cur = current_task me s;
          s = upd_sch (upd_task cur (\<lambda>t. t\<lparr>t_state := TASK_RUNNING\<rparr>)) s;
          s = upd_proc cur (\<lambda>c. c\<lparr>wait_busy := 0\<rparr>) s
      in upd_proc cur (\<lambda>c. c\<lparr>wait_chldexit :=
           remove_wait_queue W \<lparr>wq_task = cur, wq_exclusive = False\<rparr> (wait_chldexit c)\<rparr>) s)"

definition wait4_pass ::
  "('l, 'b, 'g) plib \<Rightarrow> wait_entry list wlib \<Rightarrow> wait_bufs \<Rightarrow> cpu \<Rightarrow> int \<Rightarrow> wait_opts \<Rightarrow> ('l, 'b, 'g) psys \<Rightarrow>
     (wait_result \<times> ('l, 'b, 'g) psys) option" where
  "wait4_pass P W bufs me pid opts s =
     (let cur = current_task me s;
          s = upd_sch (upd_task cur (\<lambda>t. t\<lparr>t_state := TASK_INTERRUPTIBLE\<rparr>)) s
      in Option.bind (scan_threads P cur pid opts s cur False)
           (\<lambda>r. Some
             (case r of
                Inl p \<Rightarrow> (let (retval, status, s) = report_child P bufs me p s
                          in (Wait_returns retval status, end_wait4 W me s))
              | Inr flag \<Rightarrow>
                  if flag
                  then if WNOHANG opts then (Wait_returns (Inr 0) None, end_wait4 W me s)
                       else if signal_pending (task_of s cur)
                       then (Wait_returns (Inl ERESTARTSYS) None, end_wait4 W me s)
                       else (Wait_sleeps, s)
                  else (Wait_returns (Inl ECHILD) None, end_wait4 W me s))))"

text \<open>The call up to its first sleep; \<^verbatim>\<open>sys_waitpid\<close> passes no buffer for the resource usage.\<close>

definition sys_wait4 ::
  "('l, 'b, 'g) plib \<Rightarrow> wait_entry list wlib \<Rightarrow> wait_bufs \<Rightarrow> cpu \<Rightarrow> int \<Rightarrow> wait_opts \<Rightarrow> ('l, 'b, 'g) psys \<Rightarrow>
     (wait_result \<times> ('l, 'b, 'g) psys) option" where
  "sys_wait4 P W bufs me pid opts s =
     (case wait4_start W me pid opts s of
        Inl e \<Rightarrow> Some (Wait_returns (Inl e) None, s)
      | Inr s \<Rightarrow> wait4_pass P W bufs me pid opts s)"

definition sys_waitpid ::
  "('l, 'b, 'g) plib \<Rightarrow> wait_entry list wlib \<Rightarrow> wait_bufs \<Rightarrow> cpu \<Rightarrow> int \<Rightarrow> wait_opts \<Rightarrow> ('l, 'b, 'g) psys \<Rightarrow>
     (wait_result \<times> ('l, 'b, 'g) psys) option" where
  "sys_waitpid P W bufs me pid opts s = sys_wait4 P W (bufs\<lparr>ru_fault := False\<rparr>) me pid opts s"

section \<open>The scan\<close>

lemma find_append: "List.find Q (xs @ ys) = (case List.find Q xs of None \<Rightarrow> List.find Q ys | Some x \<Rightarrow> Some x)"
  by (induction xs) simp_all

lemma scan_children_eq:
  assumes "siblings (tree s) y cs None"
  shows "scan_children P cur pid opts s (first cs None) flag = Some
    (case List.find (\<lambda>c. waits_for P cur pid opts s c \<and> reportable opts s c) cs of
       Some c \<Rightarrow> Inl c | None \<Rightarrow> Inr (flag \<or> (\<exists>c \<in> set cs. waits_for P cur pid opts s c)))"
  using assms
proof (induction cs arbitrary: y flag)
  case Nil
  then show ?case by (subst scan_children.simps) simp
next
  case (Cons c cs)
  then show ?case by (subst scan_children.simps) (auto split: option.split)
qed

text \<open>The children a call looks at, in order: those of the thread and, without \<open>wNOTHREAD\<close>, of the others.\<close>

definition wait_list :: "wait_opts \<Rightarrow> (tptr \<Rightarrow> tptr list) \<Rightarrow> tptr \<Rightarrow> tptr list \<Rightarrow> tptr list" where
  "wait_list opts ks tsk ts = (if wNOTHREAD opts then ks tsk else concat (map ks (tsk # ts)))"

definition pick_child ::
  "('l, 'b, 'g) plib \<Rightarrow> tptr \<Rightarrow> int \<Rightarrow> wait_opts \<Rightarrow> ('l, 'b, 'g) psys \<Rightarrow> tptr list \<Rightarrow> tptr option" where
  "pick_child P cur pid opts s cs = List.find (\<lambda>c. waits_for P cur pid opts s c \<and> reportable opts s c) cs"

lemma scan_threads_eq:
  assumes "nexts (next_thread P (groups s)) tsk ts cur" and "cur \<notin> set ts"
    and "\<forall>t \<in> insert tsk (set ts). p_cptr (tree s t) = first (ks t) None \<and> siblings (tree s) None (ks t) None"
  shows "scan_threads P cur pid opts s tsk flag = Some
    (case pick_child P cur pid opts s (wait_list opts ks tsk ts) of
       Some c \<Rightarrow> Inl c | None \<Rightarrow> Inr (flag \<or> (\<exists>c \<in> set (wait_list opts ks tsk ts). waits_for P cur pid opts s c)))"
  using assms
proof (induction ts arbitrary: tsk flag)
  case Nil
  then have "scan_children P cur pid opts s (p_cptr (tree s tsk)) flag = Some
      (case pick_child P cur pid opts s (ks tsk) of
         Some c \<Rightarrow> Inl c | None \<Rightarrow> Inr (flag \<or> (\<exists>c \<in> set (ks tsk). waits_for P cur pid opts s c)))"
    using scan_children_eq [of s None "ks tsk" P cur pid opts flag] by (simp add: pick_child_def)
  moreover have "wait_list opts ks tsk [] = ks tsk" by (simp add: wait_list_def)
  ultimately show ?case using Nil.prems(1) by (subst scan_threads.simps) (simp split: option.split)
next
  case (Cons t ts)
  then have this_thread: "scan_children P cur pid opts s (p_cptr (tree s tsk)) flag = Some
      (case pick_child P cur pid opts s (ks tsk) of
         Some c \<Rightarrow> Inl c | None \<Rightarrow> Inr (flag \<or> (\<exists>c \<in> set (ks tsk). waits_for P cur pid opts s c)))"
    using scan_children_eq [of s None "ks tsk" P cur pid opts flag] by (simp add: pick_child_def)
  have t: "next_thread P (groups s) tsk = t" "t \<noteq> cur" using Cons.prems by auto
  have rest: "scan_threads P cur pid opts s t flag' = Some
    (case pick_child P cur pid opts s (wait_list opts ks t ts) of
       Some c \<Rightarrow> Inl c | None \<Rightarrow> Inr (flag' \<or> (\<exists>c \<in> set (wait_list opts ks t ts). waits_for P cur pid opts s c)))" for flag'
    by (rule Cons.IH) (use Cons.prems in auto)
  show ?case
  proof (cases "wNOTHREAD opts")
    case True
    then have "wait_list opts ks tsk (t # ts) = ks tsk" by (simp add: wait_list_def)
    then show ?thesis using this_thread True by (subst scan_threads.simps) (simp split: option.split)
  next
    case False
    then have "wait_list opts ks tsk (t # ts) = ks tsk @ wait_list opts ks t ts" by (simp add: wait_list_def)
    then show ?thesis using this_thread rest t False
      by (subst scan_threads.simps) (auto simp: pick_child_def find_append split: option.split)
  qed
qed

section \<open>The result of a pass\<close>

lemma waits_for_state [simp]:
  "waits_for P cur pid opts (upd_sch (upd_task q (\<lambda>t. t\<lparr>t_state := v\<rparr>)) s) c = waits_for P cur pid opts s c"
  by (simp add: waits_for_def)

lemma reportable_state [simp]:
  "c \<noteq> q \<Longrightarrow> reportable opts (upd_sch (upd_task q (\<lambda>t. t\<lparr>t_state := v\<rparr>)) s) c = reportable opts s c"
  by (simp add: reportable_def)

lemma wait4_pass_eq:
  assumes rep: "tree_rep A (tree s) T ks" and cur: "cur = current_task me s" "cur \<in> A" "set ts \<subseteq> A"
    and group: "nexts (next_thread P (groups s)) cur ts cur" "cur \<notin> set ts" and self: "cur \<notin> set (wait_list opts ks cur ts)"
  defines "s1 \<equiv> upd_sch (upd_task cur (\<lambda>t. t\<lparr>t_state := TASK_INTERRUPTIBLE\<rparr>)) s"
  shows "wait4_pass P W bufs me pid opts s = Some
    (case pick_child P cur pid opts s (wait_list opts ks cur ts) of
       Some p \<Rightarrow> (let (retval, status, s2) = report_child P bufs me p s1 in (Wait_returns retval status, end_wait4 W me s2))
     | None \<Rightarrow>
         if \<not> (\<exists>c \<in> set (wait_list opts ks cur ts). waits_for P cur pid opts s c)
         then (Wait_returns (Inl ECHILD) None, end_wait4 W me s1)
         else if WNOHANG opts then (Wait_returns (Inr 0) None, end_wait4 W me s1)
         else if signal_pending (task_of s cur) then (Wait_returns (Inl ERESTARTSYS) None, end_wait4 W me s1)
         else (Wait_sleeps, s1))"
proof -
  have s1: "tree s1 = tree s" "groups s1 = groups s" "current_task me s1 = cur"
    using cur(1) by (simp_all add: s1_def current_task_def current_def)
  have "pick_child P cur pid opts s1 cs = pick_child P cur pid opts s cs" if "cur \<notin> set cs" for cs
  proof -
    have "x \<noteq> cur" if "x \<in> set cs" for x using that \<open>cur \<notin> set cs\<close> by blast
    then show ?thesis unfolding pick_child_def by (intro find_cong) (simp_all add: s1_def)
  qed
  note pick = this [OF self]
  have "scan_threads P cur pid opts s1 cur False = Some
    (case pick_child P cur pid opts s1 (wait_list opts ks cur ts) of
       Some c \<Rightarrow> Inl c | None \<Rightarrow> Inr (False \<or> (\<exists>c \<in> set (wait_list opts ks cur ts). waits_for P cur pid opts s1 c)))"
    by (rule scan_threads_eq) (use group tree_repD(7,8) [OF rep] cur(2,3) in \<open>auto simp: s1\<close>)
  moreover have "waits_for P cur pid opts s1 c = waits_for P cur pid opts s c" for c by (simp add: s1_def)
  moreover have "signal_pending (task_of s1 cur) = signal_pending (task_of s cur)"
    by (simp add: s1_def signal_pending_def)
  ultimately show ?thesis
    unfolding wait4_pass_def Let_def cur(1) [symmetric]
    unfolding s1_def [symmetric] pick by (simp split: option.split)
qed

end
