(* ===== verification/Wait4_Props.thy ===== *)
theory Wait4_Props imports Proc_Props Proc_Wait begin

text \<open>Properties of \<^verbatim>\<open>sys_wait4\<close>.\<close>

lemma nexts_same: "nexts (next_thread P g) cur ts cur \<Longrightarrow> g' = g \<Longrightarrow> nexts (next_thread P g') cur ts cur"
  by simp

lemma sched_exit_frame [simp]:
  "pidhash (sched_exit K me p c) = pidhash c" "rqs (sched_exit K me p c) = rqs c"
  "t_pid (tasks (sched_exit K me p c) q) = t_pid (tasks c q)" "t_state (tasks (sched_exit K me p c) q) = t_state (tasks c q)"
  by (simp_all add: sched_exit_def Let_def)

lemma release_task_effect:
  fixes s :: "('l, 'b, 'g) psys" and P :: "('l, 'b, 'g) plib"
  assumes "p \<noteq> current_task me s"
  defines "s' \<equiv> release_task P me p s"
  shows "tree s' = REMOVE_LINKS p (tree s)" and "nr_threads s' = nr_threads s - 1" and "pid_of s' p = 0"
    and "pidhash (sch s') = pidhash (unhash_task p (sch s))" and "current_task me s' = current_task me s"
    and "tms_cutime (procs s' q) = tms_cutime (procs s q)" and "tms_cstime (procs s' q) = tms_cstime (procs s q)"
    and "t_state (task_of s' p) = t_state (task_of s p)" and "notices s' = notices s"
    and "wait_chldexit (procs s' q) = wait_chldexit (procs s q)"
  using assms(1)
  by (simp_all add: s'_def release_task_def unhash_process_def unhash_task_def Let_def current_task_def current_def)

text \<open>The status word of a stopped child: its signal in the second byte, 0x7f in the first.\<close>

lemma stopped_status: "push_bit 8 x OR 127 = x * 256 + (127 :: int)"
proof -
  have "push_bit 8 x AND (mask 7 :: int) = 0"
    unfolding take_bit_eq_mask [symmetric] by (simp add: push_bit_eq_mult take_bit_eq_mod)
  then have "push_bit 8 x AND (127 :: int) = 0" by (simp add: mask_eq_exp_minus_1)
  then show ?thesis by (simp add: push_bit_eq_mult flip: disjunctive_add_eq_or)
qed

text \<open>What the report of a child leaves, the signal to a parent that was not the debugger aside.\<close>

lemma report_child_effect:
  fixes s :: "('l, 'b, 'g) psys" and P :: "('l, 'b, 'g) plib"
  assumes P: "process_lib P" and p: "p \<noteq> current_task me s" and r: "report_child P bufs me p s = (retval, status, s')"
    and ready: "reportable opts s p"
  shows "current_task me s' = current_task me s"
    and "retval = (if ru_fault bufs \<or> stat_addr bufs \<and> stat_fault bufs then Inl EFAULT else Inr (pid_of s p))"
    and "status = (if ru_fault bufs \<or> stat_fault bufs \<or> \<not> stat_addr bufs then None
      else Some (if t_state (task_of s p) = TASK_STOPPED then exit_code (procs s p) * 256 + 127 else exit_code (procs s p)))"
    and "t_state (task_of s p) = TASK_STOPPED \<Longrightarrow> retval \<noteq> Inl EFAULT \<Longrightarrow> exit_code (procs s' p) = 0"
    and "t_state (task_of s p) = TASK_STOPPED \<or> retval = Inl EFAULT \<or> p_opptr (tree s p) = Some (p_pptr (tree s p)) \<Longrightarrow>
      wait_chldexit (procs s' q) = wait_chldexit (procs s q)"
proof -
  let ?bad = "ru_fault bufs \<or> stat_addr bufs \<and> stat_fault bufs" and ?cur = "current_task me s"
  let ?s = "upd_proc ?cur (\<lambda>c. c\<lparr>tms_cstime := tms_cstime c + (tms_stime (procs s p) + tms_cstime (procs s p))\<rparr>)
    (upd_proc ?cur (\<lambda>c. c\<lparr>tms_cutime := tms_cutime c + (tms_utime (procs s p) + tms_cutime (procs s p))\<rparr>) s)"
  have s: "current_task me ?s = ?cur" by (simp add: current_task_def)
  have "current_task me s' = ?cur \<and> retval = (if ?bad then Inl EFAULT else Inr (pid_of s p)) \<and>
    status = (if ru_fault bufs \<or> stat_fault bufs \<or> \<not> stat_addr bufs then None
      else Some (if t_state (task_of s p) = TASK_STOPPED then exit_code (procs s p) * 256 + 127 else exit_code (procs s p))) \<and>
    (t_state (task_of s p) = TASK_STOPPED \<longrightarrow> retval \<noteq> Inl EFAULT \<longrightarrow> exit_code (procs s' p) = 0) \<and>
    (t_state (task_of s p) = TASK_STOPPED \<or> retval = Inl EFAULT \<or> p_opptr (tree s p) = Some (p_pptr (tree s p)) \<longrightarrow>
      wait_chldexit (procs s' q) = wait_chldexit (procs s q))"
  proof (cases "t_state (task_of s p) = TASK_STOPPED")
    case True
    then show ?thesis
      using r by (auto simp: report_child_def report_stopped_def stopped_status current_task_def split: if_splits)
  next
    case dead: False
    then have zombie: "report_zombie P bufs me p s = (retval, status, s')" using r by (simp add: report_child_def)
    show ?thesis
    proof (cases ?bad)
      case True
      then show ?thesis using zombie dead by (auto simp: report_zombie_def Let_def current_task_def split: if_splits)
    next
      case ok: False
      show ?thesis
      proof (cases "p_opptr (tree s p) = Some (p_pptr (tree s p))")
        case True
        then have "s' = release_task P me p ?s" "retval = Inr (pid_of s p)"
          "status = (if stat_addr bufs then Some (exit_code (procs s p)) else None)"
          using zombie ok by (auto simp: report_zombie_def Let_def)
        with ok dead release_task_effect(5,10) [of p me ?s P] p show ?thesis by (auto simp: s)
      next
        case False
        then show ?thesis using zombie ok dead
          by (auto simp: report_zombie_def Let_def current_task_def current_def process_lib.notify_frame [OF P])
      qed
    qed
  qed
  then show "current_task me s' = ?cur"
    and "retval = (if ?bad then Inl EFAULT else Inr (pid_of s p))"
    and "status = (if ru_fault bufs \<or> stat_fault bufs \<or> \<not> stat_addr bufs then None
      else Some (if t_state (task_of s p) = TASK_STOPPED then exit_code (procs s p) * 256 + 127 else exit_code (procs s p)))"
    and "t_state (task_of s p) = TASK_STOPPED \<Longrightarrow> retval \<noteq> Inl EFAULT \<Longrightarrow> exit_code (procs s' p) = 0"
    and "t_state (task_of s p) = TASK_STOPPED \<or> retval = Inl EFAULT \<or> p_opptr (tree s p) = Some (p_pptr (tree s p)) \<Longrightarrow>
      wait_chldexit (procs s' q) = wait_chldexit (procs s q)" by blast+
qed

lemma end_wait4_caller:
  assumes "cur = current_task me s"
  shows "t_state (task_of (end_wait4 W me s) cur) = TASK_RUNNING" and "wait_busy (procs (end_wait4 W me s) cur) = 0"
    and "wait_chldexit (procs (end_wait4 W me s) cur) =
      remove_wait_queue W \<lparr>wq_task = cur, wq_exclusive = False\<rparr> (wait_chldexit (procs s cur))"
    and "exit_code (procs (end_wait4 W me s) p) = exit_code (procs s p)"
  using assms by (simp_all add: end_wait4_def Let_def current_task_def current_def)

text \<open>
  C36. A pass of \<^verbatim>\<open>wait4\<close> over the children always returns. It looks at the children of the caller and, unless it was told
  not to, at those of the other threads of its group, youngest first. A child fits if its pid (\<open>pid > 0\<close>), the caller's
  process group (0) or the process group named (below -1) is the one asked for, and if the signal it ends with is SIGCHLD
  or not as the clone option says; it is ready if it is a zombie, or has stopped with a code not yet
  collected and the caller asks for stopped children or traces it. The first child that fits and is ready is reported:
  the value is its pid, or EFAULT if a copy fails, and the status its exit code, or for a stopped child the code in the second
  byte over 0x7f, and the code is then collected. If there is none the value is ECHILD when no child fits, 0
  with WNOHANG, ERESTARTSYS with a signal pending, and otherwise the caller goes to sleep, interruptibly, nothing
  else changed. A pass that returns leaves the caller running, no longer marked as waiting, and (unless the child was handed back to
  a parent other than its debugger, which is signalled) its entry taken from its own wait queue.
\<close>

theorem wait4_outcome:
  assumes P: "process_lib P"
    and rep: "tree_rep A (tree s) T ks" and cur: "cur = current_task me s" "cur \<in> A" "set ts \<subseteq> A"
    and group: "nexts (next_thread P (groups s)) cur ts cur" "cur \<notin> set ts"
    and self: "cur \<notin> set kids" and kids: "kids = (if wNOTHREAD opts then ks cur else concat (map ks (cur # ts)))"
    and fits: "fits = (\<lambda>c.
      (pid > 0 \<longrightarrow> pid_of s c = pid) \<and> (pid = 0 \<longrightarrow> t_pgrp (task_of s c) = t_pgrp (task_of s cur)) \<and>
      (pid < -1 \<longrightarrow> t_pgrp (task_of s c) = - pid) \<and>
      (wALL opts \<or> (exit_signal (procs s c) = SIGCHLD P \<longleftrightarrow> \<not> wCLONE opts)))"
    and ready: "ready = (\<lambda>c. t_state (task_of s c) = TASK_ZOMBIE \<or>
      t_state (task_of s c) = TASK_STOPPED \<and> exit_code (procs s c) \<noteq> 0 \<and> (WUNTRACED opts \<or> bit (ptrace (procs s c)) 0))"
    and bad: "bad = (ru_fault bufs \<or> stat_addr bufs \<and> stat_fault bufs)"
  shows "\<exists>r s'. wait4_pass P W bufs me pid opts s = Some (r, s') \<and>
    (case List.find (\<lambda>c. fits c \<and> ready c) kids of
       Some p \<Rightarrow>
         r = (if bad then Wait_returns (Inl EFAULT) None
              else Wait_returns (Inr (pid_of s p)) (if \<not> stat_addr bufs then None
                else Some (if t_state (task_of s p) = TASK_STOPPED then exit_code (procs s p) * 256 + 127
                           else exit_code (procs s p)))) \<and>
         (t_state (task_of s p) = TASK_STOPPED \<longrightarrow> \<not> bad \<longrightarrow> exit_code (procs s' p) = 0)
     | None \<Rightarrow>
         r = (if \<forall>c \<in> set kids. \<not> fits c then Wait_returns (Inl ECHILD) None
              else if WNOHANG opts then Wait_returns (Inr 0) None
              else if t_sigpending (task_of s cur) \<noteq> 0 then Wait_returns (Inl ERESTARTSYS) None
              else Wait_sleeps)) \<and>
    (if r = Wait_sleeps
     then s' = upd_sch (upd_task cur (\<lambda>t. t\<lparr>t_state := TASK_INTERRUPTIBLE\<rparr>)) s
     else t_state (task_of s' cur) = TASK_RUNNING \<and> wait_busy (procs s' cur) = 0 \<and>
       ((\<forall>p. List.find (\<lambda>c. fits c \<and> ready c) kids = Some p \<longrightarrow> \<not> bad \<longrightarrow> t_state (task_of s p) = TASK_ZOMBIE \<longrightarrow>
           p_opptr (tree s p) = Some (p_pptr (tree s p))) \<longrightarrow>
         wait_chldexit (procs s' cur) =
           remove_wait_queue W \<lparr>wq_task = cur, wq_exclusive = False\<rparr> (wait_chldexit (procs s cur))))"
proof -
  let ?s1 = "upd_sch (upd_task cur (\<lambda>t. t\<lparr>t_state := TASK_INTERRUPTIBLE\<rparr>)) s"
  have s1: "current_task me ?s1 = cur" using cur(1) by (simp add: current_task_def current_def)
  have F: "waits_for P cur pid opts s = fits"
    unfolding fits by (auto simp: waits_for_def fun_eq_iff)
  have R: "reportable opts s = ready"
    unfolding ready by (auto simp: reportable_def fun_eq_iff state_consts PT_PTRACED_def and_one_eq odd_iff_mod_2_eq_one bit_0)
  have L: "wait_list opts ks cur ts = kids" by (simp add: kids wait_list_def)
  note eq = wait4_pass_eq [OF rep cur group self [folded L], of W bufs pid, unfolded pick_child_def F R L]
  show ?thesis
  proof (cases "List.find (\<lambda>c. fits c \<and> ready c) kids")
    case None
    then show ?thesis
      unfolding eq using end_wait4_caller [OF s1 [symmetric], of W] by (simp add: signal_pending_def)
  next
    case (Some p)
    then have p: "p \<noteq> cur" "ready p" using self by (auto simp: find_Some_iff)
    have q: "task_of ?s1 p = task_of s p" using p(1) by simp
    have ready1: "reportable opts ?s1 p" using p by (simp add: R)
    obtain retval status s2 where r: "report_child P bufs me p ?s1 = (retval, status, s2)" by (cases "report_child P bufs me p ?s1")
    note E = report_child_effect [OF P _ r ready1, unfolded s1, OF p(1)]
    show ?thesis
      unfolding eq Some using r E end_wait4_caller [OF E(1) [symmetric], of W] bad p(2) q
      by (auto simp: ready state_consts)
  qed
qed

definition bufs_ex :: wait_bufs where
  "bufs_ex = \<lparr>ru_fault = False, stat_addr = True, stat_fault = False\<rparr>"

definition opts_ex :: wait_opts where
  "opts_ex = \<lparr>WNOHANG = True, WUNTRACED = False, wNOTHREAD = False, wCLONE = False, wALL = False, w_unknown = False\<rparr>"

text \<open>The family whose task 8 has died, or not, as \<open>v\<close> says.\<close>

definition family_state :: "int \<Rightarrow> (qid \<Rightarrow> tptr list, int list, tptr \<Rightarrow> tptr) psys" where
  "family_state v = upd_sch (upd_task 8 (\<lambda>t. t\<lparr>t_state := v\<rparr>)) (family 7)"

lemma family_state_simps [simp]:
  "current_task 0 (family_state v) = 7" "tree (family_state v) = tree (family 7)" "groups (family_state v) = (\<lambda>q. q)"
  "procs (family_state v) = (\<lambda>_. proc_ex)" "t_state (task_of (family_state v) 8) = v" "pid_of (family_state v) 8 = 8"
  using family_simps(1) [of 7] by (simp_all add: family_state_def current_task_def current_def family_def)

lemma waits_family: "waits_for ref_plib 7 (-1) opts_ex (family_state v) 8"
  by (simp add: waits_for_def proc_ex_def ref_plib_def opts_ex_def)

lemma wait_list_family [simp]: "wait_list opts (kids_ex 7) 7 [] = [8]"
  by (simp add: wait_list_def kids_ex_def Let_def)

theorem wait4_outcome_witness:
  "\<exists>s'. wait4_pass ref_plib list_wlib bufs_ex 0 (-1) opts_ex (family_state TASK_RUNNING) = Some (Wait_returns (Inr 0) None, s') \<and>
    wait_busy (procs s' 7) = 0"
proof -
  have rep: "tree_rep {0, 5, 7, 8} (tree (family_state TASK_RUNNING)) [5, 7, 8] (kids_ex 7)"
    using family_rep [OF disjI2, OF refl] by simp
  have k: "kids_ex 7 7 = [8]" by (simp add: kids_ex_def Let_def)
  have v: "next_thread ref_plib (\<lambda>q. q) 7 = 7" "SIGCHLD ref_plib = 17" "exit_signal proc_ex = 17" "WNOHANG opts_ex"
    "\<not> wCLONE opts_ex" "\<not> wALL opts_ex" by (simp_all add: ref_plib_def proc_ex_def opts_ex_def)
  have z: "TASK_RUNNING \<noteq> TASK_ZOMBIE" "TASK_RUNNING \<noteq> TASK_STOPPED" by (simp_all add: state_consts)
  have cur: "7 = current_task 0 (family_state TASK_RUNNING)" "7 \<in> {0, 5, 7, 8 :: tptr}" "set [] \<subseteq> {0, 5, 7, 8 :: tptr}" by simp_all
  have group: "nexts (next_thread ref_plib (groups (family_state TASK_RUNNING))) 7 [] 7" "7 \<notin> set ([] :: tptr list)"
    by (simp_all add: v)
  have kids: "7 \<notin> set [8 :: tptr]" "[8] = (if wNOTHREAD opts_ex then kids_ex 7 7 else concat (map (kids_ex 7) (7 # [])))"
    by (simp_all add: k)
  show ?thesis
    using wait4_outcome [OF ref_proc.process_lib_axioms rep cur group kids refl refl refl, where pid = "-1" and W = list_wlib and bufs = bufs_ex]
    by (force simp: v z)
qed

lemma end_wait4_effect:
  fixes s :: "('l, 'b, 'g) psys"
  shows "tree (end_wait4 W me s) = tree s" and "nr_threads (end_wait4 W me s) = nr_threads s"
    and "pid_of (end_wait4 W me s) p = pid_of s p" and "pidhash (sch (end_wait4 W me s)) = pidhash (sch s)"
    and "tms_cutime (procs (end_wait4 W me s) q) = tms_cutime (procs s q)"
    and "tms_cstime (procs (end_wait4 W me s) q) = tms_cstime (procs s q)"
    and "t_state (task_of (end_wait4 W me s) (current_task me s)) = TASK_RUNNING"
  by (simp_all add: end_wait4_def Let_def current_task_def current_def)

text \<open>What is done about a dead child that the caller did not take over from its debugger.\<close>

lemma report_own_zombie:
  fixes s :: "('l, 'b, 'g) psys"
  assumes p: "p \<noteq> cur" "cur = current_task me s" and dead: "t_state (task_of s p) = TASK_ZOMBIE"
    and own: "p_opptr (tree s p) = Some (p_pptr (tree s p))" and bufs: "\<not> ru_fault bufs" "stat_addr bufs" "\<not> stat_fault bufs"
  shows "\<exists>s'. report_child P bufs me p s = (Inr (pid_of s p), Some (exit_code (procs s p)), s') \<and>
    tree s' = REMOVE_LINKS p (tree s) \<and> nr_threads s' = nr_threads s - 1 \<and> pid_of s' p = 0 \<and>
    pidhash (sch s') = pidhash (unhash_task p (sch s)) \<and>
    tms_cutime (procs s' cur) = tms_cutime (procs s cur) + (tms_utime (procs s p) + tms_cutime (procs s p)) \<and>
    tms_cstime (procs s' cur) = tms_cstime (procs s cur) + (tms_stime (procs s p) + tms_cstime (procs s p))"
proof -
  let ?s = "upd_proc cur (\<lambda>c. c\<lparr>tms_cstime := tms_cstime c + (tms_stime (procs s p) + tms_cstime (procs s p))\<rparr>)
    (upd_proc cur (\<lambda>c. c\<lparr>tms_cutime := tms_cutime c + (tms_utime (procs s p) + tms_cutime (procs s p))\<rparr>) s)"
  have "p \<noteq> current_task me ?s" using p by (simp add: current_task_def)
  note E = release_task_effect [OF this, of P]
  have "report_child P bufs me p s = (Inr (pid_of s p), Some (exit_code (procs s p)), release_task P me p ?s)"
    using dead own bufs by (simp add: report_child_def report_zombie_def Let_def p(2) [symmetric] state_consts)
  then show ?thesis using E p(1) by simp
qed

text \<open>
  C37. A child that has died and is the caller's own is buried: \<^verbatim>\<open>wait4\<close> returns its pid and its exit code, and the
  child has left the ring of tasks, the children of its parent, the pid hash and the count of threads; its times
  are added to those of the children of the caller.
\<close>

theorem wait4_reaps_zombie:
  assumes rep: "tree_rep A (tree s) T ks" and cur: "cur = current_task me s" "cur \<in> A" "set ts \<subseteq> A"
    and group: "nexts (next_thread P (groups s)) cur ts cur" "cur \<notin> set ts" and self: "cur \<notin> set (wait_list opts ks cur ts)"
    and found: "List.find (\<lambda>c. waits_for P cur pid opts s c \<and> reportable opts s c) (wait_list opts ks cur ts) = Some p"
    and dead: "t_state (task_of s p) = TASK_ZOMBIE" and own: "p_opptr (tree s p) = Some (p_pptr (tree s p))"
    and bufs: "\<not> ru_fault bufs" "stat_addr bufs" "\<not> stat_fault bufs"
    and hash: "distinct (pidhash (sch s) (pid_hashfn (pid_of s p)))"
  shows "\<exists>s'. wait4_pass P W bufs me pid opts s = Some (Wait_returns (Inr (pid_of s p)) (Some (exit_code (procs s p))), s') \<and>
    tree_rep A (tree s') (remove1 p T) (ks(p_pptr (tree s p) := remove1 p (ks (p_pptr (tree s p))))) \<and>
    p \<notin> set (pidhash (sch s') (pid_hashfn (pid_of s p))) \<and> nr_threads s' = nr_threads s - 1 \<and> pid_of s' p = 0 \<and>
    tms_cutime (procs s' cur) = tms_cutime (procs s cur) + (tms_utime (procs s p) + tms_cutime (procs s p)) \<and>
    tms_cstime (procs s' cur) = tms_cstime (procs s cur) + (tms_stime (procs s p) + tms_cstime (procs s p))"
proof -
  let ?s1 = "upd_sch (upd_task cur (\<lambda>t. t\<lparr>t_state := TASK_INTERRUPTIBLE\<rparr>)) s"
  have p: "p \<in> set (wait_list opts ks cur ts)" using found by (auto simp: find_Some_iff)
  then have ne: "p \<noteq> cur" using self by blast
  from p obtain t where t: "t \<in> A" "p \<in> set (ks t)" using cur(2,3) by (auto simp: wait_list_def split: if_splits)
  then have T: "p \<in> set T" using tree_repD(10) [OF rep] by blast
  have s1: "task_of ?s1 p = task_of s p" "cur = current_task me ?s1" "procs ?s1 = procs s"
    using ne cur(1) by (simp_all add: current_task_def current_def)
  obtain s2 where s2: "report_child P bufs me p ?s1 = (Inr (pid_of s p), Some (exit_code (procs s p)), s2)"
    and E: "tree s2 = REMOVE_LINKS p (tree s)" "nr_threads s2 = nr_threads s - 1" "pid_of s2 p = 0"
      "pidhash (sch s2) = pidhash (unhash_task p (sch ?s1))"
      "tms_cutime (procs s2 cur) = tms_cutime (procs s cur) + (tms_utime (procs s p) + tms_cutime (procs s p))"
      "tms_cstime (procs s2 cur) = tms_cstime (procs s cur) + (tms_stime (procs s p) + tms_cstime (procs s p))"
    using report_own_zombie [OF ne s1(2), of bufs P] dead own bufs by (auto simp: s1(1) ne)
  have gone: "p \<notin> set (pidhash (sch s2) (pid_hashfn (pid_of s p)))"
    using E(4) ne hash by (simp add: unhash_task_def Let_def)
  have "wait4_pass P W bufs me pid opts s =
      Some (Wait_returns (Inr (pid_of s p)) (Some (exit_code (procs s p))), end_wait4 W me s2)"
    unfolding wait4_pass_eq [OF rep cur group self] pick_child_def found by (simp add: s2)
  then show ?thesis
    using E gone REMOVE_LINKS_refines [OF rep T] by (simp add: end_wait4_effect)
qed

theorem wait4_reaps_zombie_witness:
  "\<exists>s'. wait4_pass ref_plib list_wlib bufs_ex 0 (-1) opts_ex (family_state TASK_ZOMBIE) =
      Some (Wait_returns (Inr 8) (Some 0), s') \<and>
    tree_rep {0, 5, 7, 8} (tree s') [5, 7] ((kids_ex 7)(7 := [])) \<and> tms_cutime (procs s' 7) = 5 + (3 + 5)"
proof -
  let ?s = "family_state TASK_ZOMBIE"
  have rep: "tree_rep {0, 5, 7, 8} (tree ?s) [5, 7, 8] (kids_ex 7)" using family_rep [OF disjI2, OF refl] by simp
  have cur: "7 = current_task 0 ?s" "7 \<in> {0, 5, 7, 8 :: tptr}" "set [] \<subseteq> {0, 5, 7, 8 :: tptr}" by simp_all
  have group: "nexts (next_thread ref_plib (groups ?s)) 7 [] 7" "7 \<notin> set ([] :: tptr list)" by (simp_all add: ref_plib_def)
  have self: "7 \<notin> set (wait_list opts_ex (kids_ex 7) 7 [])" by simp
  have found: "List.find (\<lambda>c. waits_for ref_plib 7 (-1) opts_ex ?s c \<and> reportable opts_ex ?s c)
      (wait_list opts_ex (kids_ex 7) 7 []) = Some 8"
    using waits_family by (simp add: reportable_def state_consts)
  have dead: "t_state (task_of ?s 8) = TASK_ZOMBIE" by simp
  have kids: "kids_ex 7 7 = [8]" and par: "p_pptr (tree ?s 8) = 7" by (simp_all add: kids_ex_def Let_def parent_ex_def)
  have own: "p_opptr (tree ?s 8) = Some (p_pptr (tree ?s 8))" by simp
  have bufs: "\<not> ru_fault bufs_ex" "stat_addr bufs_ex" "\<not> stat_fault bufs_ex" by (simp_all add: bufs_ex_def)
  have "pidhash (sch ?s) = pidhash (sch (family 7))" by (simp add: family_state_def)
  then have hash: "distinct (pidhash (sch ?s) (pid_hashfn (pid_of ?s 8)))" by simp
  from wait4_reaps_zombie [OF rep cur group self found dead own bufs hash, of list_wlib]
  obtain s' where W: "wait4_pass ref_plib list_wlib bufs_ex 0 (-1) opts_ex ?s =
      Some (Wait_returns (Inr (pid_of ?s 8)) (Some (exit_code (procs ?s 8))), s')"
    and t: "tree_rep {0, 5, 7, 8} (tree s') (remove1 8 [5, 7, 8])
      ((kids_ex 7)(p_pptr (tree ?s 8) := remove1 8 (kids_ex 7 (p_pptr (tree ?s 8)))))"
    and u: "tms_cutime (procs s' 7) = tms_cutime (procs ?s 7) + (tms_utime (procs ?s 8) + tms_cutime (procs ?s 8))"
    by (elim exE conjE)
  from t have "tree_rep {0, 5, 7, 8} (tree s') [5, 7] ((kids_ex 7)(7 := []))" by (simp only: par kids) simp
  moreover from u have "tms_cutime (procs s' 7) = 5 + (3 + 5)" by (simp add: proc_ex_def)
  moreover from W have "wait4_pass ref_plib list_wlib bufs_ex 0 (-1) opts_ex ?s = Some (Wait_returns (Inr 8) (Some 0), s')"
    by (simp add: proc_ex_def)
  ultimately show ?thesis by blast
qed

end
