(* ===== verification/Get_Pid.thy ===== *)
theory Get_Pid imports Proc_State begin

text \<open>
  The choice of a pid: \<^verbatim>\<open>get_pid\<close> of \<^verbatim>\<open>fork.c\<close>. The numbers between \<^verbatim>\<open>last_pid\<close> and \<^verbatim>\<open>next_safe\<close> are known to be
  free, so most calls do not look at the tasks; the others search the ring again for each candidate.
  \<^verbatim>\<open>PID_MAX\<close> comes from \<^verbatim>\<open>linux/threads.h\<close> and is an argument.
\<close>

section \<open>Operations\<close>

text \<open>The flags of \<^verbatim>\<open>clone\<close>.\<close>

definition CSIGNAL :: u32 where "CSIGNAL = 0xff"
definition CLONE_VM :: u32 where "CLONE_VM = 0x100"
definition CLONE_FS :: u32 where "CLONE_FS = 0x200"
definition CLONE_FILES :: u32 where "CLONE_FILES = 0x400"
definition CLONE_SIGHAND :: u32 where "CLONE_SIGHAND = 0x800"
definition CLONE_PID :: u32 where "CLONE_PID = 0x1000"
definition CLONE_PTRACE :: u32 where "CLONE_PTRACE = 0x2000"
definition CLONE_VFORK :: u32 where "CLONE_VFORK = 0x4000"
definition CLONE_PARENT :: u32 where "CLONE_PARENT = 0x8000"
definition CLONE_THREAD :: u32 where "CLONE_THREAD = 0x10000"
definition CLONE_NEWNS :: u32 where "CLONE_NEWNS = 0x20000"

lemmas clone_consts = CSIGNAL_def CLONE_VM_def CLONE_FS_def CLONE_FILES_def CLONE_SIGHAND_def CLONE_PID_def
  CLONE_PTRACE_def CLONE_VFORK_def CLONE_PARENT_def CLONE_THREAD_def CLONE_NEWNS_def

record pid_counters =
  last_pid :: int
  next_safe :: int

definition too_large :: "int \<Rightarrow> bool" where
  "too_large n \<longleftrightarrow> n AND 0xffff8000 \<noteq> 0"

definition pid_clash :: "int \<Rightarrow> task \<Rightarrow> bool" where
  "pid_clash n t \<longleftrightarrow> t_pid t = n \<or> t_pgrp t = n \<or> t_tgid t = n \<or> t_session t = n"

definition lower_safe :: "int \<Rightarrow> task \<Rightarrow> int \<Rightarrow> int" where
  "lower_safe n t safe =
     (let safe = (if t_pid t > n \<and> safe > t_pid t then t_pid t else safe);
          safe = (if t_pgrp t > n \<and> safe > t_pgrp t then t_pgrp t else safe);
          safe = (if t_tgid t > n \<and> safe > t_tgid t then t_tgid t else safe)
      in if t_session t > n \<and> safe > t_session t then t_session t else safe)"

text \<open>One round over the tasks: the new \<^verbatim>\<open>next_safe\<close>, and whether a task has the number.\<close>

definition pid_scan :: "('l, 'b, 'g) psys \<Rightarrow> int \<Rightarrow> int \<Rightarrow> (int \<times> bool) option" where
  "pid_scan s n safe =
     for_each_task (next_in s)
       (\<lambda>p (safe, hit). if pid_clash n (task_of s p) then (True, (safe, True))
                        else (False, (lower_safe n (task_of s p) safe, hit)))
       init_task (safe, False)"

definition next_candidate :: "int \<Rightarrow> int \<Rightarrow> int \<Rightarrow> int \<times> int" where
  "next_candidate pid_max n safe =
     (let n = n + 1
      in if n \<ge> safe then (if too_large n then 300 else n, pid_max) else (n, safe))"

text \<open>The jumps to \<^verbatim>\<open>repeat\<close>. The flag of the value is false for \<^verbatim>\<open>nomorepids\<close>.\<close>

partial_function (option) pid_search ::
  "int \<Rightarrow> int \<Rightarrow> ('l, 'b, 'g) psys \<Rightarrow> int \<Rightarrow> int \<Rightarrow> (bool \<times> int \<times> int) option" where
  "pid_search pid_max beginpid s n safe =
     Option.bind (pid_scan s n safe)
       (\<lambda>r. if \<not> snd r then Some (True, n, fst r)
            else if fst (next_candidate pid_max n (fst r)) = beginpid
            then Some (False, next_candidate pid_max n (fst r))
            else pid_search pid_max beginpid s (fst (next_candidate pid_max n (fst r)))
                   (snd (next_candidate pid_max n (fst r))))"

definition get_pid ::
  "int \<Rightarrow> u32 \<Rightarrow> cpu \<Rightarrow> ('l, 'b, 'g) psys \<Rightarrow> pid_counters \<Rightarrow> (int \<times> pid_counters) option" where
  "get_pid pid_max flags me s a =
     (if flags AND CLONE_PID \<noteq> 0 then Some (pid_of s (current_task me s), a)
      else
        (let beginpid = last_pid a;
             n = last_pid a + 1;
             search = (\<lambda>n. map_option
               (\<lambda>(found, n, safe). (if found then n else 0, \<lparr>last_pid = n, next_safe = safe\<rparr>))
               (pid_search pid_max beginpid s n pid_max))
         in if too_large n then search 300
            else if n \<ge> next_safe a then search n
            else Some (n, a\<lparr>last_pid := n\<rparr>)))"

section \<open>What a round finds\<close>

text \<open>
  The numbers of the tasks, and the counters in order: the numbers between them are free. Every call that gives a
  pid keeps this; one that fails (\<^verbatim>\<open>nomorepids\<close>) may not, see \<open>get_pid_after_failure\<close> below.
\<close>

definition pid_used :: "('l, 'b, 'g) psys \<Rightarrow> tptr list \<Rightarrow> int \<Rightarrow> bool" where
  "pid_used s T n \<longleftrightarrow> (\<exists>p \<in> set T. n = t_pid (task_of s p) \<or> n = t_pgrp (task_of s p) \<or>
     n = t_tgid (task_of s p) \<or> n = t_session (task_of s p))"

lemma pid_used_clash: "pid_used s T n \<longleftrightarrow> (\<exists>p \<in> set T. pid_clash n (task_of s p))"
  by (auto simp: pid_used_def pid_clash_def)

definition pid_gap :: "('l, 'b, 'g) psys \<Rightarrow> tptr list \<Rightarrow> pid_counters \<Rightarrow> bool" where
  "pid_gap s T a \<longleftrightarrow> 0 \<le> last_pid a \<and> last_pid a < next_safe a \<and> next_safe a \<le> 0x8000 \<and>
     (\<forall>n. last_pid a < n \<and> n < next_safe a \<longrightarrow> \<not> pid_used s T n)"

lemma too_large_iff: "0 \<le> n \<Longrightarrow> n \<le> 0x8000 \<Longrightarrow> too_large n \<longleftrightarrow> n = 0x8000"
proof -
  assume n: "0 \<le> n" "n \<le> 0x8000"
  have "n AND 0xffff8000 = 0" if "n < 0x8000"
  proof -
    have "take_bit 15 n = n" using n that by (simp add: take_bit_int_eq_self)
    moreover have "(0xffff8000 :: int) = push_bit 15 0x1ffff" by (simp add: push_bit_eq_mult)
    moreover have "take_bit 15 n AND push_bit 15 0x1ffff = 0"
      by (rule bit_eqI) (auto simp only: bit_and_iff bit_take_bit_iff bit_push_bit_iff_int bit_0_eq bot_apply bot_bool_def)
    ultimately show ?thesis by simp
  qed
  with n show ?thesis by (cases "n = 0x8000") (simp_all add: too_large_def)
qed

lemma lower_safe_bounds:
  assumes "n < safe"
  shows "n < lower_safe n t safe" and "lower_safe n t safe \<le> safe"
    and "pid_clash m t \<Longrightarrow> n < m \<Longrightarrow> lower_safe n t safe \<le> m"
  using assms by (auto simp: lower_safe_def pid_clash_def Let_def)

text \<open>The body of the round, over the list of the tasks.\<close>

abbreviation scan_body :: "('l, 'b, 'g) psys \<Rightarrow> int \<Rightarrow> tptr \<Rightarrow> int \<times> bool \<Rightarrow> bool \<times> int \<times> bool" where
  "scan_body s n \<equiv> \<lambda>p (safe, hit). if pid_clash n (task_of s p) then (True, (safe, True))
                        else (False, (lower_safe n (task_of s p) safe, hit))"

lemma scan_list:
  assumes "n < safe"
  shows "\<exists>safe'. loop_list (scan_body s n) T (safe, False) = (safe', pid_used s T n) \<and> n < safe' \<and> safe' \<le> safe \<and>
    (\<not> pid_used s T n \<longrightarrow> (\<forall>m. n < m \<and> m < safe' \<longrightarrow> \<not> pid_used s T m))"
  using assms
proof (induction T arbitrary: safe)
  case (Cons p T)
  note L = lower_safe_bounds [OF Cons.prems, where t = "task_of s p"]
  from Cons.IH [OF L(1)] obtain safe' where
    IH: "loop_list (scan_body s n) T (lower_safe n (task_of s p) safe, False) = (safe', pid_used s T n)" "n < safe'"
      "safe' \<le> lower_safe n (task_of s p) safe" "\<not> pid_used s T n \<longrightarrow> (\<forall>m. n < m \<and> m < safe' \<longrightarrow> \<not> pid_used s T m)"
    by blast
  show ?case
  proof (cases "pid_clash n (task_of s p)")
    case True
    then show ?thesis using Cons.prems by (simp add: pid_used_clash)
  next
    case False
    have "\<not> pid_clash m (task_of s p)" if "n < m" "m < safe'" for m using L(3) [of m] IH(3) that by linarith
    then show ?thesis using False IH L(2) by (fastforce simp: pid_used_clash)
  qed
qed (simp add: pid_used_clash)

lemma pid_scan_result:
  assumes "on_ring (tree s) T" and "n < safe"
  obtains safe' where "pid_scan s n safe = Some (safe', pid_used s T n)" and "n < safe'" and "safe' \<le> safe"
    and "\<not> pid_used s T n \<longrightarrow> (\<forall>m. n < m \<and> m < safe' \<longrightarrow> \<not> pid_used s T m)"
proof -
  have "pid_scan s n safe = Some (loop_list (scan_body s n) T (safe, False))"
    unfolding pid_scan_def by (rule for_each_task_list) (use assms(1) in \<open>auto simp: on_ring_def\<close>)
  with scan_list [OF assms(2), of s T] that show thesis by auto
qed

section \<open>The search ends\<close>

definition succ_pid :: "int \<Rightarrow> int" where
  "succ_pid n = (if n + 1 = 0x8000 then 300 else n + 1)"

text \<open>The number of steps from one candidate to another.\<close>

definition pid_dist :: "int \<Rightarrow> int \<Rightarrow> int" where
  "pid_dist x n = (if n \<le> x then x - n else x - n + (0x8000 - 300))"

lemma next_candidate_eq:
  assumes "1 \<le> n" and "n < safe" and "safe \<le> 0x8000"
  shows "fst (next_candidate 0x8000 n safe) = succ_pid n"
    and "succ_pid n < snd (next_candidate 0x8000 n safe)" and "snd (next_candidate 0x8000 n safe) \<le> 0x8000"
  using assms too_large_iff [of "n + 1"] by (auto simp: next_candidate_def succ_pid_def Let_def)

lemma succ_dist:
  assumes "300 \<le> x" and "x < 0x8000" and "1 \<le> n" and "n < 0x8000" and "n \<noteq> x"
  shows "pid_dist x (succ_pid n) = pid_dist x n - 1" and "0 < pid_dist x n"
  using assms by (auto simp: pid_dist_def succ_pid_def)

text \<open>What the search ends with.\<close>

definition search_ok :: "('l, 'b, 'g) psys \<Rightarrow> tptr list \<Rightarrow> int \<Rightarrow> (bool \<times> int \<times> int) option \<Rightarrow> bool" where
  "search_ok s T b r \<longleftrightarrow> (\<exists>found n safe. r = Some (found, n, safe) \<and> 1 \<le> n \<and> n < safe \<and> safe \<le> 0x8000 \<and>
    (if found then \<not> pid_used s T n \<and> (\<forall>m. n < m \<and> m < safe \<longrightarrow> \<not> pid_used s T m)
     else n = b \<and> 300 \<le> b \<and> (\<forall>m. 300 \<le> m \<and> m < 0x8000 \<and> m \<noteq> b \<longrightarrow> pid_used s T m)))"

lemma pid_search_result:
  assumes ring: "on_ring (tree s) T" and x: "300 \<le> x" "x < 0x8000"
    and stop: "x = b \<and> n \<noteq> b \<or> \<not> pid_used s T x \<and> b < 300 \<and> b < n"
    and n: "1 \<le> n" "n < safe" "safe \<le> 0x8000"
    and seen: "x = b \<longrightarrow> 300 \<le> n \<and> (\<forall>m. 300 \<le> m \<and> m < 0x8000 \<and> pid_dist x n < pid_dist x m \<longrightarrow> pid_used s T m)"
  shows "search_ok s T b (pid_search 0x8000 b s n safe)"
  using stop n seen
proof (induction "nat (pid_dist x n)" arbitrary: n safe rule: less_induct)
  case less
  obtain safe' where scan: "pid_scan s n safe = Some (safe', pid_used s T n)" "n < safe'" "safe' \<le> safe"
    and gap: "\<not> pid_used s T n \<longrightarrow> (\<forall>m. n < m \<and> m < safe' \<longrightarrow> \<not> pid_used s T m)"
    by (rule pid_scan_result [OF ring less.prems(3)])
  have le: "safe' \<le> 0x8000" using scan less.prems(4) by simp
  note C = next_candidate_eq [OF less.prems(2) scan(2) le]
  show ?case
  proof (cases "pid_used s T n")
    case False
    then show ?thesis using scan gap less.prems le unfolding search_ok_def by (subst pid_search.simps) auto
  next
    case True
    then have "n \<noteq> x" using less.prems(1) by auto
    then have D: "pid_dist x (succ_pid n) = pid_dist x n - 1" "0 < pid_dist x n"
      using succ_dist [OF x less.prems(2)] scan(2) le by simp_all
    have seen: "pid_used s T m" if "x = b" "300 \<le> m" "m < 0x8000" "pid_dist x (succ_pid n) < pid_dist x m" for m
    proof (cases "pid_dist x m = pid_dist x n")
      case True
      then have "m = n" using that(1-3) less.prems(2,5) scan(2) le by (auto simp: pid_dist_def split: if_splits)
      then show ?thesis using \<open>pid_used s T n\<close> by simp
    qed (use that D less.prems(5) in simp)
    have s1: "1 \<le> succ_pid n" using less.prems(2) by (simp add: succ_pid_def)
    show ?thesis
    proof (cases "succ_pid n = b")
      case True
      then have "x = b" using less.prems(1) by (auto simp: succ_pid_def split: if_splits)
      have used: "pid_used s T m" if "300 \<le> m" "m < 0x8000" "m \<noteq> b" for m
        using seen [of m] True that x \<open>x = b\<close> by (cases "m \<le> b") (simp_all add: pid_dist_def)
      have "pid_search 0x8000 b s n safe = Some (False, b, snd (next_candidate 0x8000 n safe'))"
        using scan C(1) True \<open>pid_used s T n\<close> by (subst pid_search.simps) (simp add: prod_eq_iff)
      with used \<open>x = b\<close> C(2,3) True s1 x(1) show ?thesis unfolding search_ok_def by (intro exI [of _ False]) simp
    next
      case False
      have "pid_search 0x8000 b s n safe =
          pid_search 0x8000 b s (succ_pid n) (snd (next_candidate 0x8000 n safe'))"
        using scan C False \<open>pid_used s T n\<close> by (subst pid_search.simps) simp
      moreover have "x = b \<and> succ_pid n \<noteq> b \<or> \<not> pid_used s T x \<and> b < 300 \<and> b < succ_pid n"
        using less.prems(1) False by (auto simp: succ_pid_def)
      moreover have "x = b \<longrightarrow> 300 \<le> succ_pid n \<and>
          (\<forall>m. 300 \<le> m \<and> m < 0x8000 \<and> pid_dist x (succ_pid n) < pid_dist x m \<longrightarrow> pid_used s T m)"
        using seen less.prems(5) by (auto simp: succ_pid_def)
      ultimately show ?thesis
        using less.hyps [of "succ_pid n" "snd (next_candidate 0x8000 n safe')"] D C s1 by simp
    qed
  qed
qed

text \<open>The search from the number after \<open>b\<close>, and when \<^verbatim>\<open>get_pid\<close> makes it.\<close>

lemma pid_search_ends:
  assumes ring: "on_ring (tree s) T" and b: "0 \<le> b" "b < 0x8000"
    and stop: "300 \<le> b \<or> 300 \<le> x \<and> x < 0x8000 \<and> \<not> pid_used s T x"
  shows "search_ok s T b (pid_search 0x8000 b s (succ_pid b) 0x8000)"
proof -
  define y where "y = (if 300 \<le> b then b else x)"
  have y: "300 \<le> y" "y < 0x8000" using stop b by (auto simp: y_def)
  have stop': "y = b \<and> succ_pid b \<noteq> b \<or> \<not> pid_used s T y \<and> b < 300 \<and> b < succ_pid b"
    using stop b by (auto simp: y_def succ_pid_def)
  have seen: "y = b \<longrightarrow> 300 \<le> succ_pid b \<and>
      (\<forall>m. 300 \<le> m \<and> m < 0x8000 \<and> pid_dist y (succ_pid b) < pid_dist y m \<longrightarrow> pid_used s T m)"
    using b y by (auto simp: succ_pid_def pid_dist_def)
  have "1 \<le> succ_pid b" "succ_pid b < 0x8000" using b by (auto simp: succ_pid_def)
  from pid_search_result [OF ring y stop' this order_refl seen] show ?thesis .
qed

lemma get_pid_eq:
  assumes "flags AND CLONE_PID = 0" and "0 \<le> last_pid a" and "last_pid a < 0x8000"
  shows "get_pid 0x8000 flags me s a =
    (if last_pid a + 1 = 0x8000 \<or> next_safe a \<le> last_pid a + 1
     then map_option (\<lambda>(found, n, safe). (if found then n else 0, \<lparr>last_pid = n, next_safe = safe\<rparr>))
            (pid_search 0x8000 (last_pid a) s (succ_pid (last_pid a)) 0x8000)
     else Some (last_pid a + 1, a\<lparr>last_pid := last_pid a + 1\<rparr>))"
  using assms too_large_iff [of "last_pid a + 1"] by (simp add: get_pid_def Let_def succ_pid_def)

lemma get_pid_returns:
  assumes "on_ring (tree s) T" and "0 \<le> last_pid a" and "last_pid a < 0x8000"
    and "300 \<le> last_pid a \<or> 300 \<le> x \<and> x < 0x8000 \<and> \<not> pid_used s T x"
  shows "get_pid 0x8000 flags me s a \<noteq> None"
proof (cases "flags AND CLONE_PID = 0")
  case True
  show ?thesis
    using pid_search_ends [OF assms] unfolding get_pid_eq [OF True assms(2,3)] search_ok_def by auto
qed (simp add: get_pid_def)

lemma get_pid_result:
  assumes ring: "on_ring (tree s) T" and gap: "pid_gap s T a" and no: "flags AND CLONE_PID = 0"
    and stop: "300 \<le> last_pid a \<or> 300 \<le> x \<and> x < 0x8000 \<and> \<not> pid_used s T x"
  shows "\<exists>pid a'. get_pid 0x8000 flags me s a = Some (pid, a') \<and>
    (if pid = 0 then a' = a\<lparr>next_safe := next_safe a'\<rparr> \<and> 300 \<le> last_pid a \<and>
       (\<forall>m. 300 \<le> m \<and> m < 0x8000 \<and> m \<noteq> last_pid a \<longrightarrow> pid_used s T m)
     else 1 \<le> pid \<and> pid < 0x8000 \<and> \<not> pid_used s T pid \<and> last_pid a' = pid \<and> pid_gap s T a')"
proof -
  let ?b = "last_pid a"
  have b: "0 \<le> ?b" "?b < next_safe a" "next_safe a \<le> 0x8000" "?b < 0x8000" using gap by (simp_all add: pid_gap_def)
  note eq = get_pid_eq [OF no b(1,4), of me s]
  show ?thesis
  proof (cases "?b + 1 = 0x8000 \<or> next_safe a \<le> ?b + 1")
    case True
    from pid_search_ends [OF ring b(1,4) stop]
    obtain found n' safe' where R: "pid_search 0x8000 ?b s (succ_pid ?b) 0x8000 = Some (found, n', safe')" "1 \<le> n'" "n' < safe'" "safe' \<le> 0x8000"
      "if found then \<not> pid_used s T n' \<and> (\<forall>m. n' < m \<and> m < safe' \<longrightarrow> \<not> pid_used s T m)
       else n' = ?b \<and> 300 \<le> ?b \<and> (\<forall>m. 300 \<le> m \<and> m < 0x8000 \<and> m \<noteq> ?b \<longrightarrow> pid_used s T m)"
      unfolding search_ok_def by blast
    have "get_pid 0x8000 flags me s a = Some (if found then n' else 0, \<lparr>last_pid = n', next_safe = safe'\<rparr>)"
      unfolding eq if_P [OF True] R(1) by simp
    then show ?thesis using R by (cases found) (simp_all add: pid_gap_def)
  next
    case False
    then have "\<not> pid_used s T (?b + 1)" "\<forall>n. ?b + 1 < n \<and> n < next_safe a \<longrightarrow> \<not> pid_used s T n"
      using gap by (simp_all add: pid_gap_def)
    then show ?thesis using False b by (simp add: eq pid_gap_def)
  qed
qed

text \<open>After a failure the next call takes the shorter way, if the failed one has left \<^verbatim>\<open>next_safe\<close> high enough.\<close>

lemma get_pid_after_failure:
  assumes ring: "on_ring (tree s) T" and gap: "pid_gap s T a" and no: "flags AND CLONE_PID = 0" and b: "300 \<le> last_pid a"
    and fail: "get_pid 0x8000 flags me s a = Some (0, a')" and above: "last_pid a + 1 < next_safe a'" "last_pid a + 1 < 0x8000"
  shows "get_pid 0x8000 flags me s a' = Some (last_pid a + 1, a'\<lparr>last_pid := last_pid a + 1\<rparr>)"
    and "pid_used s T (last_pid a + 1)" and "\<not> pid_gap s T a'"
proof -
  have R: "last_pid a' = last_pid a" "\<forall>m. 300 \<le> m \<and> m < 0x8000 \<and> m \<noteq> last_pid a \<longrightarrow> pid_used s T m"
    using get_pid_result [OF ring gap no disjI1 [OF b], of me] fail by (auto dest: arg_cong [where f = last_pid])
  show u: "pid_used s T (last_pid a + 1)" using R(2) b above(2) by simp
  show "get_pid 0x8000 flags me s a' = Some (last_pid a + 1, a'\<lparr>last_pid := last_pid a + 1\<rparr>)"
    using get_pid_eq [OF no, of a' me s] b above R(1) by simp
  show "\<not> pid_gap s T a'" using u above(1) R(1) by (force simp: pid_gap_def)
qed

text \<open>
  With a last pid below 300 the search wraps around to 300 and never comes back to where it began: if all numbers
  above the last pid are in use it does not end.
\<close>

lemma pid_search_loops:
  assumes ring: "on_ring (tree s) T" and b: "0 \<le> b" "b < 300" and used: "\<forall>m. b < m \<and> m < 0x8000 \<longrightarrow> pid_used s T m"
    and n: "b < n" "n < safe" "safe \<le> 0x8000"
  shows "pid_search 0x8000 b s n safe = None"
proof -
  let ?P = "\<lambda>pm b' s' n safe (y :: bool \<times> int \<times> int). pm = 0x8000 \<and> b' = b \<and> s' = s \<longrightarrow> n \<le> b \<or> safe \<le> n \<or> 0x8000 < safe"
  have "?P pm b' s' n safe y" if "pid_search pm b' s' n safe = Some y" for pm b' s' n safe y
  proof (rule pid_search.raw_induct [OF _ that, of ?P])
    fix f :: "int \<Rightarrow> int \<Rightarrow> ('a, 'b, 'c) psys \<Rightarrow> int \<Rightarrow> int \<Rightarrow> (bool \<times> int \<times> int) option" and pm b' s' n safe y
    assume IH: "\<And>pm b' s' n safe y. f pm b' s' n safe = Some y \<Longrightarrow> ?P pm b' s' n safe y"
      and run: "Option.bind (pid_scan s' n safe)
         (\<lambda>r. if \<not> snd r then Some (True, n, fst r)
              else if fst (next_candidate pm n (fst r)) = b' then Some (False, next_candidate pm n (fst r))
              else f pm b' s' (fst (next_candidate pm n (fst r))) (snd (next_candidate pm n (fst r)))) = Some y"
    have False if eq: "pm = 0x8000" "b' = b" "s' = s" and n: "b < n" "n < safe" "safe \<le> 0x8000"
    proof -
      obtain safe' where scan: "pid_scan s n safe = Some (safe', pid_used s T n)" "n < safe'" "safe' \<le> safe"
        by (rule pid_scan_result [OF ring n(2)])
      have u: "pid_used s T n" using used n by simp
      have n1: "1 \<le> n" "safe' \<le> 0x8000" using b n scan(3) by simp_all
      note C = next_candidate_eq [OF n1(1) scan(2) n1(2)]
      have "b < succ_pid n" using b n(1) by (simp add: succ_pid_def)
      then have "f 0x8000 b s (succ_pid n) (snd (next_candidate 0x8000 n safe')) = Some y"
        using run C(1) scan(1) u by (simp add: eq)
      from IH [OF this] C(2,3) \<open>b < succ_pid n\<close> show False by simp
    qed
    then show "?P pm b' s' n safe y" by force
  qed
  then show ?thesis using n by (cases "pid_search 0x8000 b s n safe") (auto simp: not_less [symmetric])
qed

lemma get_pid_loops:
  assumes "on_ring (tree s) T" and "pid_gap s T a" and "flags AND CLONE_PID = 0" and "last_pid a < 300"
    and used: "\<forall>m. last_pid a < m \<and> m < 0x8000 \<longrightarrow> pid_used s T m"
  shows "get_pid 0x8000 flags me s a = None"
proof -
  have b: "0 \<le> last_pid a" "last_pid a < next_safe a" using assms(2) by (simp_all add: pid_gap_def)
  have "next_safe a \<le> last_pid a + 1"
  proof (rule ccontr)
    assume "\<not> next_safe a \<le> last_pid a + 1"
    then have "\<not> pid_used s T (last_pid a + 1)" using assms(2) by (simp add: pid_gap_def)
    then show False using used assms(4) b by simp
  qed
  moreover have "pid_search 0x8000 (last_pid a) s (succ_pid (last_pid a)) 0x8000 = None"
    by (rule pid_search_loops [OF assms(1) b(1) assms(4) used]) (use assms(4) in \<open>simp_all add: succ_pid_def\<close>)
  ultimately show ?thesis using get_pid_eq [OF assms(3) b(1), of me s] assms(4) by simp
qed

section \<open>When no pid is left\<close>

text \<open>A round over tasks whose numbers ascend stops before it has seen a larger number.\<close>

definition own_ids :: "('l, 'b, 'g) psys \<Rightarrow> tptr \<Rightarrow> bool" where
  "own_ids s p \<longleftrightarrow> t_pgrp (task_of s p) = pid_of s p \<and> t_tgid (task_of s p) = pid_of s p \<and> t_session (task_of s p) = pid_of s p"

lemma scan_ascending:
  assumes "\<forall>q \<in> set xs. own_ids s q \<and> pid_of s q < n" and "pid_of s p = n"
  shows "loop_list (scan_body s n) (xs @ p # ys) (safe, False) = (safe, True)"
  using assms
proof (induction xs)
  case (Cons q xs)
  then have "\<not> pid_clash n (task_of s q)" "lower_safe n (task_of s q) safe = safe"
    by (auto simp: own_ids_def pid_clash_def lower_safe_def)
  with Cons show ?case by simp
qed (simp add: pid_clash_def)

lemma pid_scan_ascending:
  assumes ring: "on_ring (tree s) T" and all: "map (pid_of s) T = [300..0x7fff]" and own: "\<forall>p \<in> set T. own_ids s p"
    and n: "300 \<le> n" "n < 0x8000"
  shows "pid_scan s n safe = Some (safe, True)"
proof -
  have "[n..0x7fff] = n # [n + 1..0x7fff]" by (rule upto_rec1) (use n in linarith)
  moreover have "[300..0x7fff] = [300..n - 1] @ [n..0x7fff]" by (rule upto_split1) (use n in linarith)+
  ultimately have "map (pid_of s) T = [300..n - 1] @ n # [n + 1..0x7fff]" using all by (simp only:)
  then obtain xs p ys where T: "T = xs @ p # ys" "map (pid_of s) xs = [300..n - 1]" "pid_of s p = n"
    by (auto simp: map_eq_append_conv map_eq_Cons_conv)
  have "pid_of s q < n" if "q \<in> set xs" for q
  proof -
    have "pid_of s q \<in> set (map (pid_of s) xs)" using that by simp
    then show ?thesis unfolding T(2) by simp
  qed
  then have "loop_list (scan_body s n) T (safe, False) = (safe, True)"
    using scan_ascending [of xs s n p] own T by auto
  moreover have "pid_scan s n safe = Some (loop_list (scan_body s n) T (safe, False))"
    unfolding pid_scan_def by (rule for_each_task_list) (use ring in \<open>auto simp: on_ring_def\<close>)
  ultimately show ?thesis by simp
qed

lemma pid_search_exhausted:
  assumes "on_ring (tree s) T" and "map (pid_of s) T = [300..0x7fff]" and "\<forall>p \<in> set T. own_ids s p"
    and b: "300 \<le> b" "b < 0x8000" and n: "300 \<le> n" "n < 0x8000" "n \<noteq> b"
  shows "pid_search 0x8000 b s n 0x8000 = Some (False, b, 0x8000)"
  using n
proof (induction "nat (pid_dist b n)" arbitrary: n rule: less_induct)
  case less
  have D: "pid_dist b (succ_pid n) = pid_dist b n - 1" "0 < pid_dist b n"
    using less.prems succ_dist [OF b] by simp_all
  have C: "next_candidate 0x8000 n 0x8000 = (succ_pid n, 0x8000)"
    using less.prems too_large_iff [of "n + 1"] by (auto simp: next_candidate_def succ_pid_def)
  have nx: "300 \<le> succ_pid n" "succ_pid n < 0x8000" using less.prems by (auto simp: succ_pid_def)
  have "pid_search 0x8000 b s n 0x8000 =
      (if succ_pid n = b then Some (False, b, 0x8000) else pid_search 0x8000 b s (succ_pid n) 0x8000)"
    using pid_scan_ascending [OF assms(1-3) less.prems(1,2)] by (subst pid_search.simps) (simp add: C)
  moreover have "pid_search 0x8000 b s (succ_pid n) 0x8000 = Some (False, b, 0x8000)" if "succ_pid n \<noteq> b"
  proof (rule less.hyps)
    show "nat (pid_dist b (succ_pid n)) < nat (pid_dist b n)" using D by linarith
  qed (use nx that in simp_all)
  ultimately show ?case by (cases "succ_pid n = b") (simp_all only: if_True if_False not_False_eq_True simp_thms)
qed

lemma get_pid_exhausted:
  assumes T: "on_ring (tree s) T" "map (pid_of s) T = [300..0x7fff]" "\<forall>p \<in> set T. own_ids s p"
    and a: "300 \<le> last_pid a" "last_pid a < 0x7fff" "next_safe a = last_pid a + 1" and no: "flags AND CLONE_PID = 0"
  shows "get_pid 0x8000 flags me s a = Some (0, a\<lparr>next_safe := 0x8000\<rparr>)"
    and "get_pid 0x8000 flags me s (a\<lparr>next_safe := 0x8000\<rparr>) = Some (last_pid a + 1, \<lparr>last_pid = last_pid a + 1, next_safe = 0x8000\<rparr>)"
    and "pid_used s T (last_pid a + 1)"
proof -
  have small: "\<not> too_large (last_pid a + 1)" using too_large_iff [of "last_pid a + 1"] a by simp
  show "get_pid 0x8000 flags me s a = Some (0, a\<lparr>next_safe := 0x8000\<rparr>)"
    using pid_search_exhausted [OF T, of "last_pid a" "last_pid a + 1"] a small no by (simp add: get_pid_def)
  show "get_pid 0x8000 flags me s (a\<lparr>next_safe := 0x8000\<rparr>) = Some (last_pid a + 1, \<lparr>last_pid = last_pid a + 1, next_safe = 0x8000\<rparr>)"
    using a small no by (cases a) (simp add: get_pid_def Let_def)
  have "last_pid a + 1 \<in> set (map (pid_of s) T)" unfolding T(2) set_upto using a by simp
  then show "pid_used s T (last_pid a + 1)" by (auto simp: pid_used_clash pid_clash_def)
qed

end
