(* ===== verification/Fork_State.thy ===== *)
theory Fork_State imports Proc_Wait Completion Get_Pid begin

text \<open>
  The resources of a process: its open files, its directories, its signal handlers, its address
  space, the fields of \<^verbatim>\<open>struct task_struct\<close> that only fork and exit use; and the functions of other files of
  the kernel that take and drop references.
\<close>

section \<open>State\<close>

text \<open>What is counted outside \<^verbatim>\<open>fork.c\<close> and \<^verbatim>\<open>exit.c\<close>.\<close>

datatype obj = Dentry nat | Mount nat | File nat | Exec_domain nat | Module nat

record rlimit =
  rlim_cur :: u32
  rlim_max :: u32

record resources =
  fs_of :: "nat option"
  files_of :: "nat option"
  sig_of :: "nat option"
  vfork_done :: "tptr option"
  exec_domain :: nat
  binfmt_module :: "nat option"
  rlim :: "nat \<Rightarrow> rlimit"
  tux_info :: bool
  did_exec :: bool
  swappable :: bool
  it_real_value :: u32
  it_virt_value :: u32
  it_prof_value :: u32
  it_real_incr :: u32
  it_virt_incr :: u32
  it_prof_incr :: u32
  timer_data :: "tptr option"
  tty :: "nat option"
  tty_old_pgrp :: int
  per_cpu_utime :: "cpu \<Rightarrow> int"
  per_cpu_stime :: "cpu \<Rightarrow> int"
  lock_depth :: int
  start_time :: "64 word"
  semundo :: "nat option"
  cap_inheritable :: u32
  cap_permitted :: u32
  keep_capabilities :: bool

text \<open>\<^verbatim>\<open>fs_struct\<close>: the root and the working directory, and the alternative root if there is one.\<close>

record fs_struct =
  fs_count :: int
  umask :: int
  fs_root :: nat
  fs_rootmnt :: nat
  fs_pwd :: nat
  fs_pwdmnt :: nat
  fs_altroot :: "nat option"
  fs_altrootmnt :: "nat option"
  fs_freed :: bool

text \<open>
  \<^verbatim>\<open>files_struct\<close>: the sizes are numbers of descriptors; the two bit sets are arrays of words;
  \<open>fd_array_grown\<close> is the test \<^verbatim>\<open>fd != &fd_array[0]\<close>.
\<close>

record files_struct =
  files_count :: int
  max_fds :: nat
  max_fdset :: nat
  next_fd :: nat
  fd :: "nat \<Rightarrow> nat option"
  close_on_exec :: "nat \<Rightarrow> u32"
  open_fds :: "nat \<Rightarrow> u32"
  fd_array_grown :: bool
  files_freed :: bool

record signal_struct =
  sig_count :: int
  action :: "nat \<Rightarrow> nat"
  sig_freed :: bool

text \<open>
  The part of \<^verbatim>\<open>mm_struct\<close> that the scheduler does not use, and a memory area. \<open>vm_pprev_share\<close> is the
  address of the \<^verbatim>\<open>vm_next_share\<close> field of an area, or of the head of the list of its file (\<open>None\<close>).
\<close>

record mm_struct =
  mmap :: "nat option"
  mmap_cache :: "nat option"
  map_count :: int
  locked_vm :: u32
  rss :: u32
  cpu_vm_mask :: u32
  def_flags :: u32

record vma =
  vm_start :: u32
  vm_end :: u32
  vm_flags :: u32
  vm_file :: "nat option"
  vm_mm :: mmptr
  vm_next :: "nat option"
  vm_next_share :: "nat option"
  vm_pprev_share :: "nat option"
  vm_has_open :: bool

text \<open>The areas of an address space, from the first one on, and the files they map.\<close>

fun vma_chain :: "(nat \<Rightarrow> vma) \<Rightarrow> nat option \<Rightarrow> nat list \<Rightarrow> bool" where
  "vma_chain h p [] \<longleftrightarrow> p = None"
| "vma_chain h p (a # as) \<longleftrightarrow> p = Some a \<and> vma_chain h (vm_next (h a)) as"

definition vma_files :: "(nat \<Rightarrow> vma) \<Rightarrow> nat list \<Rightarrow> nat list" where
  "vma_files h as = List.map_filter (\<lambda>a. vm_file (h a)) as"

text \<open>
  All of it. A completion is named by the task whose call of \<^verbatim>\<open>do_fork\<close> has it on its stack;
  \<open>ext\<close> is the state behind the functions of other files.
\<close>

record ('l, 'b, 'g, 'v) ksys =
  ps :: "('l, 'b, 'g) psys"
  res :: "tptr \<Rightarrow> resources"
  fss :: "nat \<Rightarrow> fs_struct"
  filess :: "nat \<Rightarrow> files_struct"
  sigs :: "nat \<Rightarrow> signal_struct"
  mmx :: "mmptr \<Rightarrow> mm_struct"
  mmlist_nr :: int
  vmas :: "nat \<Rightarrow> vma"
  comps :: "tptr \<Rightarrow> wait_entry list completion"
  pids :: pid_counters
  max_threads :: int
  total_forks :: u32
  jiffies_64 :: "64 word"
  ext :: 'v

definition upd_ps :: "(('l, 'b, 'g) psys \<Rightarrow> ('l, 'b, 'g) psys) \<Rightarrow> ('l, 'b, 'g, 'v) ksys \<Rightarrow> ('l, 'b, 'g, 'v) ksys" where
  "upd_ps f s = s\<lparr>ps := f (ps s)\<rparr>"

definition upd_res :: "tptr \<Rightarrow> (resources \<Rightarrow> resources) \<Rightarrow> ('l, 'b, 'g, 'v) ksys \<Rightarrow> ('l, 'b, 'g, 'v) ksys" where
  "upd_res p f s = s\<lparr>res := (res s)(p := f (res s p))\<rparr>"

definition upd_fs :: "nat \<Rightarrow> (fs_struct \<Rightarrow> fs_struct) \<Rightarrow> ('l, 'b, 'g, 'v) ksys \<Rightarrow> ('l, 'b, 'g, 'v) ksys" where
  "upd_fs a f s = s\<lparr>fss := (fss s)(a := f (fss s a))\<rparr>"

definition upd_files :: "nat \<Rightarrow> (files_struct \<Rightarrow> files_struct) \<Rightarrow> ('l, 'b, 'g, 'v) ksys \<Rightarrow> ('l, 'b, 'g, 'v) ksys" where
  "upd_files a f s = s\<lparr>filess := (filess s)(a := f (filess s a))\<rparr>"

definition upd_ext :: "('v \<Rightarrow> 'v) \<Rightarrow> ('l, 'b, 'g, 'v) ksys \<Rightarrow> ('l, 'b, 'g, 'v) ksys" where
  "upd_ext f s = s\<lparr>ext := f (ext s)\<rparr>"

abbreviation ktask :: "('l, 'b, 'g, 'v) ksys \<Rightarrow> tptr \<Rightarrow> task" where
  "ktask s p \<equiv> task_of (ps s) p"

definition me_of :: "cpu \<Rightarrow> ('l, 'b, 'g, 'v) ksys \<Rightarrow> tptr" where
  "me_of me s = current_task me (ps s)"

lemma ksys_simps [simp]:
  "ps (upd_ps f s) = f (ps s)"
  "res (upd_ps f s) = res s" "fss (upd_ps f s) = fss s" "filess (upd_ps f s) = filess s" "sigs (upd_ps f s) = sigs s"
  "mmx (upd_ps f s) = mmx s" "mmlist_nr (upd_ps f s) = mmlist_nr s" "vmas (upd_ps f s) = vmas s"
  "comps (upd_ps f s) = comps s" "pids (upd_ps f s) = pids s" "max_threads (upd_ps f s) = max_threads s"
  "total_forks (upd_ps f s) = total_forks s" "jiffies_64 (upd_ps f s) = jiffies_64 s" "ext (upd_ps f s) = ext s"
  "res (upd_res p h s) = (res s)(p := h (res s p))"
  "ps (upd_res p h s) = ps s" "fss (upd_res p h s) = fss s" "filess (upd_res p h s) = filess s"
  "sigs (upd_res p h s) = sigs s" "mmx (upd_res p h s) = mmx s" "mmlist_nr (upd_res p h s) = mmlist_nr s"
  "vmas (upd_res p h s) = vmas s" "comps (upd_res p h s) = comps s" "pids (upd_res p h s) = pids s"
  "max_threads (upd_res p h s) = max_threads s" "total_forks (upd_res p h s) = total_forks s"
  "jiffies_64 (upd_res p h s) = jiffies_64 s" "ext (upd_res p h s) = ext s"
  "fss (upd_fs a i s) = (fss s)(a := i (fss s a))"
  "ps (upd_fs a i s) = ps s" "res (upd_fs a i s) = res s" "filess (upd_fs a i s) = filess s"
  "sigs (upd_fs a i s) = sigs s" "mmx (upd_fs a i s) = mmx s" "mmlist_nr (upd_fs a i s) = mmlist_nr s"
  "vmas (upd_fs a i s) = vmas s" "comps (upd_fs a i s) = comps s" "pids (upd_fs a i s) = pids s"
  "max_threads (upd_fs a i s) = max_threads s" "total_forks (upd_fs a i s) = total_forks s"
  "jiffies_64 (upd_fs a i s) = jiffies_64 s" "ext (upd_fs a i s) = ext s"
  "filess (upd_files a j s) = (filess s)(a := j (filess s a))"
  "ps (upd_files a j s) = ps s" "res (upd_files a j s) = res s" "fss (upd_files a j s) = fss s"
  "sigs (upd_files a j s) = sigs s" "mmx (upd_files a j s) = mmx s" "mmlist_nr (upd_files a j s) = mmlist_nr s"
  "vmas (upd_files a j s) = vmas s" "comps (upd_files a j s) = comps s" "pids (upd_files a j s) = pids s"
  "max_threads (upd_files a j s) = max_threads s" "total_forks (upd_files a j s) = total_forks s"
  "jiffies_64 (upd_files a j s) = jiffies_64 s" "ext (upd_files a j s) = ext s"
  "ext (upd_ext e s) = e (ext s)"
  "ps (upd_ext e s) = ps s" "res (upd_ext e s) = res s" "fss (upd_ext e s) = fss s" "filess (upd_ext e s) = filess s"
  "sigs (upd_ext e s) = sigs s" "mmx (upd_ext e s) = mmx s" "mmlist_nr (upd_ext e s) = mmlist_nr s"
  "vmas (upd_ext e s) = vmas s" "comps (upd_ext e s) = comps s" "pids (upd_ext e s) = pids s"
  "max_threads (upd_ext e s) = max_threads s" "total_forks (upd_ext e s) = total_forks s"
  "jiffies_64 (upd_ext e s) = jiffies_64 s"
  by (simp_all add: upd_ps_def upd_res_def upd_fs_def upd_files_def upd_ext_def)

section \<open>The functions of other files\<close>

text \<open>And the constants of other headers that \<^verbatim>\<open>fork.c\<close> and \<^verbatim>\<open>exit.c\<close> use.\<close>

record 'v xlib =
  refs :: "'v \<Rightarrow> obj \<Rightarrow> int"
  dget :: "nat \<Rightarrow> 'v \<Rightarrow> 'v"
  dput :: "nat \<Rightarrow> 'v \<Rightarrow> 'v"
  mntget :: "nat \<Rightarrow> 'v \<Rightarrow> 'v"
  mntput :: "nat \<Rightarrow> 'v \<Rightarrow> 'v"
  get_file :: "nat \<Rightarrow> 'v \<Rightarrow> 'v"
  filp_close :: "nat \<Rightarrow> 'v \<Rightarrow> 'v"
  get_exec_domain :: "nat \<Rightarrow> 'v \<Rightarrow> 'v"
  put_exec_domain :: "nat \<Rightarrow> 'v \<Rightarrow> 'v"
  MOD_INC_USE_COUNT :: "nat \<Rightarrow> 'v \<Rightarrow> 'v"
  MOD_DEC_USE_COUNT :: "nat \<Rightarrow> 'v \<Rightarrow> 'v"
  copy_namespace :: "u32 \<Rightarrow> tptr \<Rightarrow> 'v \<Rightarrow> bool \<times> 'v"
  exit_namespace :: "tptr \<Rightarrow> 'v \<Rightarrow> 'v"
  exit_mmap :: "nat option \<Rightarrow> (nat \<Rightarrow> vma) \<Rightarrow> 'v \<Rightarrow> 'v"
  vm_unacct_memory :: "u32 \<Rightarrow> 'v \<Rightarrow> 'v"
  deny_write_access :: "nat \<Rightarrow> 'v \<Rightarrow> 'v"
  vm_open :: "nat \<Rightarrow> 'v \<Rightarrow> 'v"
  mmlist_add :: "mmptr \<Rightarrow> mmptr \<Rightarrow> 'v \<Rightarrow> 'v"
  mmlist_del :: "mmptr \<Rightarrow> 'v \<Rightarrow> 'v"
  expand_fdset :: "nat \<Rightarrow> files_struct \<Rightarrow> errno option \<times> files_struct"
  expand_fd_array :: "nat \<Rightarrow> files_struct \<Rightarrow> errno option \<times> files_struct"
  exit_sighand :: "nat option \<Rightarrow> (nat \<Rightarrow> signal_struct) \<Rightarrow> (nat \<Rightarrow> signal_struct)"
  FD_SETSIZE :: nat
  VM_DONTCOPY :: u32
  VM_ACCOUNT :: u32
  VM_LOCKED :: u32
  VM_DENYWRITE :: u32
  PAGE_SHIFT :: nat
  PID_MAX :: int
  RLIMIT_NPROC :: nat
  CAP_INIT_INH_SET :: u32
  CAP_FULL_SET :: u32
  INIT_USER :: nat

text \<open>A pair of functions that take and drop a reference to one kind of object.\<close>

locale counted =
  fixes refs :: "'v \<Rightarrow> obj \<Rightarrow> int" and up down :: "nat \<Rightarrow> 'v \<Rightarrow> 'v" and kind :: "nat \<Rightarrow> obj"
  assumes refs_up: "refs (up n v) = (refs v)(kind n := refs v (kind n) + 1)"
    and refs_down: "refs (down n v) = (refs v)(kind n := refs v (kind n) - 1)"
    and kind_inj: "inj kind"
begin

lemma refs_up_down: "refs v' = refs (up n v) \<Longrightarrow> refs (down n v') = refs v"
  by (simp add: refs_up refs_down)

text \<open>A reference for each of a list of objects.\<close>

lemma refs_up_list: "refs (fold up ns v) (kind m) = refs v (kind m) + int (count_list ns m)"
  using kind_inj by (induction ns arbitrary: v) (auto simp: refs_up inj_eq)

lemma refs_down_list: "refs (fold down ns v) (kind m) = refs v (kind m) - int (count_list ns m)"
  using kind_inj by (induction ns arbitrary: v) (auto simp: refs_down inj_eq)

lemma refs_list_other: "(\<And>m. o' \<noteq> kind m) \<Longrightarrow> refs (fold up ns v) o' = refs v o'"
  "(\<And>m. o' \<noteq> kind m) \<Longrightarrow> refs (fold down ns v) o' = refs v o'"
  by (induction ns arbitrary: v) (simp_all add: refs_up refs_down)

end

text \<open>
  What fork and exit rely on. A function that prepares a namespace or a descriptor table for the child and
  fails has no effect; \<^verbatim>\<open>exit_mmap\<close> drops the file of each area; \<^verbatim>\<open>exit_namespace\<close> takes back what \<^verbatim>\<open>copy_namespace\<close> did; \<^verbatim>\<open>exit_sighand\<close> drops one reference.
\<close>

locale resource_lib =
  dentry: counted "refs X" "dget X" "dput X" Dentry +
  mount: counted "refs X" "mntget X" "mntput X" Mount +
  files: counted "refs X" "get_file X" "filp_close X" File +
  domain: counted "refs X" "get_exec_domain X" "put_exec_domain X" Exec_domain +
  modul: counted "refs X" "MOD_INC_USE_COUNT X" "MOD_DEC_USE_COUNT X" Module
  for X :: "'v xlib" +
  assumes namespace_failed: "copy_namespace X fl p v = (True, v') \<Longrightarrow> refs X v' = refs X v"
    and namespace_undone: "copy_namespace X fl p v = (False, v') \<Longrightarrow> refs X (exit_namespace X p v') = refs X v"
    and expand_fdset: "expand_fdset X n f = (None, f') \<Longrightarrow>
      f' = f\<lparr>max_fdset := max_fdset f', open_fds := open_fds f', close_on_exec := close_on_exec f'\<rparr> \<and>
      n < max_fdset f' \<and> 32 dvd max_fdset f'"
    and fd_setsize: "0 < FD_SETSIZE X" "32 dvd FD_SETSIZE X"
    and expand_fd_array: "expand_fd_array X n f = (None, f') \<Longrightarrow>
      f' = f\<lparr>max_fds := max_fds f', fd := fd f', fd_array_grown := True\<rparr> \<and> n < max_fds f'"
    and exit_sighand_some: "exit_sighand X (Some g) h =
      h(g := (h g)\<lparr>sig_count := sig_count (h g) - 1, sig_freed := sig_freed (h g) \<or> sig_count (h g) = 1\<rparr>)"
    and exit_sighand_none: "exit_sighand X None h = h"
    and exit_mmap: "vma_chain vm first_vma as \<Longrightarrow> refs X (exit_mmap X first_vma vm v) x = refs X v x -
      (case x of File m \<Rightarrow> int (count_list (vma_files vm as) m) | _ \<Rightarrow> 0)"
    and frame: "refs X (vm_unacct_memory X w v) = refs X v" "refs X (vm_open X a v) = refs X v" "refs X (mmlist_add X m n v) = refs X v"
      "refs X (mmlist_del X m v) = refs X v" "refs X (deny_write_access X a v) = refs X v"

end
