(* ===== verification/Proc_Files.thy ===== *)
theory Proc_Files imports Fork_State begin

text \<open>
  Directories, signal handlers and open files of a process: how \<^verbatim>\<open>fork.c\<close> shares or copies them and how
  \<^verbatim>\<open>exit.c\<close> drops them. An allocation's outcome is an argument, \<open>None\<close> when it fails; the
  memory it returns holds anything. The value of a copy is 0 (\<open>None\<close>) or an error.
\<close>

section \<open>Directories\<close>

definition get_opt :: "(nat \<Rightarrow> 'v \<Rightarrow> 'v) \<Rightarrow> nat option \<Rightarrow> 'v \<Rightarrow> 'v" where
  "get_opt f a v = (case a of None \<Rightarrow> v | Some n \<Rightarrow> f n v)"

definition copy_fs_struct ::
  "'v xlib \<Rightarrow> nat option \<Rightarrow> nat \<Rightarrow> ('l, 'b, 'g, 'v) ksys \<Rightarrow> nat option \<times> ('l, 'b, 'g, 'v) ksys" where
  "copy_fs_struct X alloc old s =
     (case alloc of None \<Rightarrow> (None, s)
      | Some a \<Rightarrow>
         (let o' = fss s old;
              s = upd_fs a (\<lambda>f. f\<lparr>fs_count := 1, fs_freed := False\<rparr>) s;
              s = upd_fs a (\<lambda>f. f\<lparr>umask := umask o'\<rparr>) s;
              s = upd_fs a (\<lambda>f. f\<lparr>fs_rootmnt := fs_rootmnt o'\<rparr>) (upd_ext (mntget X (fs_rootmnt o')) s);
              s = upd_fs a (\<lambda>f. f\<lparr>fs_root := fs_root o'\<rparr>) (upd_ext (dget X (fs_root o')) s);
              s = upd_fs a (\<lambda>f. f\<lparr>fs_pwdmnt := fs_pwdmnt o'\<rparr>) (upd_ext (mntget X (fs_pwdmnt o')) s);
              s = upd_fs a (\<lambda>f. f\<lparr>fs_pwd := fs_pwd o'\<rparr>) (upd_ext (dget X (fs_pwd o')) s);
              s = (if fs_altroot o' \<noteq> None
                   then (let s = upd_fs a (\<lambda>f. f\<lparr>fs_altrootmnt := fs_altrootmnt o'\<rparr>)
                                   (upd_ext (get_opt (mntget X) (fs_altrootmnt o')) s)
                         in upd_fs a (\<lambda>f. f\<lparr>fs_altroot := fs_altroot o'\<rparr>)
                              (upd_ext (get_opt (dget X) (fs_altroot o')) s))
                   else upd_fs a (\<lambda>f. f\<lparr>fs_altrootmnt := None, fs_altroot := None\<rparr>) s)
          in (Some a, s)))"

definition copy_fs ::
  "'v xlib \<Rightarrow> nat option \<Rightarrow> u32 \<Rightarrow> cpu \<Rightarrow> tptr \<Rightarrow> ('l, 'b, 'g, 'v) ksys \<Rightarrow> bool \<times> ('l, 'b, 'g, 'v) ksys" where
  "copy_fs X alloc clone_flags me tsk s =
     (let cur = me_of me s in
      if clone_flags AND CLONE_FS \<noteq> 0
      then (False, upd_fs (the (fs_of (res s cur))) (\<lambda>f. f\<lparr>fs_count := fs_count f + 1\<rparr>) s)
      else
        (let (fs, s) = copy_fs_struct X alloc (the (fs_of (res s cur))) s;
             s = upd_res tsk (\<lambda>r. r\<lparr>fs_of := fs\<rparr>) s
         in (fs = None, s)))"

definition put_fs_struct :: "'v xlib \<Rightarrow> nat \<Rightarrow> ('l, 'b, 'g, 'v) ksys \<Rightarrow> ('l, 'b, 'g, 'v) ksys" where
  "put_fs_struct X fs s =
     (let s = upd_fs fs (\<lambda>f. f\<lparr>fs_count := fs_count f - 1\<rparr>) s; f = fss s fs
      in if fs_count f = 0
         then (let s = upd_ext (dput X (fs_root f)) s;
                   s = upd_ext (mntput X (fs_rootmnt f)) s;
                   s = upd_ext (dput X (fs_pwd f)) s;
                   s = upd_ext (mntput X (fs_pwdmnt f)) s;
                   s = (if fs_altroot f \<noteq> None
                        then upd_ext (get_opt (mntput X) (fs_altrootmnt f)) (upd_ext (get_opt (dput X) (fs_altroot f)) s)
                        else s)
               in upd_fs fs (\<lambda>f. f\<lparr>fs_freed := True\<rparr>) s)
         else s)"

definition exit_fs :: "'v xlib \<Rightarrow> tptr \<Rightarrow> ('l, 'b, 'g, 'v) ksys \<Rightarrow> ('l, 'b, 'g, 'v) ksys" where
  "exit_fs X tsk s =
     (case fs_of (res s tsk) of None \<Rightarrow> s
      | Some fs \<Rightarrow> put_fs_struct X fs (upd_res tsk (\<lambda>r. r\<lparr>fs_of := None\<rparr>) s))"

section \<open>Signal handlers\<close>

definition copy_sighand ::
  "nat option \<Rightarrow> u32 \<Rightarrow> cpu \<Rightarrow> tptr \<Rightarrow> ('l, 'b, 'g, 'v) ksys \<Rightarrow> bool \<times> ('l, 'b, 'g, 'v) ksys" where
  "copy_sighand alloc clone_flags me tsk s =
     (let cur = me_of me s; old = the (sig_of (res s cur)) in
      if clone_flags AND CLONE_SIGHAND \<noteq> 0
      then (False, s\<lparr>sigs := (sigs s)(old := (sigs s old)\<lparr>sig_count := sig_count (sigs s old) + 1\<rparr>)\<rparr>)
      else
        (let s = upd_res tsk (\<lambda>r. r\<lparr>sig_of := alloc\<rparr>) s in
         case alloc of None \<Rightarrow> (True, s)
         | Some sig \<Rightarrow>
            (False, s\<lparr>sigs := (sigs s)(sig := \<lparr>sig_count = 1, action = action (sigs s old), sig_freed = False\<rparr>)\<rparr>)))"

definition drop_sighand :: "'v xlib \<Rightarrow> tptr \<Rightarrow> ('l, 'b, 'g, 'v) ksys \<Rightarrow> ('l, 'b, 'g, 'v) ksys" where
  "drop_sighand X tsk s = upd_res tsk (\<lambda>r. r\<lparr>sig_of := None\<rparr>) (s\<lparr>sigs := exit_sighand X (sig_of (res s tsk)) (sigs s)\<rparr>)"

section \<open>Open files\<close>

definition NR_OPEN_DEFAULT :: nat where "NR_OPEN_DEFAULT = 32"

text \<open>The index of the last word of the set that is not empty, searched from the end.\<close>

fun last_word :: "(nat \<Rightarrow> u32) \<Rightarrow> nat \<Rightarrow> nat" where
  "last_word fds_bits 0 = 0"
| "last_word fds_bits (Suc i) = (if fds_bits i \<noteq> 0 then i else last_word fds_bits i)"

definition count_open_files :: "files_struct \<Rightarrow> nat \<Rightarrow> nat" where
  "count_open_files files sz = (last_word (open_fds files) (sz div 32) + 1) * 32"

definition get_files :: "'v xlib \<Rightarrow> nat option list \<Rightarrow> 'v \<Rightarrow> 'v" where
  "get_files X fs = fold (get_opt (get_file X)) fs"

definition clear_words :: "nat \<Rightarrow> nat \<Rightarrow> (nat \<Rightarrow> u32) \<Rightarrow> nat \<Rightarrow> u32" where
  "clear_words start n w i = (if start \<le> i \<and> i < start + n then 0 else w i)"

text \<open>The descriptors up to \<open>n\<close> are copied, with a reference for each file; the others are cleared.\<close>

definition copy_fds :: "nat \<Rightarrow> files_struct \<Rightarrow> files_struct \<Rightarrow> files_struct" where
  "copy_fds n old new =
     (let new = new\<lparr>open_fds := \<lambda>i. if i < n div 32 then open_fds old i else open_fds new i\<rparr>;
          new = new\<lparr>close_on_exec := \<lambda>i. if i < n div 32 then close_on_exec old i else close_on_exec new i\<rparr>;
          new = new\<lparr>fd := \<lambda>i. if i < n then fd old i else fd new i\<rparr>;
          new = new\<lparr>fd := \<lambda>i. if n \<le> i \<and> i < max_fds new then None else fd new i\<rparr>
      in if max_fdset new > n
         then (let left = (max_fdset new - n) div 8; start = n div 32
               in new\<lparr>open_fds := clear_words start (left div 4) (open_fds new),
                       close_on_exec := clear_words start (left div 4) (close_on_exec new)\<rparr>)
         else new)"

definition new_files :: "'v xlib \<Rightarrow> files_struct \<Rightarrow> files_struct" where
  "new_files X raw = raw\<lparr>files_count := 1, next_fd := 0, max_fds := NR_OPEN_DEFAULT, max_fdset := FD_SETSIZE X,
     fd_array_grown := False, files_freed := False\<rparr>"

text \<open>The two tables of the new structure made large enough; the flag says that this failed.\<close>

definition grow_files :: "'v xlib \<Rightarrow> files_struct \<Rightarrow> files_struct \<Rightarrow> errno option \<times> files_struct" where
  "grow_files X old new =
     (let sz = max_fdset old;
          (error, new) = (if sz > FD_SETSIZE X then expand_fdset X (sz - 1) (new\<lparr>max_fdset := 0\<rparr>) else (None, new))
      in if error \<noteq> None then (error, new)
         else if count_open_files old sz > NR_OPEN_DEFAULT
         then expand_fd_array X (count_open_files old sz - 1) (new\<lparr>max_fds := 0\<rparr>)
         else (None, new))"

definition copy_files ::
  "'v xlib \<Rightarrow> nat option \<Rightarrow> u32 \<Rightarrow> cpu \<Rightarrow> tptr \<Rightarrow> ('l, 'b, 'g, 'v) ksys \<Rightarrow> errno option \<times> ('l, 'b, 'g, 'v) ksys" where
  "copy_files X alloc clone_flags me tsk s =
     (case files_of (res s (me_of me s)) of None \<Rightarrow> (None, s)
      | Some oldf \<Rightarrow>
          if clone_flags AND CLONE_FILES \<noteq> 0
          then (None, upd_files oldf (\<lambda>f. f\<lparr>files_count := files_count f + 1\<rparr>) s)
          else
            (let s = upd_res tsk (\<lambda>r. r\<lparr>files_of := None\<rparr>) s in
             case alloc of None \<Rightarrow> (Some ENOMEM, s)
             | Some newf \<Rightarrow>
                (let old = filess s oldf;
                     n = count_open_files old (max_fdset old);
                     (error, new) = grow_files X old (new_files X (filess s newf))
                 in if error \<noteq> None then (error, upd_files newf (\<lambda>f. new\<lparr>files_freed := True\<rparr>) s)
                    else
                      (let s = upd_files newf (\<lambda>f. copy_fds n old new) s;
                           s = upd_ext (get_files X (map (fd old) [0..<n])) s
                       in (None, upd_res tsk (\<lambda>r. r\<lparr>files_of := Some newf\<rparr>) s)))))"

text \<open>Closing the descriptors of one word of the set, from the lowest bit up.\<close>

function close_word :: "'v xlib \<Rightarrow> u32 \<Rightarrow> nat \<Rightarrow> (nat \<Rightarrow> nat option) \<times> 'v \<Rightarrow> (nat \<Rightarrow> nat option) \<times> 'v" where
  "close_word X w i (t, v) =
     (if w = 0 then (t, v)
      else close_word X (drop_bit 1 w) (i + 1)
             (if w AND 1 \<noteq> 0 then (t(i := None), get_opt (filp_close X) (t i) v) else (t, v)))"
  by pat_completeness auto
termination
proof (relation "measure (\<lambda>(X, w, i, st). unat w)")
  fix w :: u32 assume "w \<noteq> 0"
  then show "((X, drop_bit 1 w, i + 1, st), X, w, i, t, v) \<in> measure (\<lambda>(X, w, i, st). unat w)" for X :: "'v xlib" and i st t v
    by (simp add: drop_bit_Suc unat_div word_gt_0 unat_gt_0)
qed simp

function close_from ::
  "'v xlib \<Rightarrow> files_struct \<Rightarrow> nat \<Rightarrow> (nat \<Rightarrow> nat option) \<times> 'v \<Rightarrow> (nat \<Rightarrow> nat option) \<times> 'v" where
  "close_from X files j st =
     (let i = j * 32 in
      if i \<ge> max_fdset files \<or> i \<ge> max_fds files then st
      else close_from X files (j + 1) (close_word X (open_fds files j) i st))"
  by pat_completeness auto
termination by (relation "measure (\<lambda>(X, files, j, st). max_fds files - j * 32)") (simp_all, arith)

declare close_word.simps [simp del] close_from.simps [simp del]

definition close_files :: "'v xlib \<Rightarrow> nat \<Rightarrow> ('l, 'b, 'g, 'v) ksys \<Rightarrow> ('l, 'b, 'g, 'v) ksys" where
  "close_files X files s =
     (let (t, v) = close_from X (filess s files) 0 (fd (filess s files), ext s)
      in upd_files files (\<lambda>f. f\<lparr>fd := t\<rparr>) (s\<lparr>ext := v\<rparr>))"

definition put_files_struct :: "'v xlib \<Rightarrow> nat \<Rightarrow> ('l, 'b, 'g, 'v) ksys \<Rightarrow> ('l, 'b, 'g, 'v) ksys" where
  "put_files_struct X files s =
     (let s = upd_files files (\<lambda>f. f\<lparr>files_count := files_count f - 1\<rparr>) s
      in if files_count (filess s files) = 0
         then upd_files files (\<lambda>f. f\<lparr>files_freed := True\<rparr>) (close_files X files s)
         else s)"

definition exit_files :: "'v xlib \<Rightarrow> tptr \<Rightarrow> ('l, 'b, 'g, 'v) ksys \<Rightarrow> ('l, 'b, 'g, 'v) ksys" where
  "exit_files X tsk s =
     (case files_of (res s tsk) of None \<Rightarrow> s
      | Some files \<Rightarrow> put_files_struct X files (upd_res tsk (\<lambda>r. r\<lparr>files_of := None\<rparr>) s))"

section \<open>Directories: what is taken is given back\<close>

text \<open>The references a structure holds.\<close>

definition fs_refs :: "fs_struct \<Rightarrow> obj \<Rightarrow> int" where
  "fs_refs f x =
     of_bool (x = Dentry (fs_root f)) + of_bool (x = Mount (fs_rootmnt f)) +
     of_bool (x = Dentry (fs_pwd f)) + of_bool (x = Mount (fs_pwdmnt f)) +
     (if fs_altroot f = None then 0
      else of_bool (\<exists>n. fs_altroot f = Some n \<and> x = Dentry n) + of_bool (\<exists>n. fs_altrootmnt f = Some n \<and> x = Mount n))"

context counted
begin

lemma refs_opt:
  "refs (get_opt up a v) x = refs v x + of_bool (\<exists>n. a = Some n \<and> x = kind n)"
  "refs (get_opt down a v) x = refs v x - of_bool (\<exists>n. a = Some n \<and> x = kind n)"
  by (auto simp: get_opt_def refs_up refs_down split: option.split)

lemma refs_one:
  "refs (up n v) x = refs v x + of_bool (x = kind n)" "refs (down n v) x = refs v x - of_bool (x = kind n)"
  by (auto simp: refs_up refs_down)

end

context resource_lib
begin

lemmas counts = dentry.refs_one mount.refs_one dentry.refs_opt mount.refs_opt

end

text \<open>The copy: everything but the count and the references it holds is new.\<close>

definition fs_copy :: "fs_struct \<Rightarrow> fs_struct" where
  "fs_copy f = \<lparr>fs_count = 1, umask = umask f, fs_root = fs_root f, fs_rootmnt = fs_rootmnt f,
     fs_pwd = fs_pwd f, fs_pwdmnt = fs_pwdmnt f, fs_altroot = fs_altroot f,
     fs_altrootmnt = (if fs_altroot f = None then None else fs_altrootmnt f), fs_freed = False\<rparr>"

lemma fs_copy_simps [simp]: "fs_count (fs_copy f) = 1" "umask (fs_copy f) = umask f" "fs_refs (fs_copy f) = fs_refs f"
  by (auto simp: fs_copy_def fs_refs_def fun_eq_iff)

lemma copy_fs_struct_fss: "fss (snd (copy_fs_struct X (Some a) old s)) = (fss s)(a := fs_copy (fss s old))"
  by (cases "fss s a") (auto simp: copy_fs_struct_def Let_def fs_copy_def)

lemma copy_fs_struct_frame [simp]:
  "ps (snd (copy_fs_struct X alloc old s)) = ps s" "res (snd (copy_fs_struct X alloc old s)) = res s"
  "filess (snd (copy_fs_struct X alloc old s)) = filess s" "sigs (snd (copy_fs_struct X alloc old s)) = sigs s"
  "mmx (snd (copy_fs_struct X alloc old s)) = mmx s" "mmlist_nr (snd (copy_fs_struct X alloc old s)) = mmlist_nr s"
  "vmas (snd (copy_fs_struct X alloc old s)) = vmas s" "comps (snd (copy_fs_struct X alloc old s)) = comps s"
  "pids (snd (copy_fs_struct X alloc old s)) = pids s"
  "max_threads (snd (copy_fs_struct X alloc old s)) = max_threads s"
  "total_forks (snd (copy_fs_struct X alloc old s)) = total_forks s"
  "jiffies_64 (snd (copy_fs_struct X alloc old s)) = jiffies_64 s"
  by (simp_all add: copy_fs_struct_def Let_def split: option.split)

lemma put_fs_struct_frame [simp]:
  "ps (put_fs_struct X a s) = ps s" "res (put_fs_struct X a s) = res s" "filess (put_fs_struct X a s) = filess s"
  "sigs (put_fs_struct X a s) = sigs s" "mmx (put_fs_struct X a s) = mmx s"
  "mmlist_nr (put_fs_struct X a s) = mmlist_nr s" "vmas (put_fs_struct X a s) = vmas s"
  "comps (put_fs_struct X a s) = comps s" "pids (put_fs_struct X a s) = pids s"
  "max_threads (put_fs_struct X a s) = max_threads s" "total_forks (put_fs_struct X a s) = total_forks s"
  "jiffies_64 (put_fs_struct X a s) = jiffies_64 s"
  by (simp_all add: put_fs_struct_def Let_def)

context resource_lib
begin

lemma copy_fs_struct_refs:
  "refs X (ext (snd (copy_fs_struct X (Some a) old s))) x = refs X (ext s) x + fs_refs (fss s old) x"
  by (simp add: copy_fs_struct_def Let_def counts fs_refs_def)

lemma put_fs_struct_effect:
  "refs X (ext (put_fs_struct X a s)) x = refs X (ext s) x - (if fs_count (fss s a) = 1 then fs_refs (fss s a) x else 0)"
  "b \<noteq> a \<Longrightarrow> fss (put_fs_struct X a s) b = fss s b"
  "fss (put_fs_struct X a s) a = (fss s a)\<lparr>fs_count := fs_count (fss s a) - 1,
     fs_freed := fs_freed (fss s a) \<or> fs_count (fss s a) = 1\<rparr>"
  by (simp_all add: put_fs_struct_def Let_def counts fs_refs_def)

text \<open>A copy that is dropped again leaves the references and the other structures as they were.\<close>

lemma fs_undone:
  assumes copy: "copy_fs X alloc fl me p s = (False, s')"
    and old: "fs_of (res s (me_of me s)) = Some old" "fs_of (res s p) = Some old" "fs_count (fss s old) \<noteq> 0"
    and s2: "fss s2 = fss s'" "fs_of (res s2 p) = fs_of (res s' p)"
  shows "refs X (ext (exit_fs X p s2)) x = refs X (ext s2) x - (refs X (ext s') x - refs X (ext s) x)"
    and "Some b \<noteq> alloc \<Longrightarrow> fss (exit_fs X p s2) b = fss s b"
proof -
  have "refs X (ext (exit_fs X p s2)) x = refs X (ext s2) x - (refs X (ext s') x - refs X (ext s) x) \<and>
    (Some b \<noteq> alloc \<longrightarrow> fss (exit_fs X p s2) b = fss s b)"
  proof (cases "fl AND CLONE_FS \<noteq> 0")
    case True
    then have s': "s' = upd_fs old (\<lambda>f. f\<lparr>fs_count := fs_count f + 1\<rparr>) s"
      using copy old by (simp add: copy_fs_def)
    then have e: "exit_fs X p s2 = put_fs_struct X old (upd_res p (\<lambda>r. r\<lparr>fs_of := None\<rparr>) s2)"
      using s2 old by (simp add: exit_fs_def)
    show ?thesis unfolding e using s2(1) old(3) s' by (cases "b = old") (simp_all add: put_fs_struct_effect)
  next
    case False
    then obtain a where a: "alloc = Some a"
      and s': "s' = upd_res p (\<lambda>r. r\<lparr>fs_of := Some a\<rparr>) (snd (copy_fs_struct X (Some a) old s))"
      using copy old by (cases alloc) (auto simp: copy_fs_def copy_fs_struct_def Let_def split: prod.splits)
    then have e: "exit_fs X p s2 = put_fs_struct X a (upd_res p (\<lambda>r. r\<lparr>fs_of := None\<rparr>) s2)"
      using s2 by (simp add: exit_fs_def)
    show ?thesis unfolding e using s2(1) s' a
      by (simp add: put_fs_struct_effect copy_fs_struct_fss copy_fs_struct_refs)
  qed
  then show "refs X (ext (exit_fs X p s2)) x = refs X (ext s2) x - (refs X (ext s') x - refs X (ext s) x)"
    "Some b \<noteq> alloc \<Longrightarrow> fss (exit_fs X p s2) b = fss s b" by blast+
qed

lemma sighand_undone:
  assumes copy: "copy_sighand alloc fl me p s = (False, s')"
    and old: "sig_of (res s (me_of me s)) = Some old" "sig_of (res s p) = Some old" "sig_count (sigs s old) \<noteq> 0"
    and s2: "sigs s2 = sigs s'" "sig_of (res s2 p) = sig_of (res s' p)" and b: "Some b \<noteq> alloc"
  shows "sigs (drop_sighand X p s2) b = sigs s b"
proof (cases "fl AND CLONE_SIGHAND \<noteq> 0")
  case True
  then show ?thesis using copy old s2 by (auto simp: copy_sighand_def drop_sighand_def exit_sighand_some)
next
  case False
  then show ?thesis using copy old s2 b by (auto simp: copy_sighand_def drop_sighand_def exit_sighand_some Let_def split: option.splits)
qed

end

end
