(* ===== verification/Files_Copy.thy ===== *)
theory Files_Copy imports Proc_Files begin

text \<open>
  What \<^verbatim>\<open>copy_files\<close> and \<^verbatim>\<open>close_files\<close> do to a table of descriptors: the copy has the same open files and a
  reference for each; closing a table drops exactly one reference for each open file.
\<close>

declare close_word.simps [simp del] close_from.simps [simp del]

section \<open>The loops over the set\<close>

definition fd_open :: "files_struct \<Rightarrow> nat \<Rightarrow> bool" where
  "fd_open f k \<longleftrightarrow> bit (open_fds f (k div 32)) (k mod 32)"

text \<open>A file is only where the set has its bit; the sizes are multiples of a word.\<close>

definition files_ok :: "files_struct \<Rightarrow> bool" where
  "files_ok f \<longleftrightarrow> 32 dvd max_fdset f \<and> 0 < max_fdset f \<and>
     (\<forall>k. fd f k \<noteq> None \<longrightarrow> fd_open f k \<and> k < max_fds f \<and> k < max_fdset f)"

definition files_in :: "nat option list \<Rightarrow> nat list" where
  "files_in = List.map_filter (\<lambda>x. x)"

lemma files_in_simps [simp]:
  "files_in [] = []" "files_in (x # xs) = (case x of None \<Rightarrow> files_in xs | Some f \<Rightarrow> f # files_in xs)"
  "files_in (xs @ ys) = files_in xs @ files_in ys"
  by (auto simp: files_in_def List.map_filter_def split: option.split)

lemma fold_get_opt: "fold (get_opt f) xs v = fold f (files_in xs) v"
  by (induction xs arbitrary: v) (auto simp: get_opt_def split: option.split)

lemma files_in_filter:
  "(\<And>k. k \<in> set ks \<Longrightarrow> t k \<noteq> None \<Longrightarrow> Q k) \<Longrightarrow> files_in (map t (filter Q ks)) = files_in (map t ks)"
  by (induction ks) (auto split: option.split)

lemma last_word_ge: "i < n \<Longrightarrow> w i \<noteq> 0 \<Longrightarrow> i \<le> last_word w n"
  by (induction n) (auto simp: less_Suc_eq)

lemma last_word_less: "0 < n \<Longrightarrow> last_word w n < n"
proof -
  have "last_word w n \<le> n - 1" by (induction n) auto
  then show "0 < n \<Longrightarrow> last_word w n < n" by linarith
qed

lemma count_open_files:
  assumes "files_ok f"
  shows "32 dvd count_open_files f (max_fdset f)" and "count_open_files f (max_fdset f) \<le> max_fdset f"
    and "fd f k \<noteq> None \<Longrightarrow> k < count_open_files f (max_fdset f)"
proof -
  obtain m where m: "max_fdset f = 32 * m" "0 < m" using assms by (auto simp: files_ok_def)
  show "32 dvd count_open_files f (max_fdset f)" by (simp add: count_open_files_def)
  show "count_open_files f (max_fdset f) \<le> max_fdset f"
    using last_word_less [OF m(2), of "open_fds f"] m by (simp add: count_open_files_def)
  assume "fd f k \<noteq> None"
  then have k: "bit (open_fds f (k div 32)) (k mod 32)" "k < max_fdset f" using assms by (auto simp: files_ok_def fd_open_def)
  then have "open_fds f (k div 32) \<noteq> 0" by auto
  moreover have "k div 32 < m" using k(2) m by (simp add: less_mult_imp_div_less mult.commute)
  ultimately have "k div 32 \<le> last_word (open_fds f) m" by (intro last_word_ge)
  then show "k < count_open_files f (max_fdset f)" using m by (simp add: count_open_files_def)
qed

lemma close_word_eq:
  "close_word X w i (t, v) =
    (\<lambda>j. if i \<le> j \<and> bit w (j - i) then None else t j,
     fold (get_opt (filp_close X)) (map t (filter (\<lambda>j. bit w (j - i)) [i..<i + 32])) v)"
proof (induction X w i "(t, v)" arbitrary: t v rule: close_word.induct)
  case (1 X w i t v)
  show ?case
  proof (cases "w = 0")
    case True
    then show ?thesis by (subst close_word.simps) simp
  next
    case False
    have odd: "w AND 1 \<noteq> 0 \<longleftrightarrow> bit w 0" by (simp add: and_one_eq bit_0 odd_iff_mod_2_eq_one)
    define d where "d = drop_bit 1 w"
    have sh: "bit d (j - Suc i) = bit w (j - i)" if "i < j" for j
      using that by (simp add: d_def bit_drop_bit_eq Suc_diff_Suc)
    have top: "\<not> bit d 31" using bit_imp_le_length [of w 32] by (auto simp: d_def bit_drop_bit_eq)
    have first: "[i..<i + 32] = i # [Suc i..<i + 32]" by (simp add: upt_conv_Cons)
    have rest: "filter (\<lambda>j. bit d (j - Suc i)) [Suc i..<Suc i + 32] = filter (\<lambda>j. bit w (j - i)) [Suc i..<i + 32]"
    proof -
      have "[Suc i..<Suc i + 32] = [Suc i..<i + 32] @ [i + 32]"
        using upt_Suc_append [of "Suc i" "i + 32"] by (simp del: upt_Suc)
      moreover have "filter (\<lambda>j. bit d (j - Suc i)) [Suc i..<i + 32] = filter (\<lambda>j. bit w (j - i)) [Suc i..<i + 32]"
        by (rule filter_cong [OF refl]) (use sh in auto)
      ultimately show ?thesis using top by simp
    qed
    define st where "st = (if w AND 1 \<noteq> 0 then (t(i := None), get_opt (filp_close X) (t i) v) else (t, v))"
    have "close_word X w i (t, v) = close_word X d (i + 1) st"
      using False by (subst close_word.simps) (simp add: d_def st_def)
    also have "\<dots> = (\<lambda>j. if Suc i \<le> j \<and> bit d (j - Suc i) then None else fst st j,
       fold (get_opt (filp_close X)) (map (fst st) (filter (\<lambda>j. bit d (j - Suc i)) [Suc i..<Suc i + 32])) (snd st))"
      using 1 [OF False, of "fst st" "snd st"] by (simp add: d_def st_def)
    also have "\<dots> = (\<lambda>j. if i \<le> j \<and> bit w (j - i) then None else t j,
       fold (get_opt (filp_close X)) (map t (filter (\<lambda>j. bit w (j - i)) [i..<i + 32])) v)"
    proof -
      have same: "map (fst st) (filter Q [Suc i..<i + 32]) = map t (filter Q [Suc i..<i + 32])" for Q by (auto simp: st_def)
      have table: "(\<lambda>j. if Suc i \<le> j \<and> bit d (j - Suc i) then None else fst st j) =
          (\<lambda>j. if i \<le> j \<and> bit w (j - i) then None else t j)"
        using sh odd by (auto simp: fun_eq_iff le_less Suc_le_eq st_def)
      have "snd st = (if bit w 0 then get_opt (filp_close X) (t i) v else v)" using odd by (simp add: st_def)
      then show ?thesis unfolding rest same table first by (cases "bit w 0") simp_all
    qed
    finally show ?thesis .
  qed
qed

text \<open>All words: the descriptors below \<open>32 * n\<close> whose bit is set.\<close>

definition words_to_close :: "files_struct \<Rightarrow> nat" where
  "words_to_close f = (min (max_fdset f) (max_fds f) + 31) div 32"

lemma close_from_eq:
  "close_from X f j (t, v) =
    (\<lambda>k. if j * 32 \<le> k \<and> k < words_to_close f * 32 \<and> fd_open f k then None else t k,
     fold (get_opt (filp_close X)) (map t (filter (fd_open f) [j * 32..<words_to_close f * 32])) v)"
proof (induction X f j "(t, v)" arbitrary: t v rule: close_from.induct)
  case (1 X f j t v)
  show ?case
  proof (cases "j * 32 \<ge> max_fdset f \<or> j * 32 \<ge> max_fds f")
    case True
    then have "words_to_close f \<le> j" by (auto simp: words_to_close_def min_def)
    then show ?thesis using True by (subst close_from.simps) (auto simp: fun_eq_iff)
  next
    case False
    have j: "j < words_to_close f" using False by (auto simp: words_to_close_def min_def)
    then obtain m where m: "words_to_close f = j + 1 + m" using le_Suc_ex [of "j + 1" "words_to_close f"] by auto
    have split: "[j * 32..<words_to_close f * 32] = [j * 32..<j * 32 + 32] @ [(j + 1) * 32..<words_to_close f * 32]"
      using upt_add_eq_append [of "j * 32" "j * 32 + 32" "m * 32"] by (simp add: m algebra_simps)
    have word: "fd_open f k = bit (open_fds f j) (k - j * 32)" if "j * 32 \<le> k" "k < j * 32 + 32" for k
    proof -
      define i where "i = k - j * 32"
      have "k = j * 32 + i" "i < 32" using that by (simp_all add: i_def)
      then show ?thesis by (simp add: fd_open_def)
    qed
    define st where "st = close_word X (open_fds f j) (j * 32) (t, v)"
    have fst_st: "fst st k = (if j * 32 \<le> k \<and> k < j * 32 + 32 \<and> fd_open f k then None else t k)" for k
    proof -
      have "\<not> bit (open_fds f j) (k - j * 32)" if "j * 32 + 32 \<le> k"
        using that bit_imp_le_length [of "open_fds f j" "k - j * 32"] by auto
      then show ?thesis using word by (cases "k < j * 32 + 32") (auto simp: st_def close_word_eq not_less)
    qed
    have snd_st: "snd st = fold (get_opt (filp_close X)) (map t (filter (fd_open f) [j * 32..<j * 32 + 32])) v"
    proof -
      have "filter (\<lambda>k. bit (open_fds f j) (k - j * 32)) [j * 32..<j * 32 + 32] = filter (fd_open f) [j * 32..<j * 32 + 32]"
        by (rule filter_cong) (use word in auto)
      then show ?thesis by (simp add: st_def close_word_eq)
    qed
    have step: "close_from X f j (t, v) = close_from X f (j + 1) (fst st, snd st)"
      using False by (subst close_from.simps) (simp add: Let_def st_def)
    have IH: "close_from X f (j + 1) (fst st, snd st) =
      (\<lambda>k. if (j + 1) * 32 \<le> k \<and> k < words_to_close f * 32 \<and> fd_open f k then None else fst st k,
       fold (get_opt (filp_close X)) (map (fst st) (filter (fd_open f) [(j + 1) * 32..<words_to_close f * 32])) (snd st))"
      by (rule 1) (use False in \<open>simp_all add: st_def\<close>)
    have same: "map (fst st) (filter (fd_open f) [(j + 1) * 32..<words_to_close f * 32]) =
        map t (filter (fd_open f) [(j + 1) * 32..<words_to_close f * 32])"
      by (rule map_cong [OF refl]) (simp add: fst_st)
    have table: "(\<lambda>k. if (j + 1) * 32 \<le> k \<and> k < words_to_close f * 32 \<and> fd_open f k then None else fst st k) =
        (\<lambda>k. if j * 32 \<le> k \<and> k < words_to_close f * 32 \<and> fd_open f k then None else t k)"
      using m by (auto simp: fun_eq_iff fst_st)
    show ?thesis unfolding step IH same table
      unfolding snd_st split filter_append map_append fold_append by (simp only: o_apply)
  qed
qed

section \<open>Copying and closing a table\<close>

lemma fd_open_clear:
  assumes "32 dvd n" and "32 dvd m"
  shows "bit (clear_words (n div 32) ((m - n) div 8 div 4) w (k div 32)) i \<longleftrightarrow>
    \<not> (n \<le> k \<and> k < m) \<and> bit (w (k div 32)) i"
proof -
  obtain a b where ab: "n = 32 * a" "m = 32 * b" using assms by (auto elim!: dvdE)
  have "(32 * b - 32 * a) div 8 div 4 = b - a"
  proof -
    have "32 * b - 32 * a = (b - a) * 32" by (simp add: algebra_simps)
    then show ?thesis by (simp add: div_mult2_eq [symmetric])
  qed
  moreover have "a \<le> k div 32 \<longleftrightarrow> n \<le> k" unfolding ab by (auto simp: less_eq_div_iff_mult_less_eq mult.commute)
  moreover have "k div 32 < a + (b - a) \<longleftrightarrow> k < m" if "n \<le> k"
  proof -
    have "k div 32 < b \<longleftrightarrow> k < m" unfolding ab by (simp add: div_less_iff_less_mult mult.commute)
    then show ?thesis using that \<open>a \<le> k div 32 \<longleftrightarrow> n \<le> k\<close> by auto
  qed
  ultimately show ?thesis by (auto simp: clear_words_def ab)
qed

text \<open>A large enough new table has, below its size, the files and the bits of the old one, and nothing else.\<close>

lemma copy_fds_copies:
  assumes old: "files_ok old" and n: "n = count_open_files old (max_fdset old)"
    and new: "n \<le> max_fds new" "n \<le> max_fdset new" "32 dvd max_fdset new" and t: "t = copy_fds n old new"
  shows "max_fds t = max_fds new" and "max_fdset t = max_fdset new" and "files_count t = files_count new"
    and "k < max_fds new \<Longrightarrow> fd t k = fd old k"
    and "k < max_fdset new \<Longrightarrow> fd_open t k \<longleftrightarrow> k < n \<and> fd_open old k"
proof -
  note N = count_open_files [OF old, folded n]
  show "max_fds t = max_fds new" "max_fdset t = max_fdset new" "files_count t = files_count new"
    by (simp_all add: t copy_fds_def Let_def)
  show "fd t k = fd old k" if "k < max_fds new"
    using that N(3) [of k] by (cases "fd old k") (auto simp: t copy_fds_def Let_def)
  have word: "k div 32 < n div 32 \<longleftrightarrow> k < n" for k
    using N(1) by (auto simp: div_less_iff_less_mult elim!: dvdE)
  show "fd_open t k \<longleftrightarrow> k < n \<and> fd_open old k" if "k < max_fdset new"
  proof (cases "max_fdset new > n")
    case True
    then have "open_fds t = clear_words (n div 32) ((max_fdset new - n) div 8 div 4)
        (\<lambda>i. if i < n div 32 then open_fds old i else open_fds new i)"
      by (simp add: t copy_fds_def Let_def)
    then show ?thesis using that by (auto simp: fd_open_def fd_open_clear [OF N(1) new(3)] word)
  next
    case False
    then have "open_fds t = (\<lambda>i. if i < n div 32 then open_fds old i else open_fds new i)"
      by (simp add: t copy_fds_def Let_def)
    then show ?thesis using that False new(2) word [of k] by (simp add: fd_open_def)
  qed
qed

lemma files_in_beyond: "(\<And>k. n \<le> k \<Longrightarrow> k < m \<Longrightarrow> t k = None) \<Longrightarrow> n \<le> m \<Longrightarrow> files_in (map t [0..<m]) = files_in (map t [0..<n])"
proof (induction m)
  case (Suc m)
  then show ?case by (cases "n = Suc m") simp_all
qed simp

text \<open>So closing it drops what copying took.\<close>

lemma closing_list:
  assumes old: "files_ok old" and n: "n = count_open_files old (max_fdset old)"
    and new: "n \<le> max_fds new" "n \<le> max_fdset new" "32 dvd max_fdset new" and t: "t = copy_fds n old new"
  shows "files_in (map (fd t) (filter (fd_open t) [0..<words_to_close t * 32])) = files_in (map (fd old) [0..<n])"
proof -
  note C = copy_fds_copies [OF assms]
  have w: "n \<le> words_to_close t * 32" "words_to_close t * 32 \<le> max_fdset new"
    using count_open_files(1) [OF old, folded n] new by (auto simp: words_to_close_def C(1,2) elim!: dvdE)
  have "filter (fd_open t) [0..<words_to_close t * 32] = filter (fd_open old) [0..<n]"
  proof -
    obtain d where d: "words_to_close t * 32 = n + d" using w(1) le_Suc_ex by blast
    have "filter (fd_open t) [0..<n] = filter (fd_open old) [0..<n]"
      by (rule filter_cong) (use C(5) new(2) in auto)
    moreover have "filter (fd_open t) [n..<n + d] = []"
      using C(5) w(2) d by (auto simp: filter_empty_conv)
    ultimately show ?thesis unfolding d upt_add_eq_append [OF le0] by simp
  qed
  moreover have "map (fd t) (filter (fd_open old) [0..<n]) = map (fd old) (filter (fd_open old) [0..<n])"
    by (rule map_cong [OF refl]) (use C(4) new(1) in auto)
  moreover have "files_in (map (fd old) (filter (fd_open old) [0..<n])) = files_in (map (fd old) [0..<n])"
    by (rule files_in_filter) (use old in \<open>simp add: files_ok_def\<close>)
  ultimately show ?thesis by (simp only:)
qed

section \<open>A copy that is dropped again\<close>

lemma put_files_frame [simp]:
  "ps (put_files_struct X a s) = ps s" "res (put_files_struct X a s) = res s" "fss (put_files_struct X a s) = fss s"
  "sigs (put_files_struct X a s) = sigs s" "mmx (put_files_struct X a s) = mmx s"
  "mmlist_nr (put_files_struct X a s) = mmlist_nr s" "vmas (put_files_struct X a s) = vmas s"
  "comps (put_files_struct X a s) = comps s" "pids (put_files_struct X a s) = pids s"
  "max_threads (put_files_struct X a s) = max_threads s" "total_forks (put_files_struct X a s) = total_forks s"
  "jiffies_64 (put_files_struct X a s) = jiffies_64 s"
  by (simp_all add: put_files_struct_def close_files_def Let_def split: prod.split)

lemma put_files_shared:
  assumes "files_count (filess s a) \<noteq> 1"
  shows "ext (put_files_struct X a s) = ext s"
    and "filess (put_files_struct X a s) = (filess s)(a := (filess s a)\<lparr>files_count := files_count (filess s a) - 1\<rparr>)"
  using assms by (simp_all add: put_files_struct_def)

text \<open>The references of a list of open files.\<close>

definition files_refs :: "nat list \<Rightarrow> obj \<Rightarrow> int" where
  "files_refs fs x = (case x of File m \<Rightarrow> int (count_list fs m) | _ \<Rightarrow> 0)"

context resource_lib
begin

lemma refs_get_files: "refs X (get_files X fs v) x = refs X v x + files_refs (files_in fs) x"
  by (cases x) (simp_all add: get_files_def fold_get_opt files_refs_def files.refs_up_list files.refs_list_other)

lemma refs_close_files: "refs X (fold (filp_close X) fs v) x = refs X v x - files_refs fs x"
  by (cases x) (simp_all add: files_refs_def files.refs_down_list files.refs_list_other)

text \<open>The last user of a table drops the files in it.\<close>

lemma put_files_last:
  assumes "files_count (filess s a) = 1"
  shows "refs X (ext (put_files_struct X a s)) x = refs X (ext s) x -
      files_refs (files_in (map (fd (filess s a)) (filter (fd_open (filess s a)) [0..<words_to_close (filess s a) * 32]))) x"
    and "b \<noteq> a \<Longrightarrow> filess (put_files_struct X a s) b = filess s b"
proof -
  let ?f = "(filess s a)\<lparr>files_count := files_count (filess s a) - 1\<rparr>"
  have same: "fd_open ?f = fd_open (filess s a)" "words_to_close ?f = words_to_close (filess s a)"
    by (simp_all add: fd_open_def words_to_close_def fun_eq_iff)
  show "refs X (ext (put_files_struct X a s)) x = refs X (ext s) x -
      files_refs (files_in (map (fd (filess s a)) (filter (fd_open (filess s a)) [0..<words_to_close (filess s a) * 32]))) x"
    using assms same by (simp add: put_files_struct_def close_files_def close_from_eq fold_get_opt refs_close_files)
  show "b \<noteq> a \<Longrightarrow> filess (put_files_struct X a s) b = filess s b"
    using assms by (simp add: put_files_struct_def close_files_def close_from_eq)
qed

lemma grow_files_result:
  assumes old: "files_ok old" and g: "grow_files X old (new_files X raw) = (None, new)"
    and n: "n = count_open_files old (max_fdset old)"
  shows "n \<le> max_fds new" and "n \<le> max_fdset new" and "32 dvd max_fdset new" and "files_count new = 1"
proof -
  let ?raw = "new_files X raw" and ?sz = "max_fdset old"
  have n32: "n \<le> ?sz" using count_open_files(2) [OF old] n by simp
  define g1 where "g1 = (if ?sz > FD_SETSIZE X then expand_fdset X (?sz - 1) (?raw\<lparr>max_fdset := 0\<rparr>) else (None, ?raw))"
  obtain new1 where g1: "g1 = (None, new1)"
    using g by (cases g1) (auto simp: grow_files_def Let_def g1_def [symmetric] split: if_splits)
  have new1: "n \<le> max_fdset new1" "32 dvd max_fdset new1" "files_count new1 = 1" "max_fds new1 = NR_OPEN_DEFAULT"
  proof -
    have "n \<le> max_fdset new1 \<and> 32 dvd max_fdset new1 \<and> files_count new1 = 1 \<and> max_fds new1 = NR_OPEN_DEFAULT"
    proof (cases "?sz > FD_SETSIZE X")
      case True
      with g1 have "expand_fdset X (?sz - 1) (?raw\<lparr>max_fdset := 0\<rparr>) = (None, new1)" by (simp add: g1_def)
      from expand_fdset [OF this]
      have e: "new1 = ?raw\<lparr>max_fdset := max_fdset new1, open_fds := open_fds new1, close_on_exec := close_on_exec new1\<rparr>"
        "?sz - 1 < max_fdset new1" "32 dvd max_fdset new1" by simp_all
      from arg_cong [OF e(1), of files_count] arg_cong [OF e(1), of max_fds]
      have "files_count new1 = 1" "max_fds new1 = NR_OPEN_DEFAULT" by (simp_all add: new_files_def)
      with e n32 show ?thesis by simp
    next
      case False
      with g1 have "new1 = ?raw" by (simp add: g1_def)
      with False n32 fd_setsize show ?thesis by (simp add: new_files_def)
    qed
    then show "n \<le> max_fdset new1" "32 dvd max_fdset new1" "files_count new1 = 1" "max_fds new1 = NR_OPEN_DEFAULT" by simp_all
  qed
  have g2: "(None, new) = (if n > NR_OPEN_DEFAULT then expand_fd_array X (n - 1) (new1\<lparr>max_fds := 0\<rparr>) else (None, new1))"
    using g g1 by (auto simp: grow_files_def Let_def g1_def [symmetric] n split: if_splits)
  have "n \<le> max_fds new \<and> n \<le> max_fdset new \<and> 32 dvd max_fdset new \<and> files_count new = 1"
  proof (cases "n > NR_OPEN_DEFAULT")
    case True
    with g2 have "expand_fd_array X (n - 1) (new1\<lparr>max_fds := 0\<rparr>) = (None, new)" by simp
    from expand_fd_array [OF this]
    have e: "new = new1\<lparr>max_fds := max_fds new, fd := fd new, fd_array_grown := True\<rparr>" "n - 1 < max_fds new" by simp_all
    from arg_cong [OF e(1), of files_count] arg_cong [OF e(1), of max_fdset]
    have "files_count new = 1" "max_fdset new = max_fdset new1" using new1 by simp_all
    with e(2) new1 show ?thesis by simp
  next
    case False
    with g2 new1 show ?thesis by simp
  qed
  then show "n \<le> max_fds new" "n \<le> max_fdset new" "32 dvd max_fdset new" "files_count new = 1" by simp_all
qed

text \<open>The table of a new task, and the references it holds.\<close>

lemma copied_files:
  assumes copy: "copy_files X alloc fl me p s = (None, s')" and own: "fl AND CLONE_FILES = 0"
    and old: "files_of (res s (me_of me s)) = Some a" "files_ok (filess s a)"
  shows "\<exists>b. alloc = Some b \<and> files_of (res s' p) = Some b \<and> files_count (filess s' b) = 1 \<and>
    (\<forall>k. fd (filess s a) k \<noteq> None \<longrightarrow> k < max_fds (filess s' b)) \<and>
    (\<forall>k < max_fds (filess s' b). fd (filess s' b) k = fd (filess s a) k) \<and>
    refs X (ext s') x = refs X (ext s) x + files_refs (files_in (map (fd (filess s a)) [0..<max_fdset (filess s a)])) x"
proof -
  let ?old = "filess s a"
  define n where "n = count_open_files ?old (max_fdset ?old)"
  from copy own old obtain b new where b: "alloc = Some b" and g: "grow_files X ?old (new_files X (filess s b)) = (None, new)"
    by (auto simp: copy_files_def Let_def split: option.splits prod.splits if_splits)
  define t where "t = copy_fds n ?old new"
  have s': "filess s' = (filess s)(b := t)" "ext s' = get_files X (map (fd ?old) [0..<n]) (ext s)" "files_of (res s' p) = Some b"
    using copy own old b g by (auto simp: copy_files_def Let_def n_def t_def)
  note G = grow_files_result [OF old(2) g n_def] and N = count_open_files [OF old(2), folded n_def]
  note C = copy_fds_copies [OF old(2) n_def G(1-3) t_def]
  have "k < max_fds t" if "fd ?old k \<noteq> None" for k using N(3) [OF that] G(1) C(1) by simp
  moreover have "\<forall>k < max_fds t. fd t k = fd ?old k" using C(1,4) by simp
  moreover have "files_in (map (fd ?old) [0..<max_fdset ?old]) = files_in (map (fd ?old) [0..<n])"
    by (rule files_in_beyond) (use N in \<open>force\<close>)+
  ultimately show ?thesis using b s' C(3) G(4) by (intro exI [of _ b]) (simp add: refs_get_files)
qed

lemma files_undone:
  assumes copy: "copy_files X alloc fl me p s = (None, s')"
    and old: "files_of (res s (me_of me s)) = F" "files_of (res s p) = F"
      "\<And>a. F = Some a \<Longrightarrow> files_count (filess s a) \<noteq> 0 \<and> files_ok (filess s a) \<and> alloc \<noteq> Some a"
    and s2: "filess s2 = filess s'" "files_of (res s2 p) = files_of (res s' p)"
  shows "refs X (ext (exit_files X p s2)) x = refs X (ext s2) x - (refs X (ext s') x - refs X (ext s) x)"
    and "Some b \<noteq> alloc \<Longrightarrow> filess (exit_files X p s2) b = filess s b"
proof -
  have "refs X (ext (exit_files X p s2)) x = refs X (ext s2) x - (refs X (ext s') x - refs X (ext s) x) \<and>
    (Some b \<noteq> alloc \<longrightarrow> filess (exit_files X p s2) b = filess s b)"
  proof (cases F)
    case None
    then show ?thesis using copy old s2 by (simp add: copy_files_def exit_files_def)
  next
    case (Some a)
    note a = old(3) [OF Some]
    show ?thesis
    proof (cases "fl AND CLONE_FILES \<noteq> 0")
      case True
      then have s': "s' = upd_files a (\<lambda>f. f\<lparr>files_count := files_count f + 1\<rparr>) s"
        using copy old Some by (simp add: copy_files_def)
      then have e: "exit_files X p s2 = put_files_struct X a (upd_res p (\<lambda>r. r\<lparr>files_of := None\<rparr>) s2)"
        using s2 old Some by (simp add: exit_files_def)
      show ?thesis unfolding e using s2(1) a s' by (cases "b = a") (simp_all add: put_files_shared)
    next
      case False
      let ?old = "filess s a"
      define n where "n = count_open_files ?old (max_fdset ?old)"
      from copy False Some old obtain newf new where newf: "alloc = Some newf"
        and g: "grow_files X ?old (new_files X (filess s newf)) = (None, new)"
        by (auto simp: copy_files_def Let_def split: option.splits prod.splits if_splits)
      define t where "t = copy_fds n ?old new"
      have s': "filess s' = (filess s)(newf := t)" "ext s' = get_files X (map (fd ?old) [0..<n]) (ext s)"
        "files_of (res s' p) = Some newf"
        using copy False Some old newf g by (auto simp: copy_files_def Let_def n_def t_def)
      have ok: "files_ok ?old" using a by simp
      note G = grow_files_result [OF ok g n_def]
      note C = copy_fds_copies [OF ok n_def G(1-3) t_def]
      have e: "exit_files X p s2 = put_files_struct X newf (upd_res p (\<lambda>r. r\<lparr>files_of := None\<rparr>) s2)"
        using s2 s' by (simp add: exit_files_def)
      have t: "filess s2 newf = t" using s2 s' by simp
      have "refs X (ext (exit_files X p s2)) x = refs X (ext s2) x - files_refs (files_in (map (fd ?old) [0..<n])) x"
        unfolding e closing_list [OF ok n_def G(1-3) t_def, symmetric]
        using put_files_last(1) [of "upd_res p (\<lambda>r. r\<lparr>files_of := None\<rparr>) s2" newf x] C(3) G(4) t by simp
      moreover have "Some b \<noteq> alloc \<longrightarrow> filess (exit_files X p s2) b = filess s b"
        unfolding e using put_files_last(2) [of "upd_res p (\<lambda>r. r\<lparr>files_of := None\<rparr>) s2" newf b] C(3) G(4) t s2 s' newf by simp
      ultimately show ?thesis using s'(2) refs_get_files by simp
    qed
  qed
  then show "refs X (ext (exit_files X p s2)) x = refs X (ext s2) x - (refs X (ext s') x - refs X (ext s) x)"
    "Some b \<noteq> alloc \<Longrightarrow> filess (exit_files X p s2) b = filess s b" by blast+
qed

end

end
