(* ===== verification/Proc_Mm.thy ===== *)
theory Proc_Mm imports Files_Copy begin

text \<open>
  Address spaces: their two reference counts, \<^verbatim>\<open>mm_users\<close> for the processes that run in one and \<^verbatim>\<open>mm_count\<close>
  for the structure itself; their creation and copy in \<^verbatim>\<open>fork.c\<close>, and how a task leaves one
  (\<^verbatim>\<open>exit.c\<close>). The outcomes of the functions that may fail are arguments.
\<close>

definition upd_kmm :: "mmptr \<Rightarrow> (mm \<Rightarrow> mm) \<Rightarrow> ('l, 'b, 'g, 'v) ksys \<Rightarrow> ('l, 'b, 'g, 'v) ksys" where
  "upd_kmm m f s = upd_ps (upd_sch (upd_mm m f)) s"

definition upd_mmx :: "mmptr \<Rightarrow> (mm_struct \<Rightarrow> mm_struct) \<Rightarrow> ('l, 'b, 'g, 'v) ksys \<Rightarrow> ('l, 'b, 'g, 'v) ksys" where
  "upd_mmx m f s = s\<lparr>mmx := (mmx s)(m := f (mmx s m))\<rparr>"

definition upd_vma :: "nat \<Rightarrow> (vma \<Rightarrow> vma) \<Rightarrow> ('l, 'b, 'g, 'v) ksys \<Rightarrow> ('l, 'b, 'g, 'v) ksys" where
  "upd_vma a f s = s\<lparr>vmas := (vmas s)(a := f (vmas s a))\<rparr>"

definition upd_ktask :: "tptr \<Rightarrow> (task \<Rightarrow> task) \<Rightarrow> ('l, 'b, 'g, 'v) ksys \<Rightarrow> ('l, 'b, 'g, 'v) ksys" where
  "upd_ktask p f s = upd_ps (upd_sch (upd_task p f)) s"

abbreviation kmm :: "('l, 'b, 'g, 'v) ksys \<Rightarrow> mmptr \<Rightarrow> mm" where
  "kmm s m \<equiv> mms (sch (ps s)) m"

section \<open>Creation and release\<close>

text \<open>\<open>pgd\<close>: does \<^verbatim>\<open>pgd_alloc\<close> succeed. The value is false for a null pointer.\<close>

definition mm_init :: "bool \<Rightarrow> mmptr \<Rightarrow> ('l, 'b, 'g, 'v) ksys \<Rightarrow> bool \<times> ('l, 'b, 'g, 'v) ksys" where
  "mm_init pgd m s =
     (let s = upd_kmm m (\<lambda>x. x\<lparr>mm_users := 1\<rparr>) s;
          s = upd_kmm m (\<lambda>x. x\<lparr>mm_count := 1, mm_freed := False\<rparr>) s;
          s = upd_mmx m (\<lambda>x. x\<lparr>def_flags := 0\<rparr>) s
      in if pgd then (True, s) else (False, upd_kmm m (\<lambda>x. x\<lparr>mm_freed := True\<rparr>) s))"

definition mm_alloc ::
  "mmptr option \<Rightarrow> bool \<Rightarrow> ('l, 'b, 'g, 'v) ksys \<Rightarrow> mmptr option \<times> ('l, 'b, 'g, 'v) ksys" where
  "mm_alloc alloc pgd s =
     (case alloc of None \<Rightarrow> (None, s)
      | Some m \<Rightarrow>
         (let s = upd_kmm m (\<lambda>x. \<lparr>mm_users = 0, mm_count = 0, mm_freed = False\<rparr>) s;
              s = upd_mmx m (\<lambda>x. \<lparr>mmap = None, mmap_cache = None, map_count = 0, locked_vm = 0, rss = 0,
                                  cpu_vm_mask = 0, def_flags = 0\<rparr>) s;
              (ok, s) = mm_init pgd m s
          in (if ok then Some m else None, s)))"

definition mmput :: "'v xlib \<Rightarrow> mmptr \<Rightarrow> ('l, 'b, 'g, 'v) ksys \<Rightarrow> ('l, 'b, 'g, 'v) ksys" where
  "mmput X m s =
     (let s = upd_kmm m (\<lambda>x. x\<lparr>mm_users := mm_users x - 1\<rparr>) s
      in if mm_users (kmm s m) = 0
         then (let s = upd_ext (mmlist_del X m) s;
                   s = s\<lparr>mmlist_nr := mmlist_nr s - 1\<rparr>;
                   s = upd_ext (exit_mmap X (mmap (mmx s m)) (vmas s)) s
               in upd_ps (upd_sch (mmdrop m)) s)
         else s)"

text \<open>A task that leaves its address space releases the parent that waits for it in \<^verbatim>\<open>vfork\<close>.\<close>

definition mm_release ::
  "('l, 'b) klib \<Rightarrow> wait_entry list wlib \<Rightarrow> cpu \<Rightarrow> ('l, 'b, 'g, 'v) ksys \<Rightarrow> ('l, 'b, 'g, 'v) ksys" where
  "mm_release K W me s =
     (let tsk = me_of me s in
      case vfork_done (res s tsk) of None \<Rightarrow> s
      | Some v \<Rightarrow>
         (let s = upd_res tsk (\<lambda>r. r\<lparr>vfork_done := None\<rparr>) s;
              (x, c) = complete K W me (comps s v) (sch (ps s))
          in upd_ps (upd_sch (\<lambda>_. c)) (s\<lparr>comps := (comps s)(v := x)\<rparr>)))"

section \<open>Leaving an address space\<close>

definition start_lazy_tlb :: "cpu \<Rightarrow> ('l, 'b, 'g, 'v) ksys \<Rightarrow> mmptr option \<times> ('l, 'b, 'g, 'v) ksys" where
  "start_lazy_tlb me s =
     (let cur = me_of me s; m = t_mm (ktask s cur);
          s = upd_ktask cur (\<lambda>t. t\<lparr>t_mm := None\<rparr>) s
      in (m, upd_kmm (the m) (\<lambda>x. x\<lparr>mm_count := mm_count x + 1\<rparr>) s))"

definition end_lazy_tlb :: "cpu \<Rightarrow> mmptr option \<Rightarrow> ('l, 'b, 'g, 'v) ksys \<Rightarrow> ('l, 'b, 'g, 'v) ksys" where
  "end_lazy_tlb me m s =
     (let cur = me_of me s; active = t_active_mm (ktask s cur);
          s = upd_ktask cur (\<lambda>t. t\<lparr>t_mm := m\<rparr>) s;
          s = (if m \<noteq> active then upd_ktask cur (\<lambda>t. t\<lparr>t_active_mm := m\<rparr>) s else s)
      in upd_ps (upd_sch (mmdrop (the active))) s)"

definition exit_mm ::
  "('l, 'b) klib \<Rightarrow> wait_entry list wlib \<Rightarrow> 'v xlib \<Rightarrow> cpu \<Rightarrow> tptr \<Rightarrow> ('l, 'b, 'g, 'v) ksys \<Rightarrow> ('l, 'b, 'g, 'v) ksys" where
  "exit_mm K W X me tsk s =
     (let mm = t_mm (ktask s tsk); s = mm_release K W me s in
      case mm of None \<Rightarrow> s
      | Some m \<Rightarrow>
         (let s = upd_kmm m (\<lambda>x. x\<lparr>mm_count := mm_count x + 1\<rparr>) s;
              s = (if mm \<noteq> t_active_mm (ktask s tsk) then upd_ps (upd_sch (\<lambda>c. c\<lparr>bug := True\<rparr>)) s else s);
              s = upd_ktask tsk (\<lambda>t. t\<lparr>t_mm := None\<rparr>) s
          in mmput X m s))"

section \<open>Copying the areas\<close>

text \<open>What the functions called for the area at an address answer.\<close>

record dup_env =
  enough_memory :: "nat \<Rightarrow> bool"
  vma_alloc :: "nat \<Rightarrow> nat option"
  copy_page_range :: "nat \<Rightarrow> errno option"

text \<open>The new area after the area \<open>a\<close>, in the list of its file and in the list of its address space.\<close>

definition copy_vma ::
  "'v xlib \<Rightarrow> mmptr \<Rightarrow> nat \<Rightarrow> nat \<Rightarrow> ('l, 'b, 'g, 'v) ksys \<Rightarrow> ('l, 'b, 'g, 'v) ksys" where
  "copy_vma X m a t s =
     (let s = upd_vma t (\<lambda>_. vmas s a) s;
          s = upd_vma t (\<lambda>v. v\<lparr>vm_flags := vm_flags v AND NOT (VM_LOCKED X)\<rparr>) s;
          s = upd_vma t (\<lambda>v. v\<lparr>vm_mm := m\<rparr>) s;
          s = upd_vma t (\<lambda>v. v\<lparr>vm_next := None\<rparr>) s
      in case vm_file (vmas s t) of None \<Rightarrow> s
         | Some f \<Rightarrow>
            (let s = upd_ext (get_file X f) s;
                 s = (if vm_flags (vmas s t) AND VM_DENYWRITE X \<noteq> 0 then upd_ext (deny_write_access X f) s else s);
                 s = upd_vma t (\<lambda>v. v\<lparr>vm_next_share := vm_next_share (vmas s a)\<rparr>) s;
                 s = (case vm_next_share (vmas s a) of None \<Rightarrow> s
                      | Some n \<Rightarrow> upd_vma n (\<lambda>v. v\<lparr>vm_pprev_share := Some t\<rparr>) s);
                 s = upd_vma a (\<lambda>v. v\<lparr>vm_next_share := Some t\<rparr>) s
             in upd_vma t (\<lambda>v. v\<lparr>vm_pprev_share := Some a\<rparr>) s))"

text \<open>\<open>pprev\<close> is the area whose \<^verbatim>\<open>vm_next\<close> is written next, or \<open>None\<close> for the field \<^verbatim>\<open>mmap\<close>.\<close>

definition link_vma :: "mmptr \<Rightarrow> nat option \<Rightarrow> nat \<Rightarrow> ('l, 'b, 'g, 'v) ksys \<Rightarrow> ('l, 'b, 'g, 'v) ksys" where
  "link_vma m pprev t s =
     upd_mmx m (\<lambda>x. x\<lparr>map_count := map_count x + 1\<rparr>)
       (case pprev of None \<Rightarrow> upd_mmx m (\<lambda>x. x\<lparr>mmap := Some t\<rparr>) s
        | Some q \<Rightarrow> upd_vma q (\<lambda>v. v\<lparr>vm_next := Some t\<rparr>) s)"

definition vma_pages :: "'v xlib \<Rightarrow> vma \<Rightarrow> u32" where
  "vma_pages X v = drop_bit (PAGE_SHIFT X) (vm_end v - vm_start v)"

text \<open>The loop over the parent's areas: the error, if any, and the pages that were charged.\<close>

partial_function (option) dup_areas ::
  "'v xlib \<Rightarrow> dup_env \<Rightarrow> mmptr \<Rightarrow> nat option \<Rightarrow> nat option \<Rightarrow> u32 \<Rightarrow> ('l, 'b, 'g, 'v) ksys \<Rightarrow>
     (errno option \<times> u32 \<times> ('l, 'b, 'g, 'v) ksys) option" where
  "dup_areas X e m mpnt pprev charge s =
     (case mpnt of None \<Rightarrow> Some (None, charge, s)
      | Some a \<Rightarrow>
         if vm_flags (vmas s a) AND VM_DONTCOPY X \<noteq> 0 then dup_areas X e m (vm_next (vmas s a)) pprev charge s
         else if vm_flags (vmas s a) AND VM_ACCOUNT X \<noteq> 0 \<and> \<not> enough_memory e a then Some (Some ENOMEM, charge, s)
         else
           (let charge = (if vm_flags (vmas s a) AND VM_ACCOUNT X \<noteq> 0 then charge + vma_pages X (vmas s a) else charge) in
            case vma_alloc e a of None \<Rightarrow> Some (Some ENOMEM, charge, s)
            | Some t \<Rightarrow>
               (let s = link_vma m pprev t (copy_vma X m a t s);
                    s = (if vm_has_open (vmas s t) then upd_ext (vm_open X t) s else s)
                in case copy_page_range e a of Some err \<Rightarrow> Some (Some err, charge, s)
                   | None \<Rightarrow> dup_areas X e m (vm_next (vmas s a)) (Some t) charge s)))"

definition dup_mmap ::
  "'v xlib \<Rightarrow> dup_env \<Rightarrow> cpu \<Rightarrow> mmptr \<Rightarrow> ('l, 'b, 'g, 'v) ksys \<Rightarrow> (errno option \<times> ('l, 'b, 'g, 'v) ksys) option" where
  "dup_mmap X e me m s =
     (let oldmm = the (t_mm (ktask s (me_of me s)));
          s = upd_mmx m (\<lambda>x. x\<lparr>locked_vm := 0, mmap := None, mmap_cache := None, map_count := 0, rss := 0,
                                cpu_vm_mask := 0\<rparr>) s;
          s = upd_ext (mmlist_add X m oldmm) s;
          s = s\<lparr>mmlist_nr := mmlist_nr s + 1\<rparr>
      in map_option
           (\<lambda>(retval, charge, s).
              (retval, if retval \<noteq> None then upd_ext (vm_unacct_memory X charge) s else s))
           (dup_areas X e m (mmap (mmx s oldmm)) None 0 s))"

section \<open>The address space of a new task\<close>

record mm_env =
  mm_mem :: "mmptr option"
  pgd_ok :: bool
  context_ok :: bool
  areas :: dup_env

definition copy_mm ::
  "'v xlib \<Rightarrow> mm_env \<Rightarrow> u32 \<Rightarrow> cpu \<Rightarrow> tptr \<Rightarrow> ('l, 'b, 'g, 'v) ksys \<Rightarrow>
     (errno option \<times> ('l, 'b, 'g, 'v) ksys) option" where
  "copy_mm X e clone_flags me tsk s =
     (let s = upd_ps (upd_proc tsk (\<lambda>r. r\<lparr>min_flt := 0, maj_flt := 0, cmin_flt := 0, cmaj_flt := 0, nswap := 0, cnswap := 0\<rparr>)) s;
          s = upd_ktask tsk (\<lambda>t. t\<lparr>t_mm := None, t_active_mm := None\<rparr>) s;
          good_mm = (\<lambda>mm s. (None, upd_ktask tsk (\<lambda>t. t\<lparr>t_mm := Some mm, t_active_mm := Some mm\<rparr>) s))
      in case t_mm (ktask s (me_of me s)) of None \<Rightarrow> Some (None, s)
         | Some oldmm \<Rightarrow>
            if clone_flags AND CLONE_VM \<noteq> 0
            then Some (good_mm oldmm (upd_kmm oldmm (\<lambda>x. x\<lparr>mm_users := mm_users x + 1\<rparr>) s))
            else
              (case mm_mem e of None \<Rightarrow> Some (Some ENOMEM, s)
               | Some m \<Rightarrow>
                  (let s = upd_kmm m (\<lambda>_. kmm s oldmm) s;
                       s = upd_mmx m (\<lambda>_. mmx s oldmm) s;
                       (ok, s) = mm_init (pgd_ok e) m s
                   in if \<not> ok then Some (Some ENOMEM, s)
                      else if \<not> context_ok e then Some (Some ENOMEM, mmput X m s)
                      else
                        Option.bind (dup_mmap X (areas e) me m s)
                          (\<lambda>(retval, s). Some
                            (if retval \<noteq> None then (retval, mmput X m s) else good_mm m s)))))"

end
