(* ===== verification/Dup_Mmap.thy ===== *)
theory Dup_Mmap imports Proc_Mm begin

text \<open>
  What \<^verbatim>\<open>dup_mmap\<close> does: which areas are copied, the list of the new address space, the references to the
  mapped files.
\<close>

section \<open>Frames\<close>

lemma upd_mm_simps2 [simp]:
  "ps (upd_kmm m f s) = upd_sch (upd_mm m f) (ps s)" "ps (upd_ktask p g s) = upd_sch (upd_task p g) (ps s)"
  "mmx (upd_mmx m h s) = (mmx s)(m := h (mmx s m))" "vmas (upd_vma a i s) = (vmas s)(a := i (vmas s a))"
  by (simp_all add: upd_kmm_def upd_ktask_def upd_mmx_def upd_vma_def)

lemma upd_mm_frame [simp]:
  "res (upd_kmm m f s) = res s" "fss (upd_kmm m f s) = fss s" "filess (upd_kmm m f s) = filess s"
  "sigs (upd_kmm m f s) = sigs s" "mmx (upd_kmm m f s) = mmx s" "mmlist_nr (upd_kmm m f s) = mmlist_nr s"
  "vmas (upd_kmm m f s) = vmas s" "comps (upd_kmm m f s) = comps s" "pids (upd_kmm m f s) = pids s"
  "max_threads (upd_kmm m f s) = max_threads s" "total_forks (upd_kmm m f s) = total_forks s"
  "jiffies_64 (upd_kmm m f s) = jiffies_64 s" "ext (upd_kmm m f s) = ext s"
  "res (upd_ktask p g s) = res s" "fss (upd_ktask p g s) = fss s" "filess (upd_ktask p g s) = filess s"
  "sigs (upd_ktask p g s) = sigs s" "mmx (upd_ktask p g s) = mmx s" "mmlist_nr (upd_ktask p g s) = mmlist_nr s"
  "vmas (upd_ktask p g s) = vmas s" "comps (upd_ktask p g s) = comps s" "pids (upd_ktask p g s) = pids s"
  "max_threads (upd_ktask p g s) = max_threads s" "total_forks (upd_ktask p g s) = total_forks s"
  "jiffies_64 (upd_ktask p g s) = jiffies_64 s" "ext (upd_ktask p g s) = ext s"
  "ps (upd_mmx m h s) = ps s" "res (upd_mmx m h s) = res s" "fss (upd_mmx m h s) = fss s"
  "filess (upd_mmx m h s) = filess s" "sigs (upd_mmx m h s) = sigs s" "mmlist_nr (upd_mmx m h s) = mmlist_nr s"
  "vmas (upd_mmx m h s) = vmas s" "comps (upd_mmx m h s) = comps s" "pids (upd_mmx m h s) = pids s"
  "max_threads (upd_mmx m h s) = max_threads s" "total_forks (upd_mmx m h s) = total_forks s"
  "jiffies_64 (upd_mmx m h s) = jiffies_64 s" "ext (upd_mmx m h s) = ext s"
  "ps (upd_vma a i s) = ps s" "res (upd_vma a i s) = res s" "fss (upd_vma a i s) = fss s"
  "filess (upd_vma a i s) = filess s" "sigs (upd_vma a i s) = sigs s" "mmx (upd_vma a i s) = mmx s"
  "mmlist_nr (upd_vma a i s) = mmlist_nr s" "comps (upd_vma a i s) = comps s" "pids (upd_vma a i s) = pids s"
  "max_threads (upd_vma a i s) = max_threads s" "total_forks (upd_vma a i s) = total_forks s"
  "jiffies_64 (upd_vma a i s) = jiffies_64 s" "ext (upd_vma a i s) = ext s"
  by (simp_all add: upd_kmm_def upd_ktask_def upd_mmx_def upd_vma_def)

text \<open>Everything but the areas, the lists of the address spaces and the outside.\<close>

definition only_areas :: "('l, 'b, 'g, 'v) ksys \<Rightarrow> ('l, 'b, 'g, 'v) ksys \<Rightarrow> bool" where
  "only_areas s s' \<longleftrightarrow> ps s' = ps s \<and> res s' = res s \<and> fss s' = fss s \<and> filess s' = filess s \<and> sigs s' = sigs s \<and>
     mmlist_nr s' = mmlist_nr s \<and> comps s' = comps s \<and> pids s' = pids s \<and> max_threads s' = max_threads s \<and>
     total_forks s' = total_forks s \<and> jiffies_64 s' = jiffies_64 s"

lemma only_areas_refl: "only_areas s s"
  by (simp add: only_areas_def)

lemma only_areas_trans: "only_areas s s' \<Longrightarrow> only_areas s' s'' \<Longrightarrow> only_areas s s''"
  by (simp add: only_areas_def)

section \<open>One area\<close>

text \<open>What an area maps, without its links.\<close>

definition area :: "vma \<Rightarrow> u32 \<times> u32 \<times> u32 \<times> nat option \<times> mmptr \<times> bool" where
  "area v = (vm_start v, vm_end v, vm_flags v, vm_file v, vm_mm v, vm_has_open v)"

definition new_area :: "'v xlib \<Rightarrow> mmptr \<Rightarrow> vma \<Rightarrow> u32 \<times> u32 \<times> u32 \<times> nat option \<times> mmptr \<times> bool" where
  "new_area X m v = (vm_start v, vm_end v, vm_flags v AND NOT (VM_LOCKED X), vm_file v, m, vm_has_open v)"

lemma area_links [simp]:
  "area (v\<lparr>vm_next := n\<rparr>) = area v" "area (v\<lparr>vm_next_share := n\<rparr>) = area v" "area (v\<lparr>vm_pprev_share := n\<rparr>) = area v"
  by (simp_all add: area_def)

lemma area_same:
  assumes "area v = area w"
  shows "vm_flags v = vm_flags w" and "vm_file v = vm_file w" and "new_area X m v = new_area X m w"
  using assms by (simp_all add: area_def new_area_def)

lemma copy_vma_areas:
  assumes "t \<noteq> a"
  shows "area (vmas (copy_vma X m a t s) x) = (if x = t then new_area X m (vmas s a) else area (vmas s x))"
    and "vm_next (vmas (copy_vma X m a t s) x) = (if x = t then None else vm_next (vmas s x))"
    and "mmx (copy_vma X m a t s) = mmx s" and "only_areas s (copy_vma X m a t s)"
  using assms by (simp_all add: copy_vma_def Let_def area_def new_area_def only_areas_def split: option.split)

lemma link_vma_areas:
  "area (vmas (link_vma m q t s) x) = area (vmas s x)"
  "vm_next (vmas (link_vma m q t s) x) = (if q = Some x then Some t else vm_next (vmas s x))"
  "map_count (mmx (link_vma m q t s) m) = map_count (mmx s m) + 1"
  "mmap (mmx (link_vma m q t s) m) = (if q = None then Some t else mmap (mmx s m))"
  "m' \<noteq> m \<Longrightarrow> mmx (link_vma m q t s) m' = mmx s m'" "only_areas s (link_vma m q t s)" "ext (link_vma m q t s) = ext s"
  by (simp_all add: link_vma_def only_areas_def split: option.split)

context resource_lib
begin

lemma copy_vma_refs:
  "t \<noteq> a \<Longrightarrow> refs X (ext (copy_vma X m a t s)) x = refs X (ext s) x + files_refs (vma_files (vmas s) [a]) x"
  by (cases x) (auto simp: copy_vma_def Let_def frame files.refs_up files_refs_def vma_files_def map_filter_simps
    split: option.split)

end

section \<open>All areas\<close>

text \<open>The areas that are copied, and the error that ends the copy.\<close>

fun dup_plan :: "'v xlib \<Rightarrow> dup_env \<Rightarrow> (nat \<Rightarrow> vma) \<Rightarrow> nat list \<Rightarrow> errno option \<times> nat list" where
  "dup_plan X e h [] = (None, [])"
| "dup_plan X e h (a # as) =
     (if vm_flags (h a) AND VM_DONTCOPY X \<noteq> 0 then dup_plan X e h as
      else if vm_flags (h a) AND VM_ACCOUNT X \<noteq> 0 \<and> \<not> enough_memory e a then (Some ENOMEM, [])
      else if vma_alloc e a = None then (Some ENOMEM, [])
      else if copy_page_range e a \<noteq> None then (copy_page_range e a, [a])
      else (fst (dup_plan X e h as), a # snd (dup_plan X e h as)))"

lemma dup_plan_subset: "set (snd (dup_plan X e h as)) \<subseteq> set as"
  by (induction as) auto

lemma dup_plan_allocs: "a \<in> set (snd (dup_plan X e h as)) \<Longrightarrow> \<exists>t. vma_alloc e a = Some t"
  by (induction as) (auto split: if_splits)

lemma dup_plan_cong: "(\<And>a. a \<in> set as \<Longrightarrow> area (h' a) = area (h a)) \<Longrightarrow> dup_plan X e h' as = dup_plan X e h as"
proof (induction as)
  case (Cons a as)
  have "area (h' a) = area (h a)" using Cons.prems by simp
  then show ?case using Cons area_same(1) [of "h' a" "h a"] by simp
qed simp

lemma vma_chain_cong: "(\<And>a. a \<in> set as \<Longrightarrow> vm_next (h' a) = vm_next (h a)) \<Longrightarrow> vma_chain h' p as = vma_chain h p as"
  by (induction as arbitrary: p) auto

lemma vma_files_cong: "(\<And>a. a \<in> set as \<Longrightarrow> area (h' a) = area (h a)) \<Longrightarrow> vma_files h' as = vma_files h as"
proof (induction as)
  case (Cons a as)
  have "area (h' a) = area (h a)" using Cons.prems by simp
  then show ?case using Cons area_same(2) [of "h' a" "h a"] by (simp add: vma_files_def map_filter_simps split: option.split)
qed (simp add: vma_files_def map_filter_simps)

lemma vma_files_Cons: "files_refs (vma_files h (a # as)) x = files_refs (vma_files h [a]) x + files_refs (vma_files h as) x"
  by (cases x) (auto simp: files_refs_def vma_files_def map_filter_simps split: option.split)

text \<open>The new areas are fresh: no area of the parent, and different for different areas.\<close>

definition fresh_areas :: "dup_env \<Rightarrow> nat list \<Rightarrow> bool" where
  "fresh_areas e as \<longleftrightarrow> (\<forall>a \<in> set as. \<forall>t. vma_alloc e a = Some t \<longrightarrow> t \<notin> set as) \<and>
     (\<forall>a b t. a \<in> set as \<longrightarrow> b \<in> set as \<longrightarrow> vma_alloc e a = Some t \<longrightarrow> vma_alloc e b = Some t \<longrightarrow> a = b)"

lemma fresh_areas_tl: "fresh_areas e (a # as) \<Longrightarrow> fresh_areas e as"
  unfolding fresh_areas_def by (meson list.set_intros(2))

lemma fresh_areas_hd:
  assumes "fresh_areas e (a # as)" and "vma_alloc e a = Some t"
  shows "t \<notin> set (a # as)" and "b \<in> set as \<Longrightarrow> a \<notin> set as \<Longrightarrow> vma_alloc e b \<noteq> Some t"
proof -
  have a: "a \<in> set (a # as)" by simp
  show "t \<notin> set (a # as)" using assms a unfolding fresh_areas_def by blast
  show "vma_alloc e b \<noteq> Some t" if "b \<in> set as" "a \<notin> set as"
  proof
    assume "vma_alloc e b = Some t"
    moreover have "b \<in> set (a # as)" using that by simp
    ultimately have "a = b" using assms a unfolding fresh_areas_def by blast
    with that show False by simp
  qed
qed

definition copies :: "dup_env \<Rightarrow> nat list \<Rightarrow> nat list" where
  "copies e as = map (\<lambda>a. the (vma_alloc e a)) as"

text \<open>The outcome: \<open>l\<close> is the list of the areas that were copied.\<close>

definition dup_done :: "'v xlib \<Rightarrow> dup_env \<Rightarrow> mmptr \<Rightarrow> nat option \<Rightarrow> nat list \<Rightarrow>
    ('l, 'b, 'g, 'v) ksys \<Rightarrow> ('l, 'b, 'g, 'v) ksys \<Rightarrow> bool" where
  "dup_done X e m q l s s' \<longleftrightarrow>
     vma_chain (vmas s') (first (copies e l) None) (copies e l) \<and>
     mmap (mmx s' m) = (if q = None then first (copies e l) (mmap (mmx s m)) else mmap (mmx s m)) \<and>
     map_count (mmx s' m) = map_count (mmx s m) + int (length l) \<and> (\<forall>n. n \<noteq> m \<longrightarrow> mmx s' n = mmx s n) \<and>
     (\<forall>x. x \<notin> set (copies e l) \<longrightarrow> area (vmas s' x) = area (vmas s x) \<and>
        vm_next (vmas s' x) = (if q = Some x then first (copies e l) (vm_next (vmas s x)) else vm_next (vmas s x))) \<and>
     (\<forall>a \<in> set l. area (vmas s' (the (vma_alloc e a))) = new_area X m (vmas s a)) \<and>
     (\<forall>x. refs X (ext s') x = refs X (ext s) x + files_refs (vma_files (vmas s) l) x) \<and> only_areas s s'"

lemma dup_done_nil: "dup_done X e m q [] s s"
  by (simp add: dup_done_def copies_def only_areas_refl vma_files_def map_filter_simps files_refs_def split: obj.split)

context resource_lib
begin

text \<open>One area copied before the others.\<close>

lemma dup_done_first:
  fixes s :: "('l, 'b, 'g, 'v) ksys" and m :: mmptr and q :: "nat option" and e :: dup_env
  assumes a: "vma_alloc e a = Some t" "t \<noteq> a" and q: "q \<noteq> Some t"
  defines "s1 \<equiv> link_vma m q t (copy_vma X m a t s)"
  shows "dup_done X e m q [a] s (if vm_has_open (vmas s1 t) then upd_ext (vm_open X t) s1 else s1)"
proof -
  have "only_areas s s1" unfolding s1_def by (rule only_areas_trans) (rule copy_vma_areas(4) [OF a(2)], rule link_vma_areas(6))
  then have "only_areas s (if vm_has_open (vmas s1 t) then upd_ext (vm_open X t) s1 else s1)" by (simp add: only_areas_def)
  then show ?thesis
    using a q unfolding dup_done_def
    by (simp add: copies_def s1_def link_vma_areas copy_vma_areas copy_vma_refs frame)
qed

lemma dup_done_Cons:
  fixes s :: "('l, 'b, 'g, 'v) ksys" and s1 s' :: "('l, 'b, 'g, 'v) ksys"
  assumes one: "dup_done X e m q [a] s s1" and rest: "dup_done X e m (Some t) l s1 s'" and a: "vma_alloc e a = Some t"
    and fresh: "t \<notin> set (a # l)" "t \<notin> set (copies e l)" and q: "\<And>x. q = Some x \<Longrightarrow> x \<notin> set (copies e (a # l))"
  shows "dup_done X e m q (a # l) s s'"
proof -
  have cs: "copies e (a # l) = t # copies e l" "copies e [a] = [t]" using a by (simp_all add: copies_def)
  note O = one [unfolded dup_done_def cs] and R = rest [unfolded dup_done_def]
  have "vm_next (vmas s1 t) = None" using O by simp
  then have "vma_chain (vmas s') (Some t) (t # copies e l)" using R fresh(2) by simp
  moreover have "mmap (mmx s' m) = (if q = None then Some t else mmap (mmx s m))" using O R by simp
  moreover have "map_count (mmx s' m) = map_count (mmx s m) + int (length (a # l))" using O R by simp
  moreover have "\<forall>n. n \<noteq> m \<longrightarrow> mmx s' n = mmx s n" using O R by simp
  moreover have "area (vmas s' x) = area (vmas s x) \<and> vm_next (vmas s' x) = (if q = Some x then Some t else vm_next (vmas s x))"
    if "x \<notin> set (t # copies e l)" for x
  proof -
    have "x \<notin> set (copies e l)" "x \<notin> set [t]" "Some t \<noteq> Some x" using that by auto
    then show ?thesis using O R by simp
  qed
  moreover have "area (vmas s' (the (vma_alloc e b))) = new_area X m (vmas s b)" if "b \<in> set (a # l)" for b
  proof (cases "b = a")
    case True
    have "area (vmas s' t) = area (vmas s1 t)" using R fresh(2) by simp
    with O a True show ?thesis by simp
  next
    case False
    then have b: "b \<in> set l" "b \<noteq> t" using that fresh by auto
    then have "area (vmas s1 b) = area (vmas s b)" using O by simp
    then have "new_area X m (vmas s1 b) = new_area X m (vmas s b)" by (rule area_same)
    with R b show ?thesis by simp
  qed
  moreover have "refs X (ext s') x = refs X (ext s) x + files_refs (vma_files (vmas s) (a # l)) x" for x
  proof -
    have "vma_files (vmas s1) l = vma_files (vmas s) l" by (rule vma_files_cong) (use O fresh(1) in auto)
    then show ?thesis unfolding vma_files_Cons [of _ a l] using O R by simp
  qed
  moreover have "only_areas s s'" using O R only_areas_trans by blast
  ultimately show ?thesis unfolding dup_done_def cs by simp
qed

lemma dup_areas_eq:
  assumes "vma_chain (vmas s) p as" and "distinct as" and "fresh_areas e as"
    and "\<And>x a. q = Some x \<Longrightarrow> x \<notin> set as \<and> (a \<in> set as \<longrightarrow> vma_alloc e a \<noteq> Some x)"
  shows "\<exists>charge' s'. dup_areas X e m p q charge s = Some (fst (dup_plan X e (vmas s) as), charge', s') \<and>
    dup_done X e m q (snd (dup_plan X e (vmas s) as)) s s'"
  using assms
proof (induction as arbitrary: p q charge s)
  case Nil
  then show ?case by (subst dup_areas.simps) (simp add: dup_done_nil)
next
  case (Cons a as)
  have p: "p = Some a" "vma_chain (vmas s) (vm_next (vmas s a)) as" using Cons.prems(1) by simp_all
  have fresh: "fresh_areas e as" using Cons.prems(3) by (rule fresh_areas_tl)
  let ?charge = "if vm_flags (vmas s a) AND VM_ACCOUNT X \<noteq> 0 then charge + vma_pages X (vmas s a) else charge"
  show ?case
  proof (cases "vm_flags (vmas s a) AND VM_DONTCOPY X \<noteq> 0")
    case True
    then show ?thesis using Cons.IH [OF p(2) _ fresh, of q charge] Cons.prems(2,4) p(1)
      by (subst dup_areas.simps) simp
  next
    case False
    show ?thesis
    proof (cases "vm_flags (vmas s a) AND VM_ACCOUNT X \<noteq> 0 \<and> \<not> enough_memory e a \<or> vma_alloc e a = None")
      case True
      then show ?thesis using False p(1) by (subst dup_areas.simps) (auto simp: dup_done_nil)
    next
      case nofail: False
      then obtain t where t: "vma_alloc e a = Some t" by blast
      note ta = fresh_areas_hd(1) [OF Cons.prems(3) t]
      define s1 where "s1 = link_vma m q t (copy_vma X m a t s)"
      define s2 where "s2 = (if vm_has_open (vmas s1 t) then upd_ext (vm_open X t) s1 else s1)"
      have qt: "q \<noteq> Some t" using Cons.prems(4) [of t a] t by auto
      have one: "dup_done X e m q [a] s s2"
        unfolding s2_def s1_def by (rule dup_done_first [OF t _ qt]) (use ta in simp)
      have keep: "area (vmas s2 b) = area (vmas s b) \<and> vm_next (vmas s2 b) = vm_next (vmas s b)" if "b \<in> set (a # as)" for b
      proof -
        have "b \<noteq> t" "q \<noteq> Some b" using that ta Cons.prems(4) by auto
        then show ?thesis using one t by (simp add: dup_done_def copies_def)
      qed
      show ?thesis
      proof (cases "copy_page_range e a")
        case (Some err)
        then show ?thesis using False nofail t p(1) one
          by (subst dup_areas.simps) (auto simp: Let_def s1_def [symmetric] s2_def [symmetric])
      next
        case None
        have chain: "vma_chain (vmas s2) (vm_next (vmas s a)) as" using p(2) keep vma_chain_cong [of as "vmas s2" "vmas s"] by simp
        have q': "x \<notin> set as \<and> (b \<in> set as \<longrightarrow> vma_alloc e b \<noteq> Some x)" if "Some t = Some x" for x b
          using that ta fresh_areas_hd(2) [OF Cons.prems(3) t] Cons.prems(2) by simp
        have "distinct as" using Cons.prems(2) by simp
        from Cons.IH [OF chain this fresh q', where charge = ?charge] obtain charge' s' where
          IH: "dup_areas X e m (vm_next (vmas s a)) (Some t) ?charge s2 = Some (fst (dup_plan X e (vmas s2) as), charge', s')"
            "dup_done X e m (Some t) (snd (dup_plan X e (vmas s2) as)) s2 s'"
          by blast
        have plan: "dup_plan X e (vmas s2) as = dup_plan X e (vmas s) as" by (rule dup_plan_cong) (use keep in simp)
        let ?l = "snd (dup_plan X e (vmas s) as)"
        have l: "set ?l \<subseteq> set as" by (rule dup_plan_subset)
        have allocs: "b \<in> set ?l \<Longrightarrow> \<exists>u. vma_alloc e b = Some u" for b by (rule dup_plan_allocs)
        have "t \<notin> set (copies e ?l)"
          using allocs l fresh_areas_hd(2) [OF Cons.prems(3) t] Cons.prems(2) unfolding copies_def by fastforce
        moreover have "t \<notin> set (a # ?l)" using ta l by auto
        moreover have "x \<notin> set (copies e (a # ?l))" if "q = Some x" for x
          using allocs l t Cons.prems(4) [OF that] unfolding copies_def by fastforce
        ultimately have "dup_done X e m q (a # ?l) s s'" by (intro dup_done_Cons [OF one _ t]) (use IH(2) plan in simp_all)
        then show ?thesis using False nofail t p(1) None IH(1) plan keep [of a]
          by (subst dup_areas.simps) (auto simp: Let_def s1_def [symmetric] s2_def [symmetric])
      qed
    qed
  qed
qed

end

end
