(* ===== verification/Do_Fork.thy ===== *)
theory Do_Fork imports Dup_Mmap begin

text \<open>
  \<^verbatim>\<open>do_fork\<close>: a new task as a copy of the current one, the resources it shares or copies, the
  ways back when one of them cannot be had, the time slice it shares with its parent, its place in the
  process tree, the pid hash and the runqueue. The homework's parts are the fields \<^verbatim>\<open>is_short\<close> and
  \<^verbatim>\<open>requested_time\<close> and the choice of the wake-up.
\<close>

section \<open>Set-up at boot\<close>

text \<open>\<open>thread_pages\<close> is \<^verbatim>\<open>THREAD_SIZE/PAGE_SIZE\<close>.\<close>

definition fork_init :: "'v xlib \<Rightarrow> nat \<Rightarrow> nat \<Rightarrow> ('l, 'b, 'g, 'v) ksys \<Rightarrow> ('l, 'b, 'g, 'v) ksys" where
  "fork_init X thread_pages mempages s =
     (let s = s\<lparr>max_threads := int (mempages div thread_pages div 8)\<rparr>;
          half = word_of_int (max_threads s div 2);
          i = RLIMIT_NPROC X;
          s = upd_res init_task (\<lambda>r. r\<lparr>rlim := (rlim r)(i := (rlim r i)\<lparr>rlim_cur := half\<rparr>)\<rparr>) s
      in upd_res init_task (\<lambda>r. r\<lparr>rlim := (rlim r)(i := (rlim r i)\<lparr>rlim_max := half\<rparr>)\<rparr>) s)"

section \<open>The copy of the task\<close>

text \<open>What the allocators and the platform answer.\<close>

record fork_env =
  task_mem :: "tptr option"
  files_mem :: "nat option"
  fs_mem :: "nat option"
  sig_mem :: "nat option"
  mm_answers :: mm_env
  thread_error :: "errno option"
  tick_trylock :: bool
  tick_irq :: bool

definition dup_task :: "tptr \<Rightarrow> tptr \<Rightarrow> ('l, 'b, 'g, 'v) ksys \<Rightarrow> ('l, 'b, 'g, 'v) ksys" where
  "dup_task cur p s =
     (let s = upd_ktask p (\<lambda>_. ktask s cur) s;
          s = upd_ps (upd_proc p (\<lambda>_. procs (ps s) cur)) s;
          s = upd_ps (upd_tree (upd_link p (\<lambda>_. tree (ps s) cur))) s;
          s = upd_res p (\<lambda>_. res s cur) s;
          s = upd_res p (\<lambda>r. r\<lparr>tux_info := False\<rparr>) s
      in upd_ktask p (\<lambda>t. t\<lparr>t_cpus_allowed_mask := t_cpus_allowed_mask t AND t_cpus_allowed t\<rparr>) s)"

text \<open>The limit on the processes of a user; a capability is asked for only when it is reached.\<close>

definition ask :: "('l, 'b) klib \<Rightarrow> cpu \<Rightarrow> capability \<Rightarrow> ('l, 'b, 'g, 'v) ksys \<Rightarrow> bool \<times> ('l, 'b, 'g, 'v) ksys" where
  "ask K me cap s = (let (ok, c) = capable K me cap (sch (ps s)) in (ok, upd_ps (upd_sch (\<lambda>_. c)) s))"

definition over_limit ::
  "('l, 'b) klib \<Rightarrow> 'v xlib \<Rightarrow> cpu \<Rightarrow> tptr \<Rightarrow> ('l, 'b, 'g, 'v) ksys \<Rightarrow> bool \<times> ('l, 'b, 'g, 'v) ksys" where
  "over_limit K X me p s =
     (if word_of_int (u_processes (users (ps s) (user_of (procs (ps s) p)))) \<ge> rlim_cur (rlim (res s p) (RLIMIT_NPROC X))
      then (let (ok, s) = ask K me CAP_SYS_ADMIN s
            in if ok then (False, s) else (let (ok, s) = ask K me CAP_SYS_RESOURCE s in (\<not> ok, s)))
      else (False, s))"

definition upd_user :: "nat \<Rightarrow> (user \<Rightarrow> user) \<Rightarrow> ('l, 'b, 'g, 'v) ksys \<Rightarrow> ('l, 'b, 'g, 'v) ksys" where
  "upd_user u f s = upd_ps (\<lambda>c. c\<lparr>users := (users c)(u := f (users c u))\<rparr>) s"

definition PF_FORKNOEXEC :: u32 where "PF_FORKNOEXEC = 0x40"
definition PF_USEDFPU :: u32 where "PF_USEDFPU = 0x100000"

definition copy_flags :: "u32 \<Rightarrow> tptr \<Rightarrow> ('l, 'b, 'g, 'v) ksys \<Rightarrow> ('l, 'b, 'g, 'v) ksys" where
  "copy_flags clone_flags p s =
     (let new_flags = t_flags (ktask s p) AND NOT (PF_SUPERPRIV OR PF_USEDFPU);
          new_flags = new_flags OR PF_FORKNOEXEC;
          s = (if clone_flags AND CLONE_PTRACE = 0 then upd_ps (upd_proc p (\<lambda>r. r\<lparr>ptrace := 0\<rparr>)) s else s)
      in upd_ktask p (\<lambda>t. t\<lparr>t_flags := new_flags\<rparr>) s)"

text \<open>The fields that a new task does not take over.\<close>

definition reset_task ::
  "('l, 'b) klib \<Rightarrow> u32 \<Rightarrow> tptr \<Rightarrow> tptr \<Rightarrow> ('l, 'b, 'g, 'v) ksys \<Rightarrow> ('l, 'b, 'g, 'v) ksys" where
  "reset_task K clone_flags cur p s =
     (let s = upd_ktask p (\<lambda>t. t\<lparr>t_requested_time := 0, t_is_short := 0\<rparr>) s;
          s = upd_ps (upd_tree (upd_link p (\<lambda>l. l\<lparr>p_cptr := None\<rparr>))) s;
          s = upd_ps (upd_proc p (\<lambda>r. r\<lparr>wait_chldexit := []\<rparr>)) s;
          s = upd_res p (\<lambda>r. r\<lparr>vfork_done := None\<rparr>) s;
          s = (if clone_flags AND CLONE_VFORK \<noteq> 0
               then upd_res p (\<lambda>r. r\<lparr>vfork_done := Some cur\<rparr>) (s\<lparr>comps := (comps s)(cur := \<lparr>c_done = 0, c_wait = []\<rparr>)\<rparr>)
               else s);
          s = upd_ktask p (\<lambda>t. t\<lparr>t_sigpending := 0\<rparr>) s;
          s = upd_res p (\<lambda>r. r\<lparr>it_real_value := 0, it_virt_value := 0, it_prof_value := 0\<rparr>) s;
          s = upd_res p (\<lambda>r. r\<lparr>it_real_incr := 0, it_virt_incr := 0, it_prof_incr := 0\<rparr>) s;
          s = upd_res p (\<lambda>r. r\<lparr>timer_data := Some p\<rparr>) s;
          s = upd_ps (upd_proc p (\<lambda>r. r\<lparr>leader := False\<rparr>)) s;
          s = upd_res p (\<lambda>r. r\<lparr>tty_old_pgrp := 0\<rparr>) s;
          s = upd_ps (upd_proc p (\<lambda>r. r\<lparr>tms_utime := 0, tms_stime := 0, tms_cutime := 0, tms_cstime := 0\<rparr>)) s;
          s = (if k_config_smp K
               then fold (\<lambda>i. upd_res p (\<lambda>r. r\<lparr>per_cpu_utime := (per_cpu_utime r)(k_cpu_logical_map K i := 0),
                                               per_cpu_stime := (per_cpu_stime r)(k_cpu_logical_map K i := 0)\<rparr>))
                      [0..<k_smp_num_cpus K] s
               else s);
          s = upd_ktask p (\<lambda>t. t\<lparr>t_array := None\<rparr>) s
      in upd_res p (\<lambda>r. r\<lparr>lock_depth := -1, start_time := jiffies_64 s\<rparr>) s)"

section \<open>The ways back\<close>

definition bad_fork_cleanup_count ::
  "('l, 'b, 'g) plib \<Rightarrow> tptr \<Rightarrow> ('l, 'b, 'g, 'v) ksys \<Rightarrow> ('l, 'b, 'g, 'v) ksys" where
  "bad_fork_cleanup_count P p s =
     (let u = user_of (procs (ps s) p);
          s = upd_user u (\<lambda>x. x\<lparr>u_processes := u_processes x - 1\<rparr>) s
      in upd_ps (\<lambda>c. c\<lparr>users := free_uid P u (users c)\<rparr>) s)"

definition bad_fork_cleanup ::
  "('l, 'b, 'g) plib \<Rightarrow> 'v xlib \<Rightarrow> tptr \<Rightarrow> ('l, 'b, 'g, 'v) ksys \<Rightarrow> ('l, 'b, 'g, 'v) ksys" where
  "bad_fork_cleanup P X p s =
     (let s = upd_ext (put_exec_domain X (exec_domain (res s p))) s;
          s = upd_ext (get_opt (MOD_DEC_USE_COUNT X) (binfmt_module (res s p))) s
      in bad_fork_cleanup_count P p s)"

definition bad_fork_cleanup_files where
  "bad_fork_cleanup_files P X p s = bad_fork_cleanup P X p (exit_files X p s)"

definition bad_fork_cleanup_fs where
  "bad_fork_cleanup_fs P X p s = bad_fork_cleanup_files P X p (exit_fs X p s)"

definition bad_fork_cleanup_sighand where
  "bad_fork_cleanup_sighand P X p s = bad_fork_cleanup_fs P X p (drop_sighand X p s)"

definition bad_fork_cleanup_mm where
  "bad_fork_cleanup_mm P W X me p s = bad_fork_cleanup_sighand P X p (exit_mm (pk P) W X me p s)"

definition bad_fork_cleanup_namespace where
  "bad_fork_cleanup_namespace P W X me p s = bad_fork_cleanup_mm P W X me p (upd_ext (exit_namespace X p) s)"

text \<open>The copies, one after the other; each failure goes back over those before it.\<close>

definition fork_resources ::
  "('l, 'b, 'g) plib \<Rightarrow> wait_entry list wlib \<Rightarrow> 'v xlib \<Rightarrow> fork_env \<Rightarrow> u32 \<Rightarrow> cpu \<Rightarrow> tptr \<Rightarrow>
     ('l, 'b, 'g, 'v) ksys \<Rightarrow> (errno option \<times> ('l, 'b, 'g, 'v) ksys) option" where
  "fork_resources P W X e fl me p s =
     (let (err, s) = copy_files X (files_mem e) fl me p s in
      if err \<noteq> None then Some (Some ENOMEM, bad_fork_cleanup P X p s)
      else let (failed, s) = copy_fs X (fs_mem e) fl me p s in
      if failed then Some (Some ENOMEM, bad_fork_cleanup_files P X p s)
      else let (failed, s) = copy_sighand (sig_mem e) fl me p s in
      if failed then Some (Some ENOMEM, bad_fork_cleanup_fs P X p s)
      else Option.bind (copy_mm X (mm_answers e) fl me p s) (\<lambda>(err, s).
        if err \<noteq> None then Some (Some ENOMEM, bad_fork_cleanup_sighand P X p s)
        else let (failed, v) = copy_namespace X fl p (ext s); s = upd_ext (\<lambda>_. v) s in
          if failed then Some (Some ENOMEM, bad_fork_cleanup_mm P W X me p s)
          else if thread_error e \<noteq> None then Some (thread_error e, bad_fork_cleanup_namespace P W X me p s)
          else Some (None, upd_res p (\<lambda>r. r\<lparr>semundo := None\<rparr>) s)))"

section \<open>The time slice\<close>

definition share_slice :: "cpu \<Rightarrow> tptr \<Rightarrow> ('l, 'b) sched \<Rightarrow> ('l, 'b) sched" where
  "share_slice me p c =
     (let cur = current me c;
          c = (if t_time_slice (tasks c cur) = 0 then c\<lparr>bug := True\<rparr> else c);
          c = (if t_policy (tasks c cur) = SCHED_SHORT then upd_task p (\<lambda>t. t\<lparr>t_prio := t_prio (tasks c cur)\<rparr>) c else c);
          c = upd_task p (\<lambda>t. t\<lparr>t_requested_time := t_requested_time (tasks c cur)\<rparr>) c;
          c = (if t_policy (tasks c cur) \<noteq> SCHED_SHORT \<and> t_is_short (tasks c cur) = -1
               then upd_task p (\<lambda>t. t\<lparr>t_is_short := 0\<rparr>) c
               else upd_task p (\<lambda>t. t\<lparr>t_is_short := t_is_short (tasks c cur)\<rparr>) c);
          c = (if t_is_short (tasks c cur) = -1 \<and> t_policy (tasks c cur) = SCHED_SHORT
               then upd_task p (\<lambda>t. t\<lparr>t_time_slice := t_time_slice (tasks c cur)\<rparr>) c
               else upd_task cur (\<lambda>t. t\<lparr>t_time_slice := drop_bit 1 (t_time_slice t)\<rparr>)
                      (upd_task p (\<lambda>t. t\<lparr>t_time_slice := drop_bit 1 (t_time_slice (tasks c cur) + 1)\<rparr>) c));
          c = upd_task p (\<lambda>t. t\<lparr>t_first_time_slice := 1\<rparr>) c
      in upd_task p (\<lambda>t. t\<lparr>t_sleep_timestamp := jiffies c\<rparr>) c)"

text \<open>A parent that has no slice left gets one jiffy, which a call of \<^verbatim>\<open>scheduler_tick\<close> uses up.\<close>

definition fork_slices ::
  "('l, 'b) klib \<Rightarrow> bool \<Rightarrow> bool \<Rightarrow> cpu \<Rightarrow> tptr \<Rightarrow> ('l, 'b) sched \<Rightarrow> ('l, 'b) sched" where
  "fork_slices K trylock irq me p c =
     (let cur = current me c; c = share_slice me p c
      in if t_time_slice (tasks c cur) = 0
         then scheduler_tick K trylock me irq 0 0 (upd_task cur (\<lambda>t. t\<lparr>t_time_slice := 1\<rparr>) c)
         else c)"

section \<open>The family\<close>

definition fork_links ::
  "('l, 'b, 'g) plib \<Rightarrow> u32 \<Rightarrow> tptr \<Rightarrow> tptr \<Rightarrow> ('l, 'b, 'g) psys \<Rightarrow> ('l, 'b, 'g) psys" where
  "fork_links P clone_flags cur p s =
     (let s = upd_sch (upd_task p (\<lambda>t. t\<lparr>t_tgid := pid_of s p\<rparr>)) s;
          s = s\<lparr>groups := tg_init P p (groups s)\<rparr>;
          s = upd_tree (upd_link p (\<lambda>l. l\<lparr>p_opptr := p_opptr (tree s cur)\<rparr>)) s;
          s = upd_tree (upd_link p (\<lambda>l. l\<lparr>p_pptr := p_pptr (tree s cur)\<rparr>)) s;
          s = (if clone_flags AND CLONE_PARENT = 0
               then (let s = upd_tree (upd_link p (\<lambda>l. l\<lparr>p_opptr := Some cur\<rparr>)) s
                     in if ptrace (procs s p) AND PT_PTRACED = 0
                        then upd_tree (upd_link p (\<lambda>l. l\<lparr>p_pptr := cur\<rparr>)) s else s)
               else s);
          s = (if clone_flags AND CLONE_THREAD \<noteq> 0
               then (let s = upd_sch (upd_task p (\<lambda>t. t\<lparr>t_tgid := t_tgid (task_of s cur)\<rparr>)) s
                     in s\<lparr>groups := tg_add P p cur (groups s)\<rparr>)
               else s);
          s = upd_tree (SET_LINKS p) s;
          s = upd_sch (hash_task p) s
      in s\<lparr>nr_threads := nr_threads s + 1\<rparr>)"

section \<open>All of it\<close>

text \<open>\<^verbatim>\<open>do_fork\<close> returns, or, for \<^verbatim>\<open>vfork\<close>, sleeps until the child has left the address space.\<close>

datatype fork_result = Fork_returns "int kres" | Fork_sleeps int

definition fork_wake :: "('l, 'b) klib \<Rightarrow> cpu \<Rightarrow> tptr \<Rightarrow> ('l, 'b) sched \<Rightarrow> ('l, 'b) sched" where
  "fork_wake K me p c =
     (if t_is_short (tasks c (current me c)) = 1 then wake_up_short_forked_process K me (current me c) p c
      else wake_up_forked_process K me p c)"

text \<open>The end of the call: the parent sleeps for its child, or is asked to let it run first.\<close>

definition fork_end ::
  "wait_entry list wlib \<Rightarrow> u32 \<Rightarrow> cpu \<Rightarrow> tptr \<Rightarrow> int \<Rightarrow> ('l, 'b, 'g, 'v) ksys \<Rightarrow> fork_result \<times> ('l, 'b, 'g, 'v) ksys" where
  "fork_end W clone_flags me cur retval s =
     (if clone_flags AND CLONE_VFORK \<noteq> 0
      then (let (finished, x, c) = wait_enter W me (comps s cur) (sch (ps s));
                s = upd_ps (upd_sch (\<lambda>_. c)) (s\<lparr>comps := (comps s)(cur := x)\<rparr>)
            in (if finished then Fork_returns (Inr retval) else Fork_sleeps retval, s))
      else (Fork_returns (Inr retval), upd_ktask cur (\<lambda>t. t\<lparr>t_need_resched := True\<rparr>) s))"

definition fork_start ::
  "('l, 'b, 'g) plib \<Rightarrow> wait_entry list wlib \<Rightarrow> fork_env \<Rightarrow> u32 \<Rightarrow> cpu \<Rightarrow> tptr \<Rightarrow>
     ('l, 'b, 'g, 'v) ksys \<Rightarrow> fork_result \<times> ('l, 'b, 'g, 'v) ksys" where
  "fork_start P W e clone_flags me p s =
     (let cur = me_of me s;
          s = upd_ps (upd_proc p (\<lambda>r. r\<lparr>parent_exec_id := self_exec_id r\<rparr>)) s;
          s = upd_res p (\<lambda>r. r\<lparr>swappable := True\<rparr>) s;
          s = upd_ps (upd_proc p (\<lambda>r. r\<lparr>exit_signal := uint (clone_flags AND CSIGNAL), pdeath_signal := 0\<rparr>)) s;
          s = upd_ps (upd_sch (fork_slices (pk P) (tick_trylock e) (tick_irq e) me p)) s;
          retval = pid_of (ps s) p;
          s = upd_ps (fork_links P clone_flags cur p) s;
          s = (if ptrace (procs (ps s) p) AND PT_PTRACED \<noteq> 0 then upd_ps (notify P (Send_sig (SIGSTOP P) p)) s else s);
          s = upd_ps (upd_sch (fork_wake (pk P) me p)) s;
          s = s\<lparr>total_forks := total_forks s + 1\<rparr>
      in fork_end W clone_flags me cur retval s)"

text \<open>From the references to the executable on.\<close>

definition fork_task ::
  "('l, 'b, 'g) plib \<Rightarrow> wait_entry list wlib \<Rightarrow> 'v xlib \<Rightarrow> fork_env \<Rightarrow> u32 \<Rightarrow> cpu \<Rightarrow> tptr \<Rightarrow>
     ('l, 'b, 'g, 'v) ksys \<Rightarrow> (fork_result \<times> ('l, 'b, 'g, 'v) ksys) option" where
  "fork_task P W X e clone_flags me p s =
     (let cur = me_of me s;
          s = upd_ext (get_exec_domain X (exec_domain (res s p))) s;
          s = upd_ext (get_opt (MOD_INC_USE_COUNT X) (binfmt_module (res s p))) s;
          s = upd_res p (\<lambda>r. r\<lparr>did_exec := False, swappable := False\<rparr>) s;
          s = upd_ktask p (\<lambda>t. t\<lparr>t_state := TASK_UNINTERRUPTIBLE\<rparr>) s;
          s = copy_flags clone_flags p s
      in Option.bind (get_pid (PID_MAX X) clone_flags me (ps s) (pids s))
           (\<lambda>(pid, a).
              let s = upd_ktask p (\<lambda>t. t\<lparr>t_pid := pid\<rparr>) (s\<lparr>pids := a\<rparr>) in
              if pid = 0 \<and> pid_of (ps s) cur \<noteq> 0 then Some (Fork_returns (Inl EAGAIN), bad_fork_cleanup P X p s)
              else
                Option.bind (fork_resources P W X e clone_flags me p (reset_task (pk P) clone_flags cur p s))
                  (\<lambda>(err, s). case err of Some err \<Rightarrow> Some (Fork_returns (Inl err), s)
                     | None \<Rightarrow> Some (fork_start P W e clone_flags me p s))))"

definition do_fork ::
  "('l, 'b, 'g) plib \<Rightarrow> wait_entry list wlib \<Rightarrow> 'v xlib \<Rightarrow> fork_env \<Rightarrow> u32 \<Rightarrow> cpu \<Rightarrow>
     ('l, 'b, 'g, 'v) ksys \<Rightarrow> (fork_result \<times> ('l, 'b, 'g, 'v) ksys) option" where
  "do_fork P W X e clone_flags me s =
     (let cur = me_of me s; fail = (\<lambda>err s. Some (Fork_returns (Inl err), s)) in
      if clone_flags AND (CLONE_NEWNS OR CLONE_FS) = CLONE_NEWNS OR CLONE_FS then fail EINVAL s
      else if clone_flags AND CLONE_PID \<noteq> 0 \<and> pid_of (ps s) cur \<noteq> 0 then fail EPERM s
      else
        (case task_mem e of None \<Rightarrow> fail ENOMEM s
         | Some p \<Rightarrow>
            (let (over, s) = over_limit (pk P) X me p (dup_task cur p s) in
             if over then fail EAGAIN s
             else
              (let u = user_of (procs (ps s) p);
                   s = upd_user u (\<lambda>x. x\<lparr>u_count := u_count x + 1\<rparr>) s;
                   s = upd_user u (\<lambda>x. x\<lparr>u_processes := u_processes x + 1\<rparr>) s in
               if nr_threads (ps s) \<ge> max_threads s then fail EAGAIN (bad_fork_cleanup_count P p s)
               else fork_task P W X e clone_flags me p s))))"

end
