(* ===== verification/Fork_Undo.thy ===== *)
theory Fork_Undo imports Do_Fork begin

text \<open>
  What a fork that fails leaves behind: the copies of the address space, the directories and the open files
  that were made before the failure are dropped with all their references.
\<close>

section \<open>What the copies leave alone\<close>

text \<open>Only the new task \<open>p\<close> is touched; another task may get the mark that it used a capability.\<close>

definition kept :: "tptr \<Rightarrow> ('l, 'b, 'g, 'v) ksys \<Rightarrow> ('l, 'b, 'g, 'v) ksys \<Rightarrow> bool" where
  "kept p s s' \<longleftrightarrow>
     (\<forall>q. q \<noteq> p \<longrightarrow> tree (ps s') q = tree (ps s) q \<and> procs (ps s') q = procs (ps s) q \<and> res s' q = res s q \<and>
        (\<exists>f. ktask s' q = (ktask s q)\<lparr>t_flags := f\<rparr>)) \<and>
     rqs (sch (ps s')) = rqs (sch (ps s)) \<and> arrays (sch (ps s')) = arrays (sch (ps s)) \<and>
     lists (sch (ps s')) = lists (sch (ps s)) \<and> jiffies (sch (ps s')) = jiffies (sch (ps s)) \<and> pidhash (sch (ps s')) = pidhash (sch (ps s)) \<and>
     groups (ps s') = groups (ps s) \<and> nr_threads (ps s') = nr_threads (ps s) \<and> notices (ps s') = notices (ps s) \<and>
     total_forks s' = total_forks s"

text \<open>And the fields of \<open>p\<close> that the ways back read.\<close>

definition inner :: "tptr \<Rightarrow> ('l, 'b, 'g, 'v) ksys \<Rightarrow> ('l, 'b, 'g, 'v) ksys \<Rightarrow> bool" where
  "inner p s s' \<longleftrightarrow> kept p s s' \<and> users (ps s') = users (ps s) \<and> user_of (procs (ps s') p) = user_of (procs (ps s) p) \<and>
     exec_domain (res s' p) = exec_domain (res s p) \<and> binfmt_module (res s' p) = binfmt_module (res s p)"

lemma same_task: "\<exists>f. t = t\<lparr>t_flags := f\<rparr>"
  by (rule exI [of _ "t_flags t"]) simp

lemma kept_trans:
  assumes "kept p s s'" and "kept p s' s''"
  shows "kept p s s''"
proof -
  have "\<exists>f. ktask s'' q = (ktask s q)\<lparr>t_flags := f\<rparr>" if q: "q \<noteq> p" for q
  proof -
    obtain f g where "ktask s'' q = (ktask s' q)\<lparr>t_flags := f\<rparr>" "ktask s' q = (ktask s q)\<lparr>t_flags := g\<rparr>"
      using assms q unfolding kept_def by blast
    then have "ktask s'' q = (ktask s q)\<lparr>t_flags := f\<rparr>" by simp
    then show ?thesis ..
  qed
  then show ?thesis using assms by (simp add: kept_def)
qed

lemma inner_trans: "inner p s s' \<Longrightarrow> inner p s' s'' \<Longrightarrow> inner p s s''"
  unfolding inner_def using kept_trans by auto

lemma inner_refl: "inner p s s"
  by (simp add: inner_def kept_def same_task)

text \<open>The simple steps.\<close>

lemma inner_steps:
  "inner p s (upd_ext f s)" "inner p s (upd_fs a g s)" "inner p s (upd_files a h s)"
  "inner p s (upd_kmm m k s)" "inner p s (upd_mmx m l s)" "inner p s (upd_vma b i s)"
  "inner p s (upd_ps (upd_sch (mmdrop m)) s)" "inner p s (s\<lparr>sigs := sg\<rparr>)" "inner p s (s\<lparr>mmlist_nr := mn\<rparr>)"
  "inner p s (s\<lparr>comps := cs\<rparr>)" "inner p s (upd_ktask p tf s)" "inner p s (upd_ps (upd_tree (upd_link p lf)) s)"
  "inner p s (upd_ps (upd_sch (\<lambda>c. c\<lparr>bug := True\<rparr>)) s)"
  by (simp_all add: inner_def kept_def same_task mmdrop_def Let_def upd_link_def)

lemma inner_res: "(\<And>r. exec_domain (f r) = exec_domain r \<and> binfmt_module (f r) = binfmt_module r) \<Longrightarrow> inner p s (upd_res p f s)"
  by (simp add: inner_def kept_def same_task)

lemma inner_proc: "(\<And>r. user_of (f r) = user_of r) \<Longrightarrow> inner p s (upd_ps (upd_proc p f) s)"
  by (simp add: inner_def kept_def same_task)

lemma inner_me: "inner p s s' \<Longrightarrow> me_of me s' = me_of me s"
  by (simp add: inner_def kept_def me_of_def current_task_def current_def)

text \<open>The tables of files, the directories and the signal handlers are as before, and so is who has them.\<close>

definition same_files :: "('l, 'b, 'g, 'v) ksys \<Rightarrow> ('l, 'b, 'g, 'v) ksys \<Rightarrow> bool" where
  "same_files s s' \<longleftrightarrow> res s' = res s \<and> fss s' = fss s \<and> filess s' = filess s \<and> sigs s' = sigs s"

text \<open>The family and the identity of \<open>p\<close> are as before; only its address space is another one.\<close>

definition same_proc :: "tptr \<Rightarrow> ('l, 'b, 'g, 'v) ksys \<Rightarrow> ('l, 'b, 'g, 'v) ksys \<Rightarrow> bool" where
  "same_proc p s s' \<longleftrightarrow> tree (ps s') = tree (ps s) \<and> ptrace (procs (ps s') p) = ptrace (procs (ps s) p) \<and>
     (\<exists>m a. ktask s' p = (ktask s p)\<lparr>t_mm := m, t_active_mm := a\<rparr>)"

lemma same_proc_trans: "same_proc p s s' \<Longrightarrow> same_proc p s' s'' \<Longrightarrow> same_proc p s s''"
  unfolding same_proc_def by fastforce

lemma same_proc_ps: "ps s' = ps s \<Longrightarrow> same_proc p s s'"
  unfolding same_proc_def by (intro conjI exI [of _ "t_mm (ktask s p)"] exI [of _ "t_active_mm (ktask s p)"]) simp_all

lemma mmput_inner: "inner p s (mmput X m s)" "same_files s (mmput X m s)"
  by (simp_all add: mmput_def Let_def mmdrop_def inner_def kept_def same_task same_files_def)

lemma exit_mm_inner:
  assumes "vfork_done (res s (me_of me s)) = None"
  shows "inner p s (exit_mm K W X me p s)" and "same_files s (exit_mm K W X me p s)"
proof -
  have "mm_release K W me s = s" using assms by (simp add: mm_release_def)
  then show "inner p s (exit_mm K W X me p s)" "same_files s (exit_mm K W X me p s)"
    by (simp_all add: exit_mm_def mmput_def Let_def mmdrop_def inner_def kept_def same_task same_files_def split: option.split)
qed

section \<open>The copy of an address space\<close>

text \<open>The outcome of \<^verbatim>\<open>dup_mmap\<close> for the areas \<open>l\<close> that it copied.\<close>

definition mmap_copied :: "'v xlib \<Rightarrow> dup_env \<Rightarrow> mmptr \<Rightarrow> nat list \<Rightarrow> ('l, 'b, 'g, 'v) ksys \<Rightarrow> ('l, 'b, 'g, 'v) ksys \<Rightarrow> bool" where
  "mmap_copied X e m l s s' \<longleftrightarrow>
     mmap (mmx s' m) = first (copies e l) None \<and> vma_chain (vmas s') (first (copies e l) None) (copies e l) \<and>
     map_count (mmx s' m) = int (length l) \<and> (\<forall>a \<in> set l. area (vmas s' (the (vma_alloc e a))) = new_area X m (vmas s a)) \<and>
     (\<forall>n. n \<noteq> m \<longrightarrow> mmx s' n = mmx s n) \<and>
     (\<forall>x. x \<notin> set (copies e l) \<longrightarrow> area (vmas s' x) = area (vmas s x) \<and> vm_next (vmas s' x) = vm_next (vmas s x)) \<and>
     (\<forall>x. refs X (ext s') x = refs X (ext s) x + files_refs (vma_files (vmas s) l) x) \<and>
     only_areas (s\<lparr>mmlist_nr := mmlist_nr s + 1\<rparr>) s'"

lemma vma_files_copies:
  "(\<forall>a \<in> set l. area (h' (the (vma_alloc e a))) = new_area X m (h a)) \<Longrightarrow> vma_files h' (copies e l) = vma_files h l"
proof (induction l)
  case (Cons a l)
  have "vm_file (h' (the (vma_alloc e a))) = vm_file (h a)" using Cons.prems by (simp add: area_def new_area_def)
  then show ?case using Cons by (simp add: copies_def vma_files_def map_filter_simps split: option.split)
qed (simp add: copies_def vma_files_def map_filter_simps)

context resource_lib
begin

lemma dup_mmap_eq:
  assumes m0: "t_mm (ktask s (me_of me s)) = Some m0" "m \<noteq> m0"
    and areas: "vma_chain (vmas s) (mmap (mmx s m0)) as" "distinct as" "fresh_areas e as"
  shows "\<exists>s'. dup_mmap X e me m s = Some (fst (dup_plan X e (vmas s) as), s') \<and>
    mmap_copied X e m (snd (dup_plan X e (vmas s) as)) s s'"
proof -
  let ?l = "snd (dup_plan X e (vmas s) as)" and ?r = "fst (dup_plan X e (vmas s) as)"
  let ?s1 = "upd_mmx m (\<lambda>x. x\<lparr>locked_vm := 0, mmap := None, mmap_cache := None, map_count := 0, rss := 0, cpu_vm_mask := 0\<rparr>) s"
  define s2 where "s2 = (upd_ext (mmlist_add X m m0) ?s1)\<lparr>mmlist_nr := mmlist_nr s + 1\<rparr>"
  have chain: "vma_chain (vmas s2) (mmap (mmx s2 m0)) as" using areas(1) m0(2) by (simp add: s2_def)
  have v: "vmas s2 = vmas s" by (simp add: s2_def)
  obtain ch s' where D: "dup_areas X e m (mmap (mmx s2 m0)) None 0 s2 = Some (?r, ch, s')" "dup_done X e m None ?l s2 s'"
    using dup_areas_eq [OF chain areas(2,3), of None m 0] unfolding v by auto
  let ?s' = "if ?r \<noteq> None then upd_ext (vm_unacct_memory X ch) s' else s'"
  have run: "dup_mmap X e me m s = Some (?r, ?s')"
    using D(1) m0 by (simp add: dup_mmap_def Let_def s2_def)
  have "mmap_copied X e m ?l s s'"
  proof -
    have "refs X (ext s2) = refs X (ext s)" by (simp add: s2_def frame)
    moreover have "\<forall>n. n \<noteq> m \<longrightarrow> mmx s2 n = mmx s n" "mmap (mmx s2 m) = None" "map_count (mmx s2 m) = 0"
      by (simp_all add: s2_def)
    moreover have "only_areas (s\<lparr>mmlist_nr := mmlist_nr s + 1\<rparr>) s2" by (simp add: only_areas_def s2_def)
    moreover have "only_areas s2 s'" using D(2) by (simp add: dup_done_def)
    ultimately show ?thesis
      using D(2) v only_areas_trans [of "s\<lparr>mmlist_nr := mmlist_nr s + 1\<rparr>" s2 s'] unfolding mmap_copied_def dup_done_def by simp
  qed
  then have "mmap_copied X e m ?l s ?s'"
    by (simp add: mmap_copied_def only_areas_def frame)
  with run show ?thesis by blast
qed

text \<open>The last user of a copy gives back its files.\<close>

lemma mmput_copy:
  assumes "mmap_copied X e m l s s'" and "mm_users (kmm s2 m) = 1" and "mmx s2 = mmx s'" and "vmas s2 = vmas s'"
  shows "refs X (ext (mmput X m s2)) x = refs X (ext s2) x - (refs X (ext s') x - refs X (ext s) x)"
proof -
  note C = assms(1) [unfolded mmap_copied_def]
  have "vma_files (vmas s') (copies e l) = vma_files (vmas s) l" using C by (intro vma_files_copies) auto
  moreover have "vma_chain (vmas s') (mmap (mmx s' m)) (copies e l)" using C by simp
  note exit_mmap [OF this]
  ultimately show ?thesis
    using C assms(2-4) by (simp add: mmput_def Let_def frame files_refs_def split: obj.splits)
qed

end

lemma mmput_users:
  "mm_users (kmm (mmput X m s) n) = (if n = m then mm_users (kmm s m) - 1 else mm_users (kmm s n))"
  "mm_users (kmm s m) \<noteq> 1 \<Longrightarrow> ext (mmput X m s) = ext s"
  by (simp_all add: mmput_def Let_def mmdrop_def upd_mm_def)

lemma mm_init_result:
  "fst (mm_init pgd m s) = pgd" "ext (snd (mm_init pgd m s)) = ext s" "vmas (snd (mm_init pgd m s)) = vmas s"
  "mm_users (kmm (snd (mm_init pgd m s)) n) = (if n = m then 1 else mm_users (kmm s n))"
  "mmap (mmx (snd (mm_init pgd m s)) n) = mmap (mmx s n)"
  "tasks (sch (ps (snd (mm_init pgd m s)))) = tasks (sch (ps s))" "rqs (sch (ps (snd (mm_init pgd m s)))) = rqs (sch (ps s))"
  by (simp_all add: mm_init_def Let_def)

text \<open>
  The caller's address space, as \<^verbatim>\<open>copy_mm\<close> relies on it: it is in use, its areas are a list, and the structures
  allocated for the copy are new.
\<close>

definition mm_ready :: "mm_env \<Rightarrow> cpu \<Rightarrow> ('l, 'b, 'g, 'v) ksys \<Rightarrow> bool" where
  "mm_ready e me s \<longleftrightarrow> (\<forall>m0. t_mm (ktask s (me_of me s)) = Some m0 \<longrightarrow>
     0 < mm_users (kmm s m0) \<and> mm_mem e \<noteq> Some m0 \<and>
     (\<exists>as. vma_chain (vmas s) (mmap (mmx s m0)) as \<and> distinct as \<and> fresh_areas (areas e) as))"

definition same_users :: "mm_env \<Rightarrow> ('l, 'b, 'g, 'v) ksys \<Rightarrow> ('l, 'b, 'g, 'v) ksys \<Rightarrow> bool" where
  "same_users e s s' \<longleftrightarrow> (\<forall>m. mm_mem e \<noteq> Some m \<longrightarrow> mm_users (kmm s' m) = mm_users (kmm s m))"

text \<open>
  The references a failed copy loses: none, or, when \<^verbatim>\<open>init_new_context\<close> has failed, those of the caller's areas to
  their files.
\<close>

definition context_loss :: "mm_env \<Rightarrow> u32 \<Rightarrow> cpu \<Rightarrow> ('l, 'b, 'g, 'v) ksys \<Rightarrow> (obj \<Rightarrow> int) \<Rightarrow> bool" where
  "context_loss e fl me s d \<longleftrightarrow> d = (\<lambda>_. 0) \<or>
     \<not> context_ok e \<and> fl AND CLONE_VM = 0 \<and>
     (\<exists>m0 as. t_mm (ktask s (me_of me s)) = Some m0 \<and> vma_chain (vmas s) (mmap (mmx s m0)) as \<and>
        d = files_refs (vma_files (vmas s) as))"

lemma me_of_upd [simp]:
  "me_of me (upd_ktask p f s) = me_of me s" "me_of me (upd_ps (upd_proc p g) s) = me_of me s"
  "me_of me (upd_kmm m h s) = me_of me s" "me_of me (upd_mmx m i s) = me_of me s"
  by (simp_all add: me_of_def current_task_def current_def)

context resource_lib
begin

text \<open>
  The branch in which \<^verbatim>\<open>init_new_context\<close> fails: the new structure is dropped with the list of areas it still shares
  with the caller's.
\<close>

lemma copy_mm_context:
  assumes p: "p \<noteq> me_of me s" and m0: "t_mm (ktask s (me_of me s)) = Some m0" and ne: "mm_mem e \<noteq> Some m0"
    and own: "fl AND CLONE_VM = 0" and alloc: "mm_mem e = Some m" "pgd_ok e" and ctx: "\<not> context_ok e"
  shows "\<exists>s1. copy_mm X e fl me p s = Some (Some ENOMEM, mmput X m s1) \<and> inner p s s1 \<and> same_files s s1 \<and> ext s1 = ext s \<and>
    vmas s1 = vmas s \<and> mmap (mmx s1 m) = mmap (mmx s m0) \<and> mm_users (kmm s1 m) = 1 \<and> same_users e s s1"
proof -
  let ?f = "\<lambda>r. r\<lparr>min_flt := 0, maj_flt := 0, cmin_flt := 0, cmaj_flt := 0, nswap := 0, cnswap := 0\<rparr>"
  let ?a = "upd_ktask p (\<lambda>t. t\<lparr>t_mm := None, t_active_mm := None\<rparr>) (upd_ps (upd_proc p ?f) s)"
  let ?b = "upd_mmx m (\<lambda>_. mmx ?a m0) (upd_kmm m (\<lambda>_. kmm ?a m0) ?a)"
  define s1 where "s1 = snd (mm_init True m ?b)"
  have mi: "mm_init True m ?b = (True, s1)" using mm_init_result(1) [of True m ?b] by (simp add: s1_def prod_eq_iff)
  note M = mm_init_result [of True m ?b, folded s1_def]
  have "copy_mm X e fl me p s = Some (Some ENOMEM, mmput X m s1)"
    using p m0 own alloc ctx mi by (simp add: copy_mm_def Let_def)
  moreover have "inner p s s1" "same_files s s1"
    by (simp_all add: s1_def mm_init_def inner_def kept_def same_task same_files_def)
  moreover have "ext s1 = ext s" "vmas s1 = vmas s" "mmap (mmx s1 m) = mmap (mmx s m0)" "mm_users (kmm s1 m) = 1" "same_users e s s1"
    using M(2-5) ne alloc(1) by (simp_all add: same_users_def)
  ultimately show ?thesis by blast
qed

text \<open>The branch in which the areas are copied.\<close>

lemma copy_mm_areas:
  assumes ready: "mm_ready e me s" and p: "p \<noteq> me_of me s" and m0: "t_mm (ktask s (me_of me s)) = Some m0"
    and own: "fl AND CLONE_VM = 0" and alloc: "mm_mem e = Some m" "pgd_ok e" and ctx: "context_ok e"
  shows "\<exists>s1 s2 l r. inner p s s2 \<and> same_proc p s s2 \<and> same_files s s2 \<and> refs X (ext s1) = refs X (ext s) \<and> mmap_copied X (areas e) m l s1 s2 \<and> same_users e s s2 \<and>
    mm_users (kmm s2 m) = 1 \<and>
    copy_mm X e fl me p s = Some (if r = None then (None, upd_ktask p (\<lambda>t. t\<lparr>t_mm := Some m, t_active_mm := Some m\<rparr>) s2)
      else (r, mmput X m s2))"
proof -
  let ?f = "\<lambda>r. r\<lparr>min_flt := 0, maj_flt := 0, cmin_flt := 0, cmaj_flt := 0, nswap := 0, cnswap := 0\<rparr>"
  let ?a = "upd_ktask p (\<lambda>t. t\<lparr>t_mm := None, t_active_mm := None\<rparr>) (upd_ps (upd_proc p ?f) s)"
  let ?b = "upd_mmx m (\<lambda>_. mmx ?a m0) (upd_kmm m (\<lambda>_. kmm ?a m0) ?a)"
  define s1 where "s1 = snd (mm_init True m ?b)"
  have mi: "mm_init True m ?b = (True, s1)" using mm_init_result(1) [of True m ?b] by (simp add: s1_def prod_eq_iff)
  note M = mm_init_result [of True m ?b, folded s1_def]
  obtain as where as: "vma_chain (vmas s) (mmap (mmx s m0)) as" "distinct as" "fresh_areas (areas e) as"
    and ne: "m \<noteq> m0"
    using ready m0 alloc(1) by (auto simp: mm_ready_def)
  have me: "me_of me s1 = me_of me s" using M(7) by (simp add: me_of_def current_task_def current_def)
  have s1: "ext s1 = ext s" "vmas s1 = vmas s" "mmap (mmx s1 m0) = mmap (mmx s m0)" "same_users e s s1" "mm_users (kmm s1 m) = 1"
    using M(2,3,4,5) ne alloc(1) by (simp_all add: same_users_def)
  have t0: "t_mm (ktask s1 (me_of me s1)) = Some m0" using M(6) p m0 unfolding me by simp
  let ?l = "snd (dup_plan X (areas e) (vmas s1) as)" and ?r = "fst (dup_plan X (areas e) (vmas s1) as)"
  obtain s2 where s2: "dup_mmap X (areas e) me m s1 = Some (?r, s2)" "mmap_copied X (areas e) m ?l s1 s2"
    using dup_mmap_eq [OF t0 ne] as s1 by metis
  have same: "ps s2 = ps s1" "res s2 = res s1" "total_forks s2 = total_forks s1" "same_files s1 s2"
    using s2(2) by (simp_all add: mmap_copied_def only_areas_def same_files_def)
  have "inner p s s1" "same_files s s1"
    by (simp_all add: s1_def mm_init_def inner_def kept_def same_task same_files_def)
  moreover have "same_proc p s s1"
    using same_proc_def [of p s s1] by (auto simp: s1_def mm_init_def)
  ultimately have "inner p s s2" "same_files s s2" "same_proc p s s2"
    using same same_proc_trans [OF _ same_proc_ps [OF same(1)]] by (simp_all add: inner_def kept_def same_files_def)
  moreover have "same_users e s s2" "mm_users (kmm s2 m) = 1" using same(1) s1 by (simp_all add: same_users_def)
  moreover have "copy_mm X e fl me p s = Some (if ?r = None
      then (None, upd_ktask p (\<lambda>t. t\<lparr>t_mm := Some m, t_active_mm := Some m\<rparr>) s2) else (?r, mmput X m s2))"
    using p m0 own alloc ctx s2(1) mi by (simp add: copy_mm_def Let_def)
  ultimately show ?thesis using s1(1) s2(2)
    by (intro exI [of _ s1] exI [of _ s2] exI [of _ ?l] exI [of _ ?r]) simp
qed

text \<open>A copy that fails has no effect on the users of the address spaces there are, and on the references but for that loss.\<close>

lemma copy_mm_failed:
  assumes ready: "mm_ready e me s" and p: "p \<noteq> me_of me s" and run: "copy_mm X e fl me p s = Some (Some err, s')"
  shows "\<exists>d. context_loss e fl me s d \<and> refs X (ext s') = (\<lambda>x. refs X (ext s) x - d x)" and "same_users e s s'"
proof -
  have "(\<exists>d. context_loss e fl me s d \<and> refs X (ext s') = (\<lambda>x. refs X (ext s) x - d x)) \<and> same_users e s s'"
  proof (cases "t_mm (ktask s (me_of me s)) = None \<or> fl AND CLONE_VM \<noteq> 0 \<or> mm_mem e = None \<or> \<not> pgd_ok e")
    case True
    then have "ext s' = ext s \<and> same_users e s s'"
      using run p by (auto simp: copy_mm_def Let_def mm_init_def same_users_def split: option.splits if_splits)
    then show ?thesis by (intro conjI exI [of _ "\<lambda>_. 0"]) (simp_all add: context_loss_def)
  next
    case False
    then obtain m0 m where m: "t_mm (ktask s (me_of me s)) = Some m0" "fl AND CLONE_VM = 0" "mm_mem e = Some m" "pgd_ok e" by auto
    show ?thesis
    proof (cases "context_ok e")
      case True
      from copy_mm_areas [OF ready p m True] obtain s1 s2 l r where
        A: "refs X (ext s1) = refs X (ext s)" "mmap_copied X (areas e) m l s1 s2" "same_users e s s2" "mm_users (kmm s2 m) = 1"
        "copy_mm X e fl me p s = Some (if r = None
           then (None, upd_ktask p (\<lambda>t. t\<lparr>t_mm := Some m, t_active_mm := Some m\<rparr>) s2) else (r, mmput X m s2))" by blast
      have s': "s' = mmput X m s2" using A(5) run by (simp split: if_splits)
      have "refs X (ext s') = (\<lambda>x. refs X (ext s) x - 0)" using mmput_copy [OF A(2,4) refl refl] A(1) by (auto simp: s' fun_eq_iff)
      moreover have "same_users e s s'" using A(3) m(3) by (auto simp: s' same_users_def mmput_users(1))
      ultimately show ?thesis by (intro conjI exI [of _ "\<lambda>_. 0"]) (simp_all add: context_loss_def)
    next
      case lost: False
      obtain as where as: "vma_chain (vmas s) (mmap (mmx s m0)) as" and ne: "mm_mem e \<noteq> Some m0"
        using ready m(1) by (auto simp: mm_ready_def)
      from copy_mm_context [OF p m(1) ne m(2-4) lost] obtain s1 where
        C: "copy_mm X e fl me p s = Some (Some ENOMEM, mmput X m s1)" "ext s1 = ext s" "vmas s1 = vmas s"
          "mmap (mmx s1 m) = mmap (mmx s m0)" "mm_users (kmm s1 m) = 1" "same_users e s s1" by blast
      have s': "s' = mmput X m s1" using C(1) run by simp
      have E: "refs X (exit_mmap X (mmap (mmx s m0)) (vmas s) v) x = refs X v x - files_refs (vma_files (vmas s) as) x" for v x
        using exit_mmap [OF as, of v x] by (simp add: files_refs_def)
      have "refs X (ext s') = (\<lambda>x. refs X (ext s) x - files_refs (vma_files (vmas s) as) x)"
        by (rule ext) (simp add: s' mmput_def Let_def frame C(2-5) E)
      moreover have "same_users e s s'" using C(6) m(3) by (auto simp: s' same_users_def mmput_users(1))
      moreover have "context_loss e fl me s (files_refs (vma_files (vmas s) as))"
        using lost m(1,2) as by (auto simp: context_loss_def)
      ultimately show ?thesis by blast
    qed
  qed
  then show "\<exists>d. context_loss e fl me s d \<and> refs X (ext s') = (\<lambda>x. refs X (ext s) x - d x)" "same_users e s s'" by blast+
qed

text \<open>A copy that the child leaves again, when the caller is not itself waited for by a \<^verbatim>\<open>vfork\<close>.\<close>

lemma exit_mm_undone:
  assumes ready: "mm_ready e me s" and p: "p \<noteq> me_of me s" and run: "copy_mm X e fl me p s = Some (None, s')"
    and s2: "ps s2 = ps s'" "mmx s2 = mmx s'" "vmas s2 = vmas s'" "vfork_done (res s2 (me_of me s)) = None" "me_of me s2 = me_of me s"
  shows "refs X (ext (exit_mm K W X me p s2)) x = refs X (ext s2) x - (refs X (ext s') x - refs X (ext s) x)"
    and "same_users e s (exit_mm K W X me p s2)"
proof -
  have rel: "mm_release K W me s2 = s2" using s2 by (simp add: mm_release_def)
  have leave: "\<exists>s4. exit_mm K W X me p s2 = mmput X m s4 \<and> mmx s4 = mmx s2 \<and> vmas s4 = vmas s2 \<and> ext s4 = ext s2 \<and>
      (\<forall>n. mm_users (kmm s4 n) = mm_users (kmm s2 n))" if t: "t_mm (ktask s2 p) = Some m" for m
  proof -
    let ?a = "upd_kmm m (\<lambda>x. x\<lparr>mm_count := mm_count x + 1\<rparr>) s2"
    let ?b = "if Some m \<noteq> t_active_mm (ktask ?a p) then upd_ps (upd_sch (\<lambda>c. c\<lparr>bug := True\<rparr>)) ?a else ?a"
    show ?thesis
      by (rule exI [of _ "upd_ktask p (\<lambda>t. t\<lparr>t_mm := None\<rparr>) ?b"]) (simp add: exit_mm_def rel Let_def t)
  qed
  have "refs X (ext (exit_mm K W X me p s2)) x = refs X (ext s2) x - (refs X (ext s') x - refs X (ext s) x) \<and>
    same_users e s (exit_mm K W X me p s2)"
  proof (cases "t_mm (ktask s (me_of me s)) = None \<or> fl AND CLONE_VM \<noteq> 0 \<or> mm_mem e = None \<or> \<not> pgd_ok e \<or> \<not> context_ok e")
    case True
    then consider "t_mm (ktask s (me_of me s)) = None" | m0 where "t_mm (ktask s (me_of me s)) = Some m0" "fl AND CLONE_VM \<noteq> 0"
      using run p by (auto simp: copy_mm_def Let_def mm_init_def split: option.splits if_splits)
    then show ?thesis
    proof cases
      case 1
      then have "t_mm (ktask s' p) = None" "ext s' = ext s" "kmm s' = kmm s"
        using run p by (auto simp: copy_mm_def Let_def)
      then show ?thesis using s2 by (simp add: exit_mm_def rel same_users_def)
    next
      case (2 m0)
      then have S: "t_mm (ktask s' p) = Some m0" "ext s' = ext s" "mms (sch (ps s')) = mms (sch (upd_sch (upd_mm m0 (\<lambda>x. x\<lparr>mm_users := mm_users x + 1\<rparr>)) (ps s)))"
        using run p by (auto simp: copy_mm_def Let_def)
      then have u: "mm_users (kmm s2 m0) = mm_users (kmm s m0) + 1" using s2(1) by simp
      have pos: "0 < mm_users (kmm s m0)" using ready 2 by (simp add: mm_ready_def)
      have "t_mm (ktask s2 p) = Some m0" using S s2(1) by simp
      from leave [OF this] obtain s4 where L: "exit_mm K W X me p s2 = mmput X m0 s4" "mmx s4 = mmx s2" "vmas s4 = vmas s2"
        "ext s4 = ext s2" "\<And>n. mm_users (kmm s4 n) = mm_users (kmm s2 n)" by blast
      have "ext (mmput X m0 s4) = ext s2" using mmput_users(2) [of s4 m0 X] u pos L by simp
      moreover have "same_users e s (exit_mm K W X me p s2)"
        using L u S(3) s2(1) by (auto simp: same_users_def mmput_users(1))
      ultimately show ?thesis using L S(2) by simp
    qed
  next
    case False
    then obtain m0 m where m: "t_mm (ktask s (me_of me s)) = Some m0" "fl AND CLONE_VM = 0" "mm_mem e = Some m" "pgd_ok e" "context_ok e" by auto
    from copy_mm_areas [OF ready p m] obtain s1 s3 l r where
      A: "refs X (ext s1) = refs X (ext s)" "mmap_copied X (areas e) m l s1 s3" "same_users e s s3" "mm_users (kmm s3 m) = 1"
      "copy_mm X e fl me p s = Some (if r = None
         then (None, upd_ktask p (\<lambda>t. t\<lparr>t_mm := Some m, t_active_mm := Some m\<rparr>) s3) else (r, mmput X m s3))" by blast
    have s': "s' = upd_ktask p (\<lambda>t. t\<lparr>t_mm := Some m, t_active_mm := Some m\<rparr>) s3" using A(5) run by (simp split: if_splits)
    have "t_mm (ktask s2 p) = Some m" using s2(1) by (simp add: s')
    from leave [OF this] obtain s4 where L: "exit_mm K W X me p s2 = mmput X m s4" "mmx s4 = mmx s2" "vmas s4 = vmas s2"
      "ext s4 = ext s2" "\<And>n. mm_users (kmm s4 n) = mm_users (kmm s2 n)" by blast
    have "mm_users (kmm s4 m) = 1" "mmx s4 = mmx s3" "vmas s4 = vmas s3" using L s2 A(4) by (simp_all add: s')
    from mmput_copy [OF A(2) this, of x] have "refs X (ext (mmput X m s4)) x = refs X (ext s2) x - (refs X (ext s') x - refs X (ext s) x)"
      using A(1) L(4) by (simp add: s')
    moreover have "same_users e s (exit_mm K W X me p s2)"
      using L A(3) m(3) s2(1) by (auto simp: same_users_def mmput_users(1) s')
    ultimately show ?thesis using L by simp
  qed
  then show "refs X (ext (exit_mm K W X me p s2)) x = refs X (ext s2) x - (refs X (ext s') x - refs X (ext s) x)"
    "same_users e s (exit_mm K W X me p s2)" by blast+
qed

end

end
