(* ===== verification/Fork_Failure.thy ===== *)
theory Fork_Failure imports Fork_Undo begin

text \<open>A fork that fails gives everything back.\<close>

section \<open>The copies and their ways back\<close>

lemma copy_files_inner:
  assumes "copy_files X alloc fl me p s = (r, s')"
  shows "inner p s s'" and "fss s' = fss s" and "sigs s' = sigs s" and "kmm s' = kmm s" and "mmx s' = mmx s" and "vmas s' = vmas s"
    and "fs_of (res s' p) = fs_of (res s p)" and "sig_of (res s' p) = sig_of (res s p)"
    and "r \<noteq> None \<Longrightarrow> ext s' = ext s" and "r \<noteq> None \<Longrightarrow> Some b \<noteq> alloc \<Longrightarrow> filess s' b = filess s b"
    and "ktask s' = ktask s"
  using assms by (auto simp: copy_files_def Let_def inner_def kept_def same_task split: option.splits if_splits prod.splits)

lemma copy_fs_inner:
  assumes "copy_fs X alloc fl me p s = (r, s')"
  shows "inner p s s'" and "filess s' = filess s" and "sigs s' = sigs s" and "kmm s' = kmm s" and "mmx s' = mmx s" and "vmas s' = vmas s"
    and "files_of (res s' p) = files_of (res s p)" and "sig_of (res s' p) = sig_of (res s p)"
    and "r \<Longrightarrow> ext s' = ext s" and "r \<Longrightarrow> fss s' = fss s" and "ktask s' = ktask s"
proof -
  have "inner p s s' \<and> filess s' = filess s \<and> sigs s' = sigs s \<and> kmm s' = kmm s \<and> mmx s' = mmx s \<and> vmas s' = vmas s \<and>
    files_of (res s' p) = files_of (res s p) \<and> sig_of (res s' p) = sig_of (res s p) \<and> (r \<longrightarrow> ext s' = ext s \<and> fss s' = fss s) \<and>
    ktask s' = ktask s"
  proof (cases "fl AND CLONE_FS \<noteq> 0")
    case True
    then show ?thesis using assms by (auto simp: copy_fs_def inner_def kept_def same_task)
  next
    case False
    define c where "c = copy_fs_struct X alloc (the (fs_of (res s (me_of me s)))) s"
    have F: "ps (snd c) = ps s" "res (snd c) = res s" "filess (snd c) = filess s" "sigs (snd c) = sigs s" "mmx (snd c) = mmx s"
      "vmas (snd c) = vmas s" "total_forks (snd c) = total_forks s" by (simp_all add: c_def)
    have none: "fst c = None \<Longrightarrow> snd c = s" by (auto simp: c_def copy_fs_struct_def Let_def split: option.splits)
    have "s' = upd_res p (\<lambda>r. r\<lparr>fs_of := fst c\<rparr>) (snd c)" "r \<longleftrightarrow> fst c = None"
      using assms False by (auto simp: copy_fs_def Let_def c_def [symmetric] split: prod.splits)
    then show ?thesis using F none by (auto simp: inner_def kept_def same_task)
  qed
  then show "inner p s s'" "filess s' = filess s" "sigs s' = sigs s" "kmm s' = kmm s" "mmx s' = mmx s" "vmas s' = vmas s"
    "files_of (res s' p) = files_of (res s p)" "sig_of (res s' p) = sig_of (res s p)" "r \<Longrightarrow> ext s' = ext s" "r \<Longrightarrow> fss s' = fss s"
    "ktask s' = ktask s"
    by blast+
qed

lemma copy_sighand_inner:
  assumes "copy_sighand alloc fl me p s = (r, s')"
  shows "inner p s s'" and "filess s' = filess s" and "fss s' = fss s" and "kmm s' = kmm s" and "mmx s' = mmx s" and "vmas s' = vmas s"
    and "files_of (res s' p) = files_of (res s p)" and "fs_of (res s' p) = fs_of (res s p)"
    and "ext s' = ext s" and "r \<Longrightarrow> sigs s' = sigs s" and "ktask s' = ktask s"
  using assms by (auto simp: copy_sighand_def Let_def inner_def kept_def same_task split: option.splits if_splits)

lemma drop_sighand_inner:
  "inner p s (drop_sighand X p s)" "filess (drop_sighand X p s) = filess s" "fss (drop_sighand X p s) = fss s"
  "ext (drop_sighand X p s) = ext s" "files_of (res (drop_sighand X p s) p) = files_of (res s p)"
  "fs_of (res (drop_sighand X p s) p) = fs_of (res s p)" "kmm (drop_sighand X p s) = kmm s"
  by (simp_all add: drop_sighand_def inner_def kept_def same_task)

lemma exit_fs_inner:
  "inner p s (exit_fs X p s)" "filess (exit_fs X p s) = filess s" "sigs (exit_fs X p s) = sigs s"
  "files_of (res (exit_fs X p s) p) = files_of (res s p)" "kmm (exit_fs X p s) = kmm s"
  by (simp_all add: exit_fs_def inner_def kept_def same_task split: option.split)

lemma exit_files_inner:
  "inner p s (exit_files X p s)" "fss (exit_files X p s) = fss s" "sigs (exit_files X p s) = sigs s" "kmm (exit_files X p s) = kmm s"
  by (simp_all add: exit_files_def inner_def kept_def same_task split: option.split)

section \<open>All copies\<close>

text \<open>
  What a fork relies on: the structures of the caller (its table of files, directories, handlers, address space) are in
  use and well formed, those allocated for the child are new. Nothing is said of which allocations and calls succeed.
\<close>

definition fork_ready :: "fork_env \<Rightarrow> cpu \<Rightarrow> ('l, 'b, 'g, 'v) ksys \<Rightarrow> bool" where
  "fork_ready e me s \<longleftrightarrow>
     (let r = res s (me_of me s) in
      mm_ready (mm_answers e) me s \<and>
      (\<forall>a. files_of r = Some a \<longrightarrow> files_count (filess s a) \<noteq> 0 \<and> files_ok (filess s a) \<and> files_mem e \<noteq> Some a) \<and>
      (\<exists>f. fs_of r = Some f \<and> fs_count (fss s f) \<noteq> 0) \<and> (\<exists>g. sig_of r = Some g \<and> sig_count (sigs s g) \<noteq> 0))"

text \<open>The structures that were there before have the contents, or the users, they had.\<close>

definition restored :: "fork_env \<Rightarrow> ('l, 'b, 'g, 'v) ksys \<Rightarrow> ('l, 'b, 'g, 'v) ksys \<Rightarrow> bool" where
  "restored e s s' \<longleftrightarrow>
     (\<forall>b. files_mem e \<noteq> Some b \<longrightarrow> filess s' b = filess s b) \<and> (\<forall>b. fs_mem e \<noteq> Some b \<longrightarrow> fss s' b = fss s b) \<and>
     (\<forall>b. sig_mem e \<noteq> Some b \<longrightarrow> sigs s' b = sigs s b) \<and> same_users (mm_answers e) s s'"

text \<open>The references, up to a loss \<open>d\<close>.\<close>

definition given_back :: "'v xlib \<Rightarrow> fork_env \<Rightarrow> tptr \<Rightarrow> (obj \<Rightarrow> int) \<Rightarrow> ('l, 'b, 'g, 'v) ksys \<Rightarrow> ('l, 'b, 'g, 'v) ksys \<Rightarrow> bool" where
  "given_back X e p d s s' \<longleftrightarrow> inner p s s' \<and> refs X (ext s') = (\<lambda>x. refs X (ext s) x - d x) \<and> restored e s s'"

lemma mm_ready_cong:
  "rqs (sch (ps s')) = rqs (sch (ps s)) \<Longrightarrow> t_mm (ktask s' (me_of me s)) = t_mm (ktask s (me_of me s)) \<Longrightarrow>
    kmm s' = kmm s \<Longrightarrow> mmx s' = mmx s \<Longrightarrow> vmas s' = vmas s \<Longrightarrow> mm_ready e me s' = mm_ready e me s"
  by (simp add: mm_ready_def me_of_def current_task_def current_def)

lemma context_loss_cong:
  assumes "t_mm (ktask s' (me_of me s)) = t_mm (ktask s (me_of me s))" and "rqs (sch (ps s')) = rqs (sch (ps s))"
    and "mmx s' = mmx s" and "vmas s' = vmas s"
  shows "context_loss e fl me s' d = context_loss e fl me s d"
  using assms by (simp add: context_loss_def me_of_def current_task_def current_def)

lemma no_loss: "context_loss e fl me s (\<lambda>_. 0)"
  by (simp add: context_loss_def)

context resource_lib
begin

lemma copy_mm_inner:
  assumes ready: "mm_ready e me s" and p: "p \<noteq> me_of me s" and run: "copy_mm X e fl me p s = Some (r, s')"
  shows "inner p s s'" and "same_files s s'"
proof -
  have "inner p s s' \<and> same_files s s'"
  proof (cases "t_mm (ktask s (me_of me s)) = None \<or> fl AND CLONE_VM \<noteq> 0 \<or> mm_mem e = None \<or> \<not> pgd_ok e")
    case True
    then show ?thesis using run p
      by (auto simp: copy_mm_def Let_def mm_init_def inner_def kept_def same_task same_files_def split: option.splits if_splits)
  next
    case False
    then obtain m0 m where m: "t_mm (ktask s (me_of me s)) = Some m0" "fl AND CLONE_VM = 0" "mm_mem e = Some m" "pgd_ok e" by auto
    have ne: "mm_mem e \<noteq> Some m0" using ready m(1) by (simp add: mm_ready_def)
    show ?thesis
    proof (cases "context_ok e")
      case lost: False
      from copy_mm_context [OF p m(1) ne m(2-4) lost] obtain s1 where
        C: "copy_mm X e fl me p s = Some (Some ENOMEM, mmput X m s1)" "inner p s s1" "same_files s s1" by blast
      then show ?thesis using run mmput_inner(1) [of p s1 X m] mmput_inner(2) [of s1 X m] inner_trans by (auto simp: same_files_def)
    next
      case True
    from copy_mm_areas [OF ready p m True] obtain s2 u where
      A: "inner p s s2" "same_files s s2"
      "copy_mm X e fl me p s = Some (if u = None
         then (None, upd_ktask p (\<lambda>t. t\<lparr>t_mm := Some m, t_active_mm := Some m\<rparr>) s2) else (u, mmput X m s2))" by blast
    have "same_files s2 (upd_ktask p g s2)" for g by (simp add: same_files_def)
    then have "inner p s2 s' \<and> same_files s2 s'" using A(3) run inner_steps(11) mmput_inner by (auto split: if_splits)
    then show ?thesis using A(1,2) inner_trans by (auto simp: same_files_def)
    qed
  qed
  then show "inner p s s'" "same_files s s'" by blast+
qed

text \<open>Each way back, from a state \<open>t\<close> in which the copies made after it have been dropped.\<close>

lemma back_files:
  assumes c1: "copy_files X (files_mem e) fl me p s = (None, s1)" and ready: "fork_ready e me s"
    and same: "files_of (res s p) = files_of (res s (me_of me s))"
    and t: "inner p s t" "filess t = filess s1" "files_of (res t p) = files_of (res s1 p)" "refs X (ext t) = (\<lambda>x. refs X (ext s1) x - d x)"
      "\<forall>b. fs_mem e \<noteq> Some b \<longrightarrow> fss t b = fss s b" "\<forall>b. sig_mem e \<noteq> Some b \<longrightarrow> sigs t b = sigs s b"
      "same_users (mm_answers e) s t"
  shows "\<exists>u. bad_fork_cleanup_files P X p t = bad_fork_cleanup P X p u \<and> given_back X e p d s u"
proof -
  have old: "files_of (res s (me_of me s)) = Some a \<Longrightarrow> files_count (filess s a) \<noteq> 0 \<and> files_ok (filess s a) \<and> files_mem e \<noteq> Some a" for a
    using ready by (simp add: fork_ready_def Let_def)
  note U = files_undone [OF c1 refl same old t(2,3)]
  have "refs X (ext (exit_files X p t)) = (\<lambda>x. refs X (ext s) x - d x)" using U(1) t(4) by (simp add: fun_eq_iff)
  moreover have "restored e s (exit_files X p t)"
    using U(2) t(5-7) by (auto simp: restored_def same_users_def exit_files_inner)
  moreover have "inner p s (exit_files X p t)" using t(1) exit_files_inner(1) inner_trans by blast
  ultimately show ?thesis unfolding given_back_def bad_fork_cleanup_files_def by blast
qed

lemma back_fs:
  assumes c1: "copy_files X (files_mem e) fl me p s = (None, s1)" and c2: "copy_fs X (fs_mem e) fl me p s1 = (False, s2)"
    and ready: "fork_ready e me s" and p: "p \<noteq> me_of me s"
    and same: "files_of (res s p) = files_of (res s (me_of me s))" "fs_of (res s p) = fs_of (res s (me_of me s))"
    and t: "inner p s t" "filess t = filess s1" "files_of (res t p) = files_of (res s1 p)" "refs X (ext t) = (\<lambda>x. refs X (ext s2) x - d x)"
      "fss t = fss s2" "fs_of (res t p) = fs_of (res s2 p)" "\<forall>b. sig_mem e \<noteq> Some b \<longrightarrow> sigs t b = sigs s b"
      "same_users (mm_answers e) s t"
  shows "\<exists>u. bad_fork_cleanup_fs P X p t = bad_fork_cleanup P X p u \<and> given_back X e p d s u"
proof -
  note F1 = copy_files_inner [OF c1]
  have me1: "me_of me s1 = me_of me s" "res s1 (me_of me s) = res s (me_of me s)"
    using F1(1) p by (auto simp: inner_me inner_def kept_def)
  obtain f where f: "fs_of (res s (me_of me s)) = Some f" "fs_count (fss s f) \<noteq> 0"
    using ready unfolding fork_ready_def Let_def by blast
  have "fs_of (res s1 (me_of me s1)) = Some f" "fs_of (res s1 p) = Some f" "fs_count (fss s1 f) \<noteq> 0"
    using me1 f F1(2,7) same by simp_all
  note U = fs_undone [OF c2 this t(5,6)]
  show ?thesis unfolding bad_fork_cleanup_fs_def
  proof (rule back_files [OF c1 ready same(1)])
    show "inner p s (exit_fs X p t)" using t(1) exit_fs_inner(1) inner_trans by blast
    show "refs X (ext (exit_fs X p t)) = (\<lambda>x. refs X (ext s1) x - d x)" using U(1) t(4) by (simp add: fun_eq_iff)
    show "\<forall>b. fs_mem e \<noteq> Some b \<longrightarrow> fss (exit_fs X p t) b = fss s b" using U(2) F1(2) by auto
    show "same_users (mm_answers e) s (exit_fs X p t)" using t(8) by (simp add: same_users_def exit_fs_inner)
  qed (simp_all add: exit_fs_inner t(2,3,7))
qed

lemma back_sighand:
  assumes c1: "copy_files X (files_mem e) fl me p s = (None, s1)" and c2: "copy_fs X (fs_mem e) fl me p s1 = (False, s2)"
    and c3: "copy_sighand (sig_mem e) fl me p s2 = (False, s3)"
    and ready: "fork_ready e me s" and p: "p \<noteq> me_of me s"
    and same: "files_of (res s p) = files_of (res s (me_of me s))" "fs_of (res s p) = fs_of (res s (me_of me s))"
      "sig_of (res s p) = sig_of (res s (me_of me s))"
    and t: "inner p s t" "same_files s3 t" "refs X (ext t) = (\<lambda>x. refs X (ext s3) x - d x)" "same_users (mm_answers e) s t"
  shows "\<exists>u. bad_fork_cleanup_sighand P X p t = bad_fork_cleanup P X p u \<and> given_back X e p d s u"
proof -
  note F1 = copy_files_inner [OF c1] and F2 = copy_fs_inner [OF c2] and F3 = copy_sighand_inner [OF c3]
  have "inner p s s2" using F1(1) F2(1) inner_trans by blast
  then have me2: "me_of me s2 = me_of me s" "res s2 (me_of me s) = res s (me_of me s)"
    using p by (auto simp: inner_me inner_def kept_def)
  obtain g where g: "sig_of (res s (me_of me s)) = Some g" "sig_count (sigs s g) \<noteq> 0"
    using ready unfolding fork_ready_def Let_def by blast
  have S: "sig_of (res s2 (me_of me s2)) = Some g" "sig_of (res s2 p) = Some g" "sig_count (sigs s2 g) \<noteq> 0"
    using me2 g F1(3,8) F2(3,8) same(3) by simp_all
  have of_p: "sig_of (res t p) = sig_of (res s3 p)" "sigs t = sigs s3" "res t = res s3" "filess t = filess s3" "fss t = fss s3"
    using t(2) by (simp_all add: same_files_def)
  have U: "sigs (drop_sighand X p t) b = sigs s2 b" if "Some b \<noteq> sig_mem e" for b
    by (rule sighand_undone [OF c3 S of_p(2,1) that])
  show ?thesis unfolding bad_fork_cleanup_sighand_def
  proof (rule back_fs [OF c1 c2 ready p same(1,2)])
    show "inner p s (drop_sighand X p t)" using t(1) drop_sighand_inner(1) inner_trans by blast
    show "\<forall>b. sig_mem e \<noteq> Some b \<longrightarrow> sigs (drop_sighand X p t) b = sigs s b" using U F1(3) F2(3) by auto
    show "same_users (mm_answers e) s (drop_sighand X p t)" using t(4) by (simp add: same_users_def drop_sighand_inner)
    show "files_of (res (drop_sighand X p t) p) = files_of (res s1 p)" "fs_of (res (drop_sighand X p t) p) = fs_of (res s2 p)"
      using F2(7) F3(7,8) of_p by (simp_all add: drop_sighand_inner)
    show "filess (drop_sighand X p t) = filess s1" "fss (drop_sighand X p t) = fss s2" using F2(2) F3(2,3) of_p by (simp_all add: drop_sighand_inner)
    show "refs X (ext (drop_sighand X p t)) = (\<lambda>x. refs X (ext s2) x - d x)" using t(3) F3(9) by (simp add: drop_sighand_inner)
  qed
qed

text \<open>The last two ways back also leave the address space.\<close>

lemma back_mm:
  assumes c1: "copy_files X (files_mem e) fl me p s = (None, s1)" and c2: "copy_fs X (fs_mem e) fl me p s1 = (False, s2)"
    and c3: "copy_sighand (sig_mem e) fl me p s2 = (False, s3)"
    and ready: "fork_ready e me s" and p: "p \<noteq> me_of me s"
    and same: "files_of (res s p) = files_of (res s (me_of me s))" "fs_of (res s p) = fs_of (res s (me_of me s))"
      "sig_of (res s p) = sig_of (res s (me_of me s))"
    and i3: "inner p s s3" and users3: "same_users (mm_answers e) s s3" and ready3: "mm_ready (mm_answers e) me s3"
    and c4: "copy_mm X (mm_answers e) fl me p s3 = Some (None, s4)" and t: "refs X v = refs X (ext s4)"
    and vfork: "vfork_done (res s (me_of me s)) = None"
  shows "\<exists>u. bad_fork_cleanup_mm P W X me p (upd_ext (\<lambda>_. v) s4) = bad_fork_cleanup P X p u \<and> given_back X e p (\<lambda>_. 0) s u"
proof -
  let ?t = "upd_ext (\<lambda>_. v) s4"
  have me3: "me_of me s3 = me_of me s" "p \<noteq> me_of me s3" using i3 p by (auto simp: inner_me)
  note I4 = copy_mm_inner [OF ready3 me3(2) c4]
  have i4: "inner p s ?t" using i3 I4(1) inner_steps(1) inner_trans by metis
  have res: "res ?t = res s4" "res s4 = res s3" using I4(2) by (simp_all add: same_files_def)
  have vf: "vfork_done (res ?t (me_of me s3)) = None"
    using vfork i4 p me3(1) unfolding inner_def kept_def by simp
  have me4: "me_of me ?t = me_of me s3" using inner_me [OF i4] me3(1) by simp
  note U = exit_mm_undone [OF ready3 me3(2) c4 _ _ _ vf me4, where K = "pk P" and W = W]
  note V = exit_mm_inner [of ?t me, unfolded me4, OF vf, where p = p and K = "pk P" and W = W and X = X]
  show ?thesis unfolding bad_fork_cleanup_mm_def
  proof (rule back_sighand [OF c1 c2 c3 ready p same])
    show "inner p s (exit_mm (pk P) W X me p ?t)" by (rule inner_trans [OF i4 V(1)])
    show "same_files s3 (exit_mm (pk P) W X me p ?t)" using V(2) I4(2) by (simp add: same_files_def)
    show "refs X (ext (exit_mm (pk P) W X me p ?t)) = (\<lambda>x. refs X (ext s3) x - 0)" using U(1) t by (simp add: fun_eq_iff)
    show "same_users (mm_answers e) s (exit_mm (pk P) W X me p ?t)" using U(2) users3 by (simp add: same_users_def)
  qed
qed

lemma fork_resources_failed:
  assumes ready: "fork_ready e me s" and vfork: "vfork_done (res s (me_of me s)) = None" and p: "p \<noteq> me_of me s"
    and same: "files_of (res s p) = files_of (res s (me_of me s))" "fs_of (res s p) = fs_of (res s (me_of me s))"
      "sig_of (res s p) = sig_of (res s (me_of me s))"
    and run: "fork_resources P W X e fl me p s = Some (Some err, s')"
  shows "\<exists>t d. s' = bad_fork_cleanup P X p t \<and> given_back X e p d s t \<and> context_loss (mm_answers e) fl me s d"
proof -
  obtain r1 s1 r2 s2 r3 s3 where c1: "copy_files X (files_mem e) fl me p s = (r1, s1)"
    and c2: "copy_fs X (fs_mem e) fl me p s1 = (r2, s2)" and c3: "copy_sighand (sig_mem e) fl me p s2 = (r3, s3)" by fastforce
  note F1 = copy_files_inner [OF c1] and F2 = copy_fs_inner [OF c2] and F3 = copy_sighand_inner [OF c3]
  have i2: "inner p s s2" using F1(1) F2(1) inner_trans by blast
  have i3: "inner p s s3" using i2 F3(1) inner_trans by blast
  have me3: "p \<noteq> me_of me s3" using i3 p by (simp add: inner_me)
  have kt: "ktask s3 = ktask s" "rqs (sch (ps s3)) = rqs (sch (ps s))" "kmm s3 = kmm s" "mmx s3 = mmx s" "vmas s3 = vmas s"
    using F1 F2 F3 i3 by (simp_all add: inner_def kept_def)
  have ready3: "mm_ready (mm_answers e) me s3"
    using ready mm_ready_cong [OF kt(2) _ kt(3-5), of me "mm_answers e"] kt(1) by (simp add: fork_ready_def Let_def)
  have users3: "same_users (mm_answers e) s s3" by (simp add: same_users_def kt)
  consider (files) "r1 \<noteq> None" | (fs) "r1 = None" "r2" | (sig) "r1 = None" "\<not> r2" "r3" | (mm) "r1 = None" "\<not> r2" "\<not> r3" by blast
  then show ?thesis
  proof cases
    case files
    have "given_back X e p (\<lambda>_. 0) s s1" using F1 files by (simp add: given_back_def restored_def same_users_def)
    moreover have "s' = bad_fork_cleanup P X p s1" using run c1 files by (auto simp: fork_resources_def)
    ultimately show ?thesis using no_loss by blast
  next
    case fs
    note c1 = c1 [unfolded fs]
    have s': "s' = bad_fork_cleanup_files P X p s2" using run c1 c2 fs by (simp add: fork_resources_def)
    have "\<exists>u. bad_fork_cleanup_files P X p s2 = bad_fork_cleanup P X p u \<and> given_back X e p (\<lambda>_. 0) s u"
      by (rule back_files [OF c1 ready same(1) i2]) (use F1 F2 fs(2) in \<open>simp_all add: same_users_def\<close>)
    then show ?thesis unfolding s' using no_loss by blast
  next
    case sig
    have c1': "copy_files X (files_mem e) fl me p s = (None, s1)" and c2': "copy_fs X (fs_mem e) fl me p s1 = (False, s2)"
      using c1 c2 sig by simp_all
    have s': "s' = bad_fork_cleanup_fs P X p s3" using run c1' c2' c3 sig by (simp add: fork_resources_def)
    have "\<exists>u. bad_fork_cleanup_fs P X p s3 = bad_fork_cleanup P X p u \<and> given_back X e p (\<lambda>_. 0) s u"
      by (rule back_fs [OF c1' c2' ready p same(1,2) i3]) (use F1 F2 F3 sig(3) in \<open>simp_all add: same_users_def\<close>)
    then show ?thesis unfolding s' using no_loss by blast
  next
    case mm
    have c1': "copy_files X (files_mem e) fl me p s = (None, s1)" and c2': "copy_fs X (fs_mem e) fl me p s1 = (False, s2)"
      and c3': "copy_sighand (sig_mem e) fl me p s2 = (False, s3)" using c1 c2 c3 mm by simp_all
    have go: "Option.bind (copy_mm X (mm_answers e) fl me p s3) (\<lambda>(err, s).
        if err \<noteq> None then Some (Some ENOMEM, bad_fork_cleanup_sighand P X p s)
        else let (failed, v) = copy_namespace X fl p (ext s); s = upd_ext (\<lambda>_. v) s in
          if failed then Some (Some ENOMEM, bad_fork_cleanup_mm P W X me p s)
          else if thread_error e \<noteq> None then Some (thread_error e, bad_fork_cleanup_namespace P W X me p s)
          else Some (None, upd_res p (\<lambda>r. r\<lparr>semundo := None\<rparr>) s)) = Some (Some err, s')"
      using run c1' c2' c3' by (simp add: fork_resources_def)
    then obtain r4 s4 where c4: "copy_mm X (mm_answers e) fl me p s3 = Some (r4, s4)" by (auto simp: bind_eq_Some_conv)
    note I4 = copy_mm_inner [OF ready3 me3 c4]
    show ?thesis
    proof (cases r4)
      case (Some er)
      note N = copy_mm_failed [OF ready3 me3 c4 [unfolded Some]]
      have s': "s' = bad_fork_cleanup_sighand P X p s4" using go c4 Some by simp
      have i4: "inner p s s4" by (rule inner_trans [OF i3 I4(1)])
      have u4: "same_users (mm_answers e) s s4" using N(2) users3 by (simp add: same_users_def)
      have t: "t_mm (ktask s3 (me_of me s)) = t_mm (ktask s (me_of me s))" using kt(1) by simp
      from N(1) obtain d where d: "context_loss (mm_answers e) fl me s d" "refs X (ext s4) = (\<lambda>x. refs X (ext s3) x - d x)"
        unfolding context_loss_cong [OF t kt(2,4,5)] by blast
      show ?thesis unfolding s' using back_sighand [OF c1' c2' c3' ready p same i4 I4(2) d(2) u4] d(1) by blast
    next
      case None
      note c4 = c4 [unfolded None]
      note B = back_mm [OF c1' c2' c3' ready p same i3 users3 ready3 c4, where P = P and W = W]
      obtain nf v where ns: "copy_namespace X fl p (ext s4) = (nf, v)" by fastforce
      show ?thesis
      proof (cases nf)
        case True
        have "s' = bad_fork_cleanup_mm P W X me p (upd_ext (\<lambda>_. v) s4)" using go c4 ns True by simp
        moreover have "refs X v = refs X (ext s4)" using namespace_failed ns True by simp
        ultimately show ?thesis using B [of v] vfork no_loss by metis
      next
        case False
        have "s' = bad_fork_cleanup_mm P W X me p (upd_ext (exit_namespace X p) (upd_ext (\<lambda>_. v) s4))"
          using go c4 ns False by (simp add: bad_fork_cleanup_namespace_def Let_def split: if_splits)
        moreover have "upd_ext (exit_namespace X p) (upd_ext (\<lambda>_. v) s4) = upd_ext (\<lambda>_. exit_namespace X p v) s4"
          by (simp add: upd_ext_def)
        moreover have "refs X (exit_namespace X p v) = refs X (ext s4)" using namespace_undone ns False by simp
        ultimately show ?thesis using B [of "exit_namespace X p v"] vfork no_loss by metis
      qed
    qed
  qed
qed

end

end
