(* ===== verification/Fork_Return.thy ===== *)
theory Fork_Return imports Fork_Failure begin

text \<open>\<^verbatim>\<open>do_fork\<close> that returns an error, from the first test to the last way back.\<close>

section \<open>Before the resources are copied\<close>

text \<open>The new task \<open>p\<close> has the resources of the caller; nothing else has changed but the users and the references.\<close>

definition begun :: "tptr \<Rightarrow> tptr \<Rightarrow> ('l, 'b, 'g, 'v) ksys \<Rightarrow> ('l, 'b, 'g, 'v) ksys \<Rightarrow> bool" where
  "begun p cur s t \<longleftrightarrow> kept p s t \<and> fss t = fss s \<and> filess t = filess s \<and> sigs t = sigs s \<and> mmx t = mmx s \<and> vmas t = vmas s \<and>
     kmm t = kmm s \<and> user_of (procs (ps t) p) = user_of (procs (ps s) cur) \<and>
     exec_domain (res t p) = exec_domain (res s cur) \<and> binfmt_module (res t p) = binfmt_module (res s cur) \<and>
     files_of (res t p) = files_of (res s cur) \<and> fs_of (res t p) = fs_of (res s cur) \<and> sig_of (res t p) = sig_of (res s cur)"

text \<open>What does not change any of this.\<close>

definition calm :: "tptr \<Rightarrow> ('l, 'b, 'g, 'v) ksys \<Rightarrow> ('l, 'b, 'g, 'v) ksys \<Rightarrow> bool" where
  "calm p t t' \<longleftrightarrow> inner p t t' \<and> ext t' = ext t \<and> fss t' = fss t \<and> filess t' = filess t \<and> sigs t' = sigs t \<and> mmx t' = mmx t \<and>
     vmas t' = vmas t \<and> kmm t' = kmm t \<and> files_of (res t' p) = files_of (res t p) \<and> fs_of (res t' p) = fs_of (res t p) \<and>
     sig_of (res t' p) = sig_of (res t p)"

lemma calm_trans: "calm p s s' \<Longrightarrow> calm p s' s'' \<Longrightarrow> calm p s s''"
  unfolding calm_def using inner_trans by auto

lemma calm_refl: "calm p s s"
  by (simp add: calm_def inner_refl)

lemma begun_calm: "begun p cur s t \<Longrightarrow> calm p t t' \<Longrightarrow> begun p cur s t'"
  unfolding begun_def calm_def inner_def using kept_trans by auto

lemma dup_task_begun:
  assumes "p \<noteq> cur"
  shows "begun p cur s (dup_task cur p s)" and "ext (dup_task cur p s) = ext s" and "users (ps (dup_task cur p s)) = users (ps s)"
  using assms by (simp_all add: dup_task_def Let_def begun_def kept_def same_task upd_link_def)

lemma ask_calm: "calm p s (snd (ask K me cap s))" if "p \<noteq> me_of me s"
  using that by (auto simp: ask_def capable_def calm_def inner_def kept_def same_task split: prod.split)

lemma over_limit_calm:
  assumes "p \<noteq> me_of me s"
  shows "calm p s (snd (over_limit K X me p s))"
proof -
  have "p \<noteq> me_of me (snd (ask K me cap s))" for cap
    using assms ask_calm [OF assms, of K cap] by (auto simp: calm_def inner_me)
  then have "calm p s (snd (ask K me c' (snd (ask K me c s))))" for c c'
    using calm_trans [OF ask_calm [OF assms] ask_calm] by blast
  moreover have "snd (over_limit K X me p s) \<in> {s, snd (ask K me CAP_SYS_ADMIN s),
      snd (ask K me CAP_SYS_RESOURCE (snd (ask K me CAP_SYS_ADMIN s)))}"
    by (simp add: over_limit_def case_prod_beta' Let_def)
  ultimately show ?thesis using ask_calm [OF assms] calm_refl by auto
qed

lemma ask_keeps:
  "pids (snd (ask K me cap s)) = pids s" "procs (ps (snd (ask K me cap s))) = procs (ps s)" "tree (ps (snd (ask K me cap s))) = tree (ps s)"
  "p \<noteq> me_of me s \<Longrightarrow> ktask (snd (ask K me cap s)) p = ktask s p" "me_of me (snd (ask K me cap s)) = me_of me s"
  by (auto simp: ask_def capable_def me_of_def current_task_def current_def split: prod.split)

lemma over_limit_keeps:
  "pids (snd (over_limit K X me p s)) = pids s" "p \<noteq> me_of me s \<Longrightarrow> ktask (snd (over_limit K X me p s)) p = ktask s p"
  by (simp_all add: over_limit_def case_prod_beta' Let_def ask_keeps)

lemma copy_flags_calm: "calm p s (copy_flags fl p s)"
  by (simp add: copy_flags_def Let_def calm_def inner_def kept_def same_task)

lemma calm_fold: "calm p s t \<Longrightarrow> (\<And>i t. calm p t (g i t)) \<Longrightarrow> calm p s (fold g is t)"
proof (induction "is" arbitrary: t)
  case (Cons i "is")
  then show ?case using calm_trans [of p s t "g i t"] by simp
qed simp

lemma calm_res:
  "calm p s t \<Longrightarrow> (\<And>r. exec_domain (f r) = exec_domain r \<and> binfmt_module (f r) = binfmt_module r \<and>
     files_of (f r) = files_of r \<and> fs_of (f r) = fs_of r \<and> sig_of (f r) = sig_of r) \<Longrightarrow> calm p s (upd_res p f t)"
  by (erule calm_trans) (simp add: calm_def inner_def kept_def same_task)

lemma calm_proc: "calm p s t \<Longrightarrow> (\<And>r. user_of (f r) = user_of r) \<Longrightarrow> calm p s (upd_ps (upd_proc p f) t)"
  by (erule calm_trans) (simp add: calm_def inner_def kept_def same_task)

lemma calm_task:
  "calm p s t \<Longrightarrow> calm p s (upd_ktask p f t)" "calm p s t \<Longrightarrow> calm p s (t\<lparr>pids := a\<rparr>)" "calm p s t \<Longrightarrow> calm p s (t\<lparr>comps := c\<rparr>)"
  "calm p s t \<Longrightarrow> calm p s (upd_ps (upd_tree (upd_link p g)) t)"
  by (erule calm_trans, simp add: calm_def inner_def kept_def same_task upd_link_def)+

lemma calm_if: "calm p s a \<Longrightarrow> calm p s b \<Longrightarrow> calm p s (if c then a else b)"
  by simp

lemma reset_task_calm: "calm p s (reset_task K fl cur p s)"
  unfolding reset_task_def Let_def
  by (intro calm_res calm_proc calm_task calm_if calm_fold calm_refl; simp)

section \<open>The failing call\<close>

text \<open>\<^verbatim>\<open>free_uid\<close> drops a reference; a user structure with other references stays.\<close>

definition uid_dropped :: "('l, 'b, 'g) plib \<Rightarrow> bool" where
  "uid_dropped P \<longleftrightarrow> (\<forall>u us. 1 < u_count (us u) \<longrightarrow> free_uid P u us = us(u := (us u)\<lparr>u_count := u_count (us u) - 1\<rparr>))"

lemma cleanup_count:
  assumes "uid_dropped P" and "0 < u_count (U u)" and "u = user_of (procs (ps t) p)"
    and "users (ps t) = U(u := (U u)\<lparr>u_count := u_count (U u) + 1, u_processes := u_processes (U u) + 1\<rparr>)"
  shows "users (ps (bad_fork_cleanup_count P p t)) = U" and "ext (bad_fork_cleanup_count P p t) = ext t"
    and "kept p t (bad_fork_cleanup_count P p t)" and "restored e s (bad_fork_cleanup_count P p t) = restored e s t"
  using assms by (simp_all add: bad_fork_cleanup_count_def Let_def upd_user_def uid_dropped_def kept_def same_task restored_def
      same_users_def fun_upd_idem)

lemma cleanup_all:
  assumes "uid_dropped P" and "0 < u_count (U u)" and "u = user_of (procs (ps t) p)"
    and "users (ps t) = U(u := (U u)\<lparr>u_count := u_count (U u) + 1, u_processes := u_processes (U u) + 1\<rparr>)"
  shows "users (ps (bad_fork_cleanup P X p t)) = U"
    and "ext (bad_fork_cleanup P X p t) = get_opt (MOD_DEC_USE_COUNT X) (binfmt_module (res t p)) (put_exec_domain X (exec_domain (res t p)) (ext t))"
    and "kept p t (bad_fork_cleanup P X p t)" and "restored e s (bad_fork_cleanup P X p t) = restored e s t"
proof -
  let ?t = "upd_ext (get_opt (MOD_DEC_USE_COUNT X) (binfmt_module (res t p))) (upd_ext (put_exec_domain X (exec_domain (res t p))) t)"
  have e: "bad_fork_cleanup P X p t = bad_fork_cleanup_count P p ?t" by (simp add: bad_fork_cleanup_def Let_def)
  have t: "u = user_of (procs (ps ?t) p)" "users (ps ?t) = U(u := (U u)\<lparr>u_count := u_count (U u) + 1, u_processes := u_processes (U u) + 1\<rparr>)"
    using assms by simp_all
  note C = cleanup_count [OF assms(1,2) t]
  show "users (ps (bad_fork_cleanup P X p t)) = U"
    "ext (bad_fork_cleanup P X p t) = get_opt (MOD_DEC_USE_COUNT X) (binfmt_module (res t p)) (put_exec_domain X (exec_domain (res t p)) (ext t))"
    unfolding e using C(1,2) by simp_all
  have "kept p t ?t" by (simp add: kept_def same_task)
  then show "kept p t (bad_fork_cleanup P X p t)" unfolding e using C(3) kept_trans by blast
  show "restored e s (bad_fork_cleanup P X p t) = restored e s t"
    unfolding e C(4) by (simp add: restored_def same_users_def)
qed

lemma begun_ready:
  assumes "fork_ready e me s" and "p \<noteq> me_of me s" and "begun p (me_of me s) s t"
  shows "fork_ready e me t" and "me_of me t = me_of me s" and "restored e t u \<Longrightarrow> restored e s u"
    and "vfork_done (res t (me_of me t)) = vfork_done (res s (me_of me s))"
    and "context_loss (mm_answers e) fl me t d = context_loss (mm_answers e) fl me s d"
proof -
  have B: "res t (me_of me s) = res s (me_of me s)" "t_mm (ktask t (me_of me s)) = t_mm (ktask s (me_of me s))"
    "rqs (sch (ps t)) = rqs (sch (ps s))" "kmm t = kmm s" "mmx t = mmx s" "vmas t = vmas s" "filess t = filess s" "fss t = fss s"
    "sigs t = sigs s"
    using assms(2,3) unfolding begun_def kept_def by auto
  then show me: "me_of me t = me_of me s" by (simp add: me_of_def current_task_def current_def)
  show "fork_ready e me t"
    using assms(1) mm_ready_cong [OF B(3,2,4-6)] unfolding fork_ready_def Let_def me by (simp add: B)
  show "restored e t u \<Longrightarrow> restored e s u" by (simp add: restored_def same_users_def B)
  show "vfork_done (res t (me_of me t)) = vfork_done (res s (me_of me s))" unfolding me B(1) ..
  show "context_loss (mm_answers e) fl me t d = context_loss (mm_answers e) fl me s d"
    by (simp add: context_loss_def me B)
qed

context resource_lib
begin

lemma refs_taken:
  assumes "refs X v = (\<lambda>x. refs X (get_opt (MOD_INC_USE_COUNT X) b (get_exec_domain X d w)) x - l x)"
  shows "refs X (get_opt (MOD_DEC_USE_COUNT X) b (put_exec_domain X d v)) = (\<lambda>x. refs X w x - l x)"
  by (rule ext) (simp add: assms modul.refs_opt domain.refs_one)

text \<open>From the allocation of the pid on.\<close>

lemma do_fork_late:
  assumes uid: "uid_dropped P" and pos: "0 < u_count (users (ps s) u)" and u: "u = user_of (procs (ps s) cur)"
    and ready: "fork_ready e me s" and vfork: "vfork_done (res s cur) = None" and p: "p \<noteq> cur" and cur: "cur = me_of me s"
    and b: "begun p cur s t"
    and us: "users (ps t) = (users (ps s))(u := (users (ps s) u)\<lparr>u_count := u_count (users (ps s) u) + 1, u_processes := u_processes (users (ps s) u) + 1\<rparr>)"
    and ex: "refs X (ext t) = refs X (get_opt (MOD_INC_USE_COUNT X) (binfmt_module (res t p)) (get_exec_domain X (exec_domain (res t p)) (ext s)))"
    and run: "fork_resources P W X e fl me p t = Some (Some err, s') \<or> s' = bad_fork_cleanup P X p t"
  shows "\<exists>d. context_loss (mm_answers e) fl me s d \<and> refs X (ext s') = (\<lambda>x. refs X (ext s) x - d x) \<and>
    users (ps s') = users (ps s) \<and> restored e s s' \<and> kept p s s'"
proof -
  have B: "begun p (me_of me s) s t" "p \<noteq> me_of me s" using b p cur by simp_all
  note R = begun_ready [OF ready B(2,1)]
  have same: "files_of (res t p) = files_of (res t (me_of me t))" "fs_of (res t p) = fs_of (res t (me_of me t))"
      "sig_of (res t p) = sig_of (res t (me_of me t))"
    using B unfolding R(2) begun_def kept_def by auto
  have "p \<noteq> me_of me t" using B(2) R(2) by simp
  note F = fork_resources_failed [OF R(1) _ this same]
  have "\<exists>v d. s' = bad_fork_cleanup P X p v \<and> given_back X e p d t v \<and> context_loss (mm_answers e) fl me t d"
    using run
  proof
    assume "fork_resources P W X e fl me p t = Some (Some err, s')"
    from F [OF _ this] R(4) vfork cur show ?thesis by simp
  next
    assume "s' = bad_fork_cleanup P X p t"
    moreover have "given_back X e p (\<lambda>_. 0) t t" by (simp add: given_back_def inner_refl restored_def same_users_def)
    ultimately show ?thesis using no_loss by blast
  qed
  then obtain v d where v: "s' = bad_fork_cleanup P X p v" "given_back X e p d t v" and "context_loss (mm_answers e) fl me t d" by blast
  then have loss: "context_loss (mm_answers e) fl me s d" using R(5) by simp
  have V: "users (ps v) = (users (ps s))(u := (users (ps s) u)\<lparr>u_count := u_count (users (ps s) u) + 1, u_processes := u_processes (users (ps s) u) + 1\<rparr>)"
    "u = user_of (procs (ps v) p)" "exec_domain (res v p) = exec_domain (res t p)" "binfmt_module (res v p) = binfmt_module (res t p)"
    "refs X (ext v) = (\<lambda>x. refs X (ext t) x - d x)" "restored e t v" "kept p t v"
    using v(2) us u b by (simp_all add: given_back_def inner_def begun_def)
  note C = cleanup_all [OF uid pos V(2,1)]
  have "refs X (ext s') = (\<lambda>x. refs X (ext s) x - d x)"
    unfolding v(1) C(2) V(3,4) by (rule refs_taken [OF V(5) [unfolded ex]])
  moreover have "users (ps s') = users (ps s)" unfolding v(1) by (rule C(1))
  moreover have "restored e s s'" unfolding v(1) C(4) using R(3) V(6) by blast
  moreover have "kept p s s'" unfolding v(1) using b V(7) C(3) kept_trans unfolding begun_def by blast
  ultimately show ?thesis using loss by blast
qed

end

lemma fork_end_returns: "fst (fork_end W fl me cur retval s) \<noteq> Fork_returns (Inl err)"
  by (simp add: fork_end_def Let_def split: prod.split)

lemma fork_start_returns: "fst (fork_start P W e fl me p s) \<noteq> Fork_returns (Inl err)"
  by (simp add: fork_start_def Let_def fork_end_returns)

text \<open>The states of \<open>fork_task\<close> up to the copies.\<close>

definition taken_refs :: "'v xlib \<Rightarrow> tptr \<Rightarrow> ('l, 'b, 'g, 'v) ksys \<Rightarrow> ('l, 'b, 'g, 'v) ksys" where
  "taken_refs X p s = upd_ext (get_opt (MOD_INC_USE_COUNT X) (binfmt_module (res s p))) (upd_ext (get_exec_domain X (exec_domain (res s p))) s)"

definition fork_prepared :: "'v xlib \<Rightarrow> u32 \<Rightarrow> tptr \<Rightarrow> ('l, 'b, 'g, 'v) ksys \<Rightarrow> ('l, 'b, 'g, 'v) ksys" where
  "fork_prepared X fl p s = copy_flags fl p (upd_ktask p (\<lambda>t. t\<lparr>t_state := TASK_UNINTERRUPTIBLE\<rparr>)
     (upd_res p (\<lambda>r. r\<lparr>did_exec := False, swappable := False\<rparr>) (taken_refs X p s)))"

definition with_pid :: "tptr \<Rightarrow> int \<Rightarrow> pid_counters \<Rightarrow> ('l, 'b, 'g, 'v) ksys \<Rightarrow> ('l, 'b, 'g, 'v) ksys" where
  "with_pid p pid a s = upd_ktask p (\<lambda>t. t\<lparr>t_pid := pid\<rparr>) (s\<lparr>pids := a\<rparr>)"

lemma prepared_calm: "calm p (taken_refs X p s) (fork_prepared X fl p s)" "calm p (taken_refs X p s) (with_pid p pid a (fork_prepared X fl p s))"
proof -
  show "calm p (taken_refs X p s) (fork_prepared X fl p s)" unfolding fork_prepared_def
    by (rule calm_trans [OF _ copy_flags_calm]) (intro calm_task(1) calm_res calm_refl; simp)
  then show "calm p (taken_refs X p s) (with_pid p pid a (fork_prepared X fl p s))"
    unfolding with_pid_def by (intro calm_task)
qed

lemma fork_task_run:
  assumes run: "fork_task P W X e fl me p s = Some (r, s')"
  obtains (none) pid a where "get_pid (PID_MAX X) fl me (ps (fork_prepared X fl p s)) (pids (fork_prepared X fl p s)) = Some (pid, a)"
      and "pid = 0" and "r = Fork_returns (Inl EAGAIN)" and "s' = bad_fork_cleanup P X p (with_pid p pid a (fork_prepared X fl p s))"
  | (copies) pid a err t where "get_pid (PID_MAX X) fl me (ps (fork_prepared X fl p s)) (pids (fork_prepared X fl p s)) = Some (pid, a)"
      and "pid \<noteq> 0 \<or> pid_of (ps (with_pid p pid a (fork_prepared X fl p s))) (me_of me s) = 0"
      and "fork_resources P W X e fl me p (reset_task (pk P) fl (me_of me s) p (with_pid p pid a (fork_prepared X fl p s))) = Some (err, t)"
      and "(r, s') = (case err of Some err \<Rightarrow> (Fork_returns (Inl err), t) | None \<Rightarrow> fork_start P W e fl me p t)"
proof -
  let ?g = "upd_ext (get_exec_domain X (exec_domain (res s p))) s" and ?s4 = "fork_prepared X fl p s"
  have s3: "taken_refs X p s = upd_ext (get_opt (MOD_INC_USE_COUNT X) (binfmt_module (res ?g p))) ?g" by (simp add: taken_refs_def)
  note R = run [unfolded fork_task_def Let_def, folded s3, folded fork_prepared_def, folded with_pid_def]
  from R obtain pa where "get_pid (PID_MAX X) fl me (ps ?s4) (pids ?s4) = Some pa" by (auto simp: bind_eq_Some_conv)
  then obtain pid a where g: "get_pid (PID_MAX X) fl me (ps ?s4) (pids ?s4) = Some (pid, a)" by (cases pa) simp
  let ?s5 = "with_pid p pid a ?s4"
  have go: "(if pid = 0 \<and> pid_of (ps ?s5) (me_of me s) \<noteq> 0 then Some (Fork_returns (Inl EAGAIN), bad_fork_cleanup P X p ?s5)
      else Option.bind (fork_resources P W X e fl me p (reset_task (pk P) fl (me_of me s) p ?s5))
        (\<lambda>(err, s). case err of Some err \<Rightarrow> Some (Fork_returns (Inl err), s) | None \<Rightarrow> Some (fork_start P W e fl me p s)))
      = Some (r, s')"
    using R g by simp
  show thesis
  proof (cases "pid = 0 \<and> pid_of (ps ?s5) (me_of me s) \<noteq> 0")
    case True
    note E = go [unfolded if_P [OF True]]
    show thesis by (rule none [OF g]) (use True E in auto)
  next
    case False
    obtain err t where r: "fork_resources P W X e fl me p (reset_task (pk P) fl (me_of me s) p ?s5) = Some (err, t)"
      using go unfolding if_not_P [OF False] by (auto simp: bind_eq_Some_conv)
    note E = go [unfolded if_not_P [OF False]]
    show thesis
    proof (rule copies [OF g _ r])
      show "(r, s') = (case err of Some err \<Rightarrow> (Fork_returns (Inl err), t) | None \<Rightarrow> fork_start P W e fl me p t)"
        using E r by (cases err) simp_all
    qed (use False in blast)
  qed
qed

text \<open>A part of a fork that fails, from a state in which the copies have not begun.\<close>

lemma fork_task_failed:
  assumes run: "fork_task P W X e fl me p s = Some (Fork_returns (Inl err), s')"
  obtains t where "calm p (taken_refs X p s) t"
    and "fork_resources P W X e fl me p t = Some (Some err, s') \<or> s' = bad_fork_cleanup P X p t"
proof (cases rule: fork_task_run [OF run])
  case (1 pid a)
  then show thesis using that prepared_calm(2) by blast
next
  case (2 pid a r s6)
  have "r = Some err \<and> s6 = s'" using 2(4) fork_start_returns [of P W e fl me p s6 err] by (cases r) (auto simp: prod_eq_iff)
  then show thesis using that calm_trans [OF prepared_calm(2) reset_task_calm] 2(3) by blast
qed

text \<open>The tests at the beginning, and the state in which the rest starts.\<close>

definition fork_admitted :: "tptr \<Rightarrow> tptr \<Rightarrow> ('l, 'b, 'g, 'v) ksys \<Rightarrow> ('l, 'b, 'g, 'v) ksys \<Rightarrow> bool" where
  "fork_admitted p cur s t \<longleftrightarrow> begun p cur s t \<and> ext t = ext s \<and> pids t = pids s \<and>
     (\<exists>m. ktask t p = (ktask s cur)\<lparr>t_cpus_allowed_mask := m\<rparr>)"

definition add_process :: "nat \<Rightarrow> (nat \<Rightarrow> user) \<Rightarrow> nat \<Rightarrow> user" where
  "add_process u U = U(u := (U u)\<lparr>u_count := u_count (U u) + 1, u_processes := u_processes (U u) + 1\<rparr>)"

lemma do_fork_way:
  assumes mem: "task_mem e = Some p" and p: "p \<noteq> cur" and cur: "cur = me_of me s"
  shows "\<exists>s1 s2. fork_admitted p cur s s1 \<and> users (ps s1) = users (ps s) \<and> fork_admitted p cur s s2 \<and>
    users (ps s2) = add_process (user_of (procs (ps s) cur)) (users (ps s)) \<and>
    ((\<exists>err t. t \<in> {s, s1, bad_fork_cleanup_count P p s2} \<and> do_fork P W X e fl me s = Some (Fork_returns (Inl err), t)) \<or>
     do_fork P W X e fl me s = fork_task P W X e fl me p s2)"
proof -
  let ?u = "user_of (procs (ps s) cur)"
  define s0 where "s0 = dup_task cur p s"
  obtain over s1 where over: "over_limit (pk P) X me p s0 = (over, s1)" by fastforce
  have me0: "p \<noteq> me_of me s0" using p cur by (simp add: s0_def dup_task_def Let_def me_of_def current_task_def current_def)
  have c1: "calm p s0 s1" using over_limit_calm [OF me0, of "pk P" X] over by simp
  have k1: "pids s1 = pids s0" "ktask s1 p = ktask s0 p"
    using over_limit_keeps(1) [of "pk P" X me p s0] over_limit_keeps(2) [OF me0, of "pk P" X] over by simp_all
  have "ktask s0 p = (ktask s cur)\<lparr>t_cpus_allowed_mask := t_cpus_allowed_mask (ktask s cur) AND t_cpus_allowed (ktask s cur)\<rparr>"
    using p by (simp add: s0_def dup_task_def Let_def)
  moreover have "begun p cur s s1" "users (ps s1) = users (ps s)" "ext s1 = ext s"
    using begun_calm [OF dup_task_begun(1) [OF p, where s = s, folded s0_def] c1] c1 dup_task_begun(2,3) [OF p, where s = s, folded s0_def]
    by (simp_all add: calm_def inner_def)
  moreover have "pids s0 = pids s" by (simp add: s0_def dup_task_def Let_def upd_ktask_def)
  ultimately have b1: "fork_admitted p cur s s1" "users (ps s1) = users (ps s)" using k1 by (auto simp: fork_admitted_def)
  define s2 where "s2 = upd_user ?u (\<lambda>x. x\<lparr>u_processes := u_processes x + 1\<rparr>) (upd_user ?u (\<lambda>x. x\<lparr>u_count := u_count x + 1\<rparr>) s1)"
  have u: "user_of (procs (ps s1) p) = ?u" using b1(1) by (simp add: fork_admitted_def begun_def)
  have b2: "fork_admitted p cur s s2" "users (ps s2) = add_process ?u (users (ps s))"
    using b1 by (simp_all add: s2_def upd_user_def fork_admitted_def begun_def kept_def add_process_def)
  have "do_fork P W X e fl me s = fork_task P W X e fl me p s2 \<or>
      (\<exists>err t. t \<in> {s, s1, bad_fork_cleanup_count P p s2} \<and> do_fork P W X e fl me s = Some (Fork_returns (Inl err), t))"
    using over mem u by (simp add: do_fork_def Let_def cur [symmetric] s0_def [symmetric] s2_def [symmetric])
  with b1 b2 show ?thesis by blast
qed

lemma do_fork_steps:
  assumes run: "do_fork P W X e fl me s = Some (r, s')" and mem: "task_mem e = Some p" and p: "p \<noteq> cur" and cur: "cur = me_of me s"
  shows "\<exists>s1 s2. fork_admitted p cur s s1 \<and> users (ps s1) = users (ps s) \<and> fork_admitted p cur s s2 \<and>
    users (ps s2) = add_process (user_of (procs (ps s) cur)) (users (ps s)) \<and>
    ((\<exists>err. r = Fork_returns (Inl err)) \<and> s' \<in> {s, s1, bad_fork_cleanup_count P p s2} \<or> fork_task P W X e fl me p s2 = Some (r, s'))"
proof -
  from do_fork_way [OF mem p cur, of P W X fl, unfolded run] obtain s1 s2
    where B: "fork_admitted p cur s s1" "users (ps s1) = users (ps s)" "fork_admitted p cur s s2"
      "users (ps s2) = add_process (user_of (procs (ps s) cur)) (users (ps s))"
    and way: "(\<exists>err t. t \<in> {s, s1, bad_fork_cleanup_count P p s2} \<and> Some (r, s') = Some (Fork_returns (Inl err), t)) \<or>
      Some (r, s') = fork_task P W X e fl me p s2" by blast
  from way have "(\<exists>err. r = Fork_returns (Inl err)) \<and> s' \<in> {s, s1, bad_fork_cleanup_count P p s2} \<or> fork_task P W X e fl me p s2 = Some (r, s')"
    by auto
  with B show ?thesis by blast
qed

context resource_lib
begin

lemma do_fork_failed:
  assumes uid: "uid_dropped P" and pos: "0 < u_count (users (ps s) (user_of (procs (ps s) cur)))"
    and ready: "fork_ready e me s" and vfork: "vfork_done (res s cur) = None" and fresh: "task_mem e \<noteq> Some cur" and cur: "cur = me_of me s"
    and run: "do_fork P W X e fl me s = Some (Fork_returns (Inl err), s')"
  shows "(\<exists>d. context_loss (mm_answers e) fl me s d \<and> refs X (ext s') = (\<lambda>x. refs X (ext s) x - d x)) \<and>
    users (ps s') = users (ps s) \<and> restored e s s' \<and> (case task_mem e of None \<Rightarrow> s' = s | Some p \<Rightarrow> kept p s s')"
proof (cases "task_mem e")
  case None
  then have "s' = s" using run cur by (auto simp: do_fork_def Let_def split: if_splits)
  then show ?thesis using None no_loss [of "mm_answers e" fl me s] by (auto simp: restored_def same_users_def)
next
  case (Some p)
  have p: "p \<noteq> cur" using fresh Some by blast
  let ?u = "user_of (procs (ps s) cur)"
  obtain s1 s2 where b1: "fork_admitted p cur s s1" "users (ps s1) = users (ps s)"
    and b2: "fork_admitted p cur s s2" "users (ps s2) = add_process ?u (users (ps s))"
    and way: "s' = s \<or> s' = s1 \<or> s' = bad_fork_cleanup_count P p s2 \<or> fork_task P W X e fl me p s2 = Some (Fork_returns (Inl err), s')"
    using do_fork_steps [OF run Some p cur] by blast
  note U2 = b2(2) [unfolded add_process_def]
  have B: "begun p cur s s1" "begun p cur s s2" "ext s1 = ext s" "ext s2 = ext s" using b1 b2 by (simp_all add: fork_admitted_def)
  have C: "users (ps (bad_fork_cleanup_count P p s2)) = users (ps s)" "ext (bad_fork_cleanup_count P p s2) = ext s"
    "kept p s2 (bad_fork_cleanup_count P p s2)" "restored e s (bad_fork_cleanup_count P p s2) = restored e s s2"
    using cleanup_count [OF uid pos _ U2] B by (simp_all add: begun_def)
  have K: "restored e s s1" "restored e s s2" "kept p s s1" "kept p s s2"
    using B by (simp_all add: begun_def restored_def same_users_def)
  consider "s' = s" | "s' = s1" | "s' = bad_fork_cleanup_count P p s2" | "fork_task P W X e fl me p s2 = Some (Fork_returns (Inl err), s')"
    using way by blast
  then have "\<exists>d. context_loss (mm_answers e) fl me s d \<and> refs X (ext s') = (\<lambda>x. refs X (ext s) x - d x) \<and>
    users (ps s') = users (ps s) \<and> restored e s s' \<and> kept p s s'"
  proof cases
    case 1
    then show ?thesis using no_loss [of "mm_answers e" fl me s]
      by (intro exI [of _ "\<lambda>_. 0"]) (simp add: restored_def same_users_def kept_def same_task)
  next
    case 2
    then show ?thesis using b1 B K no_loss [of "mm_answers e" fl me s] by (intro exI [of _ "\<lambda>_. 0"]) simp
  next
    case 3
    have "kept p s s'" using C(3) K(4) kept_trans 3 by blast
    then show ?thesis using 3 C K no_loss [of "mm_answers e" fl me s] by (intro exI [of _ "\<lambda>_. 0"]) simp
  next
    case 4
    let ?s3 = "taken_refs X p s2"
    have b3: "begun p cur s ?s3" "users (ps ?s3) = users (ps s2)"
      "ext ?s3 = get_opt (MOD_INC_USE_COUNT X) (binfmt_module (res ?s3 p)) (get_exec_domain X (exec_domain (res ?s3 p)) (ext s))"
      using B by (simp_all add: taken_refs_def begun_def kept_def)
    obtain t where t: "calm p ?s3 t" "fork_resources P W X e fl me p t = Some (Some err, s') \<or> s' = bad_fork_cleanup P X p t"
      using fork_task_failed [OF 4] by blast
    show ?thesis
    proof (rule do_fork_late [OF uid pos refl ready vfork p cur begun_calm [OF b3(1) t(1)] _ _ t(2)])
      show "users (ps t) = (users (ps s))(?u := (users (ps s) ?u)\<lparr>u_count := u_count (users (ps s) ?u) + 1, u_processes := u_processes (users (ps s) ?u) + 1\<rparr>)"
        using t(1) b3(2) U2 by (simp add: calm_def inner_def)
      show "refs X (ext t) = refs X (get_opt (MOD_INC_USE_COUNT X) (binfmt_module (res t p)) (get_exec_domain X (exec_domain (res t p)) (ext s)))"
        using t(1) b3(3) by (simp add: calm_def inner_def)
    qed
  qed
  then show ?thesis by (auto simp: Some)
qed

end

end
