(* ===== verification/Fork_Sched.thy ===== *)
theory Fork_Sched imports Do_Fork begin

text \<open>
  The scheduler's part of a fork: the time slice is shared, the parent may use up its slice by that, and
  the child is put on the runqueue. Composed with the invariants of the runqueues.
\<close>

section \<open>What the tick leaves alone\<close>

text \<open>The identifiers, the tasks that the CPUs run, and the tasks \<open>X\<close> that are in no queue.\<close>

definition tick_frame :: "tptr set \<Rightarrow> cpu \<Rightarrow> ('l, 'b) sched \<Rightarrow> ('l, 'b) sched \<Rightarrow> bool" where
  "tick_frame X me c c' \<longleftrightarrow> pidhash c' = pidhash c \<and> jiffies c' = jiffies c \<and>
     (\<forall>d. current d c' = current d c \<and> rq_idle (rqs c' d) = rq_idle (rqs c d)) \<and>
     (\<forall>q. t_pid (tasks c' q) = t_pid (tasks c q) \<and> t_state (tasks c' q) = t_state (tasks c q) \<and>
        (t_is_short (tasks c' q) = 1 \<longrightarrow> t_is_short (tasks c q) = 1)) \<and>
     (\<forall>q \<in> X. q \<noteq> current me c \<longrightarrow> tasks c' q = tasks c q)"

lemma tick_frame_trans: "tick_frame X me c c' \<Longrightarrow> tick_frame X me c' c'' \<Longrightarrow> tick_frame X me c c''"
  by (simp add: tick_frame_def)

lemma tick_frame_refl: "tick_frame X me c c"
  by (simp add: tick_frame_def)

lemma migrate_frame:
  assumes "migrate K me c c'" and "q_inv K X c"
  shows "tick_frame X me c c'"
  using assms by (elim migrateE; auto simp: tick_frame_def pull_task_def Let_def current_def active_array_def q_invD(1))

text \<open>A step that changes the running task only, and keeps it on an array of its CPU.\<close>

definition own_step :: "tptr \<Rightarrow> cpu \<Rightarrow> ('l, 'b) sched \<Rightarrow> ('l, 'b) sched \<Rightarrow> bool" where
  "own_step p me c c' \<longleftrightarrow> pidhash c' = pidhash c \<and> jiffies c' = jiffies c \<and>
     (\<forall>d. rq_curr (rqs c' d) = rq_curr (rqs c d) \<and> rq_idle (rqs c' d) = rq_idle (rqs c d)) \<and>
     t_pid (tasks c' p) = t_pid (tasks c p) \<and> t_state (tasks c' p) = t_state (tasks c p) \<and>
     (t_is_short (tasks c' p) = 1 \<longrightarrow> t_is_short (tasks c p) = 1) \<and>
     ((\<exists>a. t_array (tasks c p) = Some (me, a)) \<longrightarrow> (\<exists>a. t_array (tasks c' p) = Some (me, a))) \<and>
     (\<forall>q. q \<noteq> p \<longrightarrow> tasks c' q = tasks c q)"

lemma own_step_trans: "own_step p me c c' \<Longrightarrow> own_step p me c' c'' \<Longrightarrow> own_step p me c c''"
  by (simp add: own_step_def)

lemma own_step_upd:
  "t_pid (f (tasks c p)) = t_pid (tasks c p) \<Longrightarrow> t_state (f (tasks c p)) = t_state (tasks c p) \<Longrightarrow>
    t_array (f (tasks c p)) = t_array (tasks c p) \<Longrightarrow>
    t_is_short (f (tasks c p)) = t_is_short (tasks c p) \<or> t_is_short (f (tasks c p)) \<noteq> 1 \<Longrightarrow> own_step p me c (upd_task p f c)"
  by (auto simp: own_step_def)

lemma own_step_queue:
  "own_step p me c (dequeue_task K p a c)" "fst a = me \<Longrightarrow> own_step p me c (enqueue_task K p a c)"
  "own_step p me c c" "own_step p me c (upd_rq me (\<lambda>r. r\<lparr>rq_expired_timestamp := j\<rparr>) c)"
  by (simp_all add: own_step_def) (metis prod.collapse)

lemma own_step_if: "own_step p me c a \<Longrightarrow> own_step p me c b \<Longrightarrow> own_step p me c (if x then a else b)"
  by simp

lemma refill_pid [simp]: "t_pid (other_refill K t) = t_pid t" "t_pid (overdue_to_other K t) = t_pid t"
  "t_state (overdue_to_other K t) = t_state t" "t_array (overdue_to_other K t) = t_array t"
  "t_pid (short_to_overdue K t) = t_pid t" "t_state (short_to_overdue K t) = t_state t"
  "t_is_short (overdue_to_other K t) = t_is_short t" "t_is_short (short_to_overdue K t) = -1" "t_array (short_to_overdue K t) = t_array t"
  by (simp_all add: other_refill_def overdue_to_other_def short_to_overdue_def Let_def)

lemma expiry_own: "own_step p me c (other_expiry K me p c)" "own_step p me c (short_expiry K me p c)"
proof -
  have 1: "own_step p me c (upd_task p (other_refill K) (dequeue_task K p a c))" for a
    by (rule own_step_trans [OF own_step_queue(1) own_step_upd]) simp_all
  have 2: "own_step p me d (enqueue_task K p (active_array me d') d)" "own_step p me d (enqueue_task K p (expired_array me d') d)" for d d'
    by (rule own_step_queue(2), simp add: active_array_def expired_array_def)+
  show "own_step p me c (other_expiry K me p c)"
    unfolding other_expiry_def Let_def
    by (intro own_step_if own_step_trans [OF 1 2(1)] own_step_trans [OF own_step_trans [OF 1 [of "active_array me c"] own_step_if] 2(2)]
        own_step_queue(3,4))
  have 3: "own_step p me c (upd_task p f (dequeue_task K p a c))" if "f = short_to_overdue K \<or> f = overdue_to_other K" for a f
    by (rule own_step_trans [OF own_step_queue(1) own_step_upd]) (use that in auto)
  show "own_step p me c (short_expiry K me p c)"
    unfolding short_expiry_def Let_def
    by (intro own_step_if own_step_trans [OF 3 2(1)] own_step_trans [OF 3 own_step_queue(2)]) simp_all
qed

lemma tick_own: "own_step p me c (rt_tick K me p c)" "own_step p me c (timeshare_tick K me p c)"
proof -
  have a: "fst (active_array me d) = me" for d :: "('a, 'b) sched" by (simp add: active_array_def)
  show "own_step p me c (rt_tick K me p c)"
    unfolding rt_tick_def Let_def
    by (intro own_step_if own_step_queue(3) own_step_trans [OF own_step_upd own_step_trans [OF own_step_upd
          own_step_trans [OF own_step_queue(1) own_step_queue(2)]]] own_step_upd) (simp_all add: active_array_def)
  have 1: "own_step p me c (if t_sleep_avg (tasks c p) \<noteq> 0 then upd_task p (\<lambda>t. t\<lparr>t_sleep_avg := t_sleep_avg t - 1\<rparr>) c else c)"
    by (intro own_step_if own_step_upd own_step_queue(3)) simp_all
  have 2: "own_step p me c (upd_task p (\<lambda>t. t\<lparr>t_time_slice := t_time_slice t - 1\<rparr>)
     (if t_sleep_avg (tasks c p) \<noteq> 0 then upd_task p (\<lambda>t. t\<lparr>t_sleep_avg := t_sleep_avg t - 1\<rparr>) c else c))"
    by (rule own_step_trans [OF 1 own_step_upd]) simp_all
  show "own_step p me c (timeshare_tick K me p c)"
    unfolding timeshare_tick_def Let_def
    by (intro own_step_if own_step_trans [OF 2 expiry_own(1)] own_step_trans [OF 2 expiry_own(2)] 2)
qed

lemma own_step_frame:
  assumes "own_step (current me c) me c c'"
  shows "tick_frame X me c c'"
proof -
  have "t_pid (tasks c' q) = t_pid (tasks c q) \<and> t_state (tasks c' q) = t_state (tasks c q) \<and>
      (t_is_short (tasks c' q) = 1 \<longrightarrow> t_is_short (tasks c q) = 1)" for q
    using assms by (cases "q = current me c") (simp_all add: own_step_def)
  then show ?thesis using assms by (simp add: own_step_def tick_frame_def current_def)
qed

lemma account_own: "own_step p me c (account_tick me u y c)"
  by (simp add: own_step_def account_tick_def Let_def)

lemma own_step_cpu_ok:
  assumes "own_step (current me c) me c c'" and "cpu_ok X c me" and "current me c \<noteq> rq_idle (rqs c me)"
  shows "cpu_ok X c' me"
  using assms by (auto simp: own_step_def cpu_ok_def current_def)

context kernel_lib
begin

lemma migrations_frame:
  assumes "(migrate K me)\<^sup>*\<^sup>* c c'" and "sched_inv K X c"
  shows "tick_frame X me c c'"
  using assms
proof (induction rule: rtranclp_induct)
  case (step y z)
  have "sched_inv K X y" using migrations_inv [OF step.hyps(1) step.prems] by simp
  then have "tick_frame X me y z" using migrate_frame [OF step.hyps(2)] sched_invD(1) by blast
  with step tick_frame_trans show ?case by blast
qed (simp add: tick_frame_refl)

lemma load_balance_frame:
  assumes "sched_inv K X c" and "cpu_ok X c me"
  shows "tick_frame X me c (load_balance K lk me idle c)" and "cpu_ok X (load_balance K lk me idle c) me"
  using load_balance_migrates [OF assms(1), where me = me and lk = lk and idle = idle] migrations_frame migrations_cpu_ok assms by blast+

lemma scheduler_tick_frame:
  assumes inv: "sched_inv K X c" and cpu: "cpu_ok X c me" and busy: "current me c \<noteq> rq_idle (rqs c me)"
  shows "tick_frame X me c (scheduler_tick K lk me irq u y c)" and "cpu_ok X (scheduler_tick K lk me irq u y c) me"
proof -
  let ?p = "current me c" and ?s = "account_tick me u y c"
  from busy cpu obtain a where p: "?p \<notin> X" and a: "t_array (tasks c ?p) = Some (me, a)" by (auto simp: cpu_ok_def)
  have s: "sched_inv K X ?s" using inv by simp
  have "tick_frame X me c (scheduler_tick K lk me irq u y c) \<and> cpu_ok X (scheduler_tick K lk me irq u y c) me"
  proof (cases "a = rq_active (rqs c me) \<or> a = Short_active \<or> a = Overdue")
    case True
    define c2 where "c2 = (if rt_task (tasks ?s ?p) then rt_tick K me ?p ?s else timeshare_tick K me ?p ?s)"
    have "own_step ?p me c c2" unfolding c2_def using own_step_trans [OF account_own own_step_if [OF tick_own]] .
    note o2 = own_step_frame [OF this, of X] own_step_cpu_ok [OF this cpu busy]
    have "sched_inv K X c2" unfolding c2_def using class_tick_inv [OF s p, of me a] a True by simp
    note lb = load_balance_frame [OF this o2(2), of lk False]
    have "scheduler_tick K lk me irq u y c = (if k_config_smp K \<and> jiffies c2 mod BUSY_REBALANCE_TICK K = 0 then load_balance K lk me False c2 else c2)"
      using True a busy by (auto simp: scheduler_tick_def Let_def active_array_def c2_def)
    then show ?thesis using o2 lb tick_frame_trans [OF o2(1) lb(1)] by (simp split: if_splits)
  next
    case False
    have "own_step ?p me c (upd_task ?p (\<lambda>t. t\<lparr>t_need_resched := True\<rparr>) ?s)"
      by (rule own_step_trans [OF account_own own_step_upd]) simp_all
    note o2 = own_step_frame [OF this, of X] own_step_cpu_ok [OF this cpu busy]
    have "scheduler_tick K lk me irq u y c = upd_task ?p (\<lambda>t. t\<lparr>t_need_resched := True\<rparr>) ?s"
      using False a busy by (auto simp: scheduler_tick_def Let_def active_array_def)
    with o2 show ?thesis by simp
  qed
  then show "tick_frame X me c (scheduler_tick K lk me irq u y c)" "cpu_ok X (scheduler_tick K lk me irq u y c) me" by blast+
qed

end

section \<open>The time slice\<close>

text \<open>What the child gets of the parent \<open>t\<close>.\<close>

definition overdue_task :: "task \<Rightarrow> bool" where
  "overdue_task t \<longleftrightarrow> t_policy t = SCHED_SHORT \<and> t_is_short t = -1"

definition child_slice :: "task \<Rightarrow> u32" where
  "child_slice t = (if overdue_task t then t_time_slice t else drop_bit 1 (t_time_slice t + 1))"

definition fork_child :: "task \<Rightarrow> u32 \<Rightarrow> task \<Rightarrow> task" where
  "fork_child t j p = p\<lparr>t_prio := (if t_policy t = SCHED_SHORT then t_prio t else t_prio p),
     t_requested_time := t_requested_time t,
     t_is_short := (if t_policy t \<noteq> SCHED_SHORT \<and> t_is_short t = -1 then 0 else t_is_short t),
     t_time_slice := child_slice t, t_first_time_slice := 1, t_sleep_timestamp := j\<rparr>"

lemma half_zero: "drop_bit 1 n = 0 \<longleftrightarrow> n = 0 \<or> n = (1 :: u32)"
proof -
  have half: "unat (drop_bit 1 n) = unat n div 2" by (simp add: drop_bit_Suc unat_div)
  have "drop_bit 1 n = 0 \<longleftrightarrow> unat n div 2 = 0" unfolding half [symmetric] by (simp add: unat_eq_0)
  moreover have "n = 1 \<longleftrightarrow> unat n = 1" by (simp add: word_unat_eq_iff)
  moreover have "n = 0 \<longleftrightarrow> unat n = 0" by (simp add: unat_eq_0)
  ultimately show ?thesis by auto
qed

lemma upd_task_swap: "p \<noteq> q \<Longrightarrow> upd_task p f (upd_task q g d) = upd_task q g (upd_task p f d)"
  by (simp add: upd_task_def fun_upd_twist)

lemma upd_task_same: "f (tasks d p) = g (tasks d p) \<Longrightarrow> upd_task p f d = upd_task p g d"
  by (simp add: upd_task_def)

lemma share_slice_eq:
  assumes p: "p \<noteq> current me c" and n: "t_time_slice (tasks c (current me c)) \<noteq> 0"
  shows "share_slice me p c =
    (let cur = current me c; c1 = upd_task p (fork_child (tasks c cur) (jiffies c)) c
     in if overdue_task (tasks c cur) then c1 else upd_task cur (\<lambda>t. t\<lparr>t_time_slice := drop_bit 1 (t_time_slice t)\<rparr>) c1)"
proof -
  have split: "t_policy t = SCHED_SHORT \<and> t_is_short t = -1 \<or> t_policy t = SCHED_SHORT \<and> t_is_short t \<noteq> -1 \<or>
      t_policy t \<noteq> SCHED_SHORT \<and> t_is_short t = -1 \<or> t_policy t \<noteq> SCHED_SHORT \<and> t_is_short t \<noteq> -1" for t by blast
  show ?thesis
    using split [of "tasks c (current me c)"] p n
    by (elim disjE)
      (simp_all add: share_slice_def Let_def overdue_task_def upd_task_swap [of p "current me c"] fork_child_def [abs_def] child_slice_def)
qed

lemma fork_slices_eq:
  assumes p: "p \<noteq> current me c" and n: "t_time_slice (tasks c (current me c)) = n" "n \<noteq> 0"
  shows "fork_slices K lk irq me p c =
    (let cur = current me c; c1 = upd_task p (fork_child (tasks c cur) (jiffies c)) c
     in if overdue_task (tasks c cur) then c1
        else if n = 1 then scheduler_tick K lk me irq 0 0 c1
        else upd_task cur (\<lambda>t. t\<lparr>t_time_slice := drop_bit 1 n\<rparr>) c1)"
proof -
  let ?cur = "current me c" and ?c1 = "upd_task p (fork_child (tasks c (current me c)) (jiffies c)) c"
  have one: "upd_task ?cur (\<lambda>t. t\<lparr>t_time_slice := 1\<rparr>) ?c1 = ?c1" if "n = 1"
  proof -
    have "(tasks ?c1 ?cur)\<lparr>t_time_slice := 1\<rparr> = tasks ?c1 ?cur" using that n p by (cases "tasks c ?cur") simp
    then show ?thesis by (simp add: upd_task_def fun_upd_idem)
  qed
  have half: "upd_task ?cur (\<lambda>t. t\<lparr>t_time_slice := drop_bit 1 (t_time_slice t)\<rparr>) ?c1 =
      upd_task ?cur (\<lambda>t. t\<lparr>t_time_slice := drop_bit 1 n\<rparr>) ?c1"
    by (rule upd_task_same) (use n p in simp)
  have S: "share_slice me p c = (if overdue_task (tasks c ?cur) then ?c1 else upd_task ?cur (\<lambda>t. t\<lparr>t_time_slice := drop_bit 1 n\<rparr>) ?c1)"
    using share_slice_eq [OF p] n half by (simp add: Let_def)
  show ?thesis
  proof (cases "overdue_task (tasks c ?cur) \<or> n \<noteq> 1")
    case True
    then show ?thesis using p n S half_zero [of n] by (auto simp: fork_slices_def Let_def)
  next
    case False
    then show ?thesis using p n S one by (simp add: fork_slices_def Let_def)
  qed
qed

text \<open>The child has what the scheduler looks at from the parent.\<close>

definition sched_copy :: "task \<Rightarrow> task \<Rightarrow> bool" where
  "sched_copy t p \<longleftrightarrow> t_policy p = t_policy t \<and> t_prio p = t_prio t \<and> t_static_prio p = t_static_prio t \<and>
     t_sleep_avg p = t_sleep_avg t \<and> t_cpu p = t_cpu t"

lemma fork_child_fit:
  assumes "fit K d t" and "sched_copy t p"
  shows "fit K d (fork_child t j p)"
  using assms by (auto simp: fit_def policy_ok_def fork_child_def sched_copy_def)

lemma cpu_ok_upd_slice: "cpu_ok X (upd_task q (\<lambda>t. t\<lparr>t_time_slice := w\<rparr>) c) me = cpu_ok X c me"
  by (auto simp: cpu_ok_def current_def)

lemma cpu_ok_upd_in:
  assumes "p \<in> X" and "cpu_ok X c me"
  shows "cpu_ok X (upd_task p f c) me"
proof -
  have "rq_idle (rqs c me) \<noteq> p" "current me c \<noteq> p" using assms by (auto simp: cpu_ok_def)
  then show ?thesis using assms(2) by (simp add: cpu_ok_def current_def)
qed

context kernel_lib
begin

lemma fork_slices_keeps:
  assumes inv: "sched_inv K X c" and cpu: "cpu_ok X c me" and busy: "current me c \<noteq> rq_idle (rqs c me)"
    and p: "p \<in> X" and n: "t_time_slice (tasks c (current me c)) \<noteq> 0"
    and c': "c' = fork_slices K lk irq me p c"
  shows "sched_inv K X c'" and "cpu_ok X c' me" and "pidhash c' = pidhash c" and "current d c' = current d c"
    and "rq_idle (rqs c' d) = rq_idle (rqs c d)"
    and "q \<noteq> p \<Longrightarrow> t_pid (tasks c' q) = t_pid (tasks c q)"
    and "tasks c' p = fork_child (tasks c (current me c)) (jiffies c) (tasks c p)"
    and "t_is_short (tasks c' (current me c)) = 1 \<Longrightarrow> t_is_short (tasks c (current me c)) = 1"
proof -
  let ?cur = "current me c" and ?c1 = "upd_task p (fork_child (tasks c (current me c)) (jiffies c)) c"
  have pc: "p \<noteq> ?cur" using cpu p by (auto simp: cpu_ok_def)
  note E = fork_slices_eq [OF pc refl n, of K lk irq, folded c', unfolded Let_def]
  have c1: "sched_inv K X ?c1" "cpu_ok X ?c1 me" "current me ?c1 \<noteq> rq_idle (rqs ?c1 me)"
    using inv cpu_ok_upd_in [OF p cpu] p busy by simp_all
  note T = scheduler_tick_frame [OF c1, of lk irq 0 0] and I = scheduler_tick_inv [OF c1(1,2), of lk irq 0 0]
  have half: "sched_inv K X (upd_task ?cur (\<lambda>t. t\<lparr>t_time_slice := drop_bit 1 (t_time_slice (tasks c ?cur))\<rparr>) ?c1)"
    using c1(1) by (rule sched_inv_upd_task) simp_all
  show "sched_inv K X c'" unfolding E using c1 I half by simp
  show "cpu_ok X c' me" unfolding E using c1 T by (simp add: cpu_ok_upd_slice)
  show "pidhash c' = pidhash c" "current d c' = current d c" "rq_idle (rqs c' d) = rq_idle (rqs c d)"
    unfolding E using T(1) by (simp_all add: tick_frame_def)
  show "q \<noteq> p \<Longrightarrow> t_pid (tasks c' q) = t_pid (tasks c q)" unfolding E using T(1) by (simp add: tick_frame_def)
  show "tasks c' p = fork_child (tasks c ?cur) (jiffies c) (tasks c p)"
    unfolding E using T(1) p pc by (simp add: tick_frame_def)
  show "t_is_short (tasks c' ?cur) = 1 \<Longrightarrow> t_is_short (tasks c ?cur) = 1"
    unfolding E using T(1) pc by (auto simp: tick_frame_def split: if_splits)
qed

text \<open>The wake-up of the child, after it has its place in the family and in the pid hash.\<close>

lemma fork_wake_keeps:
  assumes inv: "sched_inv K (insert p X) c" and cpu: "cpu_ok (insert p X) c me" and p: "p \<notin> X"
    and busy: "current me c \<noteq> rq_idle (rqs c me)" and fit: "fit K d (tasks c p)"
    and short: "t_is_short (tasks c (current me c)) = 1 \<Longrightarrow> t_policy (tasks c p) = SCHED_SHORT \<and> t_is_short (tasks c p) = 1"
  shows "sched_inv K X (fork_wake K me p c)" and "\<exists>b. t_array (tasks (fork_wake K me p c) p) = Some (me, b)"
proof -
  have f: "current me c \<notin> insert p X" using cpu by (simp add: cpu_ok_def)
  obtain a where a: "t_array (tasks c (current me c)) = Some (me, a)" using cpu busy by (auto simp: cpu_ok_def)
  show "sched_inv K X (fork_wake K me p c)"
    using wake_up_forked_inv [OF inv cpu p fit] wake_up_short_forked_inv [OF inv cpu p fit f a] short
    by (simp add: fork_wake_def)
  show "\<exists>b. t_array (tasks (fork_wake K me p c) p) = Some (me, b)"
    using short f by (simp add: fork_wake_def wake_up_forked_process_def wake_up_short_forked_process_def Let_def active_array_def)
qed

end

lemma activate_pid [simp]: "t_pid (tasks (activate_task K p d c) q) = t_pid (tasks c q)"
  by (simp add: sleep_credit_def Let_def)

lemma fork_penalty_pid [simp]: "t_pid (tasks (fork_penalty K me p c) q) = t_pid (tasks c q)"
  "pidhash (fork_penalty K me p c) = pidhash c"
  by (simp_all add: fork_penalty_def Let_def)

lemma enqueue_head_pid [simp]: "t_pid (tasks (enqueue_task_head K p a c) q) = t_pid (tasks c q)"
  "pidhash (enqueue_task_head K p a c) = pidhash c"
  by (simp_all add: enqueue_task_head_def Let_def)

lemma deactivate_pid [simp]: "t_pid (tasks (deactivate_task K p d c) q) = t_pid (tasks c q)"
  by simp

lemma fork_wake_pid [simp]: "t_pid (tasks (fork_wake K me p c) q) = t_pid (tasks c q)" "pidhash (fork_wake K me p c) = pidhash c"
  by (simp_all add: fork_wake_def wake_up_forked_process_def wake_up_short_forked_process_def Let_def
      del: activate_tasks deactivate_frame(1))

end
