(* ===== verification/Fork_Success.thy ===== *)
theory Fork_Success imports Fork_Return Fork_Sched begin

text \<open>
  A fork that succeeds: the pid, the place of the child in the ring of tasks, among the children of its parent
  and in the pid hash, and on the runqueue, with the invariants of the scheduler kept.
\<close>

section \<open>A new task in the tree\<close>

lemma tree_rep_on:
  assumes rep: "tree_rep A L T ks" and L: "\<And>q. q \<in> A \<Longrightarrow> L' q = L q"
  shows "tree_rep A L' T ks"
proof -
  note D = tree_repD [OF rep]
  have T: "q \<in> A" if "q \<in> set T" for q using D(2) that by blast
  have kids: "c \<in> A" if "c \<in> set (ks f)" "f \<in> A" for c f using D(10) [OF that(2)] T that(1) by blast
  have "segment L' init_task T init_task = segment L init_task T init_task"
    by (rule segment_cong) (use L T D(1) in auto)
  moreover have "siblings L' None (ks f) None = siblings L None (ks f) None" if "f \<in> A" for f
    by (rule siblings_cong) (use L kids that in auto)
  ultimately show ?thesis using D L T by (intro tree_repI) auto
qed

lemma tree_rep_insert:
  assumes rep: "tree_rep A L T ks" and p: "p \<notin> A" and same: "\<And>q. q \<noteq> p \<Longrightarrow> L' q = L q" and none: "p_cptr (L' p) = None"
  shows "tree_rep (insert p A) L' T (ks(p := []))"
proof -
  have "L' q = L q" if "q \<in> A" for q using same [of q] that p by blast
  note D = tree_repD [OF tree_rep_on [OF rep this]]
  have kids: "c \<noteq> p" if "c \<in> set T" for c using D(2) p that by blast
  show ?thesis using D p kids none by (intro tree_repI) auto
qed

section \<open>The copies that succeed\<close>

context resource_lib
begin

lemma copy_mm_proc:
  assumes ready: "mm_ready e me s" and p: "p \<noteq> me_of me s" and run: "copy_mm X e fl me p s = Some (None, s')"
  shows "same_proc p s s'"
proof (cases "t_mm (ktask s (me_of me s)) = None \<or> fl AND CLONE_VM \<noteq> 0 \<or> mm_mem e = None \<or> \<not> pgd_ok e")
  case True
  then show ?thesis using run p
    by (auto simp: copy_mm_def Let_def mm_init_def same_proc_def split: option.splits if_splits) blast+
next
  case False
  then obtain m0 m where m: "t_mm (ktask s (me_of me s)) = Some m0" "fl AND CLONE_VM = 0" "mm_mem e = Some m" "pgd_ok e" by auto
  have "mm_mem e \<noteq> Some m0" using ready m(1) by (simp add: mm_ready_def)
  from copy_mm_context [OF p m(1) this m(2-4)] run have "context_ok e" by fastforce
  from copy_mm_areas [OF ready p m this] obtain s2 u where
    A: "same_proc p s s2"
    "copy_mm X e fl me p s = Some (if u = None
       then (None, upd_ktask p (\<lambda>t. t\<lparr>t_mm := Some m, t_active_mm := Some m\<rparr>) s2) else (u, mmput X m s2))" by blast
  then have "s' = upd_ktask p (\<lambda>t. t\<lparr>t_mm := Some m, t_active_mm := Some m\<rparr>) s2" using run by (simp split: if_splits)
  then show ?thesis using A(1) by (auto simp: same_proc_def; blast)
qed

lemma copies_ps:
  "copy_files X alloc fl me p s = (r, s') \<Longrightarrow> ps s' = ps s" "copy_fs X alloc fl me p s = (b, s') \<Longrightarrow> ps s' = ps s"
  "copy_sighand alloc fl me p s = (b, s') \<Longrightarrow> ps s' = ps s"
proof -
  show "copy_files X alloc fl me p s = (r, s') \<Longrightarrow> ps s' = ps s" "copy_sighand alloc fl me p s = (b, s') \<Longrightarrow> ps s' = ps s"
    by (auto simp: copy_files_def copy_sighand_def Let_def split: option.splits if_splits prod.splits)
  have "ps (snd (copy_fs X alloc fl me p s)) = ps s" by (simp add: copy_fs_def Let_def case_prod_beta')
  then show "copy_fs X alloc fl me p s = (b, s') \<Longrightarrow> ps s' = ps s" by simp
qed

lemma fork_resources_ok:
  assumes ready: "fork_ready e me s" and p: "p \<noteq> me_of me s" and run: "fork_resources P W X e fl me p s = Some (None, s')"
  shows "inner p s s'" and "same_proc p s s'"
proof -
  obtain r1 s1 r2 s2 r3 s3 where c1: "copy_files X (files_mem e) fl me p s = (r1, s1)"
    and c2: "copy_fs X (fs_mem e) fl me p s1 = (r2, s2)" and c3: "copy_sighand (sig_mem e) fl me p s2 = (r3, s3)" by fastforce
  note F1 = copy_files_inner [OF c1] and F2 = copy_fs_inner [OF c2] and F3 = copy_sighand_inner [OF c3]
  have r: "r1 = None" "\<not> r2" "\<not> r3" using run c1 c2 c3 by (auto simp: fork_resources_def split: if_splits)
  then obtain r4 s4 where c4: "copy_mm X (mm_answers e) fl me p s3 = Some (r4, s4)"
    using run c1 c2 c3 by (auto simp: fork_resources_def bind_eq_Some_conv)
  have r4: "r4 = None" and s': "\<exists>v. s' = upd_res p (\<lambda>r. r\<lparr>semundo := None\<rparr>) (upd_ext (\<lambda>_. v) s4)"
    using run c1 c2 c3 c4 r by (auto simp: fork_resources_def Let_def split: if_splits prod.splits)
  have i3: "inner p s s3" using F1(1) F2(1) F3(1) inner_trans by blast
  have me3: "p \<noteq> me_of me s3" using i3 p by (simp add: inner_me)
  have ps3: "ps s3 = ps s" using copies_ps(1) [OF c1] copies_ps(2) [OF c2] copies_ps(3) [OF c3] by simp
  then have kt: "t_mm (ktask s3 (me_of me s)) = t_mm (ktask s (me_of me s))" "rqs (sch (ps s3)) = rqs (sch (ps s))" "kmm s3 = kmm s" by simp_all
  have "mmx s3 = mmx s" "vmas s3 = vmas s" using F1(5,6) F2(5,6) F3(5,6) by simp_all
  then have ready3: "mm_ready (mm_answers e) me s3"
    using ready mm_ready_cong [OF kt(2,1,3)] by (simp add: fork_ready_def Let_def)
  note I4 = copy_mm_inner [OF ready3 me3 c4] and P4 = copy_mm_proc [OF ready3 me3 c4 [unfolded r4]]
  obtain v where v: "s' = upd_res p (\<lambda>r. r\<lparr>semundo := None\<rparr>) (upd_ext (\<lambda>_. v) s4)" using s' by blast
  have "inner p s4 s'" unfolding v by (rule inner_trans [OF inner_steps(1) inner_res]) simp
  then show "inner p s s'" using i3 I4(1) inner_trans by blast
  have "same_proc p s4 s'" by (rule same_proc_ps) (simp add: v)
  then show "same_proc p s s'" using same_proc_ps [OF ps3] P4 same_proc_trans by blast
qed

end

section \<open>From the pid on\<close>

text \<open>The fields of the scheduler, the pid and the links of the new task at the call of the last part.\<close>

definition newborn :: "tptr \<Rightarrow> int \<Rightarrow> task \<Rightarrow> u32 \<Rightarrow> ('l, 'b, 'g, 'v) ksys \<Rightarrow> bool" where
  "newborn p pid c fl t \<longleftrightarrow> pid_of (ps t) p = pid \<and> sched_copy c (ktask t p) \<and> p_cptr (tree (ps t) p) = None \<and>
     (fl AND CLONE_PTRACE = 0 \<longrightarrow> ptrace (procs (ps t) p) = 0)"

lemma fold_upd_res_ps [simp]: "ps (fold (\<lambda>i. upd_res p (g i)) is s) = ps s"
  by (induction "is" arbitrary: s) simp_all

lemma reset_task_fields:
  "pid_of (ps (reset_task K fl cur p s)) q = pid_of (ps s) q" "sched_copy c (ktask (reset_task K fl cur p s) p) = sched_copy c (ktask s p)"
  "p_cptr (tree (ps (reset_task K fl cur p s)) p) = None" "ptrace (procs (ps (reset_task K fl cur p s)) p) = ptrace (procs (ps s) p)"
  by (simp_all add: reset_task_def Let_def sched_copy_def upd_link_def)

lemma same_proc_newborn: "same_proc p s s' \<Longrightarrow> newborn p pid c fl s' = newborn p pid c fl s"
  by (auto simp: same_proc_def newborn_def sched_copy_def)

lemma prepared_fields:
  "kept p s (fork_prepared X fl p s)" "pids (fork_prepared X fl p s) = pids s"
  "sched_copy c (ktask (fork_prepared X fl p s) p) = sched_copy c (ktask s p)"
  "fl AND CLONE_PTRACE = 0 \<Longrightarrow> ptrace (procs (ps (fork_prepared X fl p s)) p) = 0"
proof -
  have "kept p s (taken_refs X p s)" by (simp add: taken_refs_def kept_def same_task)
  moreover have "kept p (taken_refs X p s) (fork_prepared X fl p s)" using prepared_calm(1) [of p X s fl] by (simp add: calm_def inner_def)
  ultimately show "kept p s (fork_prepared X fl p s)" by (rule kept_trans)
qed (simp_all add: fork_prepared_def taken_refs_def copy_flags_def Let_def sched_copy_def)

lemma with_pid_fields:
  "pid_of (ps (with_pid p pid a s)) p = pid" "p \<noteq> q \<Longrightarrow> pid_of (ps (with_pid p pid a s)) q = pid_of (ps s) q"
  "sched_copy c (ktask (with_pid p pid a s) p) = sched_copy c (ktask s p)"
  "ptrace (procs (ps (with_pid p pid a s)) p) = ptrace (procs (ps s) p)" "kept p s (with_pid p pid a s)"
  by (simp_all add: with_pid_def sched_copy_def kept_def same_task)

lemma kept_pid: "kept p s s' \<Longrightarrow> q \<noteq> p \<Longrightarrow> pid_of (ps s') q = pid_of (ps s) q"
  by (fastforce simp: kept_def)

context resource_lib
begin

lemma fork_task_ok:
  assumes run: "fork_task P W X e fl me p s = Some (r, s')" and ok: "\<And>err. r \<noteq> Fork_returns (Inl err)"
    and ready: "fork_ready e me s0" and p: "p \<noteq> me_of me s0" and begun: "begun p (me_of me s0) s0 s"
    and own: "pid_of (ps s) (me_of me s) \<noteq> 0" and copy: "sched_copy c (ktask s p)"
  shows "\<exists>u pid a t. kept p s u \<and> pids u = pids s \<and> get_pid (PID_MAX X) fl me (ps u) (pids u) = Some (pid, a) \<and> pid \<noteq> 0 \<and>
    kept p s t \<and> newborn p pid c fl t \<and> (r, s') = fork_start P W e fl me p t"
proof (cases rule: fork_task_run [OF run])
  case (1 pid a)
  then show ?thesis using ok by simp
next
  case (2 pid a err t)
  let ?u = "fork_prepared X fl p s"
  let ?v = "with_pid p pid a ?u"
  let ?w = "reset_task (pk P) fl (me_of me s) p ?v"
  note U = prepared_fields [where p = p and s = s and X = X and fl = fl]
  have err: "err = None" using 2(4) ok by (cases err) auto
  have kw: "kept p s ?v" "kept p s ?w"
    using kept_trans [OF U(1) with_pid_fields(5)] kept_trans [OF _ reset_task_calm [unfolded calm_def inner_def, THEN conjunct1, THEN conjunct1]]
    by blast+
  have "pid_of (ps ?v) (me_of me s) \<noteq> 0" using kept_pid [OF kw(1), of "me_of me s"] p own begun_ready(2) [OF ready p begun] by simp
  then have pid: "pid \<noteq> 0" using 2(2) by simp
  have "begun p (me_of me s0) s0 (taken_refs X p s)" using begun by (simp add: taken_refs_def begun_def kept_def)
  then have "begun p (me_of me s0) s0 ?w" using begun_calm calm_trans [OF prepared_calm(2) reset_task_calm] by blast
  note W = begun_ready(1,2) [OF ready p this]
  then have me': "p \<noteq> me_of me ?w" using p by simp
  note F = fork_resources_ok [OF W(1) me' 2(3) [unfolded err]]
  have "kept p s t" using kept_trans [OF kw(2)] F(1) by (simp add: inner_def)
  moreover have "newborn p pid c fl ?w"
    using copy U(3,4) by (simp add: newborn_def reset_task_fields with_pid_fields)
  then have "newborn p pid c fl t" unfolding same_proc_newborn [OF F(2)] .
  ultimately show ?thesis
    using U(1,2) 2(1,4) pid err by (intro exI [of _ ?u] exI [of _ pid] exI [of _ a] exI [of _ t]) simp
qed

end

section \<open>The last part\<close>

text \<open>The parent of the child.\<close>

definition fork_parent :: "u32 \<Rightarrow> tptr \<Rightarrow> tree \<Rightarrow> tptr" where
  "fork_parent fl cur L = (if fl AND CLONE_PARENT = 0 then cur else p_pptr (L cur))"

lemma fork_links_eq:
  assumes p: "p \<noteq> cur" and ptrace: "ptrace (procs s p) = 0"
  shows "nr_threads (fork_links P fl cur p s) = nr_threads s + 1"
    and "sch (fork_links P fl cur p s) = hash_task p (upd_task p (\<lambda>t. t\<lparr>t_tgid :=
      (if fl AND CLONE_THREAD \<noteq> 0 then t_tgid (task_of s cur) else pid_of s p)\<rparr>) (sch s))"
    and "procs (fork_links P fl cur p s) = procs s" and "notices (fork_links P fl cur p s) = notices s"
  using assms by (simp_all add: fork_links_def Let_def)

lemma fork_links_tree:
  assumes rep: "tree_rep A (tree s) T ks" and p: "p \<notin> A" and cur: "cur \<in> A" "fork_parent fl cur (tree s0) \<in> A"
    and s: "\<And>q. q \<noteq> p \<Longrightarrow> tree s q = tree s0 q" "p_cptr (tree s p) = None" "ptrace (procs s p) = 0"
    and f: "f = fork_parent fl cur (tree s0)"
  shows "tree_rep (insert p A) (tree (fork_links P fl cur p s)) (T @ [p]) (ks(p := [], f := p # ks f))"
    and "p_pptr (tree (fork_links P fl cur p s) p) = f"
proof -
  have pc: "p \<noteq> cur" "p \<noteq> init_task" using p cur(1) tree_repD(1) [OF rep] by auto
  let ?o = "if fl AND CLONE_PARENT = 0 then Some cur else p_opptr (tree s cur)"
  let ?L = "(tree s)(p := (tree s p)\<lparr>p_opptr := ?o, p_pptr := f\<rparr>)"
  have t: "tree (fork_links P fl cur p s) = SET_LINKS p ?L"
    using pc s by (simp add: fork_links_def Let_def f fork_parent_def upd_link_def fun_upd_def cong: if_cong)
  have ins: "tree_rep (insert p A) ?L T (ks(p := []))" by (rule tree_rep_insert [OF rep p]) (simp_all add: s(2))
  have fA: "f \<in> A" "f \<noteq> p" using cur(2) f p by auto
  have "p \<notin> set T" using tree_repD(2) [OF rep] p by blast
  from SET_LINKS_refines [OF ins _ this pc(2)] fA show "tree_rep (insert p A) (tree (fork_links P fl cur p s)) (T @ [p]) (ks(p := [], f := p # ks f))"
    unfolding t by simp
  show "p_pptr (tree (fork_links P fl cur p s) p) = f" unfolding t using pc(2) by (simp add: SET_LINKS_ring)
qed

lemma hash_task_simps:
  "tasks (hash_task p c) = tasks c" "rqs (hash_task p c) = rqs c" "jiffies (hash_task p c) = jiffies c"
  "pidhash (hash_task p c) = (pidhash c)(pid_hashfn (t_pid (tasks c p)) := p # pidhash c (pid_hashfn (t_pid (tasks c p))))"
  "sched_inv K X (hash_task p c) = sched_inv K X c" "cpu_ok X (hash_task p c) me = cpu_ok X c me" "current me (hash_task p c) = current me c"
  by (simp_all add: hash_task_def Let_def cpu_ok_def current_def)

lemma sched_inv_flag:
  "sched_inv K X c \<Longrightarrow> sched_inv K X (upd_task q (\<lambda>t. t\<lparr>t_need_resched := b\<rparr>) c)"
  "sched_inv K X c \<Longrightarrow> sched_inv K X (upd_task q (\<lambda>t. t\<lparr>t_state := v\<rparr>) c)"
  by (rule sched_inv_upd_task; simp)+

lemma fork_end_result:
  assumes "(r, s') = fork_end W fl me cur retval s"
  shows "r = Fork_returns (Inr retval) \<or> r = Fork_sleeps retval \<and> fl AND CLONE_VFORK \<noteq> 0"
    and "sched_inv K X (sch (ps s)) \<Longrightarrow> sched_inv K X (sch (ps s'))" and "tree (ps s') = tree (ps s)"
    and "nr_threads (ps s') = nr_threads (ps s)" and "total_forks s' = total_forks s"
    and "pidhash (sch (ps s')) = pidhash (sch (ps s))" and "pid_of (ps s') q = pid_of (ps s) q"
    and "t_array (ktask s' q) = t_array (ktask s q)"
  using assms sched_inv_flag by (auto simp: fork_end_def wait_enter_def Let_def split: if_splits)

lemma fork_start_ok:
  assumes K: "kernel_lib (pk P)" and inv: "sched_inv (pk P) (insert p Z) (sch (ps t))" "cpu_ok (insert p Z) (sch (ps t)) me" "p \<notin> Z"
    and cur: "cur = me_of me t" "cur \<noteq> rq_idle (rqs (sch (ps t)) me)" "t_time_slice (ktask t cur) \<noteq> 0"
    and nb: "newborn p pid (ktask t cur) fl t" and fl: "fl AND CLONE_PTRACE = 0"
    and rep: "tree_rep A (tree (ps t)) T ks" "p \<notin> A" "cur \<in> A" "f \<in> A" "f = fork_parent fl cur (tree (ps t))"
    and run: "(r, s') = fork_start P W e fl me p t"
  shows "r = Fork_returns (Inr pid) \<or> r = Fork_sleeps pid \<and> fl AND CLONE_VFORK \<noteq> 0"
    and "sched_inv (pk P) Z (sch (ps s'))" and "\<exists>b. t_array (ktask s' p) = Some (me, b)"
    and "tree_rep (insert p A) (tree (ps s')) (T @ [p]) (ks(p := [], f := p # ks f))"
    and "pid_of (ps s') p = pid" and "q \<noteq> p \<Longrightarrow> pid_of (ps s') q = pid_of (ps t) q"
    and "pidhash (sch (ps s')) = (pidhash (sch (ps t)))(pid_hashfn pid := p # pidhash (sch (ps t)) (pid_hashfn pid))"
    and "nr_threads (ps s') = nr_threads (ps t) + 1" and "total_forks s' = total_forks t + 1"
proof -
  define t3 where "t3 = upd_ps (upd_proc p (\<lambda>r. r\<lparr>exit_signal := uint (fl AND CSIGNAL), pdeath_signal := 0\<rparr>))
    (upd_res p (\<lambda>r. r\<lparr>swappable := True\<rparr>) (upd_ps (upd_proc p (\<lambda>r. r\<lparr>parent_exec_id := self_exec_id r\<rparr>)) t))"
  define t4 where "t4 = upd_ps (upd_sch (fork_slices (pk P) (tick_trylock e) (tick_irq e) me p)) t3"
  define t5 where "t5 = upd_ps (fork_links P fl cur p) t4"
  define t6 where "t6 = upd_ps (upd_sch (fork_wake (pk P) me p)) t5"
  define t7 where "t7 = t6\<lparr>total_forks := total_forks t6 + 1\<rparr>"
  have pc: "p \<noteq> cur" using rep by auto
  have ptrace: "ptrace (procs (ps t4) p) = 0" using nb fl by (simp add: t4_def t3_def newborn_def)
  note LK = fork_links_eq [OF pc ptrace, of P fl]
  have "ptrace (procs (ps t5) p) = 0" using ptrace by (simp add: t5_def LK)
  then have end': "(r, s') = fork_end W fl me cur (pid_of (ps t4) p) t7"
    using run [unfolded fork_start_def Let_def, folded cur(1) t3_def, folded t4_def, folded t5_def]
    by (simp add: t7_def t6_def)
  note E = fork_end_result [OF end']
  have t3: "sch (ps t3) = sch (ps t)" "tree (ps t3) = tree (ps t)" "nr_threads (ps t3) = nr_threads (ps t)" "total_forks t3 = total_forks t"
    by (simp_all add: t3_def)
  have cc: "cur = current me (sch (ps t))" by (simp add: cur(1) me_of_def current_task_def)
  have busy: "current me (sch (ps t)) \<noteq> rq_idle (rqs (sch (ps t)) me)" "t_time_slice (tasks (sch (ps t)) (current me (sch (ps t)))) \<noteq> 0"
    using cur(2,3) cc by simp_all
  note SL = kernel_lib.fork_slices_keeps [OF K inv(1,2) busy(1) insertI1 busy(2), where lk = "tick_trylock e" and irq = "tick_irq e", OF refl]
  have s4: "sch (ps t4) = fork_slices (pk P) (tick_trylock e) (tick_irq e) me p (sch (ps t))" by (simp add: t4_def t3)
  have o4: "tree (ps t4) = tree (ps t)" "nr_threads (ps t4) = nr_threads (ps t)" "total_forks t4 = total_forks t" by (simp_all add: t4_def t3)
  have pid4: "pid_of (ps t4) p = pid" "q \<noteq> p \<Longrightarrow> pid_of (ps t4) q = pid_of (ps t) q" for q
    using nb SL(6) by (simp_all add: s4 SL(7) newborn_def fork_child_def)
  \<comment> \<open>the links\<close>
  define g where "g = (if fl AND CLONE_THREAD \<noteq> 0 then t_tgid (task_of (ps t4) cur) else pid_of (ps t4) p)"
  have s5: "sch (ps t5) = hash_task p (upd_task p (\<lambda>t. t\<lparr>t_tgid := g\<rparr>) (sch (ps t4)))" using LK(2) by (simp add: t5_def g_def)
  have inv5: "sched_inv (pk P) (insert p Z) (sch (ps t5))" "cpu_ok (insert p Z) (sch (ps t5)) me"
    using SL(1,2) cpu_ok_upd_in [OF insertI1 SL(2)] by (simp_all add: s5 s4 hash_task_simps)
  have cur5: "current me (sch (ps t5)) = cur" "rq_idle (rqs (sch (ps t5)) me) = rq_idle (rqs (sch (ps t)) me)"
    using SL(4,5) cc by (simp_all add: s5 s4 hash_task_simps current_def)
  have task5: "tasks (sch (ps t5)) p = (fork_child (ktask t cur) (jiffies (sch (ps t))) (ktask t p))\<lparr>t_tgid := g\<rparr>"
    "q \<noteq> p \<Longrightarrow> tasks (sch (ps t5)) q = tasks (sch (ps t4)) q" for q
    using SL(7) cc by (simp_all add: s5 s4 hash_task_simps)
  \<comment> \<open>the wake-up\<close>
  obtain a where a: "t_array (ktask t cur) = Some (me, a)" using inv(2) cur(2) cc by (auto simp: cpu_ok_def)
  have "cur \<notin> insert p Z" using inv(2) cc by (auto simp: cpu_ok_def)
  then have ok: "task_ok (pk P) (ktask t cur)" using q_invD(7) [OF sched_invD(1) [OF inv(1)]] by blast
  note ft = queued_fit [OF ok a]
  have "fit (pk P) me (fork_child (ktask t cur) (jiffies (sch (ps t))) (ktask t p))"
    using fork_child_fit [OF ft] nb by (simp add: newborn_def)
  then have fit5: "fit (pk P) me (tasks (sch (ps t5)) p)" by (simp add: task5 fit_def policy_ok_def)
  have pol: "t_is_short (ktask t cur) = 1 \<Longrightarrow> t_policy (ktask t cur) = SCHED_SHORT" using ft by (auto simp: fit_def policy_ok_def)
  have short5: "t_is_short (tasks (sch (ps t5)) (current me (sch (ps t5)))) = 1 \<Longrightarrow>
      t_policy (tasks (sch (ps t5)) p) = SCHED_SHORT \<and> t_is_short (tasks (sch (ps t5)) p) = 1"
    using SL(8) pc nb pol cc by (auto simp: cur5 task5 s4 newborn_def sched_copy_def fork_child_def)
  have busy5: "current me (sch (ps t5)) \<noteq> rq_idle (rqs (sch (ps t5)) me)" using cur5 cur(2) by simp
  note WK = kernel_lib.fork_wake_keeps [OF K inv5 inv(3) busy5 fit5 short5]
  have s7: "sch (ps t7) = fork_wake (pk P) me p (sch (ps t5))" "tree (ps t7) = tree (ps t5)" "nr_threads (ps t7) = nr_threads (ps t5)"
    "total_forks t7 = total_forks t + 1" by (simp_all add: t7_def t6_def t5_def o4)
  have pid7: "pid_of (ps t7) q = pid_of (ps t4) q" for q by (simp add: s7 fork_wake_pid s5 hash_task_simps)
  have pid': "pid_of (ps s') q = pid_of (ps t4) q" for q using E(7) pid7 by simp
  show "r = Fork_returns (Inr pid) \<or> r = Fork_sleeps pid \<and> fl AND CLONE_VFORK \<noteq> 0" using E(1) pid4(1) by simp
  show "sched_inv (pk P) Z (sch (ps s'))" using E(2) WK(1) by (simp add: s7)
  show "\<exists>b. t_array (ktask s' p) = Some (me, b)" using WK(2) by (simp add: E(8) s7)
  show "pid_of (ps s') p = pid" using pid' pid4(1) by simp
  show "q \<noteq> p \<Longrightarrow> pid_of (ps s') q = pid_of (ps t) q" using pid' pid4(2) by simp
  show "nr_threads (ps s') = nr_threads (ps t) + 1" "total_forks s' = total_forks t + 1" by (simp_all add: E s7 t5_def LK o4)
  have "pid_of (ps t4) p = t_pid (tasks (sch (ps t4)) p)" by simp
  then show "pidhash (sch (ps s')) = (pidhash (sch (ps t)))(pid_hashfn pid := p # pidhash (sch (ps t)) (pid_hashfn pid))"
    using SL(3) pid4(1) by (simp add: E s7 fork_wake_pid s5 hash_task_simps s4)
  note TR = fork_links_tree [where s = "ps t4" and P = P and fl = fl and cur = cur and p = p, OF rep(1) [folded o4(1)] rep(2,3) rep(4) [unfolded rep(5)]]
  show "tree_rep (insert p A) (tree (ps s')) (T @ [p]) (ks(p := [], f := p # ks f))"
    using TR(1) [OF _ _ ptrace rep(5)] nb by (simp add: o4 E s7 t5_def newborn_def)
qed

section \<open>The whole call\<close>

text \<open>Flags of the other tasks do not concern the runqueues.\<close>

lemma kept_sched:
  assumes k: "kept p s s'" and p: "p \<in> X"
  shows "sched_inv K X (sch (ps s)) \<Longrightarrow> sched_inv K X (sch (ps s'))"
    and "cpu_ok X (sch (ps s)) me \<Longrightarrow> cpu_ok X (sch (ps s')) me"
proof -
  let ?c = "sch (ps s)" and ?c' = "sch (ps s')"
  have t: "\<exists>f. tasks ?c' q = (tasks ?c q)\<lparr>t_flags := f\<rparr>" if "q \<notin> X" for q
    using k p that by (auto simp: kept_def)
  have e: "t_array (tasks ?c' q) = t_array (tasks ?c q)" "t_prio (tasks ?c' q) = t_prio (tasks ?c q)"
    "t_state (tasks ?c' q) = t_state (tasks ?c q)" "task_ok K (tasks ?c' q) = task_ok K (tasks ?c q)" if "q \<notin> X" for q
    using t [OF that] by auto
  have same: "rqs ?c' = rqs ?c" "arrays ?c' = arrays ?c" "lists ?c' = lists ?c" using k by (simp_all add: kept_def)
  have on: "on_array X ?c' a = on_array X ?c a" for a using e(1) by (auto simp: on_array_def)
  have q: "queue K ?c' b = queue K ?c b" for b by (simp add: queue_def same)
  show "sched_inv K X ?c \<Longrightarrow> sched_inv K X ?c'"
    unfolding sched_inv_def q_inv_defs rq_ok_def load_def expired_array_def on q same
    using e by auto
  show "cpu_ok X ?c me \<Longrightarrow> cpu_ok X ?c' me"
    unfolding cpu_ok_def current_def same using e by auto
qed

lemma kept_ring:
  assumes k: "kept p s s'" and A: "tree_rep A (tree (ps s)) T ks" and p: "p \<notin> A"
  shows "tree_rep A (tree (ps s')) T ks" and "pid_gap (ps s') T a = pid_gap (ps s) T a" and "pid_used (ps s') T n = pid_used (ps s) T n"
proof -
  note D = tree_repD [OF A]
  have t: "tree (ps s') q = tree (ps s) q" "\<exists>f. ktask s' q = (ktask s q)\<lparr>t_flags := f\<rparr>" if "q \<in> A" for q
    using k p that by (auto simp: kept_def)
  show "tree_rep A (tree (ps s')) T ks" by (rule tree_rep_on [OF A t(1)])
  have u: "pid_used (ps s') T n = pid_used (ps s) T n" for n
  proof -
    have "pid_clash n (ktask s' q) = pid_clash n (ktask s q)" if "q \<in> set T" for q
    proof -
      obtain f where "ktask s' q = (ktask s q)\<lparr>t_flags := f\<rparr>" using t(2) [of q] D(2) \<open>q \<in> set T\<close> by blast
      then show ?thesis by (simp add: pid_clash_def)
    qed
    then show ?thesis by (simp add: pid_used_clash)
  qed
  then show "pid_used (ps s') T n = pid_used (ps s) T n" "pid_gap (ps s') T a = pid_gap (ps s) T a" by (simp_all add: pid_gap_def)
qed

context resource_lib
begin

lemma do_fork_ok:
  assumes K: "kernel_lib (pk P)" and inv: "sched_inv (pk P) (insert p Z) (sch (ps s))" "cpu_ok (insert p Z) (sch (ps s)) me" "p \<notin> Z"
    and cur: "cur = me_of me s" "cur \<noteq> rq_idle (rqs (sch (ps s)) me)" "t_time_slice (ktask s cur) \<noteq> 0" "pid_of (ps s) cur \<noteq> 0"
    and ready: "fork_ready e me s" and mem: "task_mem e = Some p" and fl: "fl AND CLONE_PTRACE = 0" "fl AND CLONE_PID = 0"
    and rep: "tree_rep A (tree (ps s)) T ks" "p \<notin> A" "cur \<in> A" "f \<in> A" "f = fork_parent fl cur (tree (ps s))"
    and pids: "PID_MAX X = 0x8000" "pid_gap (ps s) T (pids s)" "300 \<le> last_pid (pids s) \<or> 300 \<le> x \<and> x < 0x8000 \<and> \<not> pid_used (ps s) T x"
    and run: "do_fork P W X e fl me s = Some (r, s')" and ok: "\<And>err. r \<noteq> Fork_returns (Inl err)"
  shows "\<exists>pid. (r = Fork_returns (Inr pid) \<or> r = Fork_sleeps pid \<and> fl AND CLONE_VFORK \<noteq> 0) \<and>
    1 \<le> pid \<and> pid < 0x8000 \<and> \<not> pid_used (ps s) T pid \<and> pid_of (ps s') p = pid \<and>
    sched_inv (pk P) Z (sch (ps s')) \<and> (\<exists>b. t_array (ktask s' p) = Some (me, b)) \<and>
    tree_rep (insert p A) (tree (ps s')) (T @ [p]) (ks(p := [], f := p # ks f)) \<and>
    (\<forall>q. q \<noteq> p \<longrightarrow> pid_of (ps s') q = pid_of (ps s) q) \<and>
    pidhash (sch (ps s')) = (pidhash (sch (ps s)))(pid_hashfn pid := p # pidhash (sch (ps s)) (pid_hashfn pid)) \<and>
    nr_threads (ps s') = nr_threads (ps s) + 1 \<and> total_forks s' = total_forks s + 1"
proof -
  have pc: "p \<noteq> cur" using rep by auto
  obtain s2 where b: "fork_admitted p cur s s2" and run2: "fork_task P W X e fl me p s2 = Some (r, s')"
    using do_fork_steps [OF run mem pc cur(1)] ok by blast
  have B: "begun p cur s s2" "pids s2 = pids s" "kept p s s2" using b by (simp_all add: fork_admitted_def begun_def)
  note R = begun_ready [OF ready pc [unfolded cur(1)] B(1) [unfolded cur(1)]]
  have own: "pid_of (ps s2) (me_of me s2) \<noteq> 0" using kept_pid [OF B(3), of cur] pc cur(4) by (simp add: R(2) cur(1) [symmetric])
  have copy: "sched_copy (ktask s cur) (ktask s2 p)" using b by (auto simp: fork_admitted_def sched_copy_def)
  obtain u pid a t where u: "kept p s2 u" "pids u = pids s2" "get_pid (PID_MAX X) fl me (ps u) (pids u) = Some (pid, a)" "pid \<noteq> 0"
    and t: "kept p s2 t" "newborn p pid (ktask s cur) fl t" "(r, s') = fork_start P W e fl me p t"
    using fork_task_ok [OF run2 ok ready _ B(1) [unfolded cur(1)] own copy] pc cur(1) by auto
  have ku: "kept p s u" and kt: "kept p s t" using kept_trans B(3) u(1) t(1) by blast+
  \<comment> \<open>the pid\<close>
  note G = kept_ring [OF ku rep(1,2)]
  have "\<exists>pid a'. get_pid 0x8000 fl me (ps u) (pids u) = Some (pid, a') \<and>
    (if pid = 0 then a' = (pids u)\<lparr>next_safe := next_safe a'\<rparr> \<and> 300 \<le> last_pid (pids u) \<and>
       (\<forall>m. 300 \<le> m \<and> m < 0x8000 \<and> m \<noteq> last_pid (pids u) \<longrightarrow> pid_used (ps u) T m)
     else 1 \<le> pid \<and> pid < 0x8000 \<and> \<not> pid_used (ps u) T pid \<and> last_pid a' = pid \<and> pid_gap (ps u) T a')"
    by (rule get_pid_result [OF tree_rep_ring [OF G(1)] _ fl(2)]) (use pids G u B in auto)
  then have pid: "1 \<le> pid" "pid < 0x8000" "\<not> pid_used (ps s) T pid" using u(3,4) pids(1) G by (auto split: if_splits)
  \<comment> \<open>the rest\<close>
  have me: "cur = me_of me t" using cur(1) kt by (simp add: me_of_def current_task_def current_def kept_def)
  have same: "\<exists>f. ktask t cur = (ktask s cur)\<lparr>t_flags := f\<rparr>" "rqs (sch (ps t)) = rqs (sch (ps s))" "tree (ps t) cur = tree (ps s) cur"
    using kt pc by (simp_all add: kept_def)
  have slice: "t_time_slice (ktask t cur) \<noteq> 0" "cur \<noteq> rq_idle (rqs (sch (ps t)) me)" using same(1,2) cur by auto
  have nb: "newborn p pid (ktask t cur) fl t" using t(2) same(1) by (auto simp: newborn_def sched_copy_def)
  have f: "f = fork_parent fl cur (tree (ps t))" using rep(5) same(3) by (simp add: fork_parent_def)
  have c: "tree_rep A (tree (ps t)) T ks" by (rule kept_ring(1) [OF kt rep(1,2)])
  note F = fork_start_ok [OF K kept_sched(1) [OF kt insertI1 inv(1)] kept_sched(2) [OF kt insertI1 inv(2)] inv(3) me slice(2,1) nb fl(1)
      c rep(2-4) f t(3)]
  have "pid_of (ps s') q = pid_of (ps s) q" if "q \<noteq> p" for q using F(6) [OF that] kept_pid [OF kt that] by simp
  then show ?thesis using F(1-5,7-9) pid kt by (intro exI [of _ pid]) (simp add: kept_def)
qed

end

end
