(* ===== verification/Fork_Ends.thy ===== *)
theory Fork_Ends imports Fork_Success begin

text \<open>\<^verbatim>\<open>do_fork\<close> returns: the search for a pid ends, and so does the loop over the areas.\<close>

context resource_lib
begin

lemma copy_mm_returns:
  assumes ready: "mm_ready e me s" and p: "p \<noteq> me_of me s"
  shows "\<exists>r s'. copy_mm X e fl me p s = Some (r, s')"
proof (cases "t_mm (ktask s (me_of me s)) = None \<or> fl AND CLONE_VM \<noteq> 0 \<or> mm_mem e = None \<or> \<not> pgd_ok e")
  case True
  then show ?thesis using p by (auto simp: copy_mm_def Let_def mm_init_def split: option.splits)
next
  case False
  then obtain m0 m where m: "t_mm (ktask s (me_of me s)) = Some m0" "fl AND CLONE_VM = 0" "mm_mem e = Some m" "pgd_ok e" by auto
  have ne: "mm_mem e \<noteq> Some m0" using ready m(1) by (simp add: mm_ready_def)
  show ?thesis
  proof (cases "context_ok e")
    case True
    from copy_mm_areas [OF ready p m True] show ?thesis by (metis surj_pair)
  next
    case False
    from copy_mm_context [OF p m(1) ne m(2-4) False] show ?thesis by blast
  qed
qed

lemma fork_resources_returns:
  assumes ready: "mm_ready (mm_answers e) me s" and p: "p \<noteq> me_of me s"
  shows "\<exists>r s'. fork_resources P W X e fl me p s = Some (r, s')"
proof -
  obtain r1 s1 r2 s2 r3 s3 where c1: "copy_files X (files_mem e) fl me p s = (r1, s1)"
    and c2: "copy_fs X (fs_mem e) fl me p s1 = (r2, s2)" and c3: "copy_sighand (sig_mem e) fl me p s2 = (r3, s3)" by fastforce
  note F1 = copy_files_inner [OF c1] and F2 = copy_fs_inner [OF c2] and F3 = copy_sighand_inner [OF c3]
  have "inner p s s3" using F1(1) F2(1) F3(1) inner_trans by blast
  then have me3: "p \<noteq> me_of me s3" using p by (simp add: inner_me)
  have ps3: "ps s3 = ps s" using copies_ps(1) [OF c1] copies_ps(2) [OF c2] copies_ps(3) [OF c3] by simp
  have "mmx s3 = mmx s" "vmas s3 = vmas s" using F1(5,6) F2(5,6) F3(5,6) by simp_all
  then have "mm_ready (mm_answers e) me s3"
    using ready ps3 mm_ready_cong [of s3 s] by simp
  then obtain r4 s4 where "copy_mm X (mm_answers e) fl me p s3 = Some (r4, s4)" using copy_mm_returns [OF _ me3] by blast
  then show ?thesis using c1 c2 c3 by (auto simp: fork_resources_def Let_def split: prod.split)
qed

lemma begun_mm_ready:
  assumes "mm_ready e me s" and "p \<noteq> me_of me s" and "begun p (me_of me s) s t"
  shows "mm_ready e me t" and "me_of me t = me_of me s"
proof -
  have "t_mm (ktask t (me_of me s)) = t_mm (ktask s (me_of me s))" "rqs (sch (ps t)) = rqs (sch (ps s))" "kmm t = kmm s"
    "mmx t = mmx s" "vmas t = vmas s"
    using assms(2,3) unfolding begun_def kept_def by auto
  then show "mm_ready e me t" "me_of me t = me_of me s"
    using assms(1) mm_ready_cong [of t s me e] by (simp_all add: me_of_def current_task_def current_def)
qed

lemma fork_task_returns:
  assumes ready: "mm_ready (mm_answers e) me s0" and p: "p \<noteq> me_of me s0" and begun: "begun p (me_of me s0) s0 s"
    and pid: "\<And>u. kept p s u \<Longrightarrow> pids u = pids s \<Longrightarrow> get_pid (PID_MAX X) fl me (ps u) (pids u) \<noteq> None"
  shows "\<exists>r s'. fork_task P W X e fl me p s = Some (r, s')"
proof -
  let ?u = "fork_prepared X fl p s"
  have taken: "taken_refs X p s = upd_ext (get_opt (MOD_INC_USE_COUNT X) (binfmt_module (res (upd_ext (get_exec_domain X (exec_domain (res s p))) s) p)))
      (upd_ext (get_exec_domain X (exec_domain (res s p))) s)" by (simp add: taken_refs_def)
  obtain pid a where g: "get_pid (PID_MAX X) fl me (ps ?u) (pids ?u) = Some (pid, a)"
    using pid [OF prepared_fields(1,2)] by fastforce
  let ?w = "reset_task (pk P) fl (me_of me s) p (with_pid p pid a ?u)"
  have "begun p (me_of me s0) s0 (taken_refs X p s)" using begun by (simp add: taken_refs_def begun_def kept_def)
  then have "begun p (me_of me s0) s0 ?w" using begun_calm calm_trans [OF prepared_calm(2) reset_task_calm] by blast
  note W = begun_mm_ready [OF ready p this]
  then have "p \<noteq> me_of me ?w" using p by simp
  from fork_resources_returns [OF W(1) this, of P W fl]
  obtain r t where R: "fork_resources P W X e fl me p ?w = Some (r, t)" by blast
  have "fork_task P W X e fl me p s = (if pid = 0 \<and> pid_of (ps (with_pid p pid a ?u)) (me_of me s) \<noteq> 0
      then Some (Fork_returns (Inl EAGAIN), bad_fork_cleanup P X p (with_pid p pid a ?u))
      else Option.bind (fork_resources P W X e fl me p ?w)
        (\<lambda>(err, s). case err of Some err \<Rightarrow> Some (Fork_returns (Inl err), s) | None \<Rightarrow> Some (fork_start P W e fl me p s)))"
    unfolding fork_task_def Let_def taken [symmetric] fork_prepared_def [symmetric] g with_pid_def [symmetric] by simp
  then have "fork_task P W X e fl me p s \<noteq> None" unfolding R by (simp split: option.split)
  then show ?thesis by auto
qed

lemma do_fork_returns:
  assumes cur: "cur = me_of me s" and ready: "mm_ready (mm_answers e) me s" and fresh: "task_mem e \<noteq> Some cur"
    and rep: "tree_rep A (tree (ps s)) T ks" "\<And>p. task_mem e = Some p \<Longrightarrow> p \<notin> A"
    and pids: "PID_MAX X = 0x8000" "0 \<le> last_pid (pids s)" "last_pid (pids s) < 0x8000" "300 \<le> last_pid (pids s) \<or> 300 \<le> x \<and> x < 0x8000 \<and> \<not> pid_used (ps s) T x"
  shows "\<exists>r s'. do_fork P W X e fl me s = Some (r, s')"
proof (cases "task_mem e")
  case None
  then show ?thesis by (simp add: do_fork_def Let_def)
next
  case (Some p)
  have p: "p \<noteq> me_of me s" using fresh Some cur by blast
  have pid: "get_pid (PID_MAX X) fl me (ps u) (pids u) \<noteq> None" if u: "kept p s u" "pids u = pids s" for u
  proof -
    note G = kept_ring [OF u(1) rep(1) rep(2) [OF Some]]
    show ?thesis unfolding pids(1) by (rule get_pid_returns [OF tree_rep_ring [OF G(1)], of _ x]) (use pids G u in auto)
  qed
  obtain s2 where b: "fork_admitted p (me_of me s) s s2"
    and way: "(\<exists>r t. do_fork P W X e fl me s = Some (r, t)) \<or> do_fork P W X e fl me s = fork_task P W X e fl me p s2"
    using do_fork_way [OF Some p refl, of P W X fl] by blast
  have B: "begun p (me_of me s) s s2" "pids s2 = pids s" "kept p s s2" using b by (simp_all add: fork_admitted_def begun_def)
  have "get_pid (PID_MAX X) fl me (ps u) (pids u) \<noteq> None" if "kept p s2 u" "pids u = pids s2" for u
    using pid kept_trans [OF B(3) that(1)] that(2) B(2) by simp
  from fork_task_returns [OF ready p B(1) this] way show ?thesis by auto
qed

end

end
