(* ===== verification/Do_Exit.thy ===== *)
theory Do_Exit imports Do_Fork begin

text \<open>
  \<^verbatim>\<open>do_exit\<close> and the functions of \<^verbatim>\<open>exit.c\<close> that turn a process into a kernel thread of its own:
  \<^verbatim>\<open>daemonize\<close> and \<^verbatim>\<open>reparent_to_init\<close>.
\<close>

section \<open>Exit\<close>

text \<open>The functions of other files that an exit calls.\<close>

record ('l, 'b, 'g, 'v) exit_lib =
  acct_process :: "int \<Rightarrow> ('l, 'b, 'g, 'v) ksys \<Rightarrow> ('l, 'b, 'g, 'v) ksys"
  tux_exit :: "('l, 'b, 'g, 'v) ksys \<Rightarrow> ('l, 'b, 'g, 'v) ksys"
  sem_exit :: "('l, 'b, 'g, 'v) ksys \<Rightarrow> ('l, 'b, 'g, 'v) ksys"
  disassociate_ctty :: "('l, 'b, 'g, 'v) ksys \<Rightarrow> ('l, 'b, 'g, 'v) ksys"

text \<open>
  Up to the call of \<^verbatim>\<open>schedule\<close>, with the reasons to panic as values; the timer, the platform's part
  (\<^verbatim>\<open>exit_thread\<close>) and the kernel lock are not in the state.
\<close>

datatype exit_panic = In_interrupt | Idle_task | Init_process

definition exit_process ::
  "('l, 'b, 'g) plib \<Rightarrow> wait_entry list wlib \<Rightarrow> 'v xlib \<Rightarrow> ('l, 'b, 'g, 'v) exit_lib \<Rightarrow> bool \<Rightarrow> cpu \<Rightarrow> int \<Rightarrow>
     ('l, 'b, 'g, 'v) ksys \<Rightarrow> (exit_panic + ('l, 'b, 'g, 'v) ksys) option" where
  "exit_process P W X Y in_interrupt me code s =
     (let tsk = me_of me s in
      if in_interrupt then Some (Inl In_interrupt)
      else if pid_of (ps s) tsk = 0 then Some (Inl Idle_task)
      else if pid_of (ps s) tsk = 1 then Some (Inl Init_process)
      else
        (let s = upd_ktask tsk (\<lambda>t. t\<lparr>t_flags := t_flags t OR PF_EXITING\<rparr>) s;
             s = acct_process Y code s;
             s = (if tux_info (res s tsk) then tux_exit Y s else s);
             s = exit_mm (pk P) W X me tsk s;
             s = sem_exit Y s;
             s = exit_files X tsk s;
             s = exit_fs X tsk s;
             s = upd_ext (exit_namespace X tsk) s;
             s = drop_sighand X tsk s;
             s = (if leader (procs (ps s) tsk) then disassociate_ctty Y s else s);
             s = upd_ext (put_exec_domain X (exec_domain (res s tsk))) s;
             s = upd_ext (get_opt (MOD_DEC_USE_COUNT X) (binfmt_module (res s tsk))) s;
             s = upd_ps (upd_proc tsk (\<lambda>r. r\<lparr>exit_code := code\<rparr>)) s
         in map_option (\<lambda>q. Inr (s\<lparr>ps := q\<rparr>)) (exit_notify P me (ps s))))"

text \<open>The CPU goes on as another task; \<^verbatim>\<open>BUG()\<close> stands after the call of \<^verbatim>\<open>schedule\<close>, which must not return.\<close>

definition do_exit ::
  "('l, 'b, 'g) plib \<Rightarrow> wait_entry list wlib \<Rightarrow> 'v xlib \<Rightarrow> ('l, 'b, 'g, 'v) exit_lib \<Rightarrow> bool \<Rightarrow> (nat \<Rightarrow> bool) \<Rightarrow> cpu \<Rightarrow>
     int \<Rightarrow> ('l, 'b, 'g, 'v) ksys \<Rightarrow> (exit_panic + ('l, 'b, 'g, 'v) ksys) option" where
  "do_exit P W X Y in_interrupt trylock me code s =
     Option.bind (exit_process P W X Y in_interrupt me code s)
       (\<lambda>r. case r of Inl e \<Rightarrow> Some (Inl e)
            | Inr s' \<Rightarrow>
                map_option
                  (\<lambda>c. Inr (upd_ps (upd_sch (\<lambda>_. if current me c = me_of me s then c\<lparr>bug := True\<rparr> else c)) s'))
                  (schedule (pk P) in_interrupt trylock me (sch (ps s'))))"

definition complete_and_exit ::
  "('l, 'b, 'g) plib \<Rightarrow> wait_entry list wlib \<Rightarrow> 'v xlib \<Rightarrow> ('l, 'b, 'g, 'v) exit_lib \<Rightarrow> bool \<Rightarrow> (nat \<Rightarrow> bool) \<Rightarrow> cpu \<Rightarrow>
     tptr option \<Rightarrow> int \<Rightarrow> ('l, 'b, 'g, 'v) ksys \<Rightarrow> (exit_panic + ('l, 'b, 'g, 'v) ksys) option" where
  "complete_and_exit P W X Y in_interrupt trylock me compl code s =
     do_exit P W X Y in_interrupt trylock me code
       (case compl of None \<Rightarrow> s
        | Some v \<Rightarrow> (let (x, c) = complete (pk P) W me (comps s v) (sch (ps s))
                    in upd_ps (upd_sch (\<lambda>_. c)) (s\<lparr>comps := (comps s)(v := x)\<rparr>)))"

definition sys_exit ::
  "('l, 'b, 'g) plib \<Rightarrow> wait_entry list wlib \<Rightarrow> 'v xlib \<Rightarrow> ('l, 'b, 'g, 'v) exit_lib \<Rightarrow> bool \<Rightarrow> (nat \<Rightarrow> bool) \<Rightarrow> cpu \<Rightarrow>
     int \<Rightarrow> ('l, 'b, 'g, 'v) ksys \<Rightarrow> (exit_panic + ('l, 'b, 'g, 'v) ksys) option" where
  "sys_exit P W X Y in_interrupt trylock me error_code s =
     do_exit P W X Y in_interrupt trylock me (push_bit 8 (error_code AND 0xff)) s"

section \<open>Kernel threads\<close>

text \<open>
  \<^verbatim>\<open>reparent_to_init\<close>. The size given to \<^verbatim>\<open>memcpy\<close> is that of one element of \<^verbatim>\<open>rlim\<close>, so that only the
  first limit is copied.
\<close>

definition reparent_to_init ::
  "('l, 'b, 'g) plib \<Rightarrow> 'v xlib \<Rightarrow> cpu \<Rightarrow> ('l, 'b, 'g, 'v) ksys \<Rightarrow> ('l, 'b, 'g, 'v) ksys" where
  "reparent_to_init P X me s =
     (let cur = me_of me s;
          s = upd_ps (upd_tree (REMOVE_LINKS cur)) s;
          s = upd_ps (upd_tree (upd_link cur (\<lambda>l. l\<lparr>p_pptr := child_reaper P\<rparr>))) s;
          s = upd_ps (upd_tree (upd_link cur (\<lambda>l. l\<lparr>p_opptr := Some (child_reaper P)\<rparr>))) s;
          s = upd_ps (upd_tree (SET_LINKS cur)) s;
          s = upd_ps (upd_proc cur (\<lambda>r. r\<lparr>exit_signal := SIGCHLD P, ptrace := 0\<rparr>)) s;
          t = ktask s cur;
          s = (if t_policy t = SCHED_OTHER \<and> task_nice t < 0
               then upd_ps (upd_sch (set_user_nice (pk P) cur 0)) s else s);
          s = upd_ktask cur (\<lambda>t. t\<lparr>t_cap_effective := k_CAP_INIT_EFF_SET (pk P)\<rparr>) s;
          s = upd_res cur (\<lambda>r. r\<lparr>cap_inheritable := CAP_INIT_INH_SET X, cap_permitted := CAP_FULL_SET X\<rparr>) s;
          s = upd_res cur (\<lambda>r. r\<lparr>keep_capabilities := False\<rparr>) s;
          s = upd_res cur (\<lambda>r. r\<lparr>rlim := (rlim r)(0 := rlim (res s init_task) 0)\<rparr>) s
      in upd_ps (upd_proc cur (\<lambda>r. r\<lparr>user_of := INIT_USER X\<rparr>)) s)"

definition daemonize ::
  "('l, 'b) klib \<Rightarrow> wait_entry list wlib \<Rightarrow> 'v xlib \<Rightarrow> cpu \<Rightarrow> ('l, 'b, 'g, 'v) ksys \<Rightarrow> ('l, 'b, 'g, 'v) ksys" where
  "daemonize K W X me s =
     (let cur = me_of me s;
          s = exit_mm K W X me cur s;
          s = upd_ktask cur (\<lambda>t. t\<lparr>t_session := 1, t_pgrp := 1\<rparr>) s;
          s = upd_res cur (\<lambda>r. r\<lparr>tty := None\<rparr>) s;
          s = exit_fs X cur s;
          fs = the (fs_of (res s init_task));
          s = upd_res cur (\<lambda>r. r\<lparr>fs_of := Some fs\<rparr>) s;
          s = upd_fs fs (\<lambda>f. f\<lparr>fs_count := fs_count f + 1\<rparr>) s;
          s = exit_files X cur s;
          files = the (files_of (res s init_task));
          s = upd_res cur (\<lambda>r. r\<lparr>files_of := Some files\<rparr>) s
      in upd_files files (\<lambda>f. f\<lparr>files_count := files_count f + 1\<rparr>) s)"

end
