(* ===== verification/Fork_Example.thy ===== *)
theory Fork_Example imports Do_Exit Proc_Example begin

text \<open>
  An instance of the functions that count references: the outside is the count of each object. The processes
  that the properties of fork are applied to.
\<close>

section \<open>The reference counts\<close>

definition count_up :: "obj \<Rightarrow> (obj \<Rightarrow> int) \<Rightarrow> obj \<Rightarrow> int" where
  "count_up x v = v(x := v x + 1)"

definition count_down :: "obj \<Rightarrow> (obj \<Rightarrow> int) \<Rightarrow> obj \<Rightarrow> int" where
  "count_down x v = v(x := v x - 1)"

text \<open>The unmapping of an address space walks over its areas.\<close>

partial_function (option) chain_files :: "(nat \<Rightarrow> vma) \<Rightarrow> nat option \<Rightarrow> nat list option" where
  "chain_files h p =
     (case p of None \<Rightarrow> Some []
      | Some a \<Rightarrow> Option.bind (chain_files h (vm_next (h a)))
          (\<lambda>fs. Some (case vm_file (h a) of None \<Rightarrow> fs | Some f \<Rightarrow> f # fs)))"

lemma chain_files_eq: "vma_chain h p as \<Longrightarrow> chain_files h p = Some (vma_files h as)"
proof (induction as arbitrary: p)
  case Nil
  then show ?case by (subst chain_files.simps) (simp add: vma_files_def map_filter_simps)
next
  case (Cons a as)
  then show ?case by (subst chain_files.simps) (simp add: vma_files_def map_filter_simps split: option.split)
qed

definition ref_xlib :: "(obj \<Rightarrow> int) xlib" where
  "ref_xlib = \<lparr>refs = (\<lambda>v. v),
     dget = (\<lambda>n. count_up (Dentry n)), dput = (\<lambda>n. count_down (Dentry n)),
     mntget = (\<lambda>n. count_up (Mount n)), mntput = (\<lambda>n. count_down (Mount n)),
     get_file = (\<lambda>n. count_up (File n)), filp_close = (\<lambda>n. count_down (File n)),
     get_exec_domain = (\<lambda>n. count_up (Exec_domain n)), put_exec_domain = (\<lambda>n. count_down (Exec_domain n)),
     MOD_INC_USE_COUNT = (\<lambda>n. count_up (Module n)), MOD_DEC_USE_COUNT = (\<lambda>n. count_down (Module n)),
     copy_namespace = (\<lambda>fl p v. (False, v)), exit_namespace = (\<lambda>p v. v),
     exit_mmap = (\<lambda>p h v. fold (\<lambda>n. count_down (File n)) (the (chain_files h p)) v),
     vm_unacct_memory = (\<lambda>w v. v), deny_write_access = (\<lambda>a v. v), vm_open = (\<lambda>a v. v),
     mmlist_add = (\<lambda>m n v. v), mmlist_del = (\<lambda>m v. v),
     expand_fdset = (\<lambda>n f. (None, f\<lparr>max_fdset := 32 * (n div 32 + 1)\<rparr>)),
     expand_fd_array = (\<lambda>n f. (None, f\<lparr>max_fds := n + 1, fd_array_grown := True\<rparr>)),
     exit_sighand = (\<lambda>g h. case g of None \<Rightarrow> h
       | Some g \<Rightarrow> h(g := (h g)\<lparr>sig_count := sig_count (h g) - 1, sig_freed := sig_freed (h g) \<or> sig_count (h g) = 1\<rparr>)),
     FD_SETSIZE = 1024, VM_DONTCOPY = 0x20000, VM_ACCOUNT = 0x100000, VM_LOCKED = 0x2000, VM_DENYWRITE = 0x800,
     PAGE_SHIFT = 12, PID_MAX = 0x8000, RLIMIT_NPROC = 6, CAP_INIT_INH_SET = 0, CAP_FULL_SET = 0xffffffff, INIT_USER = 0\<rparr>"

lemma fold_count_down:
  "fold (\<lambda>n. count_down (File n)) fs v x = v x - (case x of File m \<Rightarrow> int (count_list fs m) | _ \<Rightarrow> 0)"
  by (induction fs arbitrary: v) (auto simp: count_down_def split: obj.split)

interpretation ref_res: resource_lib ref_xlib
proof
  fix n :: nat and f f' :: files_struct
  assume "expand_fdset ref_xlib n f = (None, f')"
  then show "f' = f\<lparr>max_fdset := max_fdset f', open_fds := open_fds f', close_on_exec := close_on_exec f'\<rparr> \<and>
      n < max_fdset f' \<and> 32 dvd max_fdset f'"
    by (auto simp: ref_xlib_def)
next
  fix vm :: "nat \<Rightarrow> vma" and p as v x
  assume "vma_chain vm p as"
  then show "refs ref_xlib (exit_mmap ref_xlib p vm v) x = refs ref_xlib v x -
      (case x of File m \<Rightarrow> int (count_list (vma_files vm as) m) | _ \<Rightarrow> 0)"
    by (simp add: ref_xlib_def chain_files_eq fold_count_down)
qed (auto simp: ref_xlib_def count_up_def count_down_def inj_def)

end
