(* ===== verification/Fork_Sample.thy ===== *)
theory Fork_Sample imports Fork_Ends Fork_Example begin

text \<open>
  A process that may fork: task 7 of the family of \<open>Proc_Example\<close>, with one open file, its directories, its
  signal handlers and an address space of two areas, the first of which maps the open file.
\<close>

definition fork_ps :: "(qid \<Rightarrow> tptr list, int list, tptr \<Rightarrow> tptr) psys" where
  "fork_ps = upd_sch (\<lambda>c. (upd_task 7 (\<lambda>t. t\<lparr>t_pgrp := 7, t_session := 7, t_tgid := 7, t_mm := Some 3\<rparr>) c)
     \<lparr>mms := (\<lambda>_. \<lparr>mm_users = 1, mm_count = 1, mm_freed = False\<rparr>)\<rparr>) (family 7)"

definition res_ex :: resources where
  "res_ex = \<lparr>fs_of = Some 1, files_of = Some 1, sig_of = Some 1, vfork_done = None, exec_domain = 0, binfmt_module = Some 6,
     rlim = (\<lambda>_. \<lparr>rlim_cur = 50, rlim_max = 50\<rparr>), tux_info = False, did_exec = True, swappable = True,
     it_real_value = 0, it_virt_value = 0, it_prof_value = 0, it_real_incr = 0, it_virt_incr = 0, it_prof_incr = 0,
     timer_data = Some 7, tty = None, tty_old_pgrp = 0, per_cpu_utime = (\<lambda>_. 0), per_cpu_stime = (\<lambda>_. 0),
     lock_depth = -1, start_time = 0, semundo = None, cap_inheritable = 0, cap_permitted = 0, keep_capabilities = False\<rparr>"

definition fs_ex :: fs_struct where
  "fs_ex = \<lparr>fs_count = 1, umask = 0, fs_root = 1, fs_rootmnt = 1, fs_pwd = 2, fs_pwdmnt = 1, fs_altroot = None,
     fs_altrootmnt = None, fs_freed = False\<rparr>"

definition files_ex :: files_struct where
  "files_ex = \<lparr>files_count = 1, max_fds = 32, max_fdset = 1024, next_fd = 1, fd = (\<lambda>_. None)(0 := Some 40),
     close_on_exec = (\<lambda>_. 0), open_fds = (\<lambda>_. 0)(0 := 1), fd_array_grown = False, files_freed = False\<rparr>"

definition mm_ex :: mm_struct where
  "mm_ex = \<lparr>mmap = Some 1, mmap_cache = None, map_count = 2, locked_vm = 0, rss = 9, cpu_vm_mask = 1, def_flags = 0\<rparr>"

definition vma_ex :: "nat \<Rightarrow> vma" where
  "vma_ex a = \<lparr>vm_start = 0x1000, vm_end = 0x3000, vm_flags = (if a = 1 then 0x2000 else 0), vm_file = (if a = 1 then Some 40 else None),
     vm_mm = 3, vm_next = (if a = 1 then Some 2 else None), vm_next_share = None, vm_pprev_share = None, vm_has_open = False\<rparr>"

definition forker :: "(qid \<Rightarrow> tptr list, int list, tptr \<Rightarrow> tptr, obj \<Rightarrow> int) ksys" where
  "forker = \<lparr>ps = fork_ps, res = (\<lambda>_. res_ex), fss = (\<lambda>_. fs_ex), filess = (\<lambda>_. files_ex),
     sigs = (\<lambda>_. \<lparr>sig_count = 1, action = (\<lambda>_. 0), sig_freed = False\<rparr>), mmx = (\<lambda>_. mm_ex), mmlist_nr = 1,
     vmas = vma_ex, comps = (\<lambda>_. \<lparr>c_done = 0, c_wait = []\<rparr>), pids = \<lparr>last_pid = 8, next_safe = 0x8000\<rparr>,
     max_threads = 100, total_forks = 3, jiffies_64 = 1000, ext = (\<lambda>_. 5)\<rparr>"

text \<open>All memory can be had; the platform's part of the copy may fail.\<close>

definition areas_ex :: dup_env where
  "areas_ex = \<lparr>enough_memory = (\<lambda>_. True), vma_alloc = (\<lambda>a. Some (a + 10)), copy_page_range = (\<lambda>_. None)\<rparr>"

definition fork_env_ex :: "errno option \<Rightarrow> fork_env" where
  "fork_env_ex err = \<lparr>task_mem = Some 9, files_mem = Some 2, fs_mem = Some 2, sig_mem = Some 2,
     mm_answers = \<lparr>mm_mem = Some 4, pgd_ok = True, context_ok = True, areas = areas_ex\<rparr>,
     thread_error = err, tick_trylock = True, tick_irq = False\<rparr>"

section \<open>The invariants\<close>

lemma family_sched: "sched_inv Kx {} (sch (family f))" "cpu_ok {} (sch (family f)) 0"
  "t_array (tasks (sch (family f)) 9) = None" "current 0 (sch (family f)) = 7" "rq_idle (rqs (sch (family f)) c) = 0"
  "t_time_slice (tasks (sch (family f)) 7) = 512"
proof -
  let ?c = "running other_ex"
  note R = running_inv [OF ex_ok(1)] and T = running_tasks [OF ex_ok(1)]
  define c1 where "c1 = upd_task 8 (\<lambda>_. (INIT_TASK Kx)\<lparr>t_pid := 8\<rparr>) (upd_task 5 (\<lambda>_. (INIT_TASK Kx)\<lparr>t_pid := 1\<rparr>) ?c)"
  have ids: "task_ok K (t\<lparr>t_pid := v\<rparr>) = task_ok K t" "task_ok K (t\<lparr>t_euid := w\<rparr>) = task_ok K t" for K t v w
    by (simp_all add: task_ok_def queued_ok_def policy_ok_def class_array_def)
  have init: "t_array (INIT_TASK Kx) = None" by (simp add: INIT_TASK_def)
  have f: "sch (family f) = (upd_task 7 (\<lambda>t. t\<lparr>t_pid := 7, t_euid := 0\<rparr>) c1)
      \<lparr>pidhash := (\<lambda>h. if h = 1 then [5] else if h = 7 then [7] else if h = 8 then [8] else [])\<rparr>"
    by (simp add: family_def c1_def upd_task_def fun_upd_twist)
  have "sched_inv Kx {5, 8} ?c"
    using sched_inv_insert_off [OF sched_inv_insert_off [OF R(1) T(7) [of 8]] T(7) [of 5]] by simp
  then have "sched_inv Kx {5, 8} c1" unfolding c1_def by simp
  moreover have "task_ok Kx (tasks c1 q)" "t_array (tasks c1 q) = None" if "q = 5 \<or> q = 8" for q
    using that task_ok_ex(1) init by (auto simp: c1_def ids)
  ultimately have "sched_inv Kx {} c1" using sched_inv_remove_off [of Kx 5 "{8}" c1] sched_inv_remove_off [of Kx 8 "{}" c1] by simp
  then have "sched_inv Kx {} (upd_task 7 (\<lambda>t. t\<lparr>t_pid := 7, t_euid := 0\<rparr>) c1)"
    by (rule sched_inv_upd_task) (simp_all add: ids)
  then show "sched_inv Kx {} (sch (family f))" unfolding f by (simp add: sched_inv_def q_inv_defs rq_ok_def queue_def on_array_def load_def expired_array_def)
  show "cpu_ok {} (sch (family f)) 0"
    using R(2) T by (simp add: f c1_def cpu_ok_def current_def)
  show "t_array (tasks (sch (family f)) 9) = None" using T(7) by (simp add: f c1_def)
  show "current 0 (sch (family f)) = 7" "rq_idle (rqs (sch (family f)) c) = 0" using T by (simp_all add: f c1_def current_def)
  show "t_time_slice (tasks (sch (family f)) 7) = 512" using T(4) by (simp add: f c1_def ex_defs ref_lib_def)
qed

lemma fork_ps_simps [simp]:
  "tasks (sch fork_ps) 7 = (tasks (sch (family 7)) 7)\<lparr>t_pgrp := 7, t_session := 7, t_tgid := 7, t_mm := Some 3\<rparr>"
  "q \<noteq> 7 \<Longrightarrow> tasks (sch fork_ps) q = tasks (sch (family 7)) q"
  "tree fork_ps = tree (family 7)" "procs fork_ps q = proc_ex" "nr_threads fork_ps = 3"
  "users fork_ps = (\<lambda>_. \<lparr>u_count = 4, u_processes = 3\<rparr>)" "rqs (sch fork_ps) = rqs (sch (family 7))" "jiffies (sch fork_ps) = jiffies (sch (family 7))"
  "mms (sch fork_ps) = (\<lambda>_. \<lparr>mm_users = 1, mm_count = 1, mm_freed = False\<rparr>)"
  by (simp_all add: fork_ps_def family_def)

lemma forker_simps [simp]:
  "ps forker = fork_ps" "res forker q = res_ex" "fss forker a = fs_ex" "filess forker a = files_ex" "sig_count (sigs forker a) = 1"
  "mmx forker m = mm_ex" "vmas forker = vma_ex" "pids forker = \<lparr>last_pid = 8, next_safe = 0x8000\<rparr>" "max_threads forker = 100"
  "me_of 0 forker = 7" "ext forker = (\<lambda>_. 5)" "total_forks forker = 3"
  using family_sched(4) [of 7] by (simp_all add: forker_def me_of_def current_task_def current_def)

lemma forker_sched: "sched_inv Kx {9} (sch fork_ps)" "cpu_ok {9} (sch fork_ps) 0"
proof -
  let ?c = "sch (family 7)" and ?f = "\<lambda>t. t\<lparr>t_pgrp := 7, t_session := 7, t_tgid := 7, t_mm := Some 3\<rparr>"
  have ids: "task_ok Kx (?f t) = task_ok Kx t" for t
    by (simp add: task_ok_def queued_ok_def policy_ok_def class_array_def)
  note F = family_sched [of 7]
  have "sched_inv Kx {9} (upd_task 7 ?f ?c)"
    by (rule sched_inv_upd_task [OF sched_inv_insert_off [OF F(1,3)]]) (simp_all add: ids)
  moreover have c: "sch fork_ps = (upd_task 7 ?f ?c)\<lparr>mms := (\<lambda>_. \<lparr>mm_users = 1, mm_count = 1, mm_freed = False\<rparr>)\<rparr>"
    by (simp add: fork_ps_def)
  ultimately show "sched_inv Kx {9} (sch fork_ps)"
    unfolding c by (simp add: sched_inv_def q_inv_defs rq_ok_def queue_def on_array_def load_def expired_array_def)
  have "7 \<noteq> rq_idle (rqs ?c 0)" using F(5) by simp
  then show "cpu_ok {9} (sch fork_ps) 0"
    using F(2,4,5) by (simp add: cpu_ok_def current_def)
qed

lemma forker_pids:
  assumes "9 \<le> n"
  shows "\<not> pid_used fork_ps [5, 7, 8] n"
  using assms by (simp add: pid_used_clash pid_clash_def) (simp add: family_def INIT_TASK_def)

lemma forker_gap: "pid_gap fork_ps [5, 7, 8] (pids forker)"
  using forker_pids by (simp add: pid_gap_def)

lemma forker_rep: "tree_rep {0, 5, 7, 8} (tree fork_ps) [5, 7, 8] (kids_ex 7)"
  using family_rep [of 7] by simp

lemma forker_ready: "fork_ready (fork_env_ex err) 0 forker"
proof -
  have "files_ok files_ex" by (simp add: files_ok_def files_ex_def fd_open_def)
  moreover have "vma_chain vma_ex (Some 1) [1, 2]" by (simp add: vma_ex_def)
  moreover have "fresh_areas areas_ex [1, 2]" by (simp add: fresh_areas_def areas_ex_def)
  ultimately show ?thesis
    by (auto simp: fork_ready_def mm_ready_def Let_def fork_env_ex_def res_ex_def mm_ex_def files_ex_def fs_ex_def intro!: exI [of _ "[1, 2]"])
qed

end
