(* ===== verification/Fork_Props.thy ===== *)
theory Fork_Props imports Fork_Sample begin

text \<open>
  The properties of pid allocation, of the copies of a process's resources, and of \<^verbatim>\<open>do_fork\<close> as a whole,
  each with a witness on a concrete process.
\<close>

section \<open>Pids\<close>

text \<open>
  C26. Let the counters be in order: no task uses a number between \<^verbatim>\<open>last_pid\<close> and \<^verbatim>\<open>next_safe\<close>. If some pid from 300
  on is free, or the last pid was at least 300, \<^verbatim>\<open>get_pid\<close> returns. A pid that is not 0 lies in the range and is no
  pid, group, thread group or session of a task; it becomes the last pid, and the counters stay in order. It
  returns 0, with the last pid unchanged, only when all pids from 300 on are in use, the last pid (which is not tried again)
  perhaps excepted. If the last pid is below 300 and all above it are in use, it does not return.
\<close>

theorem get_pid_unused:
  assumes "on_ring (tree s) T" and "pid_gap s T a" and "flags AND CLONE_PID = 0"
  shows "(300 \<le> last_pid a \<or> (\<exists>x. 300 \<le> x \<and> x < 0x8000 \<and> \<not> pid_used s T x) \<longrightarrow>
      (\<exists>pid a'. get_pid 0x8000 flags me s a = Some (pid, a') \<and>
        (if pid = 0
         then last_pid a' = last_pid a \<and> (\<forall>m. 300 \<le> m \<and> m < 0x8000 \<and> m \<noteq> last_pid a \<longrightarrow> pid_used s T m)
         else 1 \<le> pid \<and> pid < 0x8000 \<and> \<not> pid_used s T pid \<and> last_pid a' = pid \<and> pid_gap s T a'))) \<and>
    (last_pid a < 300 \<and> (\<forall>m. last_pid a < m \<and> m < 0x8000 \<longrightarrow> pid_used s T m) \<longrightarrow> get_pid 0x8000 flags me s a = None)"
proof (intro conjI impI)
  assume "300 \<le> last_pid a \<or> (\<exists>x. 300 \<le> x \<and> x < 0x8000 \<and> \<not> pid_used s T x)"
  then obtain x where "300 \<le> last_pid a \<or> 300 \<le> x \<and> x < 0x8000 \<and> \<not> pid_used s T x" by blast
  from get_pid_result [OF assms this, of me] obtain pid a' where R: "get_pid 0x8000 flags me s a = Some (pid, a')"
    "if pid = 0 then a' = a\<lparr>next_safe := next_safe a'\<rparr> \<and> 300 \<le> last_pid a \<and>
       (\<forall>m. 300 \<le> m \<and> m < 0x8000 \<and> m \<noteq> last_pid a \<longrightarrow> pid_used s T m)
     else 1 \<le> pid \<and> pid < 0x8000 \<and> \<not> pid_used s T pid \<and> last_pid a' = pid \<and> pid_gap s T a'" by blast
  then show "\<exists>pid a'. get_pid 0x8000 flags me s a = Some (pid, a') \<and>
        (if pid = 0
         then last_pid a' = last_pid a \<and> (\<forall>m. 300 \<le> m \<and> m < 0x8000 \<and> m \<noteq> last_pid a \<longrightarrow> pid_used s T m)
         else 1 \<le> pid \<and> pid < 0x8000 \<and> \<not> pid_used s T pid \<and> last_pid a' = pid \<and> pid_gap s T a')"
    by (cases "pid = 0") (auto dest: arg_cong [where f = last_pid])
next
  assume "last_pid a < 300 \<and> (\<forall>m. last_pid a < m \<and> m < 0x8000 \<longrightarrow> pid_used s T m)"
  then show "get_pid 0x8000 flags me s a = None" using get_pid_loops [OF assms] by blast
qed

theorem get_pid_unused_witness:
  "\<exists>pid a'. get_pid 0x8000 17 0 fork_ps \<lparr>last_pid = 8, next_safe = 9\<rparr> = Some (pid, a') \<and> 1 \<le> pid \<and> \<not> pid_used fork_ps [5, 7, 8] pid"
proof -
  have free: "\<not> pid_used fork_ps [5, 7, 8] 400" by (rule forker_pids) simp
  have "pid_gap fork_ps [5, 7, 8] \<lparr>last_pid = 8, next_safe = 9\<rparr>" using forker_pids by (simp add: pid_gap_def)
  then obtain pid a' where R: "get_pid 0x8000 17 0 fork_ps \<lparr>last_pid = 8, next_safe = 9\<rparr> = Some (pid, a')"
    "if pid = 0 then \<forall>m. 300 \<le> m \<and> m < 0x8000 \<and> m \<noteq> last_pid \<lparr>last_pid = 8, next_safe = 9\<rparr> \<longrightarrow> pid_used fork_ps [5, 7, 8] m
     else 1 \<le> pid \<and> pid < 0x8000 \<and> \<not> pid_used fork_ps [5, 7, 8] pid \<and> last_pid a' = pid \<and> pid_gap fork_ps [5, 7, 8] a'"
    using get_pid_unused [OF tree_rep_ring [OF forker_rep], of _ 17 0, THEN conjunct1, rule_format] free
    by (force simp: clone_consts split: if_splits)
  have "pid \<noteq> 0"
  proof
    assume "pid = 0"
    with R(2) have "pid_used fork_ps [5, 7, 8] 400" by simp
    with free show False ..
  qed
  with R show ?thesis by auto
qed

text \<open>
  C27. A call of \<^verbatim>\<open>get_pid\<close> that fails with 0, its counters in order and the last pid from 300 on, leaves the last pid as it was;
  if it leaves \<^verbatim>\<open>next_safe\<close> above the next number (as it does when the ring holds all pids in ascending order, the example
  below), the counters are out of order, and the next call takes the shorter way and returns the next number, which
  is in use.
\<close>

theorem get_pid_duplicates:
  assumes "on_ring (tree s) T" and "pid_gap s T a" and "flags AND CLONE_PID = 0" and "300 \<le> last_pid a"
    and "get_pid 0x8000 flags me s a = Some (0, a')" and "last_pid a + 1 < next_safe a'" and "last_pid a + 1 < 0x8000"
  shows "\<not> pid_gap s T a' \<and> pid_used s T (last_pid a + 1) \<and>
    (\<exists>a''. get_pid 0x8000 flags me s a' = Some (last_pid a + 1, a''))"
  using get_pid_after_failure [OF assms] by blast

text \<open>Tasks \<open>1\<close> to \<open>n\<close> with the pids from 300 on.\<close>

definition full_tasks :: "nat \<Rightarrow> tptr list" where
  "full_tasks n = [Suc 0..<Suc n]"

definition full_ps :: "nat \<Rightarrow> (nat, nat, nat) psys" where
  "full_ps n = \<lparr>sch = \<lparr>tasks = (\<lambda>q. (INIT_TASK Kx)\<lparr>t_pid := int q + 299, t_pgrp := int q + 299, t_session := int q + 299, t_tgid := int q + 299\<rparr>),
       rqs = (\<lambda>_. idle_rq), arrays = (\<lambda>_. \<lparr>nr_active = 0, bitmap = 0\<rparr>), lists = 0, mms = (\<lambda>_. \<lparr>mm_users = 1, mm_count = 1, mm_freed = False\<rparr>),
       pidhash = (\<lambda>_. []), jiffies = 0, kstat_user = (\<lambda>_. 0), kstat_nice = (\<lambda>_. 0), kstat_system = (\<lambda>_. 0), bug = False\<rparr>,
     tree = (\<lambda>q. \<lparr>next_task = (if q < n then Suc q else 0), prev_task = 0, p_opptr = None, p_pptr = 0, p_cptr = None, p_ysptr = None, p_osptr = None\<rparr>),
     procs = (\<lambda>_. proc_ex), groups = 0, users = (\<lambda>_. \<lparr>u_count = 1, u_processes = 1\<rparr>), nr_threads = int n, notices = []\<rparr>"

lemma nexts_upt: "m \<le> n \<Longrightarrow> nexts (\<lambda>q. if q < n then Suc q else 0) m [Suc m..<Suc n] 0"
proof (induction "n - m" arbitrary: m)
  case (Suc k)
  then have "[Suc m..<Suc n] = Suc m # [Suc (Suc m)..<Suc n]" "m < n" by (auto simp: upt_rec)
  with Suc show ?case by simp
qed simp

lemma full_ps:
  "on_ring (tree (full_ps n)) (full_tasks n)" "map (pid_of (full_ps n)) (full_tasks n) = [300..int n + 299]"
  "\<forall>p \<in> set (full_tasks n). own_ids (full_ps n) p"
proof -
  show "on_ring (tree (full_ps n)) (full_tasks n)"
    using nexts_upt [of 0 n] by (auto simp: full_ps_def full_tasks_def on_ring_def init_task_def)
  show "map (pid_of (full_ps n)) (full_tasks n) = [300..int n + 299]"
    by (rule nth_equalityI) (simp_all add: full_ps_def full_tasks_def nth_upto del: upt_Suc)
  show "\<forall>p \<in> set (full_tasks n). own_ids (full_ps n) p" by (simp add: full_ps_def own_ids_def)
qed

theorem get_pid_duplicates_witness:
  "\<exists>a'. get_pid 0x8000 0 0 (full_ps 32468) \<lparr>last_pid = 400, next_safe = 401\<rparr> = Some (0, a') \<and>
    (\<exists>a''. get_pid 0x8000 0 0 (full_ps 32468) a' = Some (401, a'')) \<and> pid_used (full_ps 32468) (full_tasks 32468) 401"
proof -
  let ?a = "\<lparr>last_pid = 400, next_safe = 401\<rparr>" and ?s = "full_ps 32468"
  have e: "int 32468 + 299 = 0x7fff" by simp
  have all: "map (pid_of ?s) (full_tasks 32468) = [300..0x7fff]" by (rule full_ps(2) [of 32468, unfolded e])
  have fail: "get_pid 0x8000 0 0 ?s ?a = Some (0, ?a\<lparr>next_safe := 0x8000\<rparr>)"
    by (rule get_pid_exhausted(1) [OF full_ps(1) all full_ps(3)]) simp_all
  have "pid_gap ?s (full_tasks 32468) ?a" by (auto simp: pid_gap_def)
  from get_pid_duplicates [OF full_ps(1) this _ _ fail] fail show ?thesis by simp
qed

section \<open>What a process has\<close>

text \<open>
  C29. A fork that does not share the open files gives the new task a table of its own, in which each
  descriptor has the parent's file, and a reference for each of these; closing the new table takes all the
  references back and leaves every other table as it was.
\<close>

theorem files_roundtrip:
  assumes "resource_lib X" and "copy_files X alloc fl me p s = (None, s')" and "fl AND CLONE_FILES = 0"
    and "files_of (res s (me_of me s)) = Some a" and "files_of (res s p) = Some a" and "files_ok (filess s a)"
    and "files_count (filess s a) \<noteq> 0" and "alloc \<noteq> Some a"
  shows "(\<exists>b. alloc = Some b \<and> files_of (res s' p) = Some b \<and> files_count (filess s' b) = 1 \<and>
      (\<forall>k. fd (filess s a) k \<noteq> None \<longrightarrow> k < max_fds (filess s' b)) \<and>
      (\<forall>k < max_fds (filess s' b). fd (filess s' b) k = fd (filess s a) k)) \<and>
    (\<forall>f. refs X (ext s') (File f) = refs X (ext s) (File f) +
        int (count_list (files_in (map (fd (filess s a)) [0..<max_fdset (filess s a)])) f)) \<and>
    refs X (ext (exit_files X p s')) = refs X (ext s) \<and>
    (\<forall>c. alloc \<noteq> Some c \<longrightarrow> filess (exit_files X p s') c = filess s c)"
proof -
  note C = resource_lib.copied_files [OF assms(1,2,3,4,6)]
  have old: "\<And>c. Some a = Some c \<Longrightarrow> files_count (filess s c) \<noteq> 0 \<and> files_ok (filess s c) \<and> alloc \<noteq> Some c" using assms(6-8) by simp
  note U = resource_lib.files_undone [OF assms(1,2,4,5) old refl refl]
  have "refs X (ext (exit_files X p s')) = refs X (ext s)" by (rule ext) (simp add: U(1))
  moreover have "\<forall>c. alloc \<noteq> Some c \<longrightarrow> filess (exit_files X p s') c = filess s c" using U(2) by metis
  moreover have "refs X (ext s') (File f) = refs X (ext s) (File f) +
      int (count_list (files_in (map (fd (filess s a)) [0..<max_fdset (filess s a)])) f)" for f
    using C [of "File f"] by (auto simp: files_refs_def)
  ultimately show ?thesis using C by blast
qed

theorem files_roundtrip_witness:
  "\<exists>s'. copy_files ref_xlib (Some 2) 17 0 9 forker = (None, s') \<and> fd (filess s' 2) 0 = Some 40 \<and>
    ext (exit_files ref_xlib 9 s') = (\<lambda>_. 5)"
proof -
  have n: "count_open_files files_ex 1024 \<le> NR_OPEN_DEFAULT"
  proof -
    have "last_word (open_fds files_ex) n = 0" for n by (induction n) (auto simp: files_ex_def)
    then show ?thesis by (simp add: count_open_files_def NR_OPEN_DEFAULT_def)
  qed
  have "max_fdset files_ex = 1024" by (simp add: files_ex_def)
  then have "fst (copy_files ref_xlib (Some 2) 17 0 9 forker) = None"
    using n by (simp add: copy_files_def res_ex_def clone_consts Let_def grow_files_def ref_xlib_def)
  then obtain s' where s': "copy_files ref_xlib (Some 2) 17 0 9 forker = (None, s')" by (metis prod.collapse)
  have ok: "files_ok files_ex" by (simp add: files_ok_def files_ex_def fd_open_def)
  have x: "refs ref_xlib v = v" for v by (simp add: ref_xlib_def)
  have R: "(\<exists>b. Some 2 = Some b \<and> files_of (res s' 9) = Some b \<and> files_count (filess s' b) = 1 \<and>
      (\<forall>k. fd files_ex k \<noteq> None \<longrightarrow> k < max_fds (filess s' b)) \<and> (\<forall>k < max_fds (filess s' b). fd (filess s' b) k = fd files_ex k))"
    "ext (exit_files ref_xlib 9 s') = (\<lambda>_. 5)"
    using files_roundtrip [OF ref_res.resource_lib_axioms s', of 1] ok by (simp_all add: x clone_consts res_ex_def files_ex_def)
  then show ?thesis using s' by (auto simp: files_ex_def)
qed

text \<open>
  C28. \<^verbatim>\<open>dup_mmap\<close> returns. The areas of the new address space are, in the same order, the copies of the
  areas that are to be copied, up to an error: same addresses and file, the lock bit cleared, its own address
  space; the count of areas is right, each file has one reference more for each copy that maps it, and the
  areas and the address spaces that were there before are as before.
\<close>

theorem dup_mmap_copies:
  assumes "resource_lib X" and "t_mm (ktask s (me_of me s)) = Some m0" and "m \<noteq> m0"
    and "vma_chain (vmas s) (mmap (mmx s m0)) as" and "distinct as" and "fresh_areas e as"
  shows "\<exists>s'. dup_mmap X e me m s = Some (fst (dup_plan X e (vmas s) as), s') \<and>
    mmap_copied X e m (snd (dup_plan X e (vmas s) as)) s s'"
  by (rule resource_lib.dup_mmap_eq [OF assms])

theorem dup_mmap_copies_witness:
  "\<exists>s'. dup_mmap ref_xlib areas_ex 0 4 forker = Some (None, s') \<and> vma_chain (vmas s') (Some 11) [11, 12] \<and>
    mmap (mmx s' 4) = Some 11 \<and> map_count (mmx s' 4) = 2 \<and> vm_flags (vmas s' 11) = 0 \<and> ext s' (File 40) = 6"
proof -
  have "fresh_areas areas_ex [1, 2]" by (simp add: fresh_areas_def areas_ex_def)
  moreover have "vma_chain vma_ex (Some 1) [1, 2]" by (simp add: vma_ex_def)
  moreover have "t_mm (ktask forker (me_of 0 forker)) = Some 3" by simp
  moreover have plan: "dup_plan ref_xlib areas_ex vma_ex [1, 2] = (None, [1, 2])"
    by (simp add: vma_ex_def ref_xlib_def areas_ex_def)
  ultimately obtain s' where s': "dup_mmap ref_xlib areas_ex 0 4 forker = Some (None, s')"
    "mmap_copied ref_xlib areas_ex 4 [1, 2] forker s'"
    using dup_mmap_copies [OF ref_res.resource_lib_axioms, of forker 0 3 4 "[1, 2]" areas_ex] by (auto simp: mm_ex_def)
  have c: "copies areas_ex [1, 2] = [11, 12]" by (simp add: copies_def areas_ex_def)
  have f: "vma_files vma_ex [1, 2] = [40]" by (simp add: vma_files_def vma_ex_def map_filter_simps)
  have r: "refs ref_xlib v = v" for v by (simp add: ref_xlib_def)
  have "area (vmas s' 11) = new_area ref_xlib 4 (vma_ex 1)"
    using s'(2) by (simp add: mmap_copied_def areas_ex_def)
  then have "vm_flags (vmas s' 11) = 0" by (simp add: area_def new_area_def vma_ex_def ref_xlib_def)
  then show ?thesis using s' by (simp add: mmap_copied_def c f r files_refs_def del: One_nat_def)
qed

section \<open>The time slice\<close>

lemma two_halves:
  assumes "n \<noteq> (-1 :: u32)"
  shows "drop_bit 1 n + drop_bit 1 (n + 1) = n" and "unat (drop_bit 1 n) + unat (drop_bit 1 (n + 1)) = unat n"
proof -
  have half: "unat (drop_bit 1 w) = unat w div 2" for w :: u32 by (simp add: drop_bit_Suc unat_div)
  have "1 + n \<noteq> 0" using assms by (metis add_eq_0_iff)
  then have s: "unat (n + 1) = Suc (unat n)" using unatSuc [of n] by (simp add: add.commute)
  show u: "unat (drop_bit 1 n) + unat (drop_bit 1 (n + 1)) = unat n" unfolding half s by presburger
  have "drop_bit 1 n + drop_bit 1 (n + 1) = of_nat (unat n)" by (rule word_arith_nat_add [of "drop_bit 1 n" "drop_bit 1 (n + 1)", unfolded u])
  then show "drop_bit 1 n + drop_bit 1 (n + 1) = n" by simp
qed

text \<open>
  C25. Forking shares the time slice: the parent's and the child's slice sum up to what the parent had (a
  parent whose last jiffy goes to the child is treated by \<^verbatim>\<open>scheduler_tick\<close> as one whose slice has ended), and
  the exit of the child in its first slice gives it all back, up to \<^verbatim>\<open>MAX_TIMESLICE\<close>. Not so for an overdue
  SHORT parent: the child gets a copy of the slice, and its exit doubles the parent's. The invariants of
  the runqueues are kept.
\<close>

theorem fork_shares_slice:
  assumes "kernel_lib K" and "sched_inv K X c" and "cpu_ok X c me" and "cur = current me c" and "cur \<noteq> rq_idle (rqs c me)"
    and "p \<in> X" and "t_time_slice (tasks c cur) = n" and "n \<noteq> 0" and "n \<noteq> -1" and "c' = fork_slices K lk irq me p c"
  shows "sched_inv K X c' \<and> cpu_ok X c' me \<and> t_first_time_slice (tasks c' p) = 1 \<and>
    (if overdue_task (tasks c cur)
     then t_time_slice (tasks c' cur) = n \<and> t_time_slice (tasks c' p) = n \<and>
       t_time_slice (tasks (sched_exit K me p c') cur) = min (n + n) (word_of_int (MAX_TIMESLICE K))
     else if n = 1 then t_time_slice (tasks c' p) = 1
     else unat (t_time_slice (tasks c' cur)) + unat (t_time_slice (tasks c' p)) = unat n \<and>
       t_time_slice (tasks (sched_exit K me p c') cur) = min n (word_of_int (MAX_TIMESLICE K)))"
proof -
  have busy: "current me c \<noteq> rq_idle (rqs c me)" "t_time_slice (tasks c (current me c)) \<noteq> 0" using assms(4,5,7,8) by simp_all
  note K = kernel_lib.fork_slices_keeps [OF assms(1-3) busy(1) assms(6) busy(2) assms(10)]
  have pc: "p \<noteq> current me c" using assms(3,6) by (auto simp: cpu_ok_def)
  have n: "t_time_slice (tasks c (current me c)) = n" using assms(4,7) by simp
  note E = fork_slices_eq [OF pc n assms(8), of K lk irq, folded assms(10), unfolded Let_def]
  have child: "t_time_slice (tasks c' p) = (if overdue_task (tasks c cur) then n else drop_bit 1 (n + 1))" "t_first_time_slice (tasks c' p) = 1"
    using K(7) n assms(4) by (simp_all add: fork_child_def child_slice_def)
  have parent: "t_time_slice (tasks c' cur) = (if overdue_task (tasks c cur) then n else drop_bit 1 n)" if "overdue_task (tasks c cur) \<or> n \<noteq> 1"
    using that pc n by (auto simp: E assms(4))
  have cur: "current me c' = cur" using K(4) assms(4) by simp
  have given: "t_time_slice (tasks (sched_exit K me p c') cur) =
      min (t_time_slice (tasks c' cur) + t_time_slice (tasks c' p)) (word_of_int (MAX_TIMESLICE K))"
    using child(2) cur by (auto simp: sched_exit_def Let_def min_def not_le)
  show ?thesis
    using K(1,2) child parent given two_halves [OF assms(9)] by auto
qed

theorem fork_shares_slice_witness:
  "t_time_slice (tasks (sched_exit Kx 0 8 (fork_slices Kx True False 0 8 (forked (overdue_ex\<lparr>t_time_slice := 20\<rparr>) idle_task))) 7) = 40"
proof -
  let ?t = "overdue_ex\<lparr>t_time_slice := 20\<rparr>"
  let ?c = "forked ?t idle_task"
  have ok: "ex_ok ?t" using ex_ok(3) by (simp add: ex_ok_def)
  note F = forked_inv [OF ok, where child = idle_task] and R = running_tasks [OF ok]
  have "overdue_task (tasks ?c 7)" unfolding F(5) by (simp add: overdue_task_def R) (simp add: ex_defs)
  moreover have "7 \<noteq> rq_idle (rqs ?c 0)" by (simp add: forked_def R)
  moreover have "t_time_slice (tasks ?c 7) = 20" unfolding F(5) by (simp add: R)
  ultimately show ?thesis
    using fork_shares_slice [OF ref512.kernel_lib_axioms F(1,2) F(3) [symmetric], of 8 20, OF _ _ _ _ _ refl]
    by (simp add: MAX_TIMESLICE_def ref_lib_def min_def signed_divide_int_def)
qed

section \<open>The whole call\<close>


lemma forker_args:
  "task_mem (fork_env_ex err) = Some 9" "PID_MAX ref_xlib = 0x8000" "task_mem (fork_env_ex err) \<noteq> Some (me_of 0 forker)"
  "thread_error (fork_env_ex err) = err" "tree_rep {0, 5, 7, 8} (tree (ps forker)) [5, 7, 8] (kids_ex 7)"
  "pid_gap (ps forker) [5, 7, 8] (pids forker)" "0 \<le> last_pid (pids forker)" "last_pid (pids forker) < 0x8000"
  "mm_ready (mm_answers (fork_env_ex err)) 0 forker" "context_ok (mm_answers (fork_env_ex err))" "vfork_done (res forker 7) = None"
  "300 \<le> x \<Longrightarrow> \<not> pid_used (ps forker) [5, 7, 8] x"
  using forker_rep forker_gap forker_pids forker_ready [of err]
  by (simp_all add: fork_env_ex_def ref_xlib_def fork_ready_def Let_def res_ex_def)

lemma forker_returns: "\<exists>r s'. do_fork ref_plib list_wlib ref_xlib (fork_env_ex err) fl 0 forker = Some (r, s')"
proof -
  have x: "300 \<le> last_pid (pids forker) \<or> 300 \<le> (300 :: int) \<and> 300 < (0x8000 :: int) \<and> \<not> pid_used (ps forker) [5, 7, 8] 300"
    using forker_args(12) [of 300] by simp
  show ?thesis
    by (rule resource_lib.do_fork_returns [OF ref_res.resource_lib_axioms refl forker_args(9) forker_args(3,5) _ forker_args(2,7,8) x])
      (auto simp: forker_args(1))
qed






text \<open>
  C22. A fork that succeeds, of a caller that is not traced (no \<^verbatim>\<open>CLONE_PTRACE\<close>), not for the pid of the caller (no \<^verbatim>\<open>CLONE_PID\<close>), with
  the counters of pids in order (no call of \<^verbatim>\<open>get_pid\<close> has failed since they were, see C27) and the last pid or a free pid at least
  300. The caller is a task with a slice left, not the idle task and not of pid 0; its structures are in use and well formed, and those
  allocated for the child are new; the runqueues, the ring of tasks and the lists of children are in order. Then the result is the pid of the child, a number from 1 to 32767 that no task used; the
  child is the last task of the ring, the youngest child of its parent, and first in its chain of the pid hash;
  it stands in an array of the CPU that forked; the invariants of the runqueues hold, now with the child; the
  counts of threads and of forks are one higher, and no other pid has changed. A \<^verbatim>\<open>vfork\<close> may have to sleep first.
\<close>

theorem fork_success:
  assumes "resource_lib X" and "kernel_lib (pk P)"
    and "sched_inv (pk P) (insert p Z) (sch (ps s))" and "cpu_ok (insert p Z) (sch (ps s)) me" and "p \<notin> Z"
    and "cur = me_of me s" and "cur \<noteq> rq_idle (rqs (sch (ps s)) me)" and "t_time_slice (ktask s cur) \<noteq> 0" and "pid_of (ps s) cur \<noteq> 0"
    and "fork_ready e me s" and "task_mem e = Some p" and "fl AND CLONE_PTRACE = 0" and "fl AND CLONE_PID = 0"
    and "tree_rep A (tree (ps s)) T ks" and "p \<notin> A" and "cur \<in> A" and "f \<in> A" and "f = fork_parent fl cur (tree (ps s))"
    and "PID_MAX X = 0x8000" and "pid_gap (ps s) T (pids s)"
    and "300 \<le> last_pid (pids s) \<or> (\<exists>x. 300 \<le> x \<and> x < 0x8000 \<and> \<not> pid_used (ps s) T x)"
    and "do_fork P W X e fl me s = Some (r, s')" and "\<nexists>err. r = Fork_returns (Inl err)"
  shows "\<exists>pid. (r = Fork_returns (Inr pid) \<or> r = Fork_sleeps pid \<and> fl AND CLONE_VFORK \<noteq> 0) \<and>
    1 \<le> pid \<and> pid < 0x8000 \<and> \<not> pid_used (ps s) T pid \<and> pid_of (ps s') p = pid \<and>
    sched_inv (pk P) Z (sch (ps s')) \<and> (\<exists>b. t_array (ktask s' p) = Some (me, b)) \<and>
    tree_rep (insert p A) (tree (ps s')) (T @ [p]) (ks(p := [], f := p # ks f)) \<and>
    (\<forall>q. q \<noteq> p \<longrightarrow> pid_of (ps s') q = pid_of (ps s) q) \<and>
    pidhash (sch (ps s')) = (pidhash (sch (ps s)))(pid_hashfn pid := p # pidhash (sch (ps s)) (pid_hashfn pid)) \<and>
    nr_threads (ps s') = nr_threads (ps s) + 1 \<and> total_forks s' = total_forks s + 1"
proof -
  obtain x where x: "300 \<le> last_pid (pids s) \<or> 300 \<le> x \<and> x < 0x8000 \<and> \<not> pid_used (ps s) T x" using assms(21) by blast
  have ok: "r \<noteq> Fork_returns (Inl err)" for err using assms(23) by blast
  show ?thesis by (rule resource_lib.do_fork_ok [OF assms(1-20) x assms(22) ok])
qed

text \<open>A fork that shares everything, of a caller below its limits, with the next pid known to be free.\<close>

lemma shared_succeeds:
  assumes "fork_resources P W X e fl me p s = Some (err, t)" and "thread_error e = None" and "\<And>v. \<not> fst (copy_namespace X fl p v)"
    and "fl AND CLONE_FILES \<noteq> 0" and "fl AND CLONE_FS \<noteq> 0" and "fl AND CLONE_SIGHAND \<noteq> 0" and "fl AND CLONE_VM \<noteq> 0"
  shows "err = None"
proof -
  have "fst (copy_files X (files_mem e) fl me p u) = None" "\<not> fst (copy_fs X (fs_mem e) fl me p u)"
    "\<not> fst (copy_sighand (sig_mem e) fl me p u)" for u :: "('a, 'b, 'c, 'd) ksys"
    using assms(4-6) by (simp_all add: copy_files_def copy_fs_def copy_sighand_def Let_def split: option.split)
  moreover have "fst (the (copy_mm X (mm_answers e) fl me p u)) = None" for u :: "('a, 'b, 'c, 'd) ksys"
    using assms(7) by (simp add: copy_mm_def Let_def split: option.split)
  ultimately show ?thesis
    using assms(1-3) by (auto simp: fork_resources_def Let_def bind_eq_Some_conv case_prod_beta' split: if_splits) (metis fst_conv option.distinct(1) option.sel)+
qed

lemma next_pid: "fl AND CLONE_PID = 0 \<Longrightarrow> get_pid 0x8000 fl me s \<lparr>last_pid = 8, next_safe = 0x8000\<rparr> = Some (9, \<lparr>last_pid = 9, next_safe = 0x8000\<rparr>)"
  using too_large_iff [of 9] by (simp add: get_pid_def Let_def)

lemma forker_shares:
  assumes run: "do_fork ref_plib list_wlib ref_xlib (fork_env_ex None) 0xf11 0 forker = Some (r, s')"
  shows "\<nexists>err. r = Fork_returns (Inl err)"
proof -
  let ?fl = "0xf11 :: u32"
  let ?s0 = "dup_task 7 9 forker"
  let ?s2 = "upd_user 0 (\<lambda>x. x\<lparr>u_processes := u_processes x + 1\<rparr>) (upd_user 0 (\<lambda>x. x\<lparr>u_count := u_count x + 1\<rparr>) ?s0)"
  have d: "procs (ps ?s0) 9 = proc_ex" "users (ps ?s0) = (\<lambda>_. \<lparr>u_count = 4, u_processes = 3\<rparr>)" "nr_threads (ps ?s0) = 3" "max_threads ?s0 = 100"
      "rlim (res ?s0 9) = (\<lambda>_. \<lparr>rlim_cur = 50, rlim_max = 50\<rparr>)" "pids ?s0 = pids forker"
    by (simp_all add: dup_task_def Let_def upd_ktask_def res_ex_def)
  have "over_limit (pk ref_plib) ref_xlib 0 9 ?s0 = (False, ?s0)" by (simp add: over_limit_def d proc_ex_def)
  then have "fork_task ref_plib list_wlib ref_xlib (fork_env_ex None) ?fl 0 9 ?s2 = Some (r, s')"
    using run by (simp add: do_fork_def Let_def clone_consts forker_args(1) d proc_ex_def upd_user_def)
  moreover have "pids ?s2 = pids forker" by (simp add: upd_user_def d)
  ultimately obtain s2 where run2: "fork_task ref_plib list_wlib ref_xlib (fork_env_ex None) ?fl 0 9 s2 = Some (r, s')"
    and p: "pids s2 = pids forker" by blast
  show ?thesis
  proof (cases rule: fork_task_run [OF run2])
    case (1 pid a)
    have "?fl AND CLONE_PID = 0" by (simp add: clone_consts)
    then show ?thesis using 1(1,2) by (simp add: prepared_fields(2) forker_args(2) p next_pid)
  next
    case (2 pid a err t)
    have "err = None" by (rule shared_succeeds [OF 2(3)]) (simp_all add: forker_args(4) clone_consts ref_xlib_def)
    then have "fst (r, s') \<noteq> Fork_returns (Inl e)" for e using 2(4) fork_start_returns by simp
    then show ?thesis by simp
  qed
qed

theorem fork_success_witness:
  "\<exists>r s' pid. do_fork ref_plib list_wlib ref_xlib (fork_env_ex None) 0xf11 0 forker = Some (r, s') \<and> r = Fork_returns (Inr pid) \<and>
    pid_of (ps s') 9 = pid \<and> sched_inv Kx {} (sch (ps s')) \<and> total_forks s' = 4 \<and>
    tree_rep {0, 5, 7, 8, 9} (tree (ps s')) [5, 7, 8, 9] ((kids_ex 7)(9 := [], 7 := [9, 8]))"
proof -
  let ?e = "fork_env_ex None" and ?fl = "0xf11 :: u32"
  have x: "300 \<le> last_pid (pids forker) \<or> (\<exists>x. 300 \<le> x \<and> x < 0x8000 \<and> \<not> pid_used (ps forker) [5, 7, 8] x)"
    using forker_args(12) [of 300] by force
  obtain r s' where run: "do_fork ref_plib list_wlib ref_xlib ?e ?fl 0 forker = Some (r, s')" using forker_returns by blast
  have K: "pk ref_plib = Kx" by (simp add: ref_plib_def)
  have inv: "sched_inv (pk ref_plib) (insert 9 {}) (sch (ps forker))" "cpu_ok (insert 9 {}) (sch (ps forker)) 0"
    using forker_sched by (simp_all add: K)
  have lib: "kernel_lib (pk ref_plib)" unfolding K by (rule ref512.kernel_lib_axioms)
  have fl: "?fl AND CLONE_PTRACE = 0" "?fl AND CLONE_PID = 0" "\<not> ?fl AND CLONE_VFORK \<noteq> 0" by (simp_all add: clone_consts)
  have cur: "7 = me_of 0 forker" "7 \<noteq> rq_idle (rqs (sch (ps forker)) 0)" "t_time_slice (ktask forker 7) \<noteq> 0" "pid_of (ps forker) 7 \<noteq> 0"
    by (simp_all add: family_sched)
  have A: "9 \<notin> {0, 5, 7, 8 :: nat}" "7 \<in> {0, 5, 7, 8 :: nat}" by simp_all
  have f: "7 = fork_parent ?fl 7 (tree (ps forker))" by (simp add: fork_parent_def clone_consts)
  obtain pid where R: "r = Fork_returns (Inr pid) \<or> r = Fork_sleeps pid \<and> ?fl AND CLONE_VFORK \<noteq> 0" "pid_of (ps s') 9 = pid"
    "sched_inv Kx {} (sch (ps s'))" "total_forks s' = total_forks forker + 1"
    "tree_rep (insert 9 {0, 5, 7, 8}) (tree (ps s')) ([5, 7, 8] @ [9]) ((kids_ex 7)(9 := [], 7 := 9 # kids_ex 7 7))"
    using fork_success [OF ref_res.resource_lib_axioms lib inv _ cur forker_ready forker_args(1) fl(1,2) forker_args(5) A A(2) f
        forker_args(2,6) x run forker_shares [OF run]] unfolding K by blast
  have k: "kids_ex 7 7 = [8]" by (simp add: kids_ex_def Let_def)
  have i: "insert 9 {0, 5, 7, 8} = {0, 5, 7, 8, 9 :: nat}" by auto
  have "r = Fork_returns (Inr pid)" using R(1) fl(3) by blast
  moreover have "total_forks s' = 4" using R(4) by simp
  ultimately show ?thesis using run R(2,3,5) unfolding k i by simp
qed

end
