(* ===== verification/Fork_Plain.thy ===== *)
theory Fork_Plain imports Fork_Sched begin

text \<open>
  The scheduler's part of \<^verbatim>\<open>do_fork\<close> in \<^verbatim>\<open>HW1/kernel/fork.c\<close>, which does not know the SHORT policy, against the
  one in \<^verbatim>\<open>OS/kernel/fork.c\<close>: for a parent that is not SHORT they differ in two fields of the child only.
\<close>

definition plain_share_slice :: "cpu \<Rightarrow> tptr \<Rightarrow> ('l, 'b) sched \<Rightarrow> ('l, 'b) sched" where
  "plain_share_slice me p c =
     (let cur = current me c;
          c = (if t_time_slice (tasks c cur) = 0 then c\<lparr>bug := True\<rparr> else c);
          c = upd_task p (\<lambda>t. t\<lparr>t_time_slice := drop_bit 1 (t_time_slice (tasks c cur) + 1)\<rparr>) c;
          c = upd_task p (\<lambda>t. t\<lparr>t_first_time_slice := 1\<rparr>) c;
          c = upd_task cur (\<lambda>t. t\<lparr>t_time_slice := drop_bit 1 (t_time_slice t)\<rparr>) c
      in upd_task p (\<lambda>t. t\<lparr>t_sleep_timestamp := jiffies c\<rparr>) c)"

definition plain_fork_slices ::
  "('l, 'b) klib \<Rightarrow> bool \<Rightarrow> bool \<Rightarrow> cpu \<Rightarrow> tptr \<Rightarrow> ('l, 'b) sched \<Rightarrow> ('l, 'b) sched" where
  "plain_fork_slices K trylock irq me p c =
     (let cur = current me c; c = plain_share_slice me p c
      in if t_time_slice (tasks c cur) = 0
         then scheduler_tick K trylock me irq 0 0 (upd_task cur (\<lambda>t. t\<lparr>t_time_slice := 1\<rparr>) c)
         else c)"

definition plain_fork_wake :: "('l, 'b) klib \<Rightarrow> cpu \<Rightarrow> tptr \<Rightarrow> ('l, 'b) sched \<Rightarrow> ('l, 'b) sched" where
  "plain_fork_wake K me p c = wake_up_forked_process K me p c"

text \<open>The two fields of the child that the SHORT policy adds.\<close>

definition short_fields :: "task \<Rightarrow> task \<Rightarrow> task" where
  "short_fields t p = p\<lparr>t_requested_time := t_requested_time t, t_is_short := (if t_is_short t = -1 then 0 else t_is_short t)\<rparr>"

lemma share_slice_plain:
  assumes p: "p \<noteq> current me c" and other: "t_policy (tasks c (current me c)) \<noteq> SCHED_SHORT"
  shows "share_slice me p c = upd_task p (short_fields (tasks c (current me c))) (plain_share_slice me p c)"
  using p other
  by (auto simp: share_slice_def plain_share_slice_def Let_def short_fields_def upd_task_swap [of p "current me c"]
      intro!: arg_cong [where f = "upd_task (current me c) g" for g] upd_task_same)

text \<open>
  A parent that is not SHORT, with more than one jiffy left: the same slices; and the same wake-up of the child.
\<close>

lemma fork_slices_plain:
  assumes p: "p \<noteq> current me c" and other: "t_policy (tasks c (current me c)) \<noteq> SCHED_SHORT"
    and n: "t_time_slice (tasks c (current me c)) \<notin> {0, 1}"
  shows "fork_slices K lk irq me p c = upd_task p (short_fields (tasks c (current me c))) (plain_fork_slices K lk irq me p c)"
proof -
  have "t_time_slice (tasks (plain_share_slice me p c) (current me c)) = drop_bit 1 (t_time_slice (tasks c (current me c)))"
    using p by (simp add: plain_share_slice_def Let_def)
  moreover have "drop_bit 1 (t_time_slice (tasks c (current me c))) \<noteq> 0" using n half_zero by simp
  ultimately show ?thesis
    using p by (simp add: fork_slices_def plain_fork_slices_def Let_def share_slice_plain [OF p other])
qed

lemma fork_wake_plain: "t_is_short (tasks c (current me c)) \<noteq> 1 \<Longrightarrow> fork_wake K me p c = plain_fork_wake K me p c"
  by (simp add: fork_wake_def plain_fork_wake_def)

end
