(* ===== verification/Task_Signals.thy ===== *)
theory Task_Signals imports Sched_Syscalls begin

unbundle bit_operations_syntax

text \<open>
  The small functions of \<^verbatim>\<open>linux/sched.h\<close> on the signals and the signal stack of a task. A \<^verbatim>\<open>sigset_t\<close> is the
  array of its words; the fields of the task that only these functions use are arguments.
\<close>

type_synonym sigset = "nat \<Rightarrow> u32"

text \<open>The loop of the default case; the other cases are the loop written out. \<open>w\<close> is \<^verbatim>\<open>_NSIG_WORDS\<close>.\<close>

fun ready_words :: "nat \<Rightarrow> sigset \<Rightarrow> sigset \<Rightarrow> u32 \<Rightarrow> u32" where
  "ready_words 0 signal blocked ready = ready"
| "ready_words (Suc i) signal blocked ready = ready_words i signal blocked (ready OR (signal i AND NOT (blocked i)))"

definition has_pending_signals :: "nat \<Rightarrow> sigset \<Rightarrow> sigset \<Rightarrow> bool" where
  "has_pending_signals w signal blocked =
     (let ready =
        (if w = 4 then
           (let ready = signal 3 AND NOT (blocked 3);
                ready = ready OR (signal 2 AND NOT (blocked 2));
                ready = ready OR (signal 1 AND NOT (blocked 1))
            in ready OR (signal 0 AND NOT (blocked 0)))
         else if w = 2 then
           (let ready = signal 1 AND NOT (blocked 1) in ready OR (signal 0 AND NOT (blocked 0)))
         else if w = 1 then signal 0 AND NOT (blocked 0)
         else ready_words w signal blocked 0)
      in ready \<noteq> 0)"

definition recalc_sigpending :: "nat \<Rightarrow> sigset \<Rightarrow> sigset \<Rightarrow> task \<Rightarrow> task" where
  "recalc_sigpending w signal blocked t = t\<lparr>t_sigpending := of_bool (has_pending_signals w signal blocked)\<rparr>"

text \<open>The stack of the signal handlers: its start and its size.\<close>

definition on_sig_stack :: "u32 \<Rightarrow> u32 \<Rightarrow> u32 \<Rightarrow> bool" where
  "on_sig_stack sas_ss_sp sas_ss_size sp \<longleftrightarrow> sp - sas_ss_sp < sas_ss_size"

datatype ss_flag = SS_NONE | SS_ONSTACK | SS_DISABLE

definition sas_ss_flags :: "u32 \<Rightarrow> u32 \<Rightarrow> u32 \<Rightarrow> ss_flag" where
  "sas_ss_flags sas_ss_sp sas_ss_size sp =
     (if sas_ss_size = 0 then SS_DISABLE else if on_sig_stack sas_ss_sp sas_ss_size sp then SS_ONSTACK else SS_NONE)"

text \<open>The test for the superuser, which marks the task if it succeeds; \<open>noroot\<close> is \<^verbatim>\<open>issecure(SECURE_NOROOT)\<close>.\<close>

definition suser :: "bool \<Rightarrow> cpu \<Rightarrow> ('l, 'b) sched \<Rightarrow> bool \<times> ('l, 'b) sched" where
  "suser noroot me s =
     (let cur = current me s
      in if \<not> noroot \<and> t_euid (tasks s cur) = 0
         then (True, upd_task cur (\<lambda>t. t\<lparr>t_flags := t_flags t OR PF_SUPERPRIV\<rparr>) s) else (False, s))"

section \<open>What they compute\<close>

lemma ready_words_bit: "bit (ready_words w signal blocked r) k \<longleftrightarrow> bit r k \<or> (\<exists>i < w. bit (signal i AND NOT (blocked i)) k)"
  by (induction w arbitrary: r) (auto simp: bit_or_iff less_Suc_eq)

lemma word_bit_nonzero: "w \<noteq> 0 \<longleftrightarrow> (\<exists>k. bit w k)" for w :: u32
proof
  show "\<exists>k. bit w k" if "w \<noteq> 0"
  proof (rule ccontr)
    assume "\<nexists>k. bit w k"
    then have "w = 0" by (intro bit_word_eqI) simp
    with that show False ..
  qed
qed auto

text \<open>A signal is pending if one of its bits is set in a word and is not blocked there.\<close>

lemma has_pending_signals_iff:
  assumes "0 < w"
  shows "has_pending_signals w signal blocked \<longleftrightarrow> (\<exists>i < w. \<exists>k < 32. bit (signal i) k \<and> \<not> bit (blocked i) k)"
proof -
  have loop: "has_pending_signals w signal blocked \<longleftrightarrow> ready_words w signal blocked 0 \<noteq> 0"
    by (auto simp: has_pending_signals_def Let_def eval_nat_numeral ac_simps)
  have "bit (signal i AND NOT (blocked i)) k \<longleftrightarrow> k < 32 \<and> bit (signal i) k \<and> \<not> bit (blocked i) k" for i k
    by (auto simp: bit_and_iff bit_not_iff dest: bit_imp_le_length)
  then show ?thesis unfolding loop word_bit_nonzero ready_words_bit by auto
qed

text \<open>An address is on the stack if it lies between its bounds, also where the addresses wrap around.\<close>

lemma on_sig_stack_iff: "on_sig_stack b n sp \<longleftrightarrow> (\<exists>k < unat n. sp = b + of_nat k)"
proof
  assume "on_sig_stack b n sp"
  then have "unat (sp - b) < unat n" by (simp add: on_sig_stack_def word_less_nat_alt)
  then show "\<exists>k < unat n. sp = b + of_nat k" by (intro exI [of _ "unat (sp - b)"]) simp
next
  assume "\<exists>k < unat n. sp = b + of_nat k"
  then obtain k where k: "k < unat n" "sp = b + of_nat k" by blast
  have "k < 2 ^ 32" using k(1) unsigned_less [of n, where ?'a = nat] by simp
  then have "unat (of_nat k :: u32) = k" by (simp add: unat_of_nat)
  then show "on_sig_stack b n sp" using k by (simp add: on_sig_stack_def word_less_nat_alt)
qed

lemma suser_result:
  "fst (suser noroot me s) \<longleftrightarrow> \<not> noroot \<and> t_euid (tasks s (current me s)) = 0"
  "sched_inv K X s \<Longrightarrow> sched_inv K X (snd (suser noroot me s))"
  by (auto simp: suser_def Let_def intro: sched_inv_upd_task)

end
