(* ===== verification/Ll_Copy.thy ===== *)
theory Ll_Copy imports Schedule begin

text \<open>
  The low-latency variants at the end of \<^verbatim>\<open>sched.c\<close>: a copy to or from user space in pieces of at most
  4096 bytes, with a chance for other tasks to run after each of them.
\<close>

text \<open>
  \<open>copy\<close> is \<^verbatim>\<open>copy_to_user\<close> (\<^verbatim>\<open>copy_from_user\<close>), which returns the number of bytes it could not copy, and
  \<open>pause\<close> is \<^verbatim>\<open>conditional_schedule\<close>; \<open>m\<close> is the state they change.
\<close>

function ll_copy_to_user ::
  "(u32 \<Rightarrow> u32 \<Rightarrow> u32 \<Rightarrow> 'm \<Rightarrow> u32 \<times> 'm) \<Rightarrow> ('m \<Rightarrow> 'm) \<Rightarrow> u32 \<Rightarrow> u32 \<Rightarrow> u32 \<Rightarrow> 'm \<Rightarrow> u32 \<times> 'm" where
  "ll_copy_to_user copy pause to_user src len m =
     (if len = 0 then (0, m)
      else
        (let n_to_copy = (if len > 4096 then 4096 else len);
             (remainder, m) = copy to_user src n_to_copy m
         in if remainder \<noteq> 0 then (remainder + len, m)
            else ll_copy_to_user copy pause (to_user + n_to_copy) (src + n_to_copy) (len - n_to_copy) (pause m)))"
  by pat_completeness auto
termination
proof (relation "measure (\<lambda>(copy, pause, to_user, src, len, m). unat len)")
  fix copy :: "u32 \<Rightarrow> u32 \<Rightarrow> u32 \<Rightarrow> 'm \<Rightarrow> u32 \<times> 'm" and pause :: "'m \<Rightarrow> 'm" and to_user src len :: u32 and m m' :: 'm and n r :: u32
  assume "len \<noteq> 0" and n: "n = (if len > 4096 then 4096 else len)"
  then have "0 < n" "n \<le> len" by (auto simp: word_gt_0)
  then have "unat (len - n) < unat len" by (simp add: unat_sub word_less_nat_alt word_le_nat_alt)
  then show "((copy, pause, to_user + n, src + n, len - n, pause m'), copy, pause, to_user, src, len, m)
      \<in> measure (\<lambda>(copy, pause, to_user, src, len, m). unat len)" by simp
qed simp

declare ll_copy_to_user.simps [simp del]

text \<open>The other direction is the same code.\<close>

definition ll_copy_from_user ::
  "(u32 \<Rightarrow> u32 \<Rightarrow> u32 \<Rightarrow> 'm \<Rightarrow> u32 \<times> 'm) \<Rightarrow> ('m \<Rightarrow> 'm) \<Rightarrow> u32 \<Rightarrow> u32 \<Rightarrow> u32 \<Rightarrow> 'm \<Rightarrow> u32 \<times> 'm" where
  "ll_copy_from_user = ll_copy_to_user"

definition set_running_and_schedule :: "('l, 'b) klib \<Rightarrow> bool \<Rightarrow> (nat \<Rightarrow> bool) \<Rightarrow> cpu \<Rightarrow> ('l, 'b) sched \<Rightarrow> ('l, 'b) sched option" where
  "set_running_and_schedule K in_interrupt lk me s =
     (let cur = current me s;
          s = (if t_state (tasks s cur) \<noteq> TASK_RUNNING then upd_task cur (\<lambda>t. t\<lparr>t_state := TASK_RUNNING\<rparr>) s else s)
      in schedule K in_interrupt lk me s)"

section \<open>What they return\<close>

text \<open>A copy of which every piece succeeds returns 0.\<close>

lemma ll_copy_all:
  assumes "\<And>d s n m. fst (copy d s n m) = 0"
  shows "fst (ll_copy_to_user copy pause d s len m) = 0"
  using assms
proof (induction copy pause d s len m rule: ll_copy_to_user.induct)
  case (1 copy pause d s len m)
  obtain m' where c: "copy d s (if len > 4096 then 4096 else len) m = (0, m')" using 1(2) by (metis prod.collapse)
  show ?case using 1(1) [OF _ refl c [symmetric] refl _ 1(2)] c by (subst ll_copy_to_user.simps) (simp add: Let_def)
qed

text \<open>
  A piece that fails with \<open>r\<close> bytes left makes the result \<open>r + len\<close>, with \<open>len\<close> the bytes from this piece on.
  The bytes that were not copied are \<open>r + len\<close> less the size of the piece: the result is too large.
\<close>

lemma ll_copy_fails:
  assumes "len \<noteq> 0" and "n = (if len > 4096 then 4096 else len)" and "copy d s n m = (r, m')" and "r \<noteq> 0"
  shows "ll_copy_to_user copy pause d s len m = (r + len, m')" and "r + (len - n) \<noteq> r + len"
  using assms by (auto simp: ll_copy_to_user.simps)

end
