(* ===== verification/Spec2Isabelle.thy ===== *)
theory Spec2Isabelle imports Sched_Props Task_Props Syscall_Props Sched_Policy Wait_Props Lock_Props Proc_Props Wait4_Props Fork_Props
  Fork_Plain Task_Signals Ll_Copy begin

text \<open>
  A model of the process management of a Linux 2.4 kernel as two course exercises have changed it, and proofs of
  what it does. The repository holds two trees. \<^verbatim>\<open>src/OS\<close> has the O(1) scheduler with the new policy
  \<^verbatim>\<open>SCHED_SHORT\<close> (\<^verbatim>\<open>kernel/sched.c\<close>, \<^verbatim>\<open>kernel/hw2_syscalls.c\<close>, \<^verbatim>\<open>hw2_syscalls.h\<close>), \<^verbatim>\<open>kernel/fork.c\<close> and
  \<^verbatim>\<open>include/linux/sched.h\<close>. \<^verbatim>\<open>src/HW1\<close> has \<^verbatim>\<open>kernel/exit.c\<close>, and \<^verbatim>\<open>kernel/pattach.c\<close> with a system call that
  makes another process a child of the caller. The two trees are versions of one kernel; the model composes
  \<^verbatim>\<open>exit.c\<close> and \<^verbatim>\<open>pattach.c\<close> of the first with \<^verbatim>\<open>sched.c\<close> and \<^verbatim>\<open>fork.c\<close> of the second. One line makes a difference
  to that: \<^verbatim>\<open>HW1/kernel/fork.c\<close> clears \<^verbatim>\<open>wait_busy\<close> of a new task, \<^verbatim>\<open>OS/kernel/fork.c\<close> does not know the field.

  \<^bold>\<open>How the code is represented.\<close> A pointer to a task is a number, a null pointer \<open>None\<close>; \<^verbatim>\<open>struct task_struct\<close>,
  \<^verbatim>\<open>prio_array\<close>, \<^verbatim>\<open>runqueue\<close>, \<^verbatim>\<open>files_struct\<close>, \<^verbatim>\<open>mm_struct\<close>, \<^verbatim>\<open>vm_area_struct\<close> and so on are records, and the memory is
  a map from pointers to them. Unsigned C integers are words of their width and wrap around; signed ones, which
  must not overflow, are integers. Every function is a function from the state to the state and its result; errors
  are values (\<open>errno + int\<close>, \<open>errno option\<close>, or a flag, as in C). \<^verbatim>\<open>BUG()\<close> sets the field \<open>bug\<close>. A section of code
  that holds the lock of what it changes is one step; where the interleaving of smaller steps matters (runqueue
  locks, completions, \<^verbatim>\<open>wait_event\<close>) the steps are an inductive relation. A function that gives up the CPU is split
  at its call of \<^verbatim>\<open>schedule\<close>. The outcome of an allocation, of a copy to user space, of \<^verbatim>\<open>spin_trylock\<close>, is an
  argument.

  Code outside the repository is a parameter: a record of functions (\<open>klib\<close> for lists, bitmaps and capabilities,
  \<open>wlib\<close> for wait queue lists, \<open>plib\<close> for thread groups, users and signals, \<open>xlib\<close> for the references to
  dentries, mounts, files, modules and execution domains, \<open>exit_lib\<close> for what an exit calls), and a locale that
  states the documented behaviour the proofs rely on (\<open>kernel_lib\<close>, \<open>wait_lib\<close>, \<open>process_lib\<close>, \<open>resource_lib\<close>).
  Each locale is interpreted on concrete functions (\<open>ref512\<close>, \<open>lw\<close>, \<open>ref_proc\<close>, \<open>ref_res\<close>), and the witnesses
  evaluate the model on them. The interface of the priority arrays is the locale \<open>ready_array\<close>, which the model's
  own operations satisfy under \<open>kernel_lib\<close>.

  \<^bold>\<open>The scheduler\<close> (\<^verbatim>\<open>OS/kernel/sched.c\<close>, state: \<open>sched\<close> in \<open>Sched_State\<close>).
  \<^item> \<open>Kernel_Base\<close>, \<open>Kernel_Lib\<close>: constants, error values, generic lemmas, the kernel library.
  \<^item> \<open>Sched_Prio\<close>: nice values, time slices, dynamic priority, interactivity. Bounds and a closed formula; the
    unsigned arithmetic does not wrap.
  \<^item> \<open>Prio_Array\<close>: \<^verbatim>\<open>enqueue_task\<close>, \<^verbatim>\<open>dequeue_task\<close> and the invariant \<open>q_inv\<close>: queues, bitmap, \<^verbatim>\<open>nr_active\<close> and the
    fields of the tasks agree. The set \<open>X\<close> holds the tasks that are not in the scheduler's hands.
  \<^item> \<open>Runqueue\<close>, \<open>Runqueue_Inv\<close>, \<open>Wakeup\<close>: activation, wake-ups, the wake-ups of fork, \<^verbatim>\<open>sched_exit\<close>; the invariant
    \<open>sched_inv\<close> of all runqueues, and \<open>cpu_ok\<close> for the running and the idle task of a CPU.
  \<^item> \<open>Load_Balance\<close>: the balancer refines a migration relation. The scan of the arrays has fuel \<open>MAX_PRIO + 1\<close>,
    enough because each round goes on to a higher bit of the bitmap.
  \<^item> \<open>Sched_Tick\<close>, \<open>Short_Life\<close>: \<^verbatim>\<open>scheduler_tick\<close>, and the life of a SHORT task: requested slice, overdue slice,
    ordinary task.
  \<^item> \<open>Schedule\<close>: the choice real time, SHORT, other, overdue; the loop at \<^verbatim>\<open>need_resched\<close> is a \<open>while_option\<close>, and
    it is proved to end when finitely many tasks are flagged.
  \<^item> \<open>Sched_Syscalls\<close>, \<open>Syscall_Inv\<close>, \<open>Sched_Policy\<close>, \<open>Sched_Yield\<close>, \<open>Hw2_Syscalls\<close>: nice, \<^verbatim>\<open>setscheduler\<close>, the queries,
    yield, and the three system calls of the homework with their user-space wrappers. The value \<^verbatim>\<open>setscheduler\<close>
    returns is spelled out over the integers, what it leaves behind for a task that was or becomes SHORT, and that an
    error leaves everything but \<^verbatim>\<open>PF_SUPERPRIV\<close> of the caller as it was.
  \<^item> \<open>Pid_Hash\<close>: the pointers of the hash chains refine lists. \<open>Sched_Init\<close>: boot establishes the invariants.
  \<^item> \<open>Wait_Queue\<close>, \<open>Sleeping\<close>, \<open>Completion\<close>, \<open>Wait_Event\<close>: waking, sleeping, completions and the \<^verbatim>\<open>wait_event\<close>
    macros. A wake-up is described entry by entry of its queue; as many waiters of a completion are running as
    completions are left, and \<^verbatim>\<open>wait_event\<close> loses no wake-up, in any interleaving.
  \<^item> \<open>Affinity\<close>: allowed CPUs and the rounds of the migration threads. \<open>Rq_Locks\<close>: CPUs that run the locked
    sections in any order never block each other for ever.
  \<^item> \<open>Task_Signals\<close>, \<open>Ll_Copy\<close>: pending signals and the signal stack; the low-latency copies.

  \<^bold>\<open>Processes\<close> (\<^verbatim>\<open>OS/kernel/fork.c\<close>, \<^verbatim>\<open>HW1/kernel/exit.c\<close>, \<^verbatim>\<open>HW1/kernel/pattach.c\<close>; states: \<open>psys\<close> in \<open>Proc_State\<close>,
  which contains a \<open>sched\<close>, and \<open>ksys\<close> in \<open>Fork_State\<close>, which contains a \<open>psys\<close>).
  \<^item> \<open>Proc_Tree\<close>: the ring of all tasks and the lists of children. \<open>tree_rep\<close> says which lists the pointers stand
    for; \<^verbatim>\<open>SET_LINKS\<close> and \<^verbatim>\<open>REMOVE_LINKS\<close> refine operations on them.
  \<^item> \<open>Proc_Exit\<close>, \<open>Exit_Notify\<close>, \<open>Proc_Wait\<close>, \<open>Do_Exit\<close>: the end of a process, its children's new parents, orphaned
    process groups, \<^verbatim>\<open>wait4\<close>, \<^verbatim>\<open>do_exit\<close>, \<^verbatim>\<open>daemonize\<close>. \<open>Proc_Attach\<close>: attaching a process, counting and listing
    children; no cycle of parents arises.
  \<^item> \<open>Get_Pid\<close>: the choice of a pid. \<open>Proc_Files\<close>, \<open>Files_Copy\<close>: directories, signal handlers, descriptor tables.
    \<open>Proc_Mm\<close>, \<open>Dup_Mmap\<close>: address spaces and the copy of their areas.
  \<^item> \<open>Do_Fork\<close>: \<^verbatim>\<open>do_fork\<close> with all its ways back. \<open>Fork_Undo\<close>, \<open>Fork_Failure\<close>, \<open>Fork_Return\<close>: what a fork that
    fails gives back: every reference, but those lost when \<^verbatim>\<open>init_new_context\<close> fails (\<open>context_loss\<close>). \<open>Fork_Sched\<close>: the time slice and the wake-up. \<open>Fork_Success\<close>: a fork that succeeds, from
    the pid to the runqueue. \<open>Fork_Ends\<close>: it returns. \<open>Fork_Plain\<close>: what the homework changed in it.
  \<^item> Loops over pointers are partial functions with values in an option; wherever they are used it is proved, under
    the invariant of the pointers, that they return. A search for a pid ends because it comes back to the last
    pid, or meets a free one; this needs the last pid or a free pid to be at least 300 (if neither is, and all pids above
    the last are in use, it does not end). That it finds a free pid needs the counters in order (\<open>pid_gap\<close>), which a call
    keeps unless it fails for want of pids.

  \<open>Example_State\<close>, \<open>Proc_Example\<close>, \<open>Fork_Example\<close>, \<open>Fork_Sample\<close> hold the concrete systems of the witnesses; the
  theories named \<open>..._Props\<close> state the properties of the components together.

  \<^bold>\<open>What modelling showed.\<close> After a \<^verbatim>\<open>get_pid\<close> that found no pid the next call may return a pid in use, and from a
  last pid below 300 the search may never end (\<open>Get_Pid\<close>). A fork whose \<^verbatim>\<open>init_new_context\<close> fails drops references that
  are the caller's (\<open>Fork_Undo\<close>). A SHORT request of less than a jiffy that is renewed before the next tick gains
  a jiffy, and a SHORT task whose slice is worth more than its request is refused every renewal (\<open>Syscall_Props\<close>). The
  child of an overdue SHORT task gets a copy of its slice and gives it back when it exits (\<open>Fork_Props\<close>); a SHORT
  parent above 300 ms loses time instead (\<open>Task_Props\<close>). A low-latency copy that fails reports too many bytes
  (\<open>Ll_Copy\<close>). \<^verbatim>\<open>setscheduler\<close> accepts some static priorities for \<^verbatim>\<open>SCHED_OTHER\<close> (\<open>bad_param\<close> in \<open>Sched_Syscalls\<close>).

  \<^bold>\<open>Not modelled.\<close> Output to the console (\<^verbatim>\<open>show_task\<close>, \<^verbatim>\<open>show_state\<close>, \<^verbatim>\<open>render_sigset_t\<close>, \<^verbatim>\<open>show_lolat_stats\<close>), which leaves the
  state alone; the start of the migration threads (\<^verbatim>\<open>migration_init\<close>), which waits for threads that the boot has
  not scheduled yet; \<^verbatim>\<open>proc_caches_init\<close>, which creates slab caches; page tables, registers, stacks
  and the red-black tree of areas, which belong to files outside the repository; \<^verbatim>\<open>HW1/kernel/fork.c\<close> and
  \<^verbatim>\<open>HW1/include/linux/sched.h\<close> beyond the lines that differ from the OS tree, since they are the same code; the test
  programs and the unit test framework, which only call the system calls and print; editor metadata.
\<close>

end
